(* ===== verification/Prelude.thy ===== *)
theory Prelude
  imports Main "HOL-Library.Word"
begin

text \<open>
  What every component of the development shares: the faults a C expression can end in, the
  sequencing of fallible statements, the run-time assertions of \<open>include/assert.h\<close>, the
  signed arithmetic of C's \<open>int\<close>, and the error numbers of \<open>include/errno.h\<close>.

  A statement of the source that can go wrong is a value of \<open>'a result\<close>: \<open>Inl f\<close> is the
  fault it ends in, \<open>Inr x\<close> its ordinary outcome. The faults are the undefined behaviours the
  code can run into (a null pointer read, an index out of an array, a cast to the wrong
  struct, a signed overflow, a division by zero), a loop that never ends, and the two ways the kernel stops itself
  (a failed \<open>debug_assert\<close>, a \<open>platform_panic\<close>).
\<close>

section \<open>Faults and sequencing\<close>

datatype fault =
    NullDeref
  | OutOfBounds
  | BadCast
  | SignedOverflow
  | Diverges
  | AssertFailed
  | Panic
  | DivideByZero

type_synonym 'a result = "fault + 'a"

named_theorems seq_simps \<open>how a sequence of fallible statements unfolds\<close>

definition bindE :: "'a result \<Rightarrow> ('a \<Rightarrow> 'b result) \<Rightarrow> 'b result" where
  "bindE m f = (case m of Inl e \<Rightarrow> Inl e | Inr x \<Rightarrow> f x)"

lemma bindE_Inl [simp, seq_simps]: "bindE (Inl e) f = Inl e"
  by (simp add: bindE_def)

lemma bindE_Inr [simp, seq_simps]: "bindE (Inr x) f = f x"
  by (simp add: bindE_def)

lemma bindE_eq_Inr_iff: "bindE m f = Inr y \<longleftrightarrow> (\<exists>x. m = Inr x \<and> f x = Inr y)"
  by (cases m) auto

lemma bindE_eq_Inl_iff:
  "bindE m f = Inl e \<longleftrightarrow> m = Inl e \<or> (\<exists>x. m = Inr x \<and> f x = Inl e)"
  by (cases m) auto

lemma bindE_InrE [elim!]:
  assumes "bindE m f = Inr y"
  obtains x where "m = Inr x" and "f x = Inr y"
  using assms by (auto simp: bindE_eq_Inr_iff)

lemma bindE_assoc: "bindE (bindE m f) g = bindE m (\<lambda>x. bindE (f x) g)"
  by (cases m) auto

text \<open>Reading through a pointer: \<open>None\<close> is C's \<open>NULL\<close>.\<close>

definition deref :: "'a option \<Rightarrow> 'a result" where
  "deref p = (case p of None \<Rightarrow> Inl NullDeref | Some a \<Rightarrow> Inr a)"

lemma deref_simps [simp, seq_simps]:
  "deref None = Inl NullDeref"
  "deref (Some a) = Inr a"
  by (simp_all add: deref_def)

lemma deref_eq_Inr_iff [simp]: "deref p = Inr a \<longleftrightarrow> p = Some a"
  by (cases p) auto

text \<open>
  A loop of the source is a \<^theory_text>\<open>partial_function\<close> whose value is \<open>None\<close> when it runs forever;
  \<open>loop_result\<close> makes that one more way for the statement to fail.
\<close>

definition loop_result :: "'a result option \<Rightarrow> 'a result" where
  "loop_result r = (case r of None \<Rightarrow> Inl Diverges | Some x \<Rightarrow> x)"

lemma loop_result_simps [simp, seq_simps]:
  "loop_result None = Inl Diverges"
  "loop_result (Some x) = x"
  by (simp_all add: loop_result_def)

section \<open>Run-time assertions (\<open>include/assert.h\<close>)\<close>

text \<open>
  \<open>debug_assert(x)\<close> panics when \<open>x\<close> is false in a build with \<open>CONFIG_DEBUG_ASSERT\<close> and is
  empty otherwise; the first argument says which build it is.
\<close>

definition debug_assert :: "bool \<Rightarrow> bool \<Rightarrow> unit result" where
  "debug_assert config x = (if config \<and> \<not> x then Inl AssertFailed else Inr ())"

lemma debug_assert_holds [simp, seq_simps]: "x \<Longrightarrow> debug_assert config x = Inr ()"
  by (simp add: debug_assert_def)

lemma debug_assert_off [simp, seq_simps]: "debug_assert False x = Inr ()"
  by (simp add: debug_assert_def)

lemma debug_assert_fails: "\<not> x \<Longrightarrow> debug_assert True x = Inl AssertFailed"
  by (simp add: debug_assert_def)

lemma debug_assert_eq_Inr_iff: "debug_assert config x = Inr u \<longleftrightarrow> (config \<longrightarrow> x)"
  by (auto simp: debug_assert_def)

section \<open>C's \<open>int\<close>\<close>

text \<open>
  A 32-bit \<open>int\<close> is an \<open>int\<close> of HOL within its range; an operation whose exact result leaves the
  range is undefined behaviour in C, here the fault \<open>SignedOverflow\<close>.
\<close>

definition INT_MIN :: int where "INT_MIN = - (2 ^ 31)"
definition INT_MAX :: int where "INT_MAX = 2 ^ 31 - 1"

definition c_int :: "int \<Rightarrow> int result" where
  "c_int x = (if INT_MIN \<le> x \<and> x \<le> INT_MAX then Inr x else Inl SignedOverflow)"

lemma c_int_in_range [simp, seq_simps]:
  "INT_MIN \<le> x \<Longrightarrow> x \<le> INT_MAX \<Longrightarrow> c_int x = Inr x"
  by (simp add: c_int_def)

lemma c_int_eq_Inr_iff: "c_int x = Inr y \<longleftrightarrow> y = x \<and> INT_MIN \<le> x \<and> x \<le> INT_MAX"
  by (auto simp: c_int_def)

section \<open>Error numbers (\<open>include/errno.h\<close>) and handler results (\<open>include/sys/types.h\<close>)\<close>

definition NO_ERR :: int where "NO_ERR = 0"
definition ERR_ARG :: int where "ERR_ARG = 1"
definition ERR_IO :: int where "ERR_IO = 2"
definition ERR_BUSY :: int where "ERR_BUSY = 3"
definition ERR_AGAIN :: int where "ERR_AGAIN = 4"
definition ERR_THREAD_DETACHED :: int where "ERR_THREAD_DETACHED = 5"
definition ERR_NOT_BLOCKED :: int where "ERR_NOT_BLOCKED = 6"
definition ERR_TIMED_OUT :: int where "ERR_TIMED_OUT = 7"
definition ERR_OBJECT_DESTORYED :: int where "ERR_OBJECT_DESTORYED = 8"

lemmas errno_defs = NO_ERR_def ERR_ARG_def ERR_IO_def ERR_BUSY_def ERR_AGAIN_def
  ERR_THREAD_DETACHED_def ERR_NOT_BLOCKED_def ERR_TIMED_OUT_def ERR_OBJECT_DESTORYED_def

text \<open>
  What an interrupt handler asks of its caller. C's enumeration orders the two values, and the
  callers only ever raise the request, so the type is a linear order with \<open>max\<close> for "either".
\<close>

datatype handler_return = INT_NO_RESCHEDULE | INT_RESCHEDULE

instantiation handler_return :: linorder
begin

definition less_eq_handler_return :: "handler_return \<Rightarrow> handler_return \<Rightarrow> bool" where
  "less_eq_handler_return a b \<longleftrightarrow> a = INT_NO_RESCHEDULE \<or> b = INT_RESCHEDULE"

definition less_handler_return :: "handler_return \<Rightarrow> handler_return \<Rightarrow> bool" where
  "less_handler_return a b \<longleftrightarrow> a = INT_NO_RESCHEDULE \<and> b = INT_RESCHEDULE"

instance
proof
  fix a b c :: handler_return
  show "a < b \<longleftrightarrow> a \<le> b \<and> \<not> b \<le> a"
    by (cases a; cases b) (simp_all add: less_eq_handler_return_def less_handler_return_def)
  show "a \<le> a"
    by (cases a) (simp_all add: less_eq_handler_return_def)
  show "a \<le> b \<Longrightarrow> b \<le> c \<Longrightarrow> a \<le> c"
    by (auto simp: less_eq_handler_return_def)
  show "a \<le> b \<Longrightarrow> b \<le> a \<Longrightarrow> a = b"
    by (auto simp: less_eq_handler_return_def)
  show "a \<le> b \<or> b \<le> a"
    by (cases a) (simp_all add: less_eq_handler_return_def)
qed

end

lemma handler_return_max [simp]:
  "max INT_RESCHEDULE r = INT_RESCHEDULE"
  "max r INT_RESCHEDULE = INT_RESCHEDULE"
  "max INT_NO_RESCHEDULE r = r"
  "max r INT_NO_RESCHEDULE = r"
  by (cases r; simp add: max_def less_eq_handler_return_def)+

section \<open>Bits\<close>

unbundle bit_operations_syntax

text \<open>\<open>w & (1 << n)\<close> tests bit \<open>n\<close>.\<close>

lemma and_shifted_one: "w AND push_bit n (1 :: 'a :: len word) \<noteq> 0 \<longleftrightarrow> bit w n"
  by (simp add: push_bit_eq_mult and_exp_eq_0_iff_not_bit)

lemma bit_or_shifted_one:
  "bit (w OR push_bit n (1 :: 'a :: len word)) m \<longleftrightarrow> bit w m \<or> n = m \<and> m < LENGTH('a)"
  by (auto simp: bit_or_iff bit_exp_iff)

lemma bit_clear_shifted_one:
  "bit (w AND NOT (push_bit n (1 :: 'a :: len word))) m \<longleftrightarrow> bit w m \<and> m \<noteq> n"
  by (auto simp: bit_and_iff bit_not_iff bit_exp_iff dest: bit_imp_le_length)

section \<open>List facts the components share\<close>

lemma remove1_append_Cons:
  "x \<notin> set xs \<Longrightarrow> remove1 x (xs @ x # ys) = xs @ ys"
  by (simp add: remove1_append)

lemma split_list_distinct:
  assumes "distinct xs" and "x \<in> set xs"
  obtains us vs where "xs = us @ x # vs" and "x \<notin> set us" and "x \<notin> set vs"
    and "remove1 x xs = us @ vs"
proof -
  from assms(2) obtain us vs where *: "xs = us @ x # vs" "x \<notin> set us"
    by (metis split_list_first)
  with assms(1) have "x \<notin> set vs" by simp
  with * show thesis by (intro that) (simp_all add: remove1_append)
qed

section \<open>Machines that do not fault\<close>

text \<open>
  A machine executes events; \<open>events_allowed\<close> says that each event of a list is enabled in the state
  in which it comes. The contract: an enabled event in a good state does not fault and leads to a
  good state. Then no run of enabled events faults.
\<close>

fun run_events :: "('e \<Rightarrow> 's \<Rightarrow> 's result) \<Rightarrow> 'e list \<Rightarrow> 's \<Rightarrow> 's result" where
  "run_events exec [] s = Inr s"
| "run_events exec (e # es) s = bindE (exec e s) (run_events exec es)"

fun events_allowed :: "('e \<Rightarrow> 's \<Rightarrow> bool) \<Rightarrow> ('e \<Rightarrow> 's \<Rightarrow> 's result) \<Rightarrow> 'e list \<Rightarrow> 's \<Rightarrow> bool" where
  "events_allowed enabled exec [] s \<longleftrightarrow> True"
| "events_allowed enabled exec (e # es) s \<longleftrightarrow> enabled e s \<and>
     (case exec e s of Inl _ \<Rightarrow> True | Inr s' \<Rightarrow> events_allowed enabled exec es s')"

locale safe_machine =
  fixes exec :: "'e \<Rightarrow> 's \<Rightarrow> 's result"
    and enabled :: "'e \<Rightarrow> 's \<Rightarrow> bool"
    and good :: "'s \<Rightarrow> bool"
  assumes exec_good: "good s \<Longrightarrow> enabled e s \<Longrightarrow> \<exists>s'. exec e s = Inr s' \<and> good s'"
begin

lemma run_good:
  "good s \<Longrightarrow> events_allowed enabled exec es s \<Longrightarrow> \<exists>s'. run_events exec es s = Inr s' \<and> good s'"
proof (induction es arbitrary: s)
  case (Cons e es)
  from exec_good [OF Cons.prems(1)] Cons.prems(2) obtain s1 where "exec e s = Inr s1" "good s1" by auto
  with Cons show ?case by simp
qed simp

lemma run_append:
  assumes "good s" and "events_allowed enabled exec es s" and "run_events exec es s = Inr s1"
  shows "run_events exec (es @ fs) s = run_events exec fs s1"
  using assms
proof (induction es arbitrary: s)
  case (Cons e es)
  from exec_good [OF Cons.prems(1)] Cons.prems(2) obtain s2 where "exec e s = Inr s2" "good s2" by auto
  with Cons show ?case by simp
qed simp

end

end
