(* ===== verification/CList.thy ===== *)
theory CList
  imports Prelude
begin

text \<open>
  \<open>include/list.h\<close>: the intrusive, circular, doubly linked lists every kernel queue is made of.
  A list node is a pair of pointers inside a larger struct; a list is a head node that is not an
  element, linked in a ring with the nodes of its elements. The node memory is explicit: a
  function from the nodes' addresses (any type \<open>'a\<close>) to the two pointers stored there, with
  \<open>None\<close> for \<open>NULL\<close>. Every operation is the source's sequence of pointer writes.

  The second half gives the lists their meaning: \<open>lists_ok h L\<close> says that the memory \<open>h\<close> holds
  exactly the lists \<open>L\<close>, and each operation is shown to do to \<open>L\<close> what its callers rely on.
\<close>

section \<open>The operations of \<open>list.h\<close>\<close>

record 'a list_node =
  nd_prev :: "'a option"
  nd_next :: "'a option"

type_synonym 'a nodes = "'a \<Rightarrow> 'a list_node"

definition set_prev :: "'a \<Rightarrow> 'a option \<Rightarrow> 'a nodes \<Rightarrow> 'a nodes" where
  "set_prev n p h = h(n := (h n)\<lparr>nd_prev := p\<rparr>)"

definition set_next :: "'a \<Rightarrow> 'a option \<Rightarrow> 'a nodes \<Rightarrow> 'a nodes" where
  "set_next n p h = h(n := (h n)\<lparr>nd_next := p\<rparr>)"

definition list_initialize :: "'a \<Rightarrow> 'a nodes \<Rightarrow> 'a nodes" where
  "list_initialize list h = set_prev list (Some list) (set_next list (Some list) h)"

definition list_clear_node :: "'a \<Rightarrow> 'a nodes \<Rightarrow> 'a nodes" where
  "list_clear_node node h = set_prev node None (set_next node None h)"

definition list_in_list :: "'a nodes \<Rightarrow> 'a \<Rightarrow> bool" where
  "list_in_list h node =
     (if nd_prev (h node) = None \<and> nd_next (h node) = None then False else True)"

definition list_add_head :: "'a \<Rightarrow> 'a \<Rightarrow> 'a nodes \<Rightarrow> 'a nodes result" where
  "list_add_head head node h =
     (let h = set_prev node (nd_prev (h head)) h;
          h = set_next node (Some head) h
      in bindE (deref (nd_prev (h head))) (\<lambda>p.
         let h = set_next p (Some node) h
         in Inr (set_prev head (Some node) h)))"

definition list_add_tail :: "'a \<Rightarrow> 'a \<Rightarrow> 'a nodes \<Rightarrow> 'a nodes result" where
  "list_add_tail head node h =
     (let h = set_prev node (nd_prev (h head)) h;
          h = set_next node (Some head) h
      in bindE (deref (nd_prev (h head))) (\<lambda>p.
         let h = set_next p (Some node) h
         in Inr (set_prev head (Some node) h)))"

definition list_add_after :: "'a \<Rightarrow> 'a \<Rightarrow> 'a nodes \<Rightarrow> 'a nodes result" where
  "list_add_after head node h = list_add_head head node h"

definition list_add_before :: "'a \<Rightarrow> 'a \<Rightarrow> 'a nodes \<Rightarrow> 'a nodes result" where
  "list_add_before head node h = list_add_tail head node h"

definition list_delete :: "'a \<Rightarrow> 'a nodes \<Rightarrow> 'a nodes result" where
  "list_delete node h =
     bindE (deref (nd_next (h node))) (\<lambda>nx.
       let h = set_prev nx (nd_prev (h node)) h
       in bindE (deref (nd_prev (h node))) (\<lambda>pv.
          let h = set_next pv (nd_next (h node)) h;
              h = set_next node None h
          in Inr (set_prev node None h)))"

definition list_remove_head :: "'a \<Rightarrow> 'a nodes \<Rightarrow> ('a option \<times> 'a nodes) result" where
  "list_remove_head head h =
     (if nd_next (h head) \<noteq> Some head
      then bindE (deref (nd_next (h head))) (\<lambda>node.
           bindE (list_delete node h) (\<lambda>h. Inr (Some node, h)))
      else Inr (None, h))"

definition list_remove_tail :: "'a \<Rightarrow> 'a nodes \<Rightarrow> ('a option \<times> 'a nodes) result" where
  "list_remove_tail head h =
     (if nd_prev (h head) \<noteq> Some head
      then bindE (deref (nd_prev (h head))) (\<lambda>node.
           bindE (list_delete node h) (\<lambda>h. Inr (Some node, h)))
      else Inr (None, h))"

definition list_peek_head :: "'a nodes \<Rightarrow> 'a \<Rightarrow> 'a option" where
  "list_peek_head h head =
     (if nd_next (h head) \<noteq> Some head then nd_next (h head) else None)"

definition list_peek_tail :: "'a nodes \<Rightarrow> 'a \<Rightarrow> 'a option" where
  "list_peek_tail h head =
     (if nd_prev (h head) \<noteq> Some head then nd_prev (h head) else None)"

definition list_prev :: "'a nodes \<Rightarrow> 'a \<Rightarrow> 'a option" where
  "list_prev h head =
     (if nd_prev (h head) \<noteq> Some head then nd_prev (h head) else None)"

definition list_next :: "'a nodes \<Rightarrow> 'a \<Rightarrow> 'a option" where
  "list_next h head =
     (if nd_next (h head) \<noteq> Some head then nd_next (h head) else None)"

definition list_is_empty :: "'a nodes \<Rightarrow> 'a \<Rightarrow> bool" where
  "list_is_empty h head = (if nd_next (h head) = Some head then True else False)"

text \<open>
  \<open>list_foreach(head, node)\<close> as the sequence of the nodes it visits, and \<open>list_length\<close> as the loop
  it is. Both may run forever on a ring that does not come back to \<open>head\<close>: their value is then
  \<open>None\<close>; a \<open>NULL\<close> link on the way is the fault.
\<close>

partial_function (option) foreach_from ::
    "'a nodes \<Rightarrow> 'a \<Rightarrow> 'a option \<Rightarrow> 'a list \<Rightarrow> 'a list result option" where
  "foreach_from h head node seen =
     (if node = Some head then Some (Inr (rev seen))
      else case node of
        None \<Rightarrow> Some (Inl NullDeref)
      | Some n \<Rightarrow> foreach_from h head (nd_next (h n)) (n # seen))"

definition list_foreach :: "'a nodes \<Rightarrow> 'a \<Rightarrow> 'a list result option" where
  "list_foreach h head = foreach_from h head (nd_next (h head)) []"

partial_function (option) count_from ::
    "'a nodes \<Rightarrow> 'a \<Rightarrow> 'a option \<Rightarrow> 64 word \<Rightarrow> 64 word result option" where
  "count_from h head node cnt =
     (if node = Some head then Some (Inr cnt)
      else case node of
        None \<Rightarrow> Some (Inl NullDeref)
      | Some n \<Rightarrow> count_from h head (nd_next (h n)) (cnt + 1))"

definition list_length :: "'a nodes \<Rightarrow> 'a \<Rightarrow> 64 word result option" where
  "list_length h head = count_from h head (nd_next (h head)) 0"

section \<open>Rings and segments\<close>

named_theorems node_simps \<open>reading node memory after a pointer write\<close>

lemma set_prev_reads [simp, node_simps]:
  "nd_prev (set_prev n p h x) = (if x = n then p else nd_prev (h x))"
  "nd_next (set_prev n p h x) = nd_next (h x)"
  by (simp_all add: set_prev_def)

lemma set_next_reads [simp, node_simps]:
  "nd_next (set_next n p h x) = (if x = n then p else nd_next (h x))"
  "nd_prev (set_next n p h x) = nd_prev (h x)"
  by (simp_all add: set_next_def)

lemma set_prev_next_other [simp]:
  "x \<noteq> n \<Longrightarrow> set_prev n p h x = h x"
  "x \<noteq> n \<Longrightarrow> set_next n p h x = h x"
  by (simp_all add: set_prev_def set_next_def)

definition cleared :: "'a nodes \<Rightarrow> 'a \<Rightarrow> bool" where
  "cleared h n \<longleftrightarrow> nd_prev (h n) = None \<and> nd_next (h n) = None"

lemma list_in_list_iff: "list_in_list h n \<longleftrightarrow> \<not> cleared h n"
  by (simp add: list_in_list_def cleared_def)

text \<open>\<open>dseg h a xs z\<close>: following \<open>next\<close> from \<open>a\<close> visits \<open>xs\<close> and arrives at \<open>z\<close>, and \<open>prev\<close> leads back.\<close>

fun dseg :: "'a nodes \<Rightarrow> 'a \<Rightarrow> 'a list \<Rightarrow> 'a \<Rightarrow> bool" where
  "dseg h a [] z \<longleftrightarrow> nd_next (h a) = Some z \<and> nd_prev (h z) = Some a"
| "dseg h a (x # xs) z \<longleftrightarrow> nd_next (h a) = Some x \<and> nd_prev (h x) = Some a \<and> dseg h x xs z"

definition dlist :: "'a nodes \<Rightarrow> 'a \<Rightarrow> 'a list \<Rightarrow> bool" where
  "dlist h head xs \<longleftrightarrow> distinct (head # xs) \<and> dseg h head xs head"

lemma dseg_append [simp]:
  "dseg h a (us @ x # vs) z \<longleftrightarrow> dseg h a us x \<and> dseg h x vs z"
  by (induction us arbitrary: a) auto

lemma dseg_cong:
  assumes "\<And>x. x \<in> set (a # xs) \<Longrightarrow> nd_next (h' x) = nd_next (h x)"
    and "\<And>x. x \<in> set (xs @ [z]) \<Longrightarrow> nd_prev (h' x) = nd_prev (h x)"
  shows "dseg h' a xs z \<longleftrightarrow> dseg h a xs z"
  using assms by (induction xs arbitrary: a) auto

lemma dseg_prev_last: "dseg h a us e \<Longrightarrow> nd_prev (h e) = Some (last (a # us))"
  by (induction us arbitrary: a) auto

lemma dseg_next_first: "dseg h a us e \<Longrightarrow> nd_next (h a) = Some (hd (us @ [e]))"
  by (cases us) auto

text \<open>Redirecting the last link of a segment to another end \<open>q\<close>.\<close>

lemma dseg_relink:
  assumes "dseg h a us n" and "distinct (a # us)"
    and "nd_next (h' (last (a # us))) = Some q" and "nd_prev (h' q) = Some (last (a # us))"
    and "\<And>x. x \<in> set (a # us) \<Longrightarrow> x \<noteq> last (a # us) \<Longrightarrow> nd_next (h' x) = nd_next (h x)"
    and "\<And>x. x \<in> set us \<Longrightarrow> nd_prev (h' x) = nd_prev (h x)"
  shows "dseg h' a us q"
  using assms
proof (induction us arbitrary: a)
  case Nil
  then show ?case by simp
next
  case (Cons u us)
  have "dseg h' u us q"
    using Cons.prems by (intro Cons.IH) auto
  moreover have "a \<noteq> last (u # us)"
    using Cons.prems(2) by (metis distinct.simps(2) last_in_set list.distinct(1))
  ultimately show ?case
    using Cons.prems by auto
qed

lemma dlist_distinct: "dlist h head xs \<Longrightarrow> distinct xs \<and> head \<notin> set xs"
  by (simp add: dlist_def)

lemma dlist_rotate: "dlist h head (us @ e # vs) \<longleftrightarrow> dlist h e (vs @ head # us)"
  by (auto simp: dlist_def)

lemma dlist_not_cleared: "dlist h head xs \<Longrightarrow> x \<in> set (head # xs) \<Longrightarrow> \<not> cleared h x"
proof (induction xs rule: rev_induct)
  case Nil
  then show ?case by (simp add: dlist_def cleared_def)
next
  case (snoc y ys)
  have prev_set: "x \<in> set (xs @ [z]) \<Longrightarrow> dseg h a xs z \<Longrightarrow> nd_prev (h x) \<noteq> None" for a xs z
    by (induction xs arbitrary: a) auto
  from snoc.prems have "nd_prev (h x) \<noteq> None"
    by (intro prev_set [of "ys @ [y]" head head]) (auto simp: dlist_def)
  then show ?case by (simp add: cleared_def)
qed

section \<open>What each operation does to one ring\<close>

definition linked_before :: "'a \<Rightarrow> 'a \<Rightarrow> 'a \<Rightarrow> 'a nodes \<Rightarrow> 'a nodes" where
  "linked_before p e node h =
     set_prev e (Some node) (set_next p (Some node)
       (set_next node (Some e) (set_prev node (Some p) h)))"

lemma linked_before_frame: "x \<notin> {p, e, node} \<Longrightarrow> linked_before p e node h x = h x"
  by (simp add: linked_before_def)

lemma list_add_tail_eq:
  "nd_prev (h e) = Some p \<Longrightarrow> node \<noteq> e \<Longrightarrow>
   list_add_tail e node h = Inr (linked_before p e node h)"
  by (simp add: list_add_tail_def linked_before_def Let_def)

lemma linked_before_dlist:
  assumes "dlist h head (us @ e # vs)" and "node \<notin> set (head # us @ e # vs)"
  shows "dlist (linked_before (last (head # us)) e node h) head (us @ node # e # vs)"
proof -
  let ?p = "last (head # us)"
  let ?h = "linked_before ?p e node h"
  have p: "?p \<in> set (head # us)" by (rule last_in_set) simp
  from assms have seg: "dseg h head us e" "dseg h e vs head" and dist: "distinct (head # us @ e # vs)"
    by (auto simp: dlist_def)
  have "?p \<noteq> node" "e \<noteq> node" "?p \<noteq> e" "?p \<notin> set vs"
    using assms(2) dist p by auto
  then have "dseg ?h head us node"
    using seg(1) dist assms(2)
    by (intro dseg_relink [OF seg(1)]) (auto simp: linked_before_def)
  moreover have "dseg ?h node [] e"
    using \<open>?p \<noteq> node\<close> \<open>e \<noteq> node\<close> by (simp add: linked_before_def)
  moreover have "dseg ?h e vs head"
    using seg(2) dist assms(2) \<open>?p \<noteq> e\<close> \<open>?p \<notin> set vs\<close> \<open>e \<noteq> node\<close>
    by (subst dseg_cong [where h = h]) (auto simp: linked_before_def simp del: last.simps)
  ultimately show ?thesis
    using dist assms(2) by (auto simp: dlist_def)
qed

lemma linked_before_head:
  assumes "dlist h head xs" and "node \<notin> set (head # xs)"
  shows "dlist (linked_before (last (head # xs)) head node h) head (xs @ [node])"
proof -
  let ?p = "last (head # xs)"
  let ?h = "linked_before ?p head node h"
  from assms have seg: "dseg h head xs head" and dist: "distinct (head # xs)"
    by (auto simp: dlist_def)
  have "?p \<in> set (head # xs)" by (rule last_in_set) simp
  then have "?p \<noteq> node" using assms(2) by auto
  then have "dseg ?h head xs node"
    using dist assms(2)
    by (intro dseg_relink [OF seg]) (auto simp: linked_before_def)
  moreover have "dseg ?h node [] head"
    using \<open>?p \<noteq> node\<close> assms(2) by (simp add: linked_before_def)
  ultimately show ?thesis
    using dist assms(2) by (auto simp: dlist_def)
qed

definition unlinked_from :: "'a \<Rightarrow> 'a \<Rightarrow> 'a \<Rightarrow> 'a nodes \<Rightarrow> 'a nodes" where
  "unlinked_from p q node h =
     set_prev node None (set_next node None (set_next p (Some q) (set_prev q (Some p) h)))"

lemma unlinked_from_frame: "x \<notin> {p, q, node} \<Longrightarrow> unlinked_from p q node h x = h x"
  by (simp add: unlinked_from_def)

lemma list_delete_eq:
  "nd_prev (h n) = Some p \<Longrightarrow> nd_next (h n) = Some q \<Longrightarrow> q \<noteq> n \<Longrightarrow>
   list_delete n h = Inr (unlinked_from p q n h)"
  by (simp add: list_delete_def unlinked_from_def Let_def)

lemma unlinked_from_dlist:
  assumes "dlist h head (us @ n # vs)"
  shows "dlist (unlinked_from (last (head # us)) (hd (vs @ [head])) n h) head (us @ vs)"
proof -
  let ?p = "last (head # us)" and ?q = "hd (vs @ [head])"
  let ?h = "unlinked_from ?p ?q n h"
  have p: "?p \<in> set (head # us)" by (rule last_in_set) simp
  from assms have seg: "dseg h head us n" "dseg h n vs head" and dist: "distinct (head # us @ n # vs)"
    by (auto simp: dlist_def)
  have q: "?q = head \<or> ?q \<in> set vs" by (cases vs) auto
  have "?p \<noteq> n" "?q \<noteq> n" "?p \<notin> set vs" using dist p q by auto
  then have left: "dseg ?h head us ?q"
    using dist q by (intro dseg_relink [OF seg(1)]) (auto simp: unlinked_from_def)
  have "dseg ?h head (us @ vs) head"
  proof (cases vs)
    case Nil
    with left show ?thesis by simp
  next
    case (Cons v vs')
    have "dseg h v vs' head" using seg(2) Cons by simp
    then have "dseg ?h v vs' head"
      using dist Cons \<open>?p \<notin> set vs\<close>
      by (subst dseg_cong [where h = h]) (auto simp: unlinked_from_def simp del: last.simps)
    with left Cons show ?thesis by simp
  qed
  with dist show ?thesis by (auto simp: dlist_def)
qed

section \<open>A memory full of lists\<close>

text \<open>
  \<open>L\<close> maps the head of every list to its elements. \<open>lists_ok h L\<close>: each of them is a ring in \<open>h\<close>,
  no node is in two lists or a head and an element at once, and every node outside them is
  cleared, so that \<open>list_in_list\<close> can tell.
\<close>

definition members :: "('a \<rightharpoonup> 'a list) \<Rightarrow> 'a set" where
  "members L = {x. \<exists>head xs. L head = Some xs \<and> x \<in> set xs}"

definition lists_ok :: "'a nodes \<Rightarrow> ('a \<rightharpoonup> 'a list) \<Rightarrow> bool" where
  "lists_ok h L \<longleftrightarrow>
     (\<forall>head xs. L head = Some xs \<longrightarrow> dlist h head xs) \<and>
     (\<forall>head xs head' xs'. L head = Some xs \<longrightarrow> L head' = Some xs' \<longrightarrow> head \<noteq> head' \<longrightarrow>
        set (head # xs) \<inter> set (head' # xs') = {}) \<and>
     (\<forall>n. n \<notin> dom L \<longrightarrow> n \<notin> members L \<longrightarrow> cleared h n)"

lemma members_I: "L head = Some xs \<Longrightarrow> x \<in> set xs \<Longrightarrow> x \<in> members L"
  by (auto simp: members_def)

lemma members_upd_empty:
  assumes "L n = None \<or> L n = Some []"
  shows "members (L(n \<mapsto> [])) = members L" and "members (L(n := None)) = members L"
  using assms by (auto simp: members_def split: if_splits) (metis list.set(1) empty_iff option.inject option.distinct(1))+

lemma lists_ok_dlist: "lists_ok h L \<Longrightarrow> L head = Some xs \<Longrightarrow> dlist h head xs"
  by (simp add: lists_ok_def)

lemma lists_ok_disjoint:
  "lists_ok h L \<Longrightarrow> L head = Some xs \<Longrightarrow> L head' = Some xs' \<Longrightarrow> x \<in> set xs \<Longrightarrow> x \<in> set xs'
   \<Longrightarrow> head = head'"
  unfolding lists_ok_def by (metis disjoint_iff list.set_intros(2))

lemma lists_ok_distinct:
  "lists_ok h L \<Longrightarrow> L head = Some xs \<Longrightarrow> distinct xs"
  by (auto dest: lists_ok_dlist dlist_distinct)

lemma lists_ok_head_not_member: "lists_ok h L \<Longrightarrow> head \<in> dom L \<Longrightarrow> head \<notin> members L"
proof
  assume ok: "lists_ok h L" and "head \<in> dom L" and "head \<in> members L"
  then obtain xs head' xs' where *: "L head = Some xs" "L head' = Some xs'" "head \<in> set xs'"
    by (auto simp: members_def)
  show False
  proof (cases "head = head'")
    case True
    with * lists_ok_dlist [OF ok *(2)] show False by (simp add: dlist_def)
  next
    case False
    with ok * show False unfolding lists_ok_def
      by (metis disjoint_iff list.set_intros)
  qed
qed

lemma lists_ok_cleared_iff:
  assumes "lists_ok h L"
  shows "cleared h n \<longleftrightarrow> n \<notin> dom L \<and> n \<notin> members L"
proof
  assume "cleared h n"
  moreover have "x \<in> set (head # xs) \<Longrightarrow> \<not> cleared h x" if "L head = Some xs" for head xs x
    using dlist_not_cleared [OF lists_ok_dlist [OF assms that]] by blast
  ultimately show "n \<notin> dom L \<and> n \<notin> members L"
    by (fastforce simp: members_def)
next
  assume "n \<notin> dom L \<and> n \<notin> members L"
  with assms show "cleared h n" by (simp add: lists_ok_def)
qed

lemma in_list_iff:
  "lists_ok h L \<Longrightarrow> list_in_list h n \<longleftrightarrow> n \<in> dom L \<or> n \<in> members L"
  by (simp add: list_in_list_iff lists_ok_cleared_iff)

text \<open>
  The frame argument all operations share: one ring changes from \<open>xs\<close> to \<open>ys\<close>, whatever left it
  is cleared, whatever came in was in no list, and no other node was written.
\<close>

lemma lists_ok_update:
  assumes ok: "lists_ok h L" and L: "L head = Some xs" and ring: "dlist h' head ys"
    and frame: "\<And>x. x \<notin> set (head # xs) \<Longrightarrow> x \<notin> set ys \<Longrightarrow> h' x = h x"
    and left: "\<And>x. x \<in> set xs \<Longrightarrow> x \<notin> set ys \<Longrightarrow> cleared h' x"
    and entered: "\<And>x. x \<in> set ys \<Longrightarrow> x \<notin> set xs \<Longrightarrow> cleared h x"
  shows "lists_ok h' (L(head \<mapsto> ys))"
proof -
  have other: "set (head # ys) \<inter> set (g # zs) = {} \<and> dlist h' g zs"
    if g: "L g = Some zs" "g \<noteq> head" for g zs
  proof -
    have disj: "set (head # xs) \<inter> set (g # zs) = {}"
      using ok L g unfolding lists_ok_def by blast
    have "\<not> cleared h x" if "x \<in> set (g # zs)" for x
      using dlist_not_cleared [OF lists_ok_dlist [OF ok g(1)] that] .
    with entered disj have disj': "set (head # ys) \<inter> set (g # zs) = {}" by fastforce
    with disj frame have same: "h' x = h x" if "x \<in> set (g # zs)" for x
      using that by fastforce
    have "dseg h' g zs g \<longleftrightarrow> dseg h g zs g"
      by (rule dseg_cong) (use same in auto)
    with disj' lists_ok_dlist [OF ok g(1)] show ?thesis by (simp add: dlist_def)
  qed
  have "cleared h' n" if n: "n \<notin> dom (L(head \<mapsto> ys))" "n \<notin> members (L(head \<mapsto> ys))" for n
  proof (cases "n \<in> set xs")
    case True
    moreover have "n \<notin> set ys" using n(2) members_I [of "L(head \<mapsto> ys)" head ys n] by auto
    ultimately show ?thesis by (rule left)
  next
    case False
    from n have "n \<notin> set ys" "n \<noteq> head" "n \<notin> dom L"
      using members_I [of "L(head \<mapsto> ys)" head ys n] by (auto split: if_splits)
    moreover have "n \<notin> members L"
      using n(2) False L by (auto simp: members_def split: if_splits) (metis option.inject)
    ultimately show ?thesis
      using ok False frame [of n] by (simp add: lists_ok_def cleared_def)
  qed
  moreover have "dlist h' g zs" if "(L(head \<mapsto> ys)) g = Some zs" for g zs
    using that other ring by (cases "g = head") auto
  moreover have "set (g # zs) \<inter> set (g' # zs') = {}"
    if "(L(head \<mapsto> ys)) g = Some zs" "(L(head \<mapsto> ys)) g' = Some zs'" "g \<noteq> g'" for g zs g' zs'
  proof -
    consider "g = head" | "g' = head" | "g \<noteq> head" "g' \<noteq> head" by blast
    then show ?thesis
    proof cases
      case 1
      then show ?thesis using that other [of g' zs'] by auto
    next
      case 2
      then show ?thesis using that other [of g zs] by auto
    next
      case 3
      then show ?thesis using that ok unfolding lists_ok_def by simp
    qed
  qed
  ultimately show ?thesis unfolding lists_ok_def by blast
qed

section \<open>What each operation does to the lists\<close>

named_theorems list_ops \<open>the effect of each list operation on the lists\<close>

lemma add_before_ok:
  assumes ok: "lists_ok h L" and L: "L head = Some (us @ e # vs)" and n: "cleared h n"
  shows "\<exists>h'. list_add_before e n h = Inr h' \<and> lists_ok h' (L(head \<mapsto> us @ n # e # vs))"
proof -
  let ?p = "last (head # us)"
  let ?h = "linked_before ?p e n h"
  note ring = lists_ok_dlist [OF ok L]
  have new: "n \<notin> set (head # us @ e # vs)"
    using dlist_not_cleared [OF ring] n by blast
  from ring have "nd_prev (h e) = Some ?p"
    by (auto simp: dlist_def dest: dseg_prev_last)
  then have "list_add_before e n h = Inr ?h"
    using new by (simp add: list_add_before_def list_add_tail_eq)
  moreover have p: "?p \<in> set (head # us)" by (rule last_in_set) simp
  have "?h x = h x" if "x \<notin> set (head # us @ e # vs)" "x \<notin> set (us @ n # e # vs)" for x
    using that p by (intro linked_before_frame) auto
  then have "lists_ok ?h (L(head \<mapsto> us @ n # e # vs))"
    using n by (intro lists_ok_update [OF ok L linked_before_dlist [OF ring new]]) auto
  ultimately show ?thesis by blast
qed

lemma add_tail_ok [list_ops]:
  assumes ok: "lists_ok h L" and L: "L head = Some xs" and n: "cleared h n"
  shows "\<exists>h'. list_add_tail head n h = Inr h' \<and> lists_ok h' (L(head \<mapsto> xs @ [n]))"
proof -
  let ?p = "last (head # xs)"
  let ?h = "linked_before ?p head n h"
  note ring = lists_ok_dlist [OF ok L]
  have new: "n \<notin> set (head # xs)"
    using dlist_not_cleared [OF ring] n by blast
  from ring have "nd_prev (h head) = Some ?p"
    by (auto simp: dlist_def dest: dseg_prev_last)
  then have "list_add_tail head n h = Inr ?h"
    using new by (simp add: list_add_tail_eq)
  moreover have p: "?p \<in> set (head # xs)" by (rule last_in_set) simp
  have "?h x = h x" if "x \<notin> set (head # xs)" "x \<notin> set (xs @ [n])" for x
    using that p by (intro linked_before_frame) auto
  then have "lists_ok ?h (L(head \<mapsto> xs @ [n]))"
    using n by (intro lists_ok_update [OF ok L linked_before_head [OF ring new]]) auto
  ultimately show ?thesis by blast
qed

lemma list_add_head_is_add_tail: "list_add_head = list_add_tail"
  by (simp add: list_add_head_def list_add_tail_def fun_eq_iff)

lemmas add_head_ok [list_ops] = add_tail_ok [folded list_add_head_is_add_tail]

lemma delete_ok:
  assumes ok: "lists_ok h L" and L: "L head = Some xs" and n: "n \<in> set xs"
  shows "\<exists>h'. list_delete n h = Inr h' \<and> lists_ok h' (L(head \<mapsto> remove1 n xs))"
proof -
  note ring = lists_ok_dlist [OF ok L]
  from dlist_distinct [OF ring] n obtain us vs where xs: "xs = us @ n # vs"
    and rem: "remove1 n xs = us @ vs" and out: "n \<notin> set us" "n \<notin> set vs"
    by (metis split_list_distinct)
  let ?p = "last (head # us)" and ?q = "hd (vs @ [head])"
  let ?h = "unlinked_from ?p ?q n h"
  from ring have seg: "dseg h head us n" "dseg h n vs head" and dist: "distinct (head # us @ n # vs)"
    by (auto simp: dlist_def xs)
  have "?p \<in> set (head # us)" by (rule last_in_set) simp
  moreover have "?q \<in> set (vs @ [head])" by (cases vs) auto
  ultimately have ends: "?p \<in> set (head # us @ vs)" "?q \<in> set (head # us @ vs)"
    "?p \<noteq> n" "?q \<noteq> n" using dist by auto
  then have "list_delete n h = Inr ?h"
    using dseg_prev_last [OF seg(1)] dseg_next_first [OF seg(2)] by (simp add: list_delete_eq)
  moreover have "cleared ?h n"
    using ends(3,4) by (simp add: unlinked_from_def cleared_def)
  moreover have "?h x = h x" if "x \<notin> set (head # xs)" "x \<notin> set (us @ vs)" for x
    using that ends(1,2) xs by (intro unlinked_from_frame) auto
  moreover have "dlist ?h head (us @ vs)"
    using ring xs unlinked_from_dlist by metis
  ultimately have "list_delete n h = Inr ?h \<and> lists_ok ?h (L(head \<mapsto> us @ vs))"
    using xs by (auto intro!: lists_ok_update [OF ok L])
  then show ?thesis using rem by auto
qed

lemma remove_head_empty [list_ops]:
  "lists_ok h L \<Longrightarrow> L head = Some [] \<Longrightarrow> list_remove_head head h = Inr (None, h)"
  by (drule (1) lists_ok_dlist) (simp add: dlist_def list_remove_head_def)

lemma remove_head_ok [list_ops]:
  assumes ok: "lists_ok h L" and L: "L head = Some (x # xs)"
  shows "\<exists>h'. list_remove_head head h = Inr (Some x, h') \<and> lists_ok h' (L(head \<mapsto> xs))"
proof -
  have "x \<noteq> head" "nd_next (h head) = Some x"
    using lists_ok_dlist [OF ok L] by (auto simp: dlist_def)
  moreover obtain h' where "list_delete x h = Inr h'" "lists_ok h' (L(head \<mapsto> xs))"
    using delete_ok [OF ok L, of x] by auto
  ultimately show ?thesis by (simp add: list_remove_head_def)
qed

lemma remove_tail_ok [list_ops]:
  assumes ok: "lists_ok h L" and L: "L head = Some (xs @ [x])"
  shows "\<exists>h'. list_remove_tail head h = Inr (Some x, h') \<and> lists_ok h' (L(head \<mapsto> xs))"
proof -
  have dist: "x \<notin> set (head # xs)" and "nd_prev (h head) = Some x"
    using lists_ok_dlist [OF ok L] by (auto simp: dlist_def)
  moreover obtain h' where "list_delete x h = Inr h'" "lists_ok h' (L(head \<mapsto> xs))"
    using delete_ok [OF ok L, of x] dist by (auto simp: remove1_append)
  ultimately show ?thesis by (simp add: list_remove_tail_def)
qed

lemma list_reads:
  assumes "lists_ok h L" and "L head = Some xs"
  shows "list_is_empty h head \<longleftrightarrow> xs = []"
    and "list_peek_head h head = (if xs = [] then None else Some (hd xs))"
    and "list_peek_tail h head = (if xs = [] then None else Some (last xs))"
  using lists_ok_dlist [OF assms] dseg_prev_last [of h head xs head]
  by (cases xs; force simp: dlist_def list_is_empty_def list_peek_head_def list_peek_tail_def)+

lemma foreach_from_dseg:
  "dseg h a xs head \<Longrightarrow> head \<notin> set xs \<Longrightarrow>
   foreach_from h head (nd_next (h a)) seen = Some (Inr (rev seen @ xs))"
proof (induction xs arbitrary: a seen)
  case Nil
  then show ?case by (simp add: foreach_from.simps)
next
  case (Cons x xs)
  then show ?case by (subst foreach_from.simps) auto
qed

lemma list_foreach_ok:
  "lists_ok h L \<Longrightarrow> L head = Some xs \<Longrightarrow> list_foreach h head = Some (Inr xs)"
  using foreach_from_dseg [of h head xs head "[]"]
  by (auto dest: lists_ok_dlist simp: list_foreach_def dlist_def)

lemma count_from_dseg:
  "dseg h a xs head \<Longrightarrow> head \<notin> set xs \<Longrightarrow>
   count_from h head (nd_next (h a)) cnt = Some (Inr (cnt + of_nat (length xs)))"
proof (induction xs arbitrary: a cnt)
  case Nil
  then show ?case by (simp add: count_from.simps)
next
  case (Cons x xs)
  then show ?case by (subst count_from.simps) (auto simp: algebra_simps)
qed

lemma list_length_ok:
  "lists_ok h L \<Longrightarrow> L head = Some xs \<Longrightarrow> list_length h head = Some (Inr (of_nat (length xs)))"
  using count_from_dseg [of h head xs head 0]
  by (auto dest: lists_ok_dlist simp: list_length_def dlist_def)

lemma initialize_ok:
  assumes ok: "lists_ok h L" and n: "n \<notin> members L" "L n = None \<or> L n = Some []"
  shows "lists_ok (list_initialize n h) (L(n \<mapsto> []))"
proof -
  let ?h = "list_initialize n h"
  have frame: "x \<noteq> n \<Longrightarrow> ?h x = h x" for x by (simp add: list_initialize_def)
  have ring: "dlist ?h n []" by (simp add: dlist_def list_initialize_def)
  have "dlist ?h g zs" if "L g = Some zs" "g \<noteq> n" for g zs
  proof -
    have "n \<notin> set (g # zs)" using that n(1) by (auto simp: members_def)
    then have "?h x = h x" if "x \<in> set (g # zs)" for x
      using that by (intro frame) auto
    then have "dseg ?h g zs g \<longleftrightarrow> dseg h g zs g" by (intro dseg_cong) auto
    with lists_ok_dlist [OF ok that(1)] show ?thesis by (simp add: dlist_def)
  qed
  moreover have "cleared ?h x" if "x \<notin> dom (L(n \<mapsto> []))" "x \<notin> members (L(n \<mapsto> []))" for x
  proof -
    have "x \<noteq> n" "x \<notin> dom L" "x \<notin> members L"
      using that members_upd_empty [of L n, OF n(2)] by auto
    with ok show ?thesis by (simp add: lists_ok_def cleared_def frame)
  qed
  ultimately show ?thesis
    using ok ring n unfolding lists_ok_def by (auto simp: members_def split: if_splits)
qed

lemma clear_ok:
  assumes ok: "lists_ok h L" and n: "n \<notin> members L" "L n = None \<or> L n = Some []"
  shows "lists_ok (list_clear_node n h) (L(n := None))"
proof -
  let ?h = "list_clear_node n h"
  have frame: "x \<noteq> n \<Longrightarrow> ?h x = h x" for x by (simp add: list_clear_node_def)
  have "cleared ?h n" by (simp add: cleared_def list_clear_node_def)
  have "dlist ?h g zs" if "L g = Some zs" "g \<noteq> n" for g zs
  proof -
    have "n \<notin> set (g # zs)" using that n(1) by (auto simp: members_def)
    then have "?h x = h x" if "x \<in> set (g # zs)" for x
      using that by (intro frame) auto
    then have "dseg ?h g zs g \<longleftrightarrow> dseg h g zs g" by (intro dseg_cong) auto
    with lists_ok_dlist [OF ok that(1)] show ?thesis by (simp add: dlist_def)
  qed
  moreover have "cleared ?h x" if "x \<notin> dom (L(n := None))" "x \<notin> members (L(n := None))" for x
  proof (cases "x = n")
    case True
    with \<open>cleared ?h n\<close> show ?thesis by simp
  next
    case False
    then have "x \<notin> dom L" "x \<notin> members L"
      using that members_upd_empty [of L n, OF n(2)] by auto
    with ok False show ?thesis by (simp add: lists_ok_def cleared_def frame)
  qed
  ultimately show ?thesis
    using ok n unfolding lists_ok_def by (auto simp: members_def split: if_splits)
qed

end
