(* ===== verification/X86.thy ===== *)
theory X86
  imports Prelude
begin

text \<open>
  The processor state the kernel's critical sections depend on: the flags register
  (\<open>include/arch/x86.h\<close>) and the spin locks of the one-processor port
  (\<open>include/arch/spinlock.h\<close>). A lock and the flags register travel together as a pair, since
  every lock operation of the source touches both.

  The locale \<open>critical_section\<close> states what the kernel relies on when it brackets code with a
  save and a restore; \<open>spin\<close> interprets it on the lock operations of the source.
\<close>

unbundle bit_operations_syntax

section \<open>The flags register (\<open>x86.h\<close>)\<close>

type_synonym x64_flags = "64 word"
type_synonym spinlock = "64 word"

definition IF_BIT :: x64_flags where "IF_BIT = push_bit 9 1"

definition x64_cli :: "x64_flags \<Rightarrow> x64_flags" where
  "x64_cli rflags = rflags AND NOT IF_BIT"

definition x64_sti :: "x64_flags \<Rightarrow> x64_flags" where
  "x64_sti rflags = rflags OR IF_BIT"

definition arch_disable_ints :: "x64_flags \<Rightarrow> x64_flags" where
  "arch_disable_ints rflags = x64_cli rflags"

definition arch_enable_ints :: "x64_flags \<Rightarrow> x64_flags" where
  "arch_enable_ints rflags = x64_sti rflags"

definition arch_ints_disabled :: "x64_flags \<Rightarrow> bool" where
  "arch_ints_disabled rflags \<longleftrightarrow> \<not> (rflags AND IF_BIT \<noteq> 0)"

definition x64_save_flags :: "x64_flags \<Rightarrow> x64_flags" where
  "x64_save_flags rflags = rflags"

definition x64_restore_flags :: "x64_flags \<Rightarrow> x64_flags \<Rightarrow> x64_flags" where
  "x64_restore_flags flags rflags = flags"

named_theorems cpu_simps \<open>evaluating the flags register and the locks\<close>

lemma arch_ints_disabled_iff: "arch_ints_disabled rflags \<longleftrightarrow> \<not> bit rflags 9"
  by (simp only: arch_ints_disabled_def IF_BIT_def and_shifted_one)

lemma ints_disabled_after [simp, cpu_simps]:
  "arch_ints_disabled (arch_disable_ints f)"
  "\<not> arch_ints_disabled (arch_enable_ints f)"
  by (simp_all only: arch_ints_disabled_iff arch_disable_ints_def arch_enable_ints_def
      x64_cli_def x64_sti_def IF_BIT_def bit_or_shifted_one bit_clear_shifted_one) simp_all

section \<open>Spin locks (\<open>spinlock.h\<close>)\<close>

definition SPINLOCK_INITIAL_VALUE :: spinlock where "SPINLOCK_INITIAL_VALUE = 0"

definition spin_lock :: "spinlock \<Rightarrow> spinlock" where
  "spin_lock lock = 1"

definition spin_trylock :: "spinlock \<Rightarrow> int \<times> spinlock" where
  "spin_trylock lock = (0, lock)"

definition spin_unlock :: "spinlock \<Rightarrow> spinlock" where
  "spin_unlock lock = 0"

definition spinlock_init :: "spinlock \<Rightarrow> spinlock" where
  "spinlock_init lock = SPINLOCK_INITIAL_VALUE"

definition spinlock_held :: "spinlock \<Rightarrow> bool" where
  "spinlock_held lock \<longleftrightarrow> lock \<noteq> 0"

text \<open>Both return the flags register they leave; the first also the saved state.\<close>

definition arch_interrupt_save :: "x64_flags \<Rightarrow> x64_flags \<times> x64_flags" where
  "arch_interrupt_save rflags = (let state = x64_save_flags rflags in (state, arch_disable_ints rflags))"

definition arch_interrupt_restore :: "x64_flags \<Rightarrow> x64_flags \<Rightarrow> x64_flags" where
  "arch_interrupt_restore state rflags = x64_restore_flags state rflags"

definition spinlock_save ::
    "spinlock \<times> x64_flags \<Rightarrow> x64_flags \<times> (spinlock \<times> x64_flags)" where
  "spinlock_save m =
     (let (state, rflags) = arch_interrupt_save (snd m)
      in (state, (spin_lock (fst m), rflags)))"

definition spinlock_restore ::
    "x64_flags \<Rightarrow> spinlock \<times> x64_flags \<Rightarrow> spinlock \<times> x64_flags" where
  "spinlock_restore state m =
     (let lock = spin_unlock (fst m) in (lock, arch_interrupt_restore state (snd m)))"

lemmas spinlock_defs = spinlock_save_def spinlock_restore_def arch_interrupt_save_def
  arch_interrupt_restore_def x64_save_flags_def x64_restore_flags_def spin_lock_def spin_unlock_def
  spinlock_held_def

lemma spinlock_save_eq [simp, cpu_simps]:
  "spinlock_save (l, f) = (f, (1, arch_disable_ints f))"
  by (simp add: spinlock_defs)

lemma spinlock_restore_eq [simp, cpu_simps]:
  "spinlock_restore st (l, f) = (0, st)"
  by (simp add: spinlock_defs)

lemma spinlock_held_eq [simp, cpu_simps]: "spinlock_held 1" "\<not> spinlock_held 0"
  by (simp_all add: spinlock_held_def)

section \<open>What a critical section is promised\<close>

text \<open>
  \<open>save\<close> enters and hands out a token, \<open>restore\<close> leaves with it; \<open>quiet\<close> says that no interrupt
  can come in, \<open>held\<close> that the lock is taken, \<open>mode\<close> is what an entry may not change for the
  code around it.
\<close>

locale critical_section =
  fixes save :: "'m \<Rightarrow> 't \<times> 'm"
    and restore :: "'t \<Rightarrow> 'm \<Rightarrow> 'm"
    and quiet :: "'m \<Rightarrow> bool"
    and held :: "'m \<Rightarrow> bool"
    and mode :: "'m \<Rightarrow> 'c"
  assumes save_quiet: "quiet (snd (save m))"
    and save_held: "held (snd (save m))"
    and restore_mode: "mode (restore (fst (save m)) m') = mode m"
    and restore_free: "\<not> held (restore t m)"
    and quiet_mode: "mode m = mode m' \<Longrightarrow> quiet m = quiet m'"
begin

lemma bracket_mode:
  "mode (restore (fst (save m)) (body (snd (save m)))) = mode m"
  by (rule restore_mode)

text \<open>
  A section nested in another one leaves interrupts off, but it does drop the lock: the lock
  is not recursive.
\<close>

lemma nested_quiet:
  "quiet (restore (fst (save (snd (save m)))) (body (snd (save (snd (save m))))))"
  using save_quiet restore_mode quiet_mode by metis

lemma nested_drops_lock:
  "held (snd (save m)) \<and>
   \<not> held (restore (fst (save (snd (save m)))) (body (snd (save (snd (save m))))))"
  using save_held restore_free by blast

end

interpretation spin: critical_section spinlock_save spinlock_restore
  "\<lambda>m. arch_ints_disabled (snd m)" "\<lambda>m. spinlock_held (fst m)" snd
  by unfold_locales (auto simp: spinlock_defs)

end
