(* ===== verification/PortIO.thy ===== *)
theory PortIO
  imports Prelude
begin

text \<open>
  Port input and output (\<open>inb\<close>, \<open>outb\<close> of \<open>include/arch/x86.h\<close>) and the serial port driver
  \<open>driver/uart/uart.c\<close> on top of them.

  The devices are not part of the repository. What a driver did to them is the list of its port
  accesses, newest first; what a device answers is a parameter \<open>dev\<close> of every definition that
  reads a port, a function of the accesses so far and the port. Hypotheses on \<open>dev\<close> are the
  documented behaviour of the device and are named where they are used.
\<close>

type_synonym port = "16 word"
type_synonym byte = "8 word"

datatype io_event = OUTB port byte | INB port byte

type_synonym io = "io_event list"
type_synonym device = "io \<Rightarrow> port \<Rightarrow> byte"

definition outb :: "port \<Rightarrow> byte \<Rightarrow> io \<Rightarrow> io" where
  "outb port data io = OUTB port data # io"

definition inb :: "device \<Rightarrow> port \<Rightarrow> io \<Rightarrow> byte \<times> io" where
  "inb dev port io = (let ret = dev io port in (ret, INB port ret # io))"

text \<open>The last byte written to a port, the state most device registers are made of.\<close>

fun last_out :: "port \<Rightarrow> io \<Rightarrow> byte option" where
  "last_out p [] = None"
| "last_out p (OUTB q b # io) = (if q = p then Some b else last_out p io)"
| "last_out p (INB q b # io) = last_out p io"

lemma last_out_outb [simp]:
  "last_out p (outb q b io) = (if q = p then Some b else last_out p io)"
  by (simp add: outb_def)

lemma last_out_inb [simp]: "last_out p (snd (inb dev q io)) = last_out p io"
  by (simp add: inb_def Let_def)

section \<open>The serial port (\<open>driver/uart/uart.c\<close>)\<close>

definition uart_baud_rate :: int where "uart_baud_rate = 115200"
definition uart_io_port :: port where "uart_io_port = 0x3f8"

definition platform_init_uart :: "io \<Rightarrow> io" where
  "platform_init_uart io =
     (let divisor = 115200 div uart_baud_rate;
          io = outb (uart_io_port + 3) 0x80 io;
          io = outb (uart_io_port + 0) (word_of_int (divisor mod 256)) io;
          io = outb (uart_io_port + 1) (word_of_int (divisor div 256)) io;
          io = outb (uart_io_port + 3) 3 io
      in outb (uart_io_port + 2) 0x07 io)"

text \<open>
  The polling loop of \<open>uart_putc\<close>: it spins until bit 6 of the line status register is set and
  does not return (\<open>None\<close>) if the transmitter never becomes empty.
\<close>

partial_function (option) uart_wait :: "device \<Rightarrow> io \<Rightarrow> io option" where
  "uart_wait dev io =
     (let (status, io') = inb dev (uart_io_port + 5) io
      in if status AND push_bit 6 1 = 0 then uart_wait dev io' else Some io')"

definition uart_putc :: "device \<Rightarrow> byte \<Rightarrow> io \<Rightarrow> io option" where
  "uart_putc dev c io = map_option (outb uart_io_port c) (uart_wait dev io)"

text \<open>
  The transmitter empties in finite time: from any history, one of the next status reads has
  bit 6 set. \<open>polled k\<close> is the history after \<open>k\<close> more reads of the status register.
\<close>

fun polled :: "device \<Rightarrow> nat \<Rightarrow> io \<Rightarrow> io" where
  "polled dev 0 io = io"
| "polled dev (Suc k) io = polled dev k (snd (inb dev (uart_io_port + 5) io))"

definition transmitter_drains :: "device \<Rightarrow> bool" where
  "transmitter_drains dev \<longleftrightarrow>
     (\<forall>io. \<exists>k. bit (dev (polled dev k io) (uart_io_port + 5)) 6)"

definition transmitted :: "io \<Rightarrow> byte list" where
  "transmitted io = rev (concat (map (\<lambda>e. case e of OUTB p b \<Rightarrow> if p = uart_io_port then [b] else []
                                              | INB _ _ \<Rightarrow> []) io))"

lemma transmitted_inb [simp]: "transmitted (snd (inb dev p io)) = transmitted io"
  by (simp add: transmitted_def inb_def Let_def)

lemma transmitted_outb [simp]:
  "transmitted (outb p b io) = (if p = uart_io_port then transmitted io @ [b] else transmitted io)"
  by (simp add: transmitted_def outb_def)

lemma uart_wait_step:
  "uart_wait dev io =
     (if bit (dev io (uart_io_port + 5)) 6 then Some (snd (inb dev (uart_io_port + 5) io))
      else uart_wait dev (snd (inb dev (uart_io_port + 5) io)))"
proof -
  have "dev io (uart_io_port + 5) AND push_bit 6 1 = 0 \<longleftrightarrow> \<not> bit (dev io (uart_io_port + 5)) 6"
    using and_shifted_one [of "dev io (uart_io_port + 5)" 6] by blast
  then show ?thesis
    by (subst uart_wait.simps) (simp add: inb_def Let_def)
qed

lemma uart_wait_returns:
  "bit (dev (polled dev k io) (uart_io_port + 5)) 6 \<Longrightarrow>
   \<exists>io'. uart_wait dev io = Some io' \<and> transmitted io' = transmitted io"
proof (induction k arbitrary: io)
  case 0
  then show ?case by (subst uart_wait_step) simp
next
  case (Suc k)
  let ?io = "snd (inb dev (uart_io_port + 5) io)"
  from Suc obtain io' where "uart_wait dev ?io = Some io'" "transmitted io' = transmitted ?io"
    by fastforce
  then show ?case by (subst uart_wait_step) auto
qed

text \<open>What the code above the driver may assume of it: it returns, and it sends the byte.\<close>

lemma uart_putc_sends:
  assumes "transmitter_drains dev"
  shows "\<exists>io'. uart_putc dev c io = Some io' \<and> transmitted io' = transmitted io @ [c]"
proof -
  from assms obtain k where "bit (dev (polled dev k io) (uart_io_port + 5)) 6"
    by (auto simp: transmitter_drains_def)
  from uart_wait_returns [of dev k io, OF this] show ?thesis
    by (auto simp: uart_putc_def)
qed

end
