(* ===== verification/PlatformTimer.thy ===== *)
theory PlatformTimer
  imports PortIO
begin

text \<open>
  \<open>driver/timer/platform_timer.c\<close>: the programmable interval timer and the kernel's clock. Time is
  a 64-bit fixed-point number of milliseconds with 32 fractional bits, and every computation is
  done at the width of the source.
\<close>

section \<open>State and operations\<close>

record ('cb, 'arg) platform_timer =
  t_callback :: "'cb option"
  callback_arg :: "'arg option"
  next_trigger_time :: "64 word"
  next_trigger_delta :: "64 word"
  ticks_per_ms :: "64 word"
  timer_delta_time :: "64 word"
  timer_current_time :: "64 word"
  divisor :: "16 word"

definition INTERNAL_FREQ :: "64 word" where "INTERNAL_FREQ = 1193182"
definition INTERNAL_FREQ_3X :: "64 word" where "INTERNAL_FREQ_3X = 35795464"

definition I8253_DATA_PORT :: port where "I8253_DATA_PORT = 0x40"
definition I8253_CONTROL_PORT :: port where "I8253_CONTROL_PORT = 0x43"

definition platform_set_periodic_timer ::
    "'cb \<Rightarrow> 'arg option \<Rightarrow> 64 word \<Rightarrow> ('cb, 'arg) platform_timer \<Rightarrow> int \<times> ('cb, 'arg) platform_timer" where
  "platform_set_periodic_timer callback a interval pt =
     (let pt = pt\<lparr>t_callback := Some callback\<rparr>;
          pt = pt\<lparr>callback_arg := a\<rparr>;
          pt = pt\<lparr>next_trigger_delta := push_bit 32 interval\<rparr>;
          pt = pt\<lparr>next_trigger_time := timer_current_time pt + next_trigger_delta pt\<rparr>
      in (NO_ERR, pt))"

definition current_time :: "('cb, 'arg) platform_timer \<Rightarrow> 64 word" where
  "current_time pt = drop_bit 32 (timer_current_time pt)"

text \<open>
  The interrupt handler either returns \<open>INT_NO_RESCHEDULE\<close> (\<open>None\<close>) or ends in the tail call
  \<open>t_callback(callback_arg, time)\<close>, returned here as the callback with its arguments.
\<close>

definition os_timer_tick ::
    "('cb, 'arg) platform_timer \<Rightarrow> ('cb \<times> 'arg option \<times> 64 word) option \<times> ('cb, 'arg) platform_timer" where
  "os_timer_tick pt =
     (let pt = pt\<lparr>timer_current_time := timer_current_time pt + timer_delta_time pt\<rparr>;
          time = current_time pt
      in case t_callback pt of
           Some cb \<Rightarrow>
             if timer_current_time pt \<ge> next_trigger_time pt
             then let delta = timer_current_time pt - next_trigger_time pt;
                      pt = pt\<lparr>next_trigger_time :=
                                timer_current_time pt + next_trigger_delta pt - delta\<rparr>
                  in (Some (cb, callback_arg pt, time), pt)
             else (None, pt)
         | None \<Rightarrow> (None, pt))"

text \<open>The divisor arithmetic of \<open>set_pit_frequency\<close>, on \<open>uint32_t\<close> variables.\<close>

definition pit_count :: "32 word \<Rightarrow> 32 word" where
  "pit_count frequency =
     (if frequency \<le> 18 then 0xffff
      else if ucast frequency \<ge> INTERNAL_FREQ then 1
      else let count = ucast (INTERNAL_FREQ_3X div ucast frequency) :: 32 word;
               remainder = ucast (INTERNAL_FREQ_3X mod ucast frequency) :: 32 word;
               count = (if ucast remainder \<ge> INTERNAL_FREQ_3X div 2 then count + 1 else count);
               count = count div 3;
               remainder = count mod 3
           in if remainder \<ge> 1 then count + 1 else count)"

definition set_pit_frequency ::
    "32 word \<Rightarrow> ('cb, 'arg) platform_timer \<times> io \<Rightarrow> ('cb, 'arg) platform_timer \<times> io" where
  "set_pit_frequency frequency = (\<lambda>(pt, io).
     let count = pit_count frequency;
         pt = pt\<lparr>divisor := ucast (count AND 0xffff)\<rparr>;
         pt = pt\<lparr>timer_delta_time := drop_bit 10 (3685982306 * ucast count)\<rparr>;
         io = outb I8253_CONTROL_PORT 0x34 io;
         io = outb I8253_DATA_PORT (ucast (divisor pt AND 0xff)) io;
         io = outb I8253_DATA_PORT (ucast (drop_bit 8 (divisor pt))) io
     in (pt, io))"

text \<open>
  The part of \<open>platform_init_timer\<close> that touches the clock; \<open>register_int_handler\<close> and
  \<open>unmask_interrupt\<close>, its last two statements, are in the interrupt controller's theory.
\<close>

definition init_clock :: "('cb, 'arg) platform_timer \<times> io \<Rightarrow> ('cb, 'arg) platform_timer \<times> io" where
  "init_clock = (\<lambda>(pt, io).
     set_pit_frequency 1000
       (pt\<lparr>timer_current_time := 0, ticks_per_ms := INTERNAL_FREQ div 100\<rparr>, io))"

section \<open>The periodic trigger does not drift\<close>

lemma os_timer_tick_time:
  "timer_current_time (snd (os_timer_tick pt)) = timer_current_time pt + timer_delta_time pt"
  "timer_delta_time (snd (os_timer_tick pt)) = timer_delta_time pt"
  "next_trigger_delta (snd (os_timer_tick pt)) = next_trigger_delta pt"
  "t_callback (snd (os_timer_tick pt)) = t_callback pt"
  "callback_arg (snd (os_timer_tick pt)) = callback_arg pt"
  by (auto simp: os_timer_tick_def Let_def split: option.splits)

lemma os_timer_tick_fires_iff:
  "fst (os_timer_tick pt) =
     (case t_callback pt of None \<Rightarrow> None
      | Some cb \<Rightarrow>
          if next_trigger_time pt \<le> timer_current_time pt + timer_delta_time pt
          then Some (cb, callback_arg pt, current_time (snd (os_timer_tick pt))) else None)"
  by (auto simp: os_timer_tick_def Let_def current_time_def split: option.splits)

lemma os_timer_tick_next:
  "next_trigger_time (snd (os_timer_tick pt)) =
     next_trigger_time pt + (if fst (os_timer_tick pt) = None then 0 else next_trigger_delta pt)"
  by (auto simp: os_timer_tick_def Let_def split: option.splits)

text \<open>The state after \<open>n\<close> timer interrupts, and how many of them called back.\<close>

fun after_ticks :: "nat \<Rightarrow> ('cb, 'arg) platform_timer \<Rightarrow> ('cb, 'arg) platform_timer" where
  "after_ticks 0 pt = pt"
| "after_ticks (Suc n) pt = after_ticks n (snd (os_timer_tick pt))"

fun fired :: "nat \<Rightarrow> ('cb, 'arg) platform_timer \<Rightarrow> nat" where
  "fired 0 pt = 0"
| "fired (Suc n) pt =
     (if fst (os_timer_tick pt) = None then 0 else 1) + fired n (snd (os_timer_tick pt))"

lemma after_ticks_const [simp]:
  "timer_delta_time (after_ticks n pt) = timer_delta_time pt"
  "next_trigger_delta (after_ticks n pt) = next_trigger_delta pt"
  "t_callback (after_ticks n pt) = t_callback pt"
  by (induction n arbitrary: pt) (simp_all add: os_timer_tick_time)

lemma after_ticks_clock:
  "timer_current_time (after_ticks n pt) = timer_current_time pt + of_nat n * timer_delta_time pt"
  by (induction n arbitrary: pt) (simp_all add: os_timer_tick_time algebra_simps)

lemma after_ticks_schedule:
  "next_trigger_time (after_ticks n pt) =
     next_trigger_time pt + of_nat (fired n pt) * next_trigger_delta pt"
  by (induction n arbitrary: pt)
    (auto simp: os_timer_tick_next os_timer_tick_time algebra_simps)

text \<open>
  \<open>on_schedule\<close>: the next trigger is in the future and at most one period away. With a tick no
  longer than the period and no wrap-around of the 64-bit clock, every tick keeps it.
\<close>

definition on_schedule :: "('cb, 'arg) platform_timer \<Rightarrow> bool" where
  "on_schedule pt \<longleftrightarrow>
     t_callback pt \<noteq> None \<and>
     uint (timer_delta_time pt) \<le> uint (next_trigger_delta pt) \<and>
     uint (timer_current_time pt) < uint (next_trigger_time pt) \<and>
     uint (next_trigger_time pt) \<le> uint (timer_current_time pt) + uint (next_trigger_delta pt)"

lemma uint_add_no_wrap: "uint (a :: 64 word) + uint b < 2 ^ 64 \<Longrightarrow> uint (a + b) = uint a + uint b"
  by (simp add: uint_plus_if')

lemma os_timer_tick_on_schedule:
  assumes on: "on_schedule pt"
    and room: "uint (timer_current_time pt) + uint (timer_delta_time pt)
      + uint (next_trigger_delta pt) < 2 ^ 64"
  shows "on_schedule (snd (os_timer_tick pt))"
    and "uint (next_trigger_time (snd (os_timer_tick pt))) = uint (next_trigger_time pt) +
      (if fst (os_timer_tick pt) = None then 0 else uint (next_trigger_delta pt))"
    and "uint (timer_current_time (snd (os_timer_tick pt))) =
      uint (timer_current_time pt) + uint (timer_delta_time pt)"
proof -
  let ?pt = "snd (os_timer_tick pt)"
  have c: "uint (timer_current_time pt + timer_delta_time pt) =
      uint (timer_current_time pt) + uint (timer_delta_time pt)"
    using room uint_ge_0 [of "next_trigger_delta pt"] by (intro uint_add_no_wrap) linarith
  then show "uint (timer_current_time ?pt) =
      uint (timer_current_time pt) + uint (timer_delta_time pt)"
    by (simp add: os_timer_tick_time)
  have fires: "fst (os_timer_tick pt) \<noteq> None \<longleftrightarrow>
      uint (next_trigger_time pt) \<le> uint (timer_current_time pt) + uint (timer_delta_time pt)"
    using on c by (auto simp: os_timer_tick_fires_iff word_le_def on_schedule_def split: if_splits)
  have "fst (os_timer_tick pt) \<noteq> None \<Longrightarrow>
      uint (next_trigger_time pt + next_trigger_delta pt) =
      uint (next_trigger_time pt) + uint (next_trigger_delta pt)"
    using room fires by (intro uint_add_no_wrap) linarith
  then show next_time: "uint (next_trigger_time ?pt) = uint (next_trigger_time pt) +
      (if fst (os_timer_tick pt) = None then 0 else uint (next_trigger_delta pt))"
    by (simp add: os_timer_tick_next)
  show "on_schedule ?pt"
    using on c fires unfolding on_schedule_def next_time os_timer_tick_time
    by (cases "fst (os_timer_tick pt) = None")
      (simp, use uint_ge_0 [of "timer_delta_time pt"] in linarith, simp)
qed

text \<open>
  Over any number of ticks: the clock and the schedule have advanced by exact multiples, so the
  number of callbacks is the elapsed time divided by the period.
\<close>

lemma after_ticks_on_schedule:
  assumes "on_schedule pt"
    and "uint (timer_current_time pt) + int n * uint (timer_delta_time pt)
      + uint (next_trigger_delta pt) < 2 ^ 64"
  shows "on_schedule (after_ticks n pt) \<and>
    uint (timer_current_time (after_ticks n pt)) =
      uint (timer_current_time pt) + int n * uint (timer_delta_time pt) \<and>
    uint (next_trigger_time (after_ticks n pt)) =
      uint (next_trigger_time pt) + int (fired n pt) * uint (next_trigger_delta pt)"
  using assms
proof (induction n arbitrary: pt)
  case 0
  then show ?case by simp
next
  case (Suc n)
  let ?pt = "snd (os_timer_tick pt)"
  have step: "int (Suc n) * uint (timer_delta_time pt) =
      uint (timer_delta_time pt) + int n * uint (timer_delta_time pt)"
    by (simp add: algebra_simps)
  have "0 \<le> int n * uint (timer_delta_time pt)" by simp
  with Suc.prems(2) step have room: "uint (timer_current_time pt) + uint (timer_delta_time pt)
      + uint (next_trigger_delta pt) < 2 ^ 64" by linarith
  note tick = os_timer_tick_on_schedule [OF Suc.prems(1) room]
  have "uint (timer_current_time ?pt) + int n * uint (timer_delta_time ?pt)
      + uint (next_trigger_delta ?pt) < 2 ^ 64"
    using Suc.prems(2) tick(3) step by (simp add: os_timer_tick_time)
  from Suc.IH [OF tick(1) this] tick(2,3) step show ?case
    by (simp add: os_timer_tick_time algebra_simps)
qed

lemma fired_eq_elapsed_div_period:
  assumes start: "pt = snd (platform_set_periodic_timer cb a interval pt0)"
    and fine: "uint (timer_delta_time pt) \<le> uint (next_trigger_delta pt)"
    and period: "0 < uint (next_trigger_delta pt)"
    and room: "uint (timer_current_time pt) + int n * uint (timer_delta_time pt)
      + uint (next_trigger_delta pt) < 2 ^ 64"
  shows "int (fired n pt) = (int n * uint (timer_delta_time pt)) div uint (next_trigger_delta pt)"
proof -
  have next_time: "next_trigger_time pt = timer_current_time pt + next_trigger_delta pt"
    and "t_callback pt \<noteq> None"
    by (simp_all add: start platform_set_periodic_timer_def Let_def)
  moreover have "0 \<le> int n * uint (timer_delta_time pt)" by simp
  then have nt: "uint (next_trigger_time pt) =
      uint (timer_current_time pt) + uint (next_trigger_delta pt)"
    using room unfolding next_time by (intro uint_add_no_wrap) linarith
  ultimately have "on_schedule pt"
    using fine period by (simp add: on_schedule_def)
  from after_ticks_on_schedule [OF this room] nt
  have lo: "int (fired n pt) * uint (next_trigger_delta pt) \<le> int n * uint (timer_delta_time pt)"
    and hi: "int n * uint (timer_delta_time pt)
      < uint (next_trigger_delta pt) + int (fired n pt) * uint (next_trigger_delta pt)"
    by (auto simp: on_schedule_def)
  then show ?thesis
    by (intro int_div_pos_eq [symmetric,
          where r = "int n * uint (timer_delta_time pt)
                     - uint (next_trigger_delta pt) * int (fired n pt)"])
      (auto simp: algebra_simps)
qed

section \<open>What the divisor arithmetic programs\<close>

lemma pit_count_1000: "pit_count 1000 = 11931"
  by (simp add: pit_count_def INTERNAL_FREQ_def INTERNAL_FREQ_3X_def Let_def)

lemma pit_count_100: "pit_count 100 = 119319"
  by (simp add: pit_count_def INTERNAL_FREQ_def INTERNAL_FREQ_3X_def Let_def)

text \<open>
  The tick time and the divisor describe the same interval exactly when the divisor fits the
  16-bit counter of the device.
\<close>

lemma set_pit_frequency_divisor:
  "unat (divisor (fst (set_pit_frequency f (pt, io)))) = unat (pit_count f) mod 2 ^ 16"
proof -
  have "count AND 0xffff = take_bit 16 count" for count :: "32 word"
    by (simp add: take_bit_eq_mask mask_eq_exp_minus_1)
  then show ?thesis
    by (simp add: set_pit_frequency_def Let_def unsigned_ucast_eq take_bit_eq_mod unsigned_take_bit_eq unat_mod)
qed

end
