(* ===== verification/KState.thy ===== *)
theory KState
  imports CList X86 PlatformTimer
begin

text \<open>
  The state of the kernel (\<open>include/kernel/thread.h\<close>, \<open>timer.h\<close>, \<open>wait_queue.h\<close> and the static
  variables of \<open>kernel/thread.c\<close> and \<open>kernel/timer.c\<close>), and the view of it as a set of queues.

  All list nodes of the kernel live in one node memory, addressed by what they are embedded in:
  \<open>QueueNode t\<close> is \<open>&g_threads[t].queue_node\<close>, \<open>RunQueueHead q\<close> is \<open>&run_queue[q]\<close> and so on. A
  thread pointer is the thread's index in \<open>g_threads\<close>.

  A call that switches to another thread does not come back before that thread is switched to
  again. What it has left to do then is on its kernel stack; \<open>pending\<close> keeps that rest as a list
  of \<open>frame\<close>s, innermost first, and \<open>resume\<close> (theory \<open>Thread\<close>) runs it.
\<close>

section \<open>Threads, timers, wait queues\<close>

type_synonym tid = nat

datatype thread_state =
    THREAD_SUSPENDED
  | THREAD_READY
  | THREAD_RUNNING
  | THREAD_BLOCKED
  | THREAD_SLEEPING
  | THREAD_DEATH

text \<open>
  Timers are local variables of the thread that sleeps or waits (\<open>StackTimer t\<close>, on the stack of
  thread \<open>t\<close>) or other objects; wait queues are the exit queues inside the threads or others.
\<close>

datatype timer_id = StackTimer tid | StaticTimer nat
datatype wq_id = ExitQueue tid | StaticQueue nat

datatype knode =
    RunQueueHead nat
  | ThreadListHead
  | FreeListHead
  | TimerQueueHead
  | WaitListHead wq_id
  | ThreadListNode tid
  | QueueNode tid
  | TimerNode timer_id

datatype timer_callback = ThreadSleepHandler | WaitQueueTimeoutHandler
datatype platform_callback = TimerTick

definition THREAD_FLAG_DETACHED :: "32 word" where "THREAD_FLAG_DETACHED = push_bit 0 1"
definition THREAD_FLAG_IDLE :: "32 word" where "THREAD_FLAG_IDLE = push_bit 1 1"

definition TREAD_NAME_LEN :: nat where "TREAD_NAME_LEN = 31"
definition NUM_PRIORITY :: int where "NUM_PRIORITY = 32"
definition LOWEST_PRIORITY :: int where "LOWEST_PRIORITY = 0"
definition HIGHEST_PRIORITY :: int where "HIGHEST_PRIORITY = NUM_PRIORITY - 1"
definition IDLE_PRIORITY :: int where "IDLE_PRIORITY = LOWEST_PRIORITY"

definition MAX_THREADS_NUM :: int where "MAX_THREADS_NUM = 10"
definition IDLE_THREAD_ID :: int where "IDLE_THREAD_ID = 0"
definition MAX_THREAD_ID :: int where "MAX_THREAD_ID = MAX_THREADS_NUM - 1"

definition INFINIT_TIME :: "64 word" where "INFINIT_TIME = 0xFFFFFFFF"

lemmas priority_defs = NUM_PRIORITY_def LOWEST_PRIORITY_def HIGHEST_PRIORITY_def IDLE_PRIORITY_def
lemmas thread_id_defs = MAX_THREADS_NUM_def IDLE_THREAD_ID_def MAX_THREAD_ID_def

record thread =
  th_thread_id :: int
  th_priority :: int
  th_state :: thread_state
  th_remaining_quantum :: int
  th_flags :: "32 word"
  th_blocking_wait_queue :: "wq_id option"
  th_wait_queue_block_ret :: int
  th_stack :: "64 word"
  th_stack_size :: "64 word"
  th_sp :: "64 word"
  th_entry :: "64 word"
  th_arg :: "64 word"
  th_retcode :: int
  th_name :: "8 word list"

record ktimer =
  sched_time :: "64 word"
  periodic_time :: "64 word"
  callback :: "timer_callback option"
  targ :: "tid option"

text \<open>
  What is left to do on the kernel stack of a thread: \<open>UNLOCK st\<close> is \<open>THREAD_UNLOCK(st)\<close> at the
  end of a function; \<open>RETURN r\<close> is \<open>return r\<close>; \<open>BLOCK_REST\<close> and \<open>JOIN_REST\<close> are the ends of
  \<open>wait_queue_block\<close> and \<open>thread_join\<close>; \<open>EXIT_REST\<close> is the panic after the last switch of
  \<open>thread_exit\<close>; \<open>START\<close> is \<open>initial_thread_func\<close> up to the call of the entry routine; \<open>IRET\<close>
  is the return from an interrupt.
\<close>

datatype frame =
    UNLOCK x64_flags
  | RETURN int
  | BLOCK_REST "64 word"
  | JOIN_REST tid "nat option" x64_flags
  | EXIT_REST
  | START
  | IRET x64_flags

record kstate =
  CONFIG_DEBUG_ASSERT :: bool
  nodes :: "knode nodes"
  g_threads :: "tid \<Rightarrow> thread"
  timers :: "timer_id \<Rightarrow> ktimer"
  wq_count :: "wq_id \<Rightarrow> int"
  run_queue_bitmap :: "32 word"
  current_thread :: "tid option"
  thread_preempt_lock :: "32 word"
  thread_lock :: spinlock
  timer_lock :: spinlock
  rflags :: x64_flags
  rax :: int
  int_cells :: "nat \<Rightarrow> int"
  mem :: "64 word \<Rightarrow> 8 word"
  pending :: "tid \<Rightarrow> frame list"
  ptimer :: "(platform_callback, unit) platform_timer"
  initial_thread_func_addr :: "64 word"
  g_threads_addr :: "64 word"

text \<open>
  The last two fields are addresses the linker chose; nothing writes them.
\<close>

section \<open>Access\<close>

named_theorems kstate_simps \<open>unfolding the access functions of the kernel state\<close>

definition kassert :: "(kstate \<Rightarrow> bool) \<Rightarrow> kstate \<Rightarrow> kstate result" where
  "kassert P s = bindE (debug_assert (CONFIG_DEBUG_ASSERT s) (P s)) (\<lambda>_. Inr s)"

definition on_nodes :: "(knode nodes \<Rightarrow> knode nodes result) \<Rightarrow> kstate \<Rightarrow> kstate result" where
  "on_nodes f s = bindE (f (nodes s)) (\<lambda>h. Inr (s\<lparr>nodes := h\<rparr>))"

definition set_nodes :: "(knode nodes \<Rightarrow> knode nodes) \<Rightarrow> kstate \<Rightarrow> kstate" where
  "set_nodes f s = s\<lparr>nodes := f (nodes s)\<rparr>"

definition upd_thread :: "tid \<Rightarrow> (thread \<Rightarrow> thread) \<Rightarrow> kstate \<Rightarrow> kstate" where
  "upd_thread t f s = s\<lparr>g_threads := (g_threads s)(t := f (g_threads s t))\<rparr>"

definition upd_timer :: "timer_id \<Rightarrow> (ktimer \<Rightarrow> ktimer) \<Rightarrow> kstate \<Rightarrow> kstate" where
  "upd_timer m f s = s\<lparr>timers := (timers s)(m := f (timers s m))\<rparr>"

definition push_frame :: "tid \<Rightarrow> frame \<Rightarrow> kstate \<Rightarrow> kstate" where
  "push_frame t f s = s\<lparr>pending := (pending s)(t := f # pending s t)\<rparr>"

definition upd_count :: "wq_id \<Rightarrow> int \<Rightarrow> kstate \<Rightarrow> kstate result" where
  "upd_count w d s =
     bindE (c_int (wq_count s w + d)) (\<lambda>n. Inr (s\<lparr>wq_count := (wq_count s)(w := n)\<rparr>))"

abbreviation tstate :: "kstate \<Rightarrow> tid \<Rightarrow> thread_state" where
  "tstate s t \<equiv> th_state (g_threads s t)"

lemma kassert_holds [simp, seq_simps]: "P s \<Longrightarrow> kassert P s = Inr s"
  by (simp add: kassert_def)

lemma kassert_off [simp, seq_simps]: "\<not> CONFIG_DEBUG_ASSERT s \<Longrightarrow> kassert P s = Inr s"
  by (simp add: kassert_def)

lemma kassert_fails: "CONFIG_DEBUG_ASSERT s \<Longrightarrow> \<not> P s \<Longrightarrow> kassert P s = Inl AssertFailed"
  by (simp add: kassert_def debug_assert_def)

text \<open>\<open>THREAD_LOCK(state)\<close> and \<open>THREAD_UNLOCK(state)\<close>; the first also returns \<open>state\<close>.\<close>

definition THREAD_LOCK :: "kstate \<Rightarrow> x64_flags \<times> kstate" where
  "THREAD_LOCK s =
     (let (state, (l, f)) = spinlock_save (thread_lock s, rflags s)
      in (state, s\<lparr>thread_lock := l, rflags := f\<rparr>))"

definition THREAD_UNLOCK :: "x64_flags \<Rightarrow> kstate \<Rightarrow> kstate" where
  "THREAD_UNLOCK state s =
     (let (l, f) = spinlock_restore state (thread_lock s, rflags s)
      in s\<lparr>thread_lock := l, rflags := f\<rparr>)"

lemma THREAD_LOCK_eq [simp, kstate_simps]:
  "THREAD_LOCK s = (rflags s, s\<lparr>thread_lock := 1, rflags := arch_disable_ints (rflags s)\<rparr>)"
  by (simp add: THREAD_LOCK_def)

lemma THREAD_UNLOCK_eq [simp, kstate_simps]:
  "THREAD_UNLOCK st s = s\<lparr>thread_lock := 0, rflags := st\<rparr>"
  by (simp add: THREAD_UNLOCK_def)

text \<open>
  \<open>thread_id_to_ptr\<close> and \<open>thread_ptr_to_id\<close>: an index into \<open>g_threads\<close> outside the array is out of
  bounds.
\<close>

definition thread_id_to_ptr :: "int \<Rightarrow> kstate \<Rightarrow> tid result" where
  "thread_id_to_ptr thid s =
     bindE (kassert (\<lambda>s. thid > IDLE_THREAD_ID \<and> thid < MAX_THREAD_ID) s) (\<lambda>s.
     if 0 \<le> thid \<and> thid < MAX_THREADS_NUM then Inr (nat thid) else Inl OutOfBounds)"

definition thread_ptr_to_id :: "tid \<Rightarrow> kstate \<Rightarrow> int result" where
  "thread_ptr_to_id t s =
     bindE (kassert (\<lambda>s. int t < MAX_THREAD_ID) s) (\<lambda>s. Inr (int t))"

lemma thread_id_to_ptr_ok [simp]:
  "0 < thid \<Longrightarrow> thid < 9 \<Longrightarrow> thread_id_to_ptr thid s = Inr (nat thid)"
  by (simp add: thread_id_to_ptr_def thread_id_defs)

lemma thread_ptr_to_id_ok [simp]: "t < 9 \<Longrightarrow> thread_ptr_to_id t s = Inr (int t)"
  by (simp add: thread_ptr_to_id_def thread_id_defs)

text \<open>\<open>container_of\<close>: from an embedded node back to the struct around it.\<close>

definition thread_of_queue_node :: "knode \<Rightarrow> tid result" where
  "thread_of_queue_node n = (case n of QueueNode t \<Rightarrow> Inr t | _ \<Rightarrow> Inl BadCast)"

definition thread_of_list_node :: "knode \<Rightarrow> tid result" where
  "thread_of_list_node n = (case n of ThreadListNode t \<Rightarrow> Inr t | _ \<Rightarrow> Inl BadCast)"

definition timer_of_node :: "knode \<Rightarrow> timer_id result" where
  "timer_of_node n = (case n of TimerNode m \<Rightarrow> Inr m | _ \<Rightarrow> Inl BadCast)"

lemma container_of_simps [simp]:
  "thread_of_queue_node (QueueNode t) = Inr t"
  "thread_of_list_node (ThreadListNode t) = Inr t"
  "timer_of_node (TimerNode m) = Inr m"
  by (simp_all add: thread_of_queue_node_def thread_of_list_node_def timer_of_node_def)

end
