(* ===== verification/KView.thy ===== *)
theory KView
  imports KState
begin

text \<open>
  The kernel state seen as queues. A \<open>kview\<close> names the contents of every list of the kernel;
  \<open>view_ok s v\<close> says that the node memory of \<open>s\<close> holds exactly the lists of \<open>v\<close>. Each list
  operation the kernel performs on a node is an update of one field of the view, which is what
  the proofs of the components above use instead of pointers.
\<close>

section \<open>Views\<close>

record kview =
  runq :: "nat \<Rightarrow> tid list"
  waitq :: "wq_id \<rightharpoonup> tid list"
  thread_l :: "tid list"
  free_l :: "tid list"
  timer_l :: "timer_id list"

definition heads :: "kview \<Rightarrow> (knode \<rightharpoonup> knode list)" where
  "heads v n =
     (case n of
        RunQueueHead q \<Rightarrow> if q < 32 then Some (map QueueNode (runq v q)) else None
      | WaitListHead w \<Rightarrow> map_option (map QueueNode) (waitq v w)
      | ThreadListHead \<Rightarrow> Some (map ThreadListNode (thread_l v))
      | FreeListHead \<Rightarrow> Some (map ThreadListNode (free_l v))
      | TimerQueueHead \<Rightarrow> Some (map TimerNode (timer_l v))
      | _ \<Rightarrow> None)"

definition view_ok :: "kstate \<Rightarrow> kview \<Rightarrow> bool" where
  "view_ok s v \<longleftrightarrow> lists_ok (nodes s) (heads v)"

text \<open>The run queue bitmap has a bit for exactly the queues that are not empty.\<close>

definition bitmap_ok :: "kstate \<Rightarrow> kview \<Rightarrow> bool" where
  "bitmap_ok s v \<longleftrightarrow> (\<forall>q < 32. bit (run_queue_bitmap s) q \<longleftrightarrow> runq v q \<noteq> [])"

definition queued :: "kview \<Rightarrow> tid \<Rightarrow> bool" where
  "queued v t \<longleftrightarrow> (\<exists>q < 32. t \<in> set (runq v q)) \<or> (\<exists>w xs. waitq v w = Some xs \<and> t \<in> set xs)"

lemma heads_simps [simp]:
  "heads v (RunQueueHead q) = (if q < 32 then Some (map QueueNode (runq v q)) else None)"
  "heads v (WaitListHead w) = map_option (map QueueNode) (waitq v w)"
  "heads v ThreadListHead = Some (map ThreadListNode (thread_l v))"
  "heads v FreeListHead = Some (map ThreadListNode (free_l v))"
  "heads v TimerQueueHead = Some (map TimerNode (timer_l v))"
  "heads v (QueueNode t) = None"
  "heads v (ThreadListNode t) = None"
  "heads v (TimerNode m) = None"
  by (simp_all add: heads_def)

lemma heads_upd:
  "q < 32 \<Longrightarrow> (heads v)(RunQueueHead q \<mapsto> map QueueNode xs) = heads (v\<lparr>runq := (runq v)(q := xs)\<rparr>)"
  "(heads v)(WaitListHead w \<mapsto> map QueueNode xs) = heads (v\<lparr>waitq := (waitq v)(w \<mapsto> xs)\<rparr>)"
  "(heads v)(WaitListHead w := None) = heads (v\<lparr>waitq := (waitq v)(w := None)\<rparr>)"
  "(heads v)(ThreadListHead \<mapsto> map ThreadListNode ts) = heads (v\<lparr>thread_l := ts\<rparr>)"
  "(heads v)(FreeListHead \<mapsto> map ThreadListNode ts) = heads (v\<lparr>free_l := ts\<rparr>)"
  "(heads v)(TimerQueueHead \<mapsto> map TimerNode ms) = heads (v\<lparr>timer_l := ms\<rparr>)"
  by (rule ext; simp add: heads_def split: knode.splits)+

lemma heads_upd_snoc:
  "q < 32 \<Longrightarrow> (heads v)(RunQueueHead q \<mapsto> map QueueNode xs @ [QueueNode t]) =
     heads (v\<lparr>runq := (runq v)(q := xs @ [t])\<rparr>)"
  "(heads v)(WaitListHead w \<mapsto> map QueueNode xs @ [QueueNode t]) =
     heads (v\<lparr>waitq := (waitq v)(w \<mapsto> xs @ [t])\<rparr>)"
  "(heads v)(ThreadListHead \<mapsto> map ThreadListNode ts @ [ThreadListNode t]) =
     heads (v\<lparr>thread_l := ts @ [t]\<rparr>)"
  "(heads v)(FreeListHead \<mapsto> map ThreadListNode ts @ [ThreadListNode t]) =
     heads (v\<lparr>free_l := ts @ [t]\<rparr>)"
  "(heads v)(TimerQueueHead \<mapsto> map TimerNode ms @ [TimerNode m]) =
     heads (v\<lparr>timer_l := ms @ [m]\<rparr>)"
  using heads_upd(1) [of q v "xs @ [t]"] heads_upd(2) [of v w "xs @ [t]"]
    heads_upd(4) [of v "ts @ [t]"] heads_upd(5) [of v "ts @ [t]"] heads_upd(6) [of v "ms @ [m]"]
  by simp_all

lemma members_headsE:
  assumes "n \<in> members (heads v)"
  obtains q where "q < 32" and "n \<in> QueueNode ` set (runq v q)"
  | w xs where "waitq v w = Some xs" and "n \<in> QueueNode ` set xs"
  | "n \<in> ThreadListNode ` set (thread_l v)"
  | "n \<in> ThreadListNode ` set (free_l v)"
  | "n \<in> TimerNode ` set (timer_l v)"
proof -
  from assms obtain head xs where "heads v head = Some xs" and "n \<in> set xs"
    by (auto simp: members_def)
  then show thesis
    using that by (cases head) (auto split: if_splits)
qed

lemma members_headsI:
  "q < 32 \<Longrightarrow> t \<in> set (runq v q) \<Longrightarrow> QueueNode t \<in> members (heads v)"
  "waitq v w = Some xs \<Longrightarrow> t \<in> set xs \<Longrightarrow> QueueNode t \<in> members (heads v)"
  "t \<in> set (thread_l v) \<Longrightarrow> ThreadListNode t \<in> members (heads v)"
  "t \<in> set (free_l v) \<Longrightarrow> ThreadListNode t \<in> members (heads v)"
  "m \<in> set (timer_l v) \<Longrightarrow> TimerNode m \<in> members (heads v)"
  using members_I [of "heads v" "RunQueueHead q"] members_I [of "heads v" "WaitListHead w"]
    members_I [of "heads v" ThreadListHead] members_I [of "heads v" FreeListHead]
    members_I [of "heads v" TimerQueueHead]
  by auto

lemma queue_node_members: "QueueNode t \<in> members (heads v) \<longleftrightarrow> queued v t"
  by (auto simp: queued_def elim!: members_headsE intro: members_headsI)

lemma list_node_members:
  "ThreadListNode t \<in> members (heads v) \<longleftrightarrow> t \<in> set (thread_l v) \<or> t \<in> set (free_l v)"
  by (auto elim!: members_headsE intro: members_headsI)

lemma timer_node_members: "TimerNode m \<in> members (heads v) \<longleftrightarrow> m \<in> set (timer_l v)"
  by (auto elim!: members_headsE intro: members_headsI)

lemma wait_head_not_member: "WaitListHead w \<notin> members (heads v)"
  by (auto elim!: members_headsE)

lemma view_cleared:
  assumes "view_ok s v"
  shows "cleared (nodes s) (QueueNode t) \<longleftrightarrow> \<not> queued v t"
    and "cleared (nodes s) (ThreadListNode t) \<longleftrightarrow> t \<notin> set (thread_l v) \<and> t \<notin> set (free_l v)"
    and "cleared (nodes s) (TimerNode m) \<longleftrightarrow> m \<notin> set (timer_l v)"
  using lists_ok_cleared_iff [OF assms [unfolded view_ok_def]]
  by (auto simp: queue_node_members list_node_members timer_node_members)

lemma view_in_list:
  assumes "view_ok s v"
  shows "list_in_list (nodes s) (QueueNode t) \<longleftrightarrow> queued v t"
    and "list_in_list (nodes s) (TimerNode m) \<longleftrightarrow> m \<in> set (timer_l v)"
  using view_cleared [OF assms] by (auto simp: list_in_list_iff)

section \<open>What the lists of a view have in common\<close>

lemma inj_nodes [simp]: "inj QueueNode" "inj ThreadListNode" "inj TimerNode"
  by (auto simp: inj_def)

lemma view_distinct:
  assumes "view_ok s v"
  shows "q < 32 \<Longrightarrow> distinct (runq v q)"
    and "waitq v w = Some xs \<Longrightarrow> distinct xs"
    and "distinct (thread_l v)" and "distinct (free_l v)" and "distinct (timer_l v)"
proof -
  note ok = lists_ok_distinct [OF assms [unfolded view_ok_def]]
  show "q < 32 \<Longrightarrow> distinct (runq v q)"
    using ok [of "RunQueueHead q"] by (simp add: distinct_map)
  show "waitq v w = Some xs \<Longrightarrow> distinct xs"
    using ok [of "WaitListHead w"] by (simp add: distinct_map)
  show "distinct (thread_l v)" using ok [of ThreadListHead] by (simp add: distinct_map)
  show "distinct (free_l v)" using ok [of FreeListHead] by (simp add: distinct_map)
  show "distinct (timer_l v)" using ok [of TimerQueueHead] by (simp add: distinct_map)
qed

lemma view_disjoint:
  assumes "view_ok s v"
  shows "q < 32 \<Longrightarrow> q' < 32 \<Longrightarrow> t \<in> set (runq v q) \<Longrightarrow> t \<in> set (runq v q') \<Longrightarrow> q = q'"
    and "q < 32 \<Longrightarrow> t \<in> set (runq v q) \<Longrightarrow> waitq v w = Some xs \<Longrightarrow> t \<notin> set xs"
    and "waitq v w = Some xs \<Longrightarrow> waitq v w' = Some xs' \<Longrightarrow> t \<in> set xs \<Longrightarrow> t \<in> set xs' \<Longrightarrow> w = w'"
    and "t \<in> set (thread_l v) \<Longrightarrow> t \<notin> set (free_l v)"
proof -
  note ok = lists_ok_disjoint [OF assms [unfolded view_ok_def]]
  show "q < 32 \<Longrightarrow> q' < 32 \<Longrightarrow> t \<in> set (runq v q) \<Longrightarrow> t \<in> set (runq v q') \<Longrightarrow> q = q'"
    using ok [of "RunQueueHead q" _ "RunQueueHead q'" _ "QueueNode t"] by auto
  show "q < 32 \<Longrightarrow> t \<in> set (runq v q) \<Longrightarrow> waitq v w = Some xs \<Longrightarrow> t \<notin> set xs"
    using ok [of "RunQueueHead q" "map QueueNode (runq v q)" "WaitListHead w" "map QueueNode xs" "QueueNode t"]
    by auto
  show "waitq v w = Some xs \<Longrightarrow> waitq v w' = Some xs' \<Longrightarrow> t \<in> set xs \<Longrightarrow> t \<in> set xs' \<Longrightarrow> w = w'"
    using ok [of "WaitListHead w" _ "WaitListHead w'" _ "QueueNode t"] by auto
  show "t \<in> set (thread_l v) \<Longrightarrow> t \<notin> set (free_l v)"
    using ok [of ThreadListHead "map ThreadListNode (thread_l v)" FreeListHead
        "map ThreadListNode (free_l v)" "ThreadListNode t"] by auto
qed

lemma map_remove1_inj: "inj f \<Longrightarrow> remove1 (f x) (map f xs) = map f (remove1 x xs)"
  by (induction xs) (auto simp: inj_eq)

section \<open>List operations as view updates\<close>

named_theorems view_ops \<open>list operations of the kernel as updates of the view\<close>

lemma run_push [view_ops]:
  assumes "view_ok s v" and "q < 32" and "\<not> queued v t"
  shows "\<exists>h. list_add_head (RunQueueHead q) (QueueNode t) (nodes s) = Inr h \<and>
             lists_ok h (heads (v\<lparr>runq := (runq v)(q := runq v q @ [t])\<rparr>))"
    and "\<exists>h. list_add_tail (RunQueueHead q) (QueueNode t) (nodes s) = Inr h \<and>
             lists_ok h (heads (v\<lparr>runq := (runq v)(q := runq v q @ [t])\<rparr>))"
  using add_head_ok [of "nodes s" "heads v" "RunQueueHead q" "map QueueNode (runq v q)" "QueueNode t"]
    add_tail_ok [of "nodes s" "heads v" "RunQueueHead q" "map QueueNode (runq v q)" "QueueNode t"]
    assms view_cleared(1) [OF assms(1)]
  by (auto simp: view_ok_def heads_upd_snoc)

lemma run_delete [view_ops]:
  assumes "view_ok s v" and "q < 32" and "t \<in> set (runq v q)"
  shows "\<exists>h. list_delete (QueueNode t) (nodes s) = Inr h \<and>
             lists_ok h (heads (v\<lparr>runq := (runq v)(q := remove1 t (runq v q))\<rparr>))"
  using delete_ok [of "nodes s" "heads v" "RunQueueHead q" "map QueueNode (runq v q)" "QueueNode t"] assms
  by (auto simp: view_ok_def heads_upd map_remove1_inj)

lemma wait_push [view_ops]:
  assumes "view_ok s v" and "waitq v w = Some xs" and "\<not> queued v t"
  shows "\<exists>h. list_add_tail (WaitListHead w) (QueueNode t) (nodes s) = Inr h \<and>
             lists_ok h (heads (v\<lparr>waitq := (waitq v)(w \<mapsto> xs @ [t])\<rparr>))"
  using add_tail_ok [of "nodes s" "heads v" "WaitListHead w" "map QueueNode xs" "QueueNode t"]
    assms view_cleared(1) [OF assms(1)]
  by (auto simp: view_ok_def heads_upd_snoc)

lemma wait_delete [view_ops]:
  assumes "view_ok s v" and "waitq v w = Some xs" and "t \<in> set xs"
  shows "\<exists>h. list_delete (QueueNode t) (nodes s) = Inr h \<and>
             lists_ok h (heads (v\<lparr>waitq := (waitq v)(w \<mapsto> remove1 t xs)\<rparr>))"
  using delete_ok [of "nodes s" "heads v" "WaitListHead w" "map QueueNode xs" "QueueNode t"] assms
  by (auto simp: view_ok_def heads_upd map_remove1_inj)

lemma wait_pop [view_ops]:
  assumes "view_ok s v" and "waitq v w = Some xs"
  shows "xs = [] \<Longrightarrow> list_remove_head (WaitListHead w) (nodes s) = Inr (None, nodes s)"
    and "xs = t # ts \<Longrightarrow> \<exists>h. list_remove_head (WaitListHead w) (nodes s) = Inr (Some (QueueNode t), h) \<and>
             lists_ok h (heads (v\<lparr>waitq := (waitq v)(w \<mapsto> ts)\<rparr>))"
  using remove_head_empty [of "nodes s" "heads v" "WaitListHead w"]
    remove_head_ok [of "nodes s" "heads v" "WaitListHead w" "QueueNode t" "map QueueNode ts"] assms
  by (auto simp: view_ok_def heads_upd)

lemma wait_initialize [view_ops]:
  assumes "view_ok s v" and "waitq v w = None \<or> waitq v w = Some []"
  shows "lists_ok (list_initialize (WaitListHead w) (nodes s)) (heads (v\<lparr>waitq := (waitq v)(w \<mapsto> [])\<rparr>))"
  using initialize_ok [of "nodes s" "heads v" "WaitListHead w"] wait_head_not_member assms
    heads_upd(2) [of v w "[]"]
  by (auto simp: view_ok_def)

lemma wait_clear [view_ops]:
  assumes "view_ok s v" and "waitq v w = None \<or> waitq v w = Some []"
  shows "lists_ok (list_clear_node (WaitListHead w) (nodes s)) (heads (v\<lparr>waitq := (waitq v)(w := None)\<rparr>))"
  using clear_ok [of "nodes s" "heads v" "WaitListHead w"] wait_head_not_member assms
  by (auto simp: view_ok_def heads_upd)

lemma clear_unlinked [view_ops]:
  assumes "view_ok s v"
  shows "\<not> queued v t \<Longrightarrow> lists_ok (list_clear_node (QueueNode t) (nodes s)) (heads v)"
    and "t \<notin> set (thread_l v) \<Longrightarrow> t \<notin> set (free_l v) \<Longrightarrow>
         lists_ok (list_clear_node (ThreadListNode t) (nodes s)) (heads v)"
    and "m \<notin> set (timer_l v) \<Longrightarrow> lists_ok (list_clear_node (TimerNode m) (nodes s)) (heads v)"
proof -
  have same: "(heads v)(n := None) = heads v" if "heads v n = None" for n
    using that by (simp add: fun_upd_idem)
  note ok = clear_ok [OF assms [unfolded view_ok_def]]
  show "\<not> queued v t \<Longrightarrow> lists_ok (list_clear_node (QueueNode t) (nodes s)) (heads v)"
    using ok [of "QueueNode t"] same [of "QueueNode t"] by (simp add: queue_node_members)
  show "t \<notin> set (thread_l v) \<Longrightarrow> t \<notin> set (free_l v) \<Longrightarrow>
      lists_ok (list_clear_node (ThreadListNode t) (nodes s)) (heads v)"
    using ok [of "ThreadListNode t"] same [of "ThreadListNode t"] by (simp add: list_node_members)
  show "m \<notin> set (timer_l v) \<Longrightarrow> lists_ok (list_clear_node (TimerNode m) (nodes s)) (heads v)"
    using ok [of "TimerNode m"] same [of "TimerNode m"] by (simp add: timer_node_members)
qed

lemma thread_list_push [view_ops]:
  assumes "view_ok s v" and "t \<notin> set (thread_l v)" and "t \<notin> set (free_l v)"
  shows "\<exists>h. list_add_tail ThreadListHead (ThreadListNode t) (nodes s) = Inr h \<and>
             lists_ok h (heads (v\<lparr>thread_l := thread_l v @ [t]\<rparr>))"
    and "\<exists>h. list_add_head ThreadListHead (ThreadListNode t) (nodes s) = Inr h \<and>
             lists_ok h (heads (v\<lparr>thread_l := thread_l v @ [t]\<rparr>))"
    and "\<exists>h. list_add_tail FreeListHead (ThreadListNode t) (nodes s) = Inr h \<and>
             lists_ok h (heads (v\<lparr>free_l := free_l v @ [t]\<rparr>))"
  using add_tail_ok [of "nodes s" "heads v" ThreadListHead "map ThreadListNode (thread_l v)" "ThreadListNode t"]
    add_head_ok [of "nodes s" "heads v" ThreadListHead "map ThreadListNode (thread_l v)" "ThreadListNode t"]
    add_tail_ok [of "nodes s" "heads v" FreeListHead "map ThreadListNode (free_l v)" "ThreadListNode t"]
    assms view_cleared(2) [OF assms(1)]
  by (auto simp: view_ok_def heads_upd_snoc)

lemma thread_list_delete [view_ops]:
  assumes "view_ok s v" and "t \<in> set (thread_l v)"
  shows "\<exists>h. list_delete (ThreadListNode t) (nodes s) = Inr h \<and>
             lists_ok h (heads (v\<lparr>thread_l := remove1 t (thread_l v)\<rparr>))"
  using delete_ok [of "nodes s" "heads v" ThreadListHead "map ThreadListNode (thread_l v)" "ThreadListNode t"] assms
  by (auto simp: view_ok_def heads_upd map_remove1_inj)

lemma free_list_pop [view_ops]:
  assumes "view_ok s v" and "free_l v = t # ts"
  shows "\<exists>h. list_remove_head FreeListHead (nodes s) = Inr (Some (ThreadListNode t), h) \<and>
             lists_ok h (heads (v\<lparr>free_l := ts\<rparr>))"
  using remove_head_ok [of "nodes s" "heads v" FreeListHead "ThreadListNode t" "map ThreadListNode ts"] assms
  by (auto simp: view_ok_def heads_upd)

lemma timer_list_insert [view_ops]:
  assumes "view_ok s v" and "m \<notin> set (timer_l v)"
  shows "\<exists>h. list_add_tail TimerQueueHead (TimerNode m) (nodes s) = Inr h \<and>
             lists_ok h (heads (v\<lparr>timer_l := timer_l v @ [m]\<rparr>))"
    and "timer_l v = us @ e # vs \<Longrightarrow>
         \<exists>h. list_add_before (TimerNode e) (TimerNode m) (nodes s) = Inr h \<and>
             lists_ok h (heads (v\<lparr>timer_l := us @ m # e # vs\<rparr>))"
proof -
  note cl = view_cleared(3) [OF assms(1)]
  show "\<exists>h. list_add_tail TimerQueueHead (TimerNode m) (nodes s) = Inr h \<and>
             lists_ok h (heads (v\<lparr>timer_l := timer_l v @ [m]\<rparr>))"
    using add_tail_ok [of "nodes s" "heads v" TimerQueueHead "map TimerNode (timer_l v)" "TimerNode m"] assms cl
    by (auto simp: view_ok_def heads_upd_snoc)
  show "timer_l v = us @ e # vs \<Longrightarrow>
         \<exists>h. list_add_before (TimerNode e) (TimerNode m) (nodes s) = Inr h \<and>
             lists_ok h (heads (v\<lparr>timer_l := us @ m # e # vs\<rparr>))"
    using add_before_ok [of "nodes s" "heads v" TimerQueueHead "map TimerNode us" "TimerNode e"
        "map TimerNode vs" "TimerNode m"] assms cl heads_upd(6) [of v "us @ m # e # vs"]
    by (auto simp: view_ok_def)
qed

lemma timer_list_delete [view_ops]:
  assumes "view_ok s v" and "m \<in> set (timer_l v)"
  shows "\<exists>h. list_delete (TimerNode m) (nodes s) = Inr h \<and>
             lists_ok h (heads (v\<lparr>timer_l := remove1 m (timer_l v)\<rparr>))"
  using delete_ok [of "nodes s" "heads v" TimerQueueHead "map TimerNode (timer_l v)" "TimerNode m"] assms
  by (auto simp: view_ok_def heads_upd map_remove1_inj)

lemma view_reads [simp]:
  assumes "view_ok s v"
  shows "q < 32 \<Longrightarrow> list_is_empty (nodes s) (RunQueueHead q) \<longleftrightarrow> runq v q = []"
    and "list_is_empty (nodes s) FreeListHead \<longleftrightarrow> free_l v = []"
    and "list_peek_head (nodes s) TimerQueueHead =
           (if timer_l v = [] then None else Some (TimerNode (hd (timer_l v))))"
  using list_reads [OF assms [unfolded view_ok_def], of "RunQueueHead q"]
    list_reads [OF assms [unfolded view_ok_def], of FreeListHead]
    list_reads [OF assms [unfolded view_ok_def], of TimerQueueHead]
  by (auto simp: hd_map)

end
