(* ===== verification/RunQueue.thy ===== *)
theory RunQueue
  imports KView
begin

text \<open>
  The scheduler's core (first part of \<open>kernel/thread.c\<close>): the preemption counter, the free thread
  nodes, the run queues with their bitmap, the choice of the next thread and the switch to it.
  The choice is related to the view of the queues by \<open>pick\<close>.
\<close>

section \<open>Preemption counter and thread nodes\<close>

definition thread_preempt_enable :: "kstate \<Rightarrow> kstate" where
  "thread_preempt_enable s =
     (let (state, s) = THREAD_LOCK s;
          s = (if thread_preempt_lock s > 0
               then s\<lparr>thread_preempt_lock := thread_preempt_lock s - 1\<rparr> else s)
      in THREAD_UNLOCK state s)"

definition thread_preempt_disable :: "kstate \<Rightarrow> kstate" where
  "thread_preempt_disable s =
     (let (state, s) = THREAD_LOCK s;
          s = s\<lparr>thread_preempt_lock := thread_preempt_lock s + 1\<rparr>
      in THREAD_UNLOCK state s)"

definition thread_preempt_is_enabled :: "kstate \<Rightarrow> bool" where
  "thread_preempt_is_enabled s \<longleftrightarrow> (if thread_preempt_lock s \<noteq> 0 then 1 else (0 :: int)) = 0"

text \<open>The scheduling side of the \<open>printf\<close> macro of \<open>libc/include/stdio.h\<close>; its output is not in this state.\<close>

definition printf_bracket :: "kstate \<Rightarrow> kstate" where
  "printf_bracket s = thread_preempt_enable (thread_preempt_disable s)"

definition get_free_thread_node :: "kstate \<Rightarrow> (tid option \<times> kstate) result" where
  "get_free_thread_node s =
     (if list_is_empty (nodes s) FreeListHead then Inr (None, s)
      else let (state, s) = THREAD_LOCK s
           in bindE (list_remove_head FreeListHead (nodes s)) (\<lambda>(node, h).
              let s = s\<lparr>nodes := h\<rparr>
              in bindE (deref node) (\<lambda>node.
                 bindE (thread_of_list_node node) (\<lambda>thread.
                 Inr (Some thread, THREAD_UNLOCK state s)))))"

definition free_thread_node :: "tid \<Rightarrow> kstate \<Rightarrow> kstate result" where
  "free_thread_node thread s =
     (let (state, s) = THREAD_LOCK s
      in bindE (on_nodes (list_add_tail FreeListHead (ThreadListNode thread)) s) (\<lambda>s.
         Inr (THREAD_UNLOCK state s)))"

definition idle_thread :: tid where "idle_thread = nat IDLE_THREAD_ID"

section \<open>Run queues\<close>

definition run_queue :: "int \<Rightarrow> knode result" where
  "run_queue priority =
     (if 0 \<le> priority \<and> priority < NUM_PRIORITY then Inr (RunQueueHead (nat priority))
      else Inl OutOfBounds)"

definition insert_in_run_queue_head :: "tid \<Rightarrow> kstate \<Rightarrow> kstate result" where
  "insert_in_run_queue_head thread s =
     bindE (kassert (\<lambda>s. tstate s thread = THREAD_READY) s) (\<lambda>s.
     bindE (kassert (\<lambda>s. \<not> list_in_list (nodes s) (QueueNode thread)) s) (\<lambda>s.
     bindE (kassert (\<lambda>s. arch_ints_disabled (rflags s)) s) (\<lambda>s.
     bindE (kassert (\<lambda>s. spinlock_held (thread_lock s)) s) (\<lambda>s.
     let priority = th_priority (g_threads s thread)
     in bindE (run_queue priority) (\<lambda>head.
        bindE (on_nodes (list_add_head head (QueueNode thread)) s) (\<lambda>s.
        Inr (s\<lparr>run_queue_bitmap := run_queue_bitmap s OR push_bit (nat priority) 1\<rparr>)))))))"

definition insert_in_run_queue_tail :: "tid \<Rightarrow> kstate \<Rightarrow> kstate result" where
  "insert_in_run_queue_tail thread s =
     bindE (kassert (\<lambda>s. tstate s thread = THREAD_READY) s) (\<lambda>s.
     bindE (kassert (\<lambda>s. \<not> list_in_list (nodes s) (QueueNode thread)) s) (\<lambda>s.
     bindE (kassert (\<lambda>s. arch_ints_disabled (rflags s)) s) (\<lambda>s.
     bindE (kassert (\<lambda>s. spinlock_held (thread_lock s)) s) (\<lambda>s.
     let priority = th_priority (g_threads s thread)
     in bindE (run_queue priority) (\<lambda>head.
        bindE (on_nodes (list_add_tail head (QueueNode thread)) s) (\<lambda>s.
        Inr (s\<lparr>run_queue_bitmap := run_queue_bitmap s OR push_bit (nat priority) 1\<rparr>)))))))"

text \<open>The search loop of \<open>get_new_thread\<close>: the first bit set at or above \<open>q\<close>, or 32.\<close>

function scan_bitmap :: "32 word \<Rightarrow> nat \<Rightarrow> nat" where
  "scan_bitmap bitmap q =
     (if q < 32 then if bitmap AND push_bit q 1 \<noteq> 0 then q else scan_bitmap bitmap (Suc q) else q)"
  by pat_completeness auto
termination
  by (relation "measure (\<lambda>(bitmap, q). 32 - q)") auto

declare scan_bitmap.simps [simp del]

definition get_new_thread :: "kstate \<Rightarrow> (tid \<times> kstate) result" where
  "get_new_thread s =
     (let q = scan_bitmap (run_queue_bitmap s) 0
      in if q \<ge> 32 then Inr (idle_thread, s)
         else bindE (kassert (\<lambda>s. \<not> list_is_empty (nodes s) (RunQueueHead q)) s) (\<lambda>s.
              bindE (deref (nd_next (nodes s (RunQueueHead q)))) (\<lambda>node.
              if node = RunQueueHead q then Inr (idle_thread, s)
              else bindE (thread_of_queue_node node) (\<lambda>new.
                   bindE (on_nodes (list_delete (QueueNode new)) s) (\<lambda>s.
                   let s = (if list_is_empty (nodes s) (RunQueueHead q)
                            then s\<lparr>run_queue_bitmap := run_queue_bitmap s AND NOT (push_bit q 1)\<rparr>
                            else s)
                   in Inr (new, s))))))"

section \<open>Current thread and context switch\<close>

definition get_current_thread :: "kstate \<Rightarrow> tid option result" where
  "get_current_thread s =
     bindE (kassert (\<lambda>s. current_thread s \<noteq> None) s) (\<lambda>s. Inr (current_thread s))"

definition set_current_thread :: "tid \<Rightarrow> kstate \<Rightarrow> kstate" where
  "set_current_thread thread s = s\<lparr>current_thread := Some thread\<rparr>"

definition thread_is_idle :: "kstate \<Rightarrow> tid \<Rightarrow> bool" where
  "thread_is_idle s thread \<longleftrightarrow> th_flags (g_threads s thread) AND THREAD_FLAG_IDLE \<noteq> 0"

text \<open>
  \<open>thread_resched\<close> up to the point where the processor runs on the stack of the chosen thread. The
  context switch itself saves and loads the stack pointers of the two threads; a null \<open>old\<close> is
  dereferenced there.
\<close>

definition thread_resched :: "kstate \<Rightarrow> kstate result" where
  "thread_resched s =
     bindE (get_current_thread s) (\<lambda>old.
     bindE (get_new_thread s) (\<lambda>(new, s).
     let s = upd_thread new (\<lambda>th. th\<lparr>th_state := THREAD_RUNNING\<rparr>) s
     in if Some new = old then Inr s
        else let s = (if th_remaining_quantum (g_threads s new) \<le> 0
                      then upd_thread new (\<lambda>th. th\<lparr>th_remaining_quantum := 5\<rparr>) s else s);
                 s = set_current_thread new s
             in bindE (deref old) (\<lambda>_. Inr s)))"

text \<open>
  \<open>thread_timer_tick\<close>: one tick off the quantum of the running thread; \<open>remaining_quantum--\<close>
  overflows once it is at the least \<open>int\<close>.
\<close>

definition thread_timer_tick :: "kstate \<Rightarrow> (handler_return \<times> kstate) result" where
  "thread_timer_tick s =
     bindE (get_current_thread s) (\<lambda>p.
     bindE (deref p) (\<lambda>thread.
     bindE (c_int (th_remaining_quantum (g_threads s thread) - 1)) (\<lambda>r.
     let s = upd_thread thread (\<lambda>th. th\<lparr>th_remaining_quantum := r\<rparr>) s
     in Inr (if r \<le> 0 \<and> thread_preempt_is_enabled s then INT_RESCHEDULE else INT_NO_RESCHEDULE, s))))"

text \<open>The current thread, dereferenced: what every operation below starts with.\<close>

definition current :: "kstate \<Rightarrow> tid result" where
  "current s = bindE (get_current_thread s) deref"

lemma get_current_thread_Some [simp]: "current_thread s = Some c \<Longrightarrow> get_current_thread s = Inr (Some c)"
  by (simp add: get_current_thread_def)

lemma current_Some [simp]: "current_thread s = Some c \<Longrightarrow> current s = Inr c"
  by (simp add: current_def)

section \<open>The queues as a view\<close>

definition qok :: "knode nodes \<Rightarrow> 32 word \<Rightarrow> kview \<Rightarrow> bool" where
  "qok h b v \<longleftrightarrow> lists_ok h (heads v) \<and> (\<forall>q < 32. bit b q \<longleftrightarrow> runq v q \<noteq> [])"

abbreviation queues_ok :: "kstate \<Rightarrow> kview \<Rightarrow> bool" where
  "queues_ok s v \<equiv> qok (nodes s) (run_queue_bitmap s) v"

lemma qok_view: "queues_ok s v \<Longrightarrow> view_ok s v"
  by (simp add: qok_def view_ok_def)

definition enqueue :: "nat \<Rightarrow> tid \<Rightarrow> kview \<Rightarrow> kview" where
  "enqueue q t v = v\<lparr>runq := (runq v)(q := runq v q @ [t])\<rparr>"

text \<open>The thread the scheduler chooses, and the queues without it.\<close>

definition first_queue :: "kview \<Rightarrow> nat option" where
  "first_queue v = find (\<lambda>q. runq v q \<noteq> []) [0..<32]"

definition pick :: "kview \<Rightarrow> tid \<times> kview" where
  "pick v = (case first_queue v of
               None \<Rightarrow> (idle_thread, v)
             | Some q \<Rightarrow> (hd (runq v q), v\<lparr>runq := (runq v)(q := tl (runq v q))\<rparr>))"

lemma enqueue_simps [simp]:
  "runq (enqueue q t v) = (runq v)(q := runq v q @ [t])"
  "waitq (enqueue q t v) = waitq v"
  "thread_l (enqueue q t v) = thread_l v"
  "free_l (enqueue q t v) = free_l v"
  "timer_l (enqueue q t v) = timer_l v"
  by (simp_all add: enqueue_def)

lemma first_queue_SomeD:
  "first_queue v = Some q \<Longrightarrow> q < 32 \<and> runq v q \<noteq> [] \<and> (\<forall>p < q. runq v p = [])"
proof -
  assume "first_queue v = Some q"
  then obtain i where "i < 32" "runq v ([0..<32] ! i) \<noteq> []" "q = [0..<32] ! i"
    and "\<forall>j < i. \<not> runq v ([0..<32] ! j) \<noteq> []"
    unfolding first_queue_def find_Some_iff by auto
  then show ?thesis by simp
qed

lemma first_queue_None_iff: "first_queue v = None \<longleftrightarrow> (\<forall>q < 32. runq v q = [])"
  by (auto simp: first_queue_def find_None_iff)

lemma first_queue_eqI:
  assumes "q < 32" and "runq v q \<noteq> []" and "\<And>p. p < q \<Longrightarrow> runq v p = []"
  shows "first_queue v = Some q"
proof (cases "first_queue v")
  case None
  with assms show ?thesis by (simp add: first_queue_None_iff)
next
  case (Some p)
  with first_queue_SomeD [OF Some] assms show ?thesis
    by (metis linorder_neqE_nat)
qed

lemma pick_lists [simp]:
  "waitq (snd (pick v)) = waitq v"
  "thread_l (snd (pick v)) = thread_l v"
  "free_l (snd (pick v)) = free_l v"
  "timer_l (snd (pick v)) = timer_l v"
  by (simp_all add: pick_def split: option.splits)

section \<open>Refinement of the operations to the view\<close>

named_theorems sched_specs \<open>what the operations of the scheduler do to state and view\<close>

lemma insert_in_run_queue_spec:
  assumes ok: "queues_ok s v" and free: "\<not> queued v t"
    and prio: "0 \<le> th_priority (g_threads s t)" "th_priority (g_threads s t) < 32"
    and checks: "CONFIG_DEBUG_ASSERT s \<Longrightarrow> tstate s t = THREAD_READY \<and>
      arch_ints_disabled (rflags s) \<and> spinlock_held (thread_lock s)"
  shows "\<exists>h b. insert_in_run_queue_head t s = Inr (s\<lparr>nodes := h, run_queue_bitmap := b\<rparr>) \<and>
           qok h b (enqueue (nat (th_priority (g_threads s t))) t v)"
    and "\<exists>h b. insert_in_run_queue_tail t s = Inr (s\<lparr>nodes := h, run_queue_bitmap := b\<rparr>) \<and>
           qok h b (enqueue (nat (th_priority (g_threads s t))) t v)"
proof -
  let ?q = "nat (th_priority (g_threads s t))"
  let ?b = "run_queue_bitmap s OR push_bit ?q 1"
  from prio have q: "?q < 32" by simp
  note view = qok_view [OF ok]
  have head: "run_queue (th_priority (g_threads s t)) = Inr (RunQueueHead ?q)"
    using prio by (simp add: run_queue_def NUM_PRIORITY_def)
  have asserts: "kassert (\<lambda>s. tstate s t = THREAD_READY) s = Inr s"
    "kassert (\<lambda>s. \<not> list_in_list (nodes s) (QueueNode t)) s = Inr s"
    "kassert (\<lambda>s. arch_ints_disabled (rflags s)) s = Inr s"
    "kassert (\<lambda>s. spinlock_held (thread_lock s)) s = Inr s"
    using checks free view_in_list(1) [OF view] by (cases "CONFIG_DEBUG_ASSERT s"; simp)+
  have bits: "\<forall>p < 32. bit ?b p \<longleftrightarrow> runq (enqueue ?q t v) p \<noteq> []"
    using ok q unfolding qok_def bit_or_shifted_one by auto
  from run_push(1) [OF view q free] obtain h
    where h: "list_add_head (RunQueueHead ?q) (QueueNode t) (nodes s) = Inr h"
      "lists_ok h (heads (enqueue ?q t v))"
    by (auto simp: enqueue_def)
  have "insert_in_run_queue_head t s = Inr (s\<lparr>nodes := h, run_queue_bitmap := ?b\<rparr>)"
    unfolding insert_in_run_queue_head_def Let_def
    by (simp only: asserts bindE_Inr head on_nodes_def h(1)) simp
  with h(2) bits show "\<exists>h b. insert_in_run_queue_head t s = Inr (s\<lparr>nodes := h, run_queue_bitmap := b\<rparr>) \<and>
           qok h b (enqueue ?q t v)"
    unfolding qok_def by blast
  from run_push(2) [OF view q free] obtain h
    where h: "list_add_tail (RunQueueHead ?q) (QueueNode t) (nodes s) = Inr h"
      "lists_ok h (heads (enqueue ?q t v))"
    by (auto simp: enqueue_def)
  have "insert_in_run_queue_tail t s = Inr (s\<lparr>nodes := h, run_queue_bitmap := ?b\<rparr>)"
    unfolding insert_in_run_queue_tail_def Let_def
    by (simp only: asserts bindE_Inr head on_nodes_def h(1)) simp
  with h(2) bits show "\<exists>h b. insert_in_run_queue_tail t s = Inr (s\<lparr>nodes := h, run_queue_bitmap := b\<rparr>) \<and>
           qok h b (enqueue ?q t v)"
    unfolding qok_def by blast
qed

lemma scan_bitmap_spec:
  "scan_bitmap b q = (case find (\<lambda>i. bit b i) [q..<32] of None \<Rightarrow> max q 32 | Some i \<Rightarrow> i)"
proof (induction b q rule: scan_bitmap.induct)
  case (1 b q)
  show ?case
  proof (cases "q < 32")
    case True
    then have "[q..<32] = q # [Suc q..<32]" by (simp add: upt_conv_Cons)
    with True 1 and_shifted_one [of b q] show ?thesis
      by (subst scan_bitmap.simps) (auto split: option.splits)
  next
    case False
    then show ?thesis by (subst scan_bitmap.simps) simp
  qed
qed

lemma scan_bitmap_view:
  assumes "queues_ok s v"
  shows "scan_bitmap (run_queue_bitmap s) 0 = (case first_queue v of None \<Rightarrow> 32 | Some q \<Rightarrow> q)"
proof -
  have "find (\<lambda>i. bit (run_queue_bitmap s) i) [0..<32] = first_queue v"
    unfolding first_queue_def using assms by (intro find_cong) (auto simp: qok_def)
  then show ?thesis by (simp add: scan_bitmap_spec)
qed

lemma get_new_thread_spec:
  assumes ok: "queues_ok s v"
  shows "\<exists>h b. get_new_thread s = Inr (fst (pick v), s\<lparr>nodes := h, run_queue_bitmap := b\<rparr>) \<and>
           qok h b (snd (pick v))"
proof (cases "first_queue v")
  case None
  then show ?thesis
    using ok scan_bitmap_view [OF ok]
    by (intro exI [of _ "nodes s"] exI [of _ "run_queue_bitmap s"])
      (simp add: get_new_thread_def pick_def)
next
  case (Some q)
  from first_queue_SomeD [OF Some] obtain t ts where q: "q < 32" and ts: "runq v q = t # ts"
    by (cases "runq v q") auto
  note view = qok_view [OF ok]
  from lists_ok_dlist [OF view [unfolded view_ok_def], of "RunQueueHead q"] q ts
  have "nd_next (nodes s (RunQueueHead q)) = Some (QueueNode t)"
    by (simp add: dlist_def)
  moreover obtain h where h: "list_delete (QueueNode t) (nodes s) = Inr h"
    "lists_ok h (heads (v\<lparr>runq := (runq v)(q := ts)\<rparr>))"
    using run_delete [OF view q, of t] ts by auto
  let ?v = "v\<lparr>runq := (runq v)(q := ts)\<rparr>"
  let ?b = "if ts = [] then run_queue_bitmap s AND NOT (push_bit q 1) else run_queue_bitmap s"
  have "list_is_empty h (RunQueueHead q) \<longleftrightarrow> ts = []"
    using list_reads(1) [OF h(2), of "RunQueueHead q"] q by simp
  ultimately have "get_new_thread s = Inr (t, s\<lparr>nodes := h, run_queue_bitmap := ?b\<rparr>)"
    using Some q ts h(1) scan_bitmap_view [OF ok] view
    by (simp add: get_new_thread_def on_nodes_def)
  moreover have "pick v = (t, ?v)" using Some ts by (simp add: pick_def)
  moreover have "\<forall>p < 32. bit ?b p \<longleftrightarrow> runq ?v p \<noteq> []"
    using ok q ts unfolding qok_def by (auto simp only: bit_clear_shifted_one split: if_splits)
      (auto split: if_splits)
  ultimately show ?thesis
    using h(2) unfolding qok_def by (intro exI [of _ h] exI [of _ ?b]) simp
qed

text \<open>What a switch to \<open>n\<close> writes besides the queues.\<close>

definition dispatch :: "tid \<Rightarrow> kstate \<Rightarrow> kstate" where
  "dispatch n s =
     (let s' = upd_thread n (\<lambda>th. th\<lparr>th_state := THREAD_RUNNING\<rparr>) s
      in if current_thread s = Some n then s'
         else (upd_thread n (\<lambda>th. if th_remaining_quantum th \<le> 0 then th\<lparr>th_remaining_quantum := 5\<rparr> else th) s')
                \<lparr>current_thread := Some n\<rparr>)"

lemma thread_resched_spec:
  assumes ok: "queues_ok s v" and c: "current_thread s = Some c"
  shows "\<exists>h b. thread_resched s = Inr (dispatch (fst (pick v)) (s\<lparr>nodes := h, run_queue_bitmap := b\<rparr>)) \<and>
           qok h b (snd (pick v))"
proof -
  from get_new_thread_spec [OF ok] obtain h b
    where "get_new_thread s = Inr (fst (pick v), s\<lparr>nodes := h, run_queue_bitmap := b\<rparr>)"
      and "qok h b (snd (pick v))" by blast
  moreover from this(1) c have "thread_resched s =
      Inr (dispatch (fst (pick v)) (s\<lparr>nodes := h, run_queue_bitmap := b\<rparr>))"
    by (auto simp: thread_resched_def dispatch_def upd_thread_def set_current_thread_def Let_def)
  ultimately show ?thesis by blast
qed

lemma dispatch_reads [simp]:
  "current_thread (dispatch n s) = Some n"
  "nodes (dispatch n s) = nodes s"
  "run_queue_bitmap (dispatch n s) = run_queue_bitmap s"
  "timers (dispatch n s) = timers s"
  "wq_count (dispatch n s) = wq_count s"
  "pending (dispatch n s) = pending s"
  "thread_lock (dispatch n s) = thread_lock s"
  "rflags (dispatch n s) = rflags s"
  "CONFIG_DEBUG_ASSERT (dispatch n s) = CONFIG_DEBUG_ASSERT s"
  "ptimer (dispatch n s) = ptimer s"
  "thread_preempt_lock (dispatch n s) = thread_preempt_lock s"
  "int_cells (dispatch n s) = int_cells s"
  "timer_lock (dispatch n s) = timer_lock s"
  "rax (dispatch n s) = rax s"
  "mem (dispatch n s) = mem s"
  "initial_thread_func_addr (dispatch n s) = initial_thread_func_addr s"
  "g_threads_addr (dispatch n s) = g_threads_addr s"
  by (simp_all add: dispatch_def upd_thread_def Let_def)

lemma dispatch_threads:
  "tstate (dispatch n s) t = (if t = n then THREAD_RUNNING else tstate s t)"
  "th_priority (g_threads (dispatch n s) t) = th_priority (g_threads s t)"
  "th_flags (g_threads (dispatch n s) t) = th_flags (g_threads s t)"
  "th_blocking_wait_queue (g_threads (dispatch n s) t) = th_blocking_wait_queue (g_threads s t)"
  "th_wait_queue_block_ret (g_threads (dispatch n s) t) = th_wait_queue_block_ret (g_threads s t)"
  "th_retcode (g_threads (dispatch n s) t) = th_retcode (g_threads s t)"
  "th_entry (g_threads (dispatch n s) t) = th_entry (g_threads s t)"
  by (simp_all add: dispatch_def upd_thread_def Let_def)

lemma dispatch_quantum:
  "current_thread s \<noteq> Some n \<Longrightarrow> 0 < th_remaining_quantum (g_threads (dispatch n s) n)"
  "t \<noteq> n \<Longrightarrow> g_threads (dispatch n s) t = g_threads s t"
  by (simp_all add: dispatch_def upd_thread_def Let_def)

lemma pick_from:
  "fst (pick v) = 0 \<or> (\<exists>q < 32. fst (pick v) \<in> set (runq v q))"
  by (auto simp: pick_def idle_thread_def thread_id_defs split: option.splits dest!: first_queue_SomeD)

section \<open>Order of service\<close>

text \<open>
  What the clients of the run queues rely on: a bank of queues by level, where \<open>push\<close> adds at the
  end of one and \<open>take\<close> removes the front of the first level that is not empty. Then a level is
  served in order of arrival while the levels before it stay empty.
\<close>

locale priority_queues =
  fixes levels :: nat
    and content :: "'v \<Rightarrow> nat \<Rightarrow> 'a list"
    and push :: "nat \<Rightarrow> 'a \<Rightarrow> 'v \<Rightarrow> 'v"
    and take :: "'v \<Rightarrow> 'a \<times> 'v"
  assumes content_push: "content (push q x v) = (content v)(q := content v q @ [x])"
    and take_first: "q < levels \<Longrightarrow> content v q = x # xs \<Longrightarrow> (\<And>p. p < q \<Longrightarrow> content v p = []) \<Longrightarrow>
      fst (take v) = x \<and> content (snd (take v)) = (content v)(q := xs)"
begin

lemma served_in_order:
  assumes "q < levels" and "\<And>p. p < q \<Longrightarrow> content v p = []" and "k < length (content v q)"
  shows "fst (take (((snd \<circ> take) ^^ k) v)) = content v q ! k"
  using assms(2,3)
proof (induction k arbitrary: v)
  case 0
  then obtain x xs where "content v q = x # xs" by (cases "content v q") auto
  with take_first [OF assms(1) this 0(1)] show ?case by simp
next
  case (Suc k)
  then obtain x xs where x: "content v q = x # xs" by (cases "content v q") auto
  note t = take_first [OF assms(1) x Suc.prems(1)]
  have "content (snd (take v)) p = []" if "p < q" for p using t Suc.prems(1) [OF that] that by simp
  moreover have "k < length (content (snd (take v)) q)" using t x Suc.prems(2) by simp
  ultimately have "fst (take (((snd \<circ> take) ^^ k) (snd (take v)))) = content (snd (take v)) q ! k"
    by (rule Suc.IH)
  then show ?case using t x by (simp add: funpow_Suc_right comp_def del: funpow.simps)
qed

text \<open>A newcomer waits for exactly those that were there.\<close>

lemma newcomer_served:
  assumes "q < levels" and "\<And>p. p < q \<Longrightarrow> content v p = []"
  shows "fst (take (((snd \<circ> take) ^^ length (content v q)) (push q x v))) = x"
  using served_in_order [of q "push q x v" "length (content v q)"] assms by (simp add: content_push)

end

lemma pick_first:
  assumes "q < 32" and "runq v q = x # xs" and "\<And>p. p < q \<Longrightarrow> runq v p = []"
  shows "fst (pick v) = x \<and> runq (snd (pick v)) = (runq v)(q := xs)"
proof -
  have "first_queue v = Some q" using assms by (intro first_queue_eqI) simp_all
  with assms(2) show ?thesis by (simp add: pick_def)
qed

interpretation run_queues: priority_queues 32 runq enqueue pick
  by unfold_locales (simp, rule pick_first)

end
