(* ===== verification/KTimer.thy ===== *)
theory KTimer
  imports RunQueue
begin

text \<open>
  \<open>kernel/timer.c\<close>: software timers in one queue ordered by the time they fire. The callbacks are
  functions of other files; the timer interrupt \<open>timer_tick\<close> takes what calling one does as the
  parameter \<open>invoke\<close>, instantiated in theory \<open>Kernel\<close> with the two handlers of the kernel.
\<close>

section \<open>Operations\<close>

definition TIMER_INITIAL_VALUE :: ktimer where
  "TIMER_INITIAL_VALUE = \<lparr>sched_time = 0, periodic_time = 0, callback = None, targ = None\<rparr>"

definition timer_initialize :: "timer_id \<Rightarrow> kstate \<Rightarrow> kstate" where
  "timer_initialize timer s =
     set_nodes (list_clear_node (TimerNode timer)) (upd_timer timer (\<lambda>_. TIMER_INITIAL_VALUE) s)"

text \<open>
  The search of \<open>insert_timer_in_queue\<close>: the first entry that fires strictly later, \<open>None\<close> when the
  loop comes back to the head.
\<close>

partial_function (option) timer_scan ::
    "kstate \<Rightarrow> 64 word \<Rightarrow> knode option \<Rightarrow> timer_id option result option" where
  "timer_scan s when node =
     (if node = Some TimerQueueHead then Some (Inr None)
      else case node of
        None \<Rightarrow> Some (Inl NullDeref)
      | Some n \<Rightarrow>
          (case timer_of_node n of
             Inl e \<Rightarrow> Some (Inl e)
           | Inr entry \<Rightarrow>
               if sched_time (timers s entry) > when then Some (Inr (Some entry))
               else timer_scan s when (nd_next (nodes s n))))"

definition insert_timer_in_queue :: "timer_id \<Rightarrow> kstate \<Rightarrow> kstate result" where
  "insert_timer_in_queue timer s =
     bindE (kassert (\<lambda>s. arch_ints_disabled (rflags s)) s) (\<lambda>s.
     bindE (loop_result (timer_scan s (sched_time (timers s timer))
              (nd_next (nodes s TimerQueueHead)))) (\<lambda>found.
     case found of
       Some entry \<Rightarrow> on_nodes (list_add_before (TimerNode entry) (TimerNode timer)) s
     | None \<Rightarrow> on_nodes (list_add_tail TimerQueueHead (TimerNode timer)) s))"

definition timer_irq_save :: "kstate \<Rightarrow> x64_flags \<times> kstate" where
  "timer_irq_save s =
     (let (state, (l, f)) = spinlock_save (timer_lock s, rflags s)
      in (state, s\<lparr>timer_lock := l, rflags := f\<rparr>))"

definition timer_irq_restore :: "x64_flags \<Rightarrow> kstate \<Rightarrow> kstate" where
  "timer_irq_restore state s =
     (let (l, f) = spinlock_restore state (timer_lock s, rflags s)
      in s\<lparr>timer_lock := l, rflags := f\<rparr>)"

lemma timer_irq_eqs [simp]:
  "timer_irq_save s = (rflags s, s\<lparr>timer_lock := 1, rflags := arch_disable_ints (rflags s)\<rparr>)"
  "timer_irq_restore st s = s\<lparr>timer_lock := 0, rflags := st\<rparr>"
  by (simp_all add: timer_irq_save_def timer_irq_restore_def)

definition timer_set ::
    "timer_id \<Rightarrow> 64 word \<Rightarrow> 64 word \<Rightarrow> timer_callback \<Rightarrow> tid option \<Rightarrow> kstate \<Rightarrow> kstate result" where
  "timer_set timer delay period cb a s =
     bindE (kassert (\<lambda>s. \<not> list_in_list (nodes s) (TimerNode timer)) s) (\<lambda>s.
     let now = current_time (ptimer s);
         s = upd_timer timer (\<lambda>tm. tm\<lparr>sched_time := now + delay, periodic_time := period,
               callback := Some cb, targ := a\<rparr>) s;
         (state, s) = timer_irq_save s
     in bindE (insert_timer_in_queue timer s) (\<lambda>s. Inr (timer_irq_restore state s)))"

definition timer_set_oneshot ::
    "timer_id \<Rightarrow> 64 word \<Rightarrow> timer_callback \<Rightarrow> tid option \<Rightarrow> kstate \<Rightarrow> kstate result" where
  "timer_set_oneshot timer delay cb a s =
     (let delay = (if delay = 0 then 1 else delay) in timer_set timer delay 0 cb a s)"

definition timer_set_periodic ::
    "timer_id \<Rightarrow> 64 word \<Rightarrow> timer_callback \<Rightarrow> tid option \<Rightarrow> kstate \<Rightarrow> kstate result" where
  "timer_set_periodic timer period cb a s =
     (let period = (if period = 0 then 1 else period) in timer_set timer period period cb a s)"

definition timer_cancel :: "timer_id \<Rightarrow> kstate \<Rightarrow> kstate result" where
  "timer_cancel timer s =
     (let (state, s) = timer_irq_save s
      in bindE (if list_in_list (nodes s) (TimerNode timer)
                then on_nodes (list_delete (TimerNode timer)) s else Inr s) (\<lambda>s.
         let s = upd_timer timer (\<lambda>tm. tm\<lparr>periodic_time := 0, callback := None, targ := None\<rparr>) s
         in Inr (timer_irq_restore state s)))"

type_synonym invoke =
  "timer_callback \<Rightarrow> timer_id \<Rightarrow> 64 word \<Rightarrow> tid option \<Rightarrow> kstate \<Rightarrow> (handler_return \<times> kstate) result"

text \<open>The body of the loop of \<open>timer_tick\<close>, for a timer that is due.\<close>

definition timer_fire ::
    "invoke \<Rightarrow> 64 word \<Rightarrow> timer_id \<Rightarrow> handler_return \<Rightarrow> kstate \<Rightarrow> (handler_return \<times> kstate) result" where
  "timer_fire invoke now timer ret s =
     bindE (on_nodes (list_delete (TimerNode timer)) s) (\<lambda>s.
     let periodic = periodic_time (timers s timer) > 0
     in bindE (deref (callback (timers s timer))) (\<lambda>cb.
        bindE (invoke cb timer now (targ (timers s timer)) s) (\<lambda>(r, s).
        let ret = (if r = INT_RESCHEDULE then INT_RESCHEDULE else ret)
        in if periodic
           then if \<not> list_in_list (nodes s) (TimerNode timer) \<and> periodic_time (timers s timer) > 0
                then let s = upd_timer timer (\<lambda>tm. tm\<lparr>sched_time := now + periodic_time tm\<rparr>) s
                     in bindE (insert_timer_in_queue timer s) (\<lambda>s. Inr (ret, s))
                else Inr (ret, s)
           else Inr (ret, s))))"

partial_function (option) timer_loop ::
    "invoke \<Rightarrow> 64 word \<Rightarrow> handler_return \<Rightarrow> kstate \<Rightarrow> (handler_return \<times> kstate) result option" where
  "timer_loop invoke now ret s =
     (case list_peek_head (nodes s) TimerQueueHead of
        None \<Rightarrow> Some (Inr (ret, s))
      | Some node \<Rightarrow>
          (case timer_of_node node of
             Inl e \<Rightarrow> Some (Inl e)
           | Inr timer \<Rightarrow>
               if now < sched_time (timers s timer) then Some (Inr (ret, s))
               else (case timer_fire invoke now timer ret s of
                       Inl e \<Rightarrow> Some (Inl e)
                     | Inr (ret', s') \<Rightarrow> timer_loop invoke now ret' s')))"

definition timer_tick :: "invoke \<Rightarrow> 64 word \<Rightarrow> kstate \<Rightarrow> (handler_return \<times> kstate) result" where
  "timer_tick invoke now s =
     bindE (kassert (\<lambda>s. arch_ints_disabled (rflags s)) s) (\<lambda>s.
     bindE (loop_result (timer_loop invoke now INT_NO_RESCHEDULE s)) (\<lambda>(ret, s).
     bindE (thread_timer_tick s) (\<lambda>(r, s).
     Inr (if r = INT_RESCHEDULE then INT_RESCHEDULE else ret, s))))"

text \<open>The part of \<open>timer_init\<close> that touches this state: lock, queue, and the periodic trigger.\<close>

definition timer_init :: "kstate \<Rightarrow> kstate" where
  "timer_init s =
     (let s = printf_bracket s;
          s = s\<lparr>timer_lock := SPINLOCK_INITIAL_VALUE\<rparr>;
          s = set_nodes (list_initialize TimerQueueHead) s;
          s = printf_bracket s
      in s\<lparr>ptimer := snd (platform_set_periodic_timer TimerTick None 10 (ptimer s))\<rparr>)"

section \<open>Queues ordered by deadline\<close>

text \<open>
  What the timer queue has to offer the interrupt: insertion keeps every entry and the order by
  deadline. Then the due entries are exactly the front of the queue, so the loop of \<open>timer_tick\<close>
  that stops at the first entry in the future has missed none.
\<close>

locale deadline_queue =
  fixes key :: "'a \<Rightarrow> 'k :: linorder"
    and ins :: "'a \<Rightarrow> 'a list \<Rightarrow> 'a list"
  assumes set_ins: "set (ins x xs) = insert x (set xs)"
    and sorted_ins: "sorted (map key xs) \<Longrightarrow> sorted (map key (ins x xs))"
    and length_ins: "length (ins x xs) = Suc (length xs)"
begin

lemma fold_ins: "sorted (map key xs) \<Longrightarrow>
    sorted (map key (fold ins ys xs)) \<and> set (fold ins ys xs) = set ys \<union> set xs \<and>
    length (fold ins ys xs) = length ys + length xs"
  by (induction ys arbitrary: xs) (auto simp: set_ins sorted_ins length_ins)

lemma due_prefix:
  "sorted (map key xs) \<Longrightarrow> takeWhile (\<lambda>x. key x \<le> now) xs = filter (\<lambda>x. key x \<le> now) xs"
proof (induction xs)
  case (Cons a xs)
  show ?case
  proof (cases "key a \<le> now")
    case False
    with Cons.prems have "\<forall>x \<in> set xs. \<not> key x \<le> now" by force
    then have "filter (\<lambda>x. key x \<le> now) xs = []" by (simp add: filter_empty_conv)
    with False show ?thesis by simp
  qed (use Cons in simp)
qed simp

lemma due_rest:
  "sorted (map key xs) \<Longrightarrow> dropWhile (\<lambda>x. key x \<le> now) xs = filter (\<lambda>x. \<not> key x \<le> now) xs"
proof (induction xs)
  case (Cons a xs)
  show ?case
  proof (cases "key a \<le> now")
    case False
    with Cons.prems have "\<forall>x \<in> set xs. \<not> key x \<le> now" by force
    with False show ?thesis by (simp add: filter_id_conv)
  qed (use Cons in simp)
qed simp

lemma head_is_earliest:
  "sorted (map key xs) \<Longrightarrow> x \<in> set xs \<Longrightarrow> key (hd xs) \<le> key x"
  by (cases xs) auto

end

definition insert_by :: "('a \<Rightarrow> 'k :: linorder) \<Rightarrow> 'a \<Rightarrow> 'a list \<Rightarrow> 'a list" where
  "insert_by f x xs = takeWhile (\<lambda>y. f y \<le> f x) xs @ x # dropWhile (\<lambda>y. f y \<le> f x) xs"

lemma set_insert_by: "set (insert_by f x xs) = insert x (set xs)"
  by (metis insert_by_def Un_insert_right list.simps(15) set_append takeWhile_dropWhile_id)

lemma sorted_insert_by: "sorted (map f xs) \<Longrightarrow> sorted (map f (insert_by f x xs))"
proof (induction xs)
  case Nil
  then show ?case by (simp add: insert_by_def)
next
  case (Cons y ys)
  then have IH: "sorted (map f (insert_by f x ys))" by simp
  show ?case
  proof (cases "f y \<le> f x")
    case True
    then have "insert_by f x (y # ys) = y # insert_by f x ys" by (simp add: insert_by_def)
    with IH True Cons.prems show ?thesis by (auto simp: set_insert_by)
  next
    case False
    then have "insert_by f x (y # ys) = x # y # ys" by (simp add: insert_by_def)
    with False Cons.prems show ?thesis by auto
  qed
qed

lemma length_insert_by: "length (insert_by f x xs) = Suc (length xs)"
  by (metis insert_by_def add_Suc_right length_Cons length_append takeWhile_dropWhile_id)

interpretation timer_order: deadline_queue f "insert_by f" for f :: "'a \<Rightarrow> 'k :: linorder"
  by unfold_locales (simp_all add: set_insert_by sorted_insert_by length_insert_by)

section \<open>The operations on the view\<close>

definition due_time :: "kstate \<Rightarrow> timer_id \<Rightarrow> 64 word" where
  "due_time s m = sched_time (timers s m)"

lemma timer_scan_dseg:
  assumes "dseg (nodes s) a (map TimerNode ms) TimerQueueHead"
  shows "timer_scan s when (nd_next (nodes s a)) =
           Some (Inr (find (\<lambda>m. when < due_time s m) ms))"
  using assms
proof (induction ms arbitrary: a)
  case Nil
  then show ?case by (simp add: timer_scan.simps)
next
  case (Cons m ms)
  then show ?case
    by (subst timer_scan.simps) (simp add: due_time_def)
qed

lemma timer_scan_view:
  "view_ok s v \<Longrightarrow> timer_scan s when (nd_next (nodes s TimerQueueHead)) =
     Some (Inr (find (\<lambda>m. when < due_time s m) (timer_l v)))"
  using lists_ok_dlist [of "nodes s" "heads v" TimerQueueHead]
  by (intro timer_scan_dseg) (simp add: view_ok_def dlist_def)

lemma insert_by_find:
  "(case find (\<lambda>y. f x < f y) xs of
      None \<Rightarrow> insert_by f x xs = xs @ [x]
    | Some e \<Rightarrow> \<exists>us vs. xs = us @ e # vs \<and> insert_by f x xs = us @ x # e # vs)"
proof (induction xs)
  case Nil
  then show ?case by (simp add: insert_by_def)
next
  case (Cons y ys)
  show ?case
  proof (cases "f x < f y")
    case True
    then have "\<not> f y \<le> f x" by simp
    then have "insert_by f x (y # ys) = x # y # ys" by (simp add: insert_by_def)
    with True show ?thesis by (auto intro: exI [of _ "[]"])
  next
    case False
    then have "f y \<le> f x" by simp
    then have "insert_by f x (y # ys) = y # insert_by f x ys" by (simp add: insert_by_def)
    with False Cons show ?thesis
      by (auto split: option.splits) (metis append_Cons)+
  qed
qed

lemma insert_timer_spec:
  assumes ok: "queues_ok s v" and new: "m \<notin> set (timer_l v)"
    and off: "CONFIG_DEBUG_ASSERT s \<Longrightarrow> arch_ints_disabled (rflags s)"
  shows "\<exists>h. insert_timer_in_queue m s = Inr (s\<lparr>nodes := h\<rparr>) \<and>
    qok h (run_queue_bitmap s) (v\<lparr>timer_l := insert_by (due_time s) m (timer_l v)\<rparr>)"
proof -
  note view = qok_view [OF ok]
  have a: "kassert (\<lambda>s. arch_ints_disabled (rflags s)) s = Inr s"
    using off by (cases "CONFIG_DEBUG_ASSERT s") simp_all
  have scan: "loop_result (timer_scan s (sched_time (timers s m)) (nd_next (nodes s TimerQueueHead))) =
      Inr (find (\<lambda>e. due_time s m < due_time s e) (timer_l v))"
    using timer_scan_view [OF view] by (simp add: due_time_def)
  note pos = insert_by_find [of "due_time s" m "timer_l v"]
  have bits: "qok h (run_queue_bitmap s) (v\<lparr>timer_l := ms\<rparr>)" if "lists_ok h (heads (v\<lparr>timer_l := ms\<rparr>))" for h ms
    using that ok by (simp add: qok_def)
  show ?thesis
  proof (cases "find (\<lambda>e. due_time s m < due_time s e) (timer_l v)")
    case None
    with pos have "insert_by (due_time s) m (timer_l v) = timer_l v @ [m]" by simp
    with None timer_list_insert(1) [OF view new] scan a bits show ?thesis
      by (auto simp: insert_timer_in_queue_def on_nodes_def)
  next
    case (Some e)
    with pos obtain us vs where "timer_l v = us @ e # vs"
      "insert_by (due_time s) m (timer_l v) = us @ m # e # vs" by auto
    moreover from timer_list_insert(2) [OF view new this(1)] obtain h where
      "list_add_before (TimerNode e) (TimerNode m) (nodes s) = Inr h"
      "lists_ok h (heads (v\<lparr>timer_l := us @ m # e # vs\<rparr>))" by blast
    ultimately show ?thesis
      using Some scan a bits
      by (intro exI [of _ h]) (simp add: insert_timer_in_queue_def on_nodes_def)
  qed
qed

lemma timer_set_spec:
  assumes ok: "queues_ok s v" and new: "m \<notin> set (timer_l v)"
  shows "\<exists>h s'. timer_set m delay period cb a s = Inr s' \<and>
    s' = s\<lparr>nodes := h, timer_lock := 0,
           timers := (timers s)(m := \<lparr>sched_time = current_time (ptimer s) + delay,
                                      periodic_time = period, callback = Some cb, targ = a\<rparr>)\<rparr> \<and>
    qok h (run_queue_bitmap s) (v\<lparr>timer_l := insert_by (due_time s') m (timer_l v)\<rparr>)"
proof -
  let ?tm = "\<lparr>sched_time = current_time (ptimer s) + delay, periodic_time = period,
    callback = Some cb, targ = a\<rparr>"
  let ?s1 = "s\<lparr>timers := (timers s)(m := ?tm), timer_lock := 1, rflags := arch_disable_ints (rflags s)\<rparr>"
  have upd: "(timers s m)\<lparr>sched_time := current_time (ptimer s) + delay, periodic_time := period,
      callback := Some cb, targ := a\<rparr> = ?tm" by simp
  have a: "kassert (\<lambda>s. \<not> list_in_list (nodes s) (TimerNode m)) s = Inr s"
    using view_in_list(2) [OF qok_view [OF ok]] new by simp
  have "queues_ok ?s1 v" using ok by simp
  from insert_timer_spec [OF this new] obtain h where
    h: "insert_timer_in_queue m ?s1 = Inr (?s1\<lparr>nodes := h\<rparr>)"
    "qok h (run_queue_bitmap s) (v\<lparr>timer_l := insert_by (due_time ?s1) m (timer_l v)\<rparr>)" by auto
  let ?s' = "s\<lparr>nodes := h, timer_lock := 0, timers := (timers s)(m := ?tm)\<rparr>"
  have "timer_set m delay period cb a s = Inr ?s'"
    using h(1) unfolding timer_set_def a bindE_Inr Let_def upd_timer_def upd by simp
  moreover have "due_time ?s' = due_time ?s1" by (rule ext) (simp add: due_time_def)
  ultimately show ?thesis using h(2) by metis
qed

lemma timer_cancel_spec:
  assumes ok: "queues_ok s v"
  shows "\<exists>h. timer_cancel m s = Inr (s\<lparr>nodes := h, timer_lock := 0,
           timers := (timers s)(m := (timers s m)\<lparr>periodic_time := 0, callback := None, targ := None\<rparr>)\<rparr>) \<and>
    qok h (run_queue_bitmap s) (v\<lparr>timer_l := remove1 m (timer_l v)\<rparr>)"
proof (cases "m \<in> set (timer_l v)")
  case True
  note view = qok_view [OF ok]
  from timer_list_delete [OF view True] obtain h where
    "list_delete (TimerNode m) (nodes s) = Inr h" "lists_ok h (heads (v\<lparr>timer_l := remove1 m (timer_l v)\<rparr>))"
    by blast
  with ok True view_in_list(2) [OF view, of m] show ?thesis
    by (intro exI [of _ h]) (simp add: timer_cancel_def on_nodes_def upd_timer_def qok_def)
next
  case False
  with ok view_in_list(2) [OF qok_view [OF ok], of m] show ?thesis
    by (intro exI [of _ "nodes s"])
      (simp add: timer_cancel_def upd_timer_def remove1_idem)
qed

end
