(* ===== verification/WaitQueue.thy ===== *)
theory WaitQueue
  imports KTimer
begin

text \<open>
  \<open>kernel/wait_queue.c\<close>, with \<open>thread_unblock_from_wait_queue\<close> of \<open>kernel/thread.c\<close> which its timeout
  handler calls. A call that ends in a value leaves it in \<open>rax\<close>. A call that switches away first
  pushes what it has left to do: \<open>BLOCK_REST\<close> for \<open>wait_queue_block\<close>, \<open>RETURN\<close> for the two wake
  functions.
\<close>

section \<open>Operations\<close>

definition set_rax :: "int \<Rightarrow> kstate \<Rightarrow> kstate" where
  "set_rax r s = s\<lparr>rax := r\<rparr>"

definition wait_queue_init :: "wq_id \<Rightarrow> kstate \<Rightarrow> kstate" where
  "wait_queue_init q s =
     (set_nodes (list_initialize (WaitListHead q)) s)\<lparr>wq_count := (wq_count s)(q := 0)\<rparr>"

definition wait_queue_block :: "wq_id \<Rightarrow> 64 word \<Rightarrow> kstate \<Rightarrow> kstate result" where
  "wait_queue_block q timeout s =
     bindE (current s) (\<lambda>thread.
     bindE (kassert (\<lambda>s. tstate s thread = THREAD_RUNNING) s) (\<lambda>s.
     bindE (kassert (\<lambda>s. arch_ints_disabled (rflags s)) s) (\<lambda>s.
     if timeout = 0 then Inr (set_rax ERR_TIMED_OUT s)
     else
       bindE (on_nodes (list_add_tail (WaitListHead q) (QueueNode thread)) s) (\<lambda>s.
       bindE (upd_count q 1 s) (\<lambda>s.
       let s = upd_thread thread (\<lambda>th. th\<lparr>th_state := THREAD_BLOCKED,
                 th_blocking_wait_queue := Some q, th_wait_queue_block_ret := NO_ERR\<rparr>) s
       in bindE (if timeout \<noteq> INFINIT_TIME
                 then timer_set_oneshot (StackTimer thread) timeout WaitQueueTimeoutHandler (Some thread)
                        (timer_initialize (StackTimer thread) s)
                 else Inr s) (\<lambda>s.
          thread_resched (push_frame thread (BLOCK_REST timeout) s)))))))"

definition wait_queue_block_rest :: "tid \<Rightarrow> 64 word \<Rightarrow> kstate \<Rightarrow> kstate result" where
  "wait_queue_block_rest thread timeout s =
     bindE (if timeout \<noteq> INFINIT_TIME then timer_cancel (StackTimer thread) s else Inr s) (\<lambda>s.
     Inr (set_rax (th_wait_queue_block_ret (g_threads s thread)) s))"

text \<open>What both wake functions do to the thread whose node they took off the queue.\<close>

definition mark_woken :: "wq_id \<Rightarrow> int \<Rightarrow> knode \<Rightarrow> kstate \<Rightarrow> (tid \<times> kstate) result" where
  "mark_woken q error node s =
     bindE (thread_of_queue_node node) (\<lambda>blocked_thread.
     bindE (upd_count q (-1) s) (\<lambda>s.
     bindE (kassert (\<lambda>s. tstate s blocked_thread = THREAD_BLOCKED) s) (\<lambda>s.
     Inr (blocked_thread,
          upd_thread blocked_thread (\<lambda>th. th\<lparr>th_state := THREAD_READY,
            th_wait_queue_block_ret := error, th_blocking_wait_queue := None\<rparr>) s))))"

definition requeue_current :: "kstate \<Rightarrow> kstate result" where
  "requeue_current s =
     bindE (deref (current_thread s)) (\<lambda>thread.
     insert_in_run_queue_head thread (upd_thread thread (\<lambda>th. th\<lparr>th_state := THREAD_READY\<rparr>) s))"

definition return_after_resched :: "int \<Rightarrow> kstate \<Rightarrow> kstate result" where
  "return_after_resched r s =
     bindE (deref (current_thread s)) (\<lambda>thread. thread_resched (push_frame thread (RETURN r) s))"

definition wait_queue_wake_one :: "wq_id \<Rightarrow> bool \<Rightarrow> int \<Rightarrow> kstate \<Rightarrow> kstate result" where
  "wait_queue_wake_one q reschedule error s =
     bindE (get_current_thread s) (\<lambda>_.
     bindE (kassert (\<lambda>s. arch_ints_disabled (rflags s)) s) (\<lambda>s.
     bindE (list_remove_head (WaitListHead q) (nodes s)) (\<lambda>(node, h).
     let s = s\<lparr>nodes := h\<rparr>
     in case node of
          None \<Rightarrow> Inr (set_rax 0 s)
        | Some node \<Rightarrow>
            bindE (mark_woken q error node s) (\<lambda>(blocked_thread, s).
            bindE (if reschedule then requeue_current s else Inr s) (\<lambda>s.
            bindE (insert_in_run_queue_head blocked_thread s) (\<lambda>s.
            if reschedule then return_after_resched 1 s else Inr (set_rax 1 s)))))))"

partial_function (option) wake_loop ::
    "wq_id \<Rightarrow> int \<Rightarrow> int \<Rightarrow> kstate \<Rightarrow> (int \<times> kstate) result option" where
  "wake_loop q error ret s =
     (case list_remove_head (WaitListHead q) (nodes s) of
        Inl e \<Rightarrow> Some (Inl e)
      | Inr (None, h) \<Rightarrow> Some (Inr (ret, s\<lparr>nodes := h\<rparr>))
      | Inr (Some node, h) \<Rightarrow>
          (case bindE (mark_woken q error node (s\<lparr>nodes := h\<rparr>)) (\<lambda>(blocked_thread, s).
                bindE (insert_in_run_queue_head blocked_thread s) (\<lambda>s.
                bindE (c_int (ret + 1)) (\<lambda>r. Inr (r, s)))) of
             Inl e \<Rightarrow> Some (Inl e)
           | Inr (ret', s') \<Rightarrow> wake_loop q error ret' s'))"

definition wait_queue_wake_all :: "wq_id \<Rightarrow> bool \<Rightarrow> int \<Rightarrow> kstate \<Rightarrow> kstate result" where
  "wait_queue_wake_all q reschedule error s =
     bindE (get_current_thread s) (\<lambda>_.
     bindE (kassert (\<lambda>s. arch_ints_disabled (rflags s)) s) (\<lambda>s.
     bindE (if reschedule \<and> wq_count s q > 0 then requeue_current s else Inr s) (\<lambda>s.
     bindE (loop_result (wake_loop q error 0 s)) (\<lambda>(ret, s).
     if ret > 0 \<and> reschedule then return_after_resched ret s else Inr (set_rax ret s)))))"

definition wait_queue_destroy :: "wq_id \<Rightarrow> bool \<Rightarrow> kstate \<Rightarrow> kstate result" where
  "wait_queue_destroy q reschedule s =
     bindE (kassert (\<lambda>s. arch_ints_disabled (rflags s)) s) (\<lambda>s.
     wait_queue_wake_all q reschedule ERR_OBJECT_DESTORYED s)"

definition thread_unblock_from_wait_queue :: "tid \<Rightarrow> int \<Rightarrow> kstate \<Rightarrow> (int \<times> kstate) result" where
  "thread_unblock_from_wait_queue thread error s =
     bindE (kassert (\<lambda>s. arch_ints_disabled (rflags s)) s) (\<lambda>s.
     bindE (kassert (\<lambda>s. spinlock_held (thread_lock s)) s) (\<lambda>s.
     if tstate s thread \<noteq> THREAD_BLOCKED then Inr (- ERR_NOT_BLOCKED, s)
     else
       bindE (kassert (\<lambda>s. th_blocking_wait_queue (g_threads s thread) \<noteq> None) s) (\<lambda>s.
       bindE (kassert (\<lambda>s. list_in_list (nodes s) (QueueNode thread)) s) (\<lambda>s.
       bindE (on_nodes (list_delete (QueueNode thread)) s) (\<lambda>s.
       bindE (deref (th_blocking_wait_queue (g_threads s thread))) (\<lambda>q.
       bindE (upd_count q (-1) s) (\<lambda>s.
       let s = upd_thread thread (\<lambda>th. th\<lparr>th_blocking_wait_queue := None,
                 th_state := THREAD_READY, th_wait_queue_block_ret := error\<rparr>) s
       in bindE (insert_in_run_queue_head thread s) (\<lambda>s. Inr (NO_ERR, s)))))))))"

definition wait_queue_timeout_handler ::
    "timer_id \<Rightarrow> 64 word \<Rightarrow> tid option \<Rightarrow> kstate \<Rightarrow> (handler_return \<times> kstate) result" where
  "wait_queue_timeout_handler timer now a s =
     bindE (deref a) (\<lambda>thread.
     bindE (thread_unblock_from_wait_queue thread ERR_TIMED_OUT s) (\<lambda>(r, s).
     Inr (if r \<ge> NO_ERR then INT_RESCHEDULE else INT_NO_RESCHEDULE, s)))"

section \<open>On the view\<close>

lemma wait_remove_not_queued:
  assumes "view_ok s v" and "waitq v w = Some xs" and "t \<in> set xs"
  shows "\<not> queued (v\<lparr>waitq := (waitq v)(w \<mapsto> remove1 t xs)\<rparr>) t"
  using view_distinct(2) [OF assms(1,2)] view_disjoint(2) [OF assms(1) _ _ assms(2)]
    view_disjoint(3) [OF assms(1,2) _ assms(3)] assms(3)
  by (fastforce simp: queued_def split: if_splits)

definition woken :: "int \<Rightarrow> thread \<Rightarrow> thread" where
  "woken error th = th\<lparr>th_state := THREAD_READY, th_wait_queue_block_ret := error,
                       th_blocking_wait_queue := None\<rparr>"

lemma woken_simps [simp]:
  "th_state (woken e th) = THREAD_READY"
  "th_priority (woken e th) = th_priority th"
  "th_flags (woken e th) = th_flags th"
  "th_blocking_wait_queue (woken e th) = None"
  "th_wait_queue_block_ret (woken e th) = e"
  "th_remaining_quantum (woken e th) = th_remaining_quantum th"
  "th_retcode (woken e th) = th_retcode th"
  "th_entry (woken e th) = th_entry th"
  by (simp_all add: woken_def)

text \<open>The threads \<open>ts\<close>, in this order, at the ends of their run queues.\<close>

definition prio_of :: "kstate \<Rightarrow> tid \<Rightarrow> nat" where
  "prio_of s t = nat (th_priority (g_threads s t))"

definition enqueue_all :: "kstate \<Rightarrow> tid list \<Rightarrow> kview \<Rightarrow> kview" where
  "enqueue_all s ts v = fold (\<lambda>t. enqueue (prio_of s t) t) ts v"

lemma enqueue_all_simps [simp]:
  "waitq (enqueue_all s ts v) = waitq v"
  "thread_l (enqueue_all s ts v) = thread_l v"
  "free_l (enqueue_all s ts v) = free_l v"
  "timer_l (enqueue_all s ts v) = timer_l v"
  unfolding enqueue_all_def by (induction ts arbitrary: v) auto

lemma runq_enqueue_all:
  "runq (enqueue_all s ts v) q = runq v q @ filter (\<lambda>t. prio_of s t = q) ts"
  unfolding enqueue_all_def by (induction ts arbitrary: v) auto

text \<open>What the caller of a wake function has to provide: interrupts off and the lock held.\<close>

definition locked :: "kstate \<Rightarrow> bool" where
  "locked s \<longleftrightarrow> arch_ints_disabled (rflags s) \<and> spinlock_held (thread_lock s)"

definition prio_ok :: "kstate \<Rightarrow> tid \<Rightarrow> bool" where
  "prio_ok s t \<longleftrightarrow> 0 \<le> th_priority (g_threads s t) \<and> th_priority (g_threads s t) < 32"

lemma insert_spec:
  assumes "queues_ok s v" and "\<not> queued v t" and "prio_ok s t" and "tstate s t = THREAD_READY"
    and "locked s"
  shows "\<exists>h b. insert_in_run_queue_head t s = Inr (s\<lparr>nodes := h, run_queue_bitmap := b\<rparr>) \<and>
           qok h b (enqueue (prio_of s t) t v)"
    and "\<exists>h b. insert_in_run_queue_tail t s = Inr (s\<lparr>nodes := h, run_queue_bitmap := b\<rparr>) \<and>
           qok h b (enqueue (prio_of s t) t v)"
  using insert_in_run_queue_spec [OF assms(1,2)] assms(3-5)
  by (auto simp: prio_ok_def prio_of_def locked_def)

lemma wake_loop_spec:
  assumes "queues_ok s v" and "waitq v w = Some ts" and "locked s"
    and "\<forall>t \<in> set ts. tstate s t = THREAD_BLOCKED \<and> prio_ok s t"
    and "wq_count s w = int (length ts)" and "0 \<le> ret" and "ret + int (length ts) \<le> INT_MAX"
  shows "\<exists>h b. wake_loop w err ret s = Some (Inr (ret + int (length ts),
           s\<lparr>nodes := h,
             g_threads := \<lambda>t. if t \<in> set ts then woken err (g_threads s t) else g_threads s t,
             wq_count := (wq_count s)(w := 0), run_queue_bitmap := b\<rparr>)) \<and>
         qok h b (enqueue_all s ts (v\<lparr>waitq := (waitq v)(w \<mapsto> [])\<rparr>))"
  using assms
proof (induction ts arbitrary: s v ret)
  case Nil
  note view = qok_view [OF Nil.prems(1)]
  have "v\<lparr>waitq := (waitq v)(w \<mapsto> [])\<rparr> = v" using Nil.prems(2) by (simp add: fun_upd_idem)
  then show ?case
    using Nil.prems wait_pop(1) [OF view Nil.prems(2)]
    by (intro exI [of _ "nodes s"] exI [of _ "run_queue_bitmap s"])
      (simp add: wake_loop.simps enqueue_all_def fun_upd_idem)
next
  case (Cons t ts)
  note view = qok_view [OF Cons.prems(1)]
  from wait_pop(2) [OF view Cons.prems(2) refl] obtain h where
    h: "list_remove_head (WaitListHead w) (nodes s) = Inr (Some (QueueNode t), h)"
    and hok: "lists_ok h (heads (v\<lparr>waitq := (waitq v)(w \<mapsto> ts)\<rparr>))" by blast
  let ?v = "v\<lparr>waitq := (waitq v)(w \<mapsto> ts)\<rparr>"
  let ?s = "s\<lparr>nodes := h, g_threads := (g_threads s)(t := woken err (g_threads s t)),
              wq_count := (wq_count s)(w := int (length ts))\<rparr>"
  have len: "ret + 1 + int (length ts) \<le> INT_MAX" "INT_MIN \<le> int (length ts)" "int (length ts) \<le> INT_MAX"
    "INT_MIN \<le> ret + 1"
    using Cons.prems(6,7) by (simp_all add: INT_MIN_def)
  have mark: "mark_woken w err (QueueNode t) (s\<lparr>nodes := h\<rparr>) = Inr (t, ?s)"
    using Cons.prems(4,5) len
    by (cases s) (simp add: mark_woken_def upd_count_def upd_thread_def woken_def)
  have q1: "queues_ok ?s ?v" using hok Cons.prems(1) by (simp add: qok_def)
  have nq: "\<not> queued ?v t"
    using wait_remove_not_queued [OF view Cons.prems(2), of t] by simp
  have "prio_ok ?s t" "tstate ?s t = THREAD_READY" "locked ?s"
    using Cons.prems(3,4) by (simp_all add: prio_ok_def locked_def)
  from insert_spec(1) [OF q1 nq this] obtain h2 b2 where
    ins: "insert_in_run_queue_head t ?s = Inr (?s\<lparr>nodes := h2, run_queue_bitmap := b2\<rparr>)"
    and q2: "qok h2 b2 (enqueue (prio_of s t) t ?v)"
    by (auto simp: prio_of_def)
  let ?s2 = "?s\<lparr>nodes := h2, run_queue_bitmap := b2\<rparr>"
  have tts: "t \<notin> set ts" using view_distinct(2) [OF view Cons.prems(2)] by simp
  then have blocked: "\<forall>u \<in> set ts. tstate ?s2 u = THREAD_BLOCKED \<and> prio_ok ?s2 u"
    using Cons.prems(4) by (auto simp: prio_ok_def)
  have "queues_ok ?s2 (enqueue (prio_of s t) t ?v)" using q2 by simp
  moreover have "waitq (enqueue (prio_of s t) t ?v) w = Some ts" by simp
  moreover have "locked ?s2" using Cons.prems(3) by (simp add: locked_def)
  moreover note blocked
  moreover have "wq_count ?s2 w = int (length ts)" "0 \<le> ret + 1" using Cons.prems(6) by simp_all
  moreover note len(1)
  ultimately obtain h3 b3 where IH: "wake_loop w err (ret + 1) ?s2 = Some (Inr (ret + 1 + int (length ts),
       ?s2\<lparr>nodes := h3,
         g_threads := \<lambda>u. if u \<in> set ts then woken err (g_threads ?s2 u) else g_threads ?s2 u,
         wq_count := (wq_count ?s2)(w := 0), run_queue_bitmap := b3\<rparr>))"
    and q3: "qok h3 b3 (enqueue_all ?s2 ts ((enqueue (prio_of s t) t ?v)
       \<lparr>waitq := (waitq (enqueue (prio_of s t) t ?v))(w \<mapsto> [])\<rparr>))"
    using Cons.IH by blast
  have threads: "(\<lambda>u. if u \<in> set ts then woken err (g_threads ?s2 u) else g_threads ?s2 u) =
      (\<lambda>u. if u \<in> set (t # ts) then woken err (g_threads s u) else g_threads s u)"
    using tts by (intro ext) auto
  have "prio_of ?s2 = prio_of s" by (intro ext) (simp add: prio_of_def)
  then have views: "enqueue_all ?s2 ts ((enqueue (prio_of s t) t ?v)
       \<lparr>waitq := (waitq (enqueue (prio_of s t) t ?v))(w \<mapsto> [])\<rparr>) =
     enqueue_all s (t # ts) (v\<lparr>waitq := (waitq v)(w \<mapsto> [])\<rparr>)"
    by (cases v) (simp add: enqueue_all_def enqueue_def)
  have "wake_loop w err ret s = wake_loop w err (ret + 1) ?s2"
    using h mark ins len by (subst wake_loop.simps) simp
  with IH have "wake_loop w err ret s = Some (Inr (ret + int (length (t # ts)),
       s\<lparr>nodes := h3,
         g_threads := \<lambda>u. if u \<in> set (t # ts) then woken err (g_threads s u) else g_threads s u,
         wq_count := (wq_count s)(w := 0), run_queue_bitmap := b3\<rparr>))"
    unfolding threads by (cases s) simp
  with q3 show ?case unfolding views by blast
qed

lemma wake_all_spec:
  assumes "queues_ok s v" and "waitq v w = Some ts" and "locked s"
    and "\<forall>t \<in> set ts. tstate s t = THREAD_BLOCKED \<and> prio_ok s t"
    and "wq_count s w = int (length ts)" and "int (length ts) \<le> INT_MAX"
    and "current_thread s = Some c"
  shows "\<exists>h b. wait_queue_wake_all w False err s = Inr
           (s\<lparr>nodes := h,
              g_threads := \<lambda>t. if t \<in> set ts then woken err (g_threads s t) else g_threads s t,
              wq_count := (wq_count s)(w := 0), run_queue_bitmap := b, rax := int (length ts)\<rparr>) \<and>
         qok h b (enqueue_all s ts (v\<lparr>waitq := (waitq v)(w \<mapsto> [])\<rparr>))"
proof -
  from wake_loop_spec [OF assms(1-5), of 0 err] assms(6) obtain h b where
    loop: "wake_loop w err 0 s = Some (Inr (int (length ts), s\<lparr>nodes := h,
      g_threads := \<lambda>t. if t \<in> set ts then woken err (g_threads s t) else g_threads s t,
      wq_count := (wq_count s)(w := 0), run_queue_bitmap := b\<rparr>))"
    and q: "qok h b (enqueue_all s ts (v\<lparr>waitq := (waitq v)(w \<mapsto> [])\<rparr>))"
    by auto
  show ?thesis
    using loop q assms(3,7)
    by (intro exI [of _ h] exI [of _ b])
      (cases s, simp add: wait_queue_wake_all_def set_rax_def locked_def)
qed

end
