(* ===== verification/CString.thy ===== *)
theory CString
  imports Prelude
begin

text \<open>
  \<open>libc/string.c\<close> over a flat byte memory with 64-bit addresses. Pointer arithmetic wraps as the
  machine's does. The loops bounded by a count are primitive recursions on it; the loops that run to
  a terminator are partial functions, \<open>None\<close> when there is no terminator to run to.
\<close>

section \<open>Operations\<close>

type_synonym addr = "64 word"
type_synonym mem = "addr \<Rightarrow> 8 word"

partial_function (option) strcpy_loop :: "mem \<Rightarrow> addr \<Rightarrow> addr \<Rightarrow> mem option" where
  "strcpy_loop m dest src =
     (if m src \<noteq> 0 then strcpy_loop (m(dest := m src)) (dest + 1) (src + 1) else Some m)"

definition strcpy :: "mem \<Rightarrow> addr \<Rightarrow> addr \<Rightarrow> (addr \<times> mem) option" where
  "strcpy m dest src = map_option (\<lambda>m. (dest, m)) (strcpy_loop m dest src)"

fun strncpy_loop :: "mem \<Rightarrow> addr \<Rightarrow> addr \<Rightarrow> nat \<Rightarrow> mem" where
  "strncpy_loop m dest src 0 = m"
| "strncpy_loop m dest src (Suc n) =
     (if m src \<noteq> 0 then strncpy_loop (m(dest := m src)) (dest + 1) (src + 1) n else m)"

definition strncpy :: "mem \<Rightarrow> addr \<Rightarrow> addr \<Rightarrow> 64 word \<Rightarrow> addr \<times> mem" where
  "strncpy m dest src n = (dest, strncpy_loop m dest src (unat n))"

partial_function (option) strlen_loop :: "mem \<Rightarrow> addr \<Rightarrow> addr option" where
  "strlen_loop m s = (if m s \<noteq> 0 then strlen_loop m (s + 1) else Some s)"

definition strlen :: "mem \<Rightarrow> addr \<Rightarrow> 64 word option" where
  "strlen m s = map_option (\<lambda>e. e - s) (strlen_loop m s)"

definition strcat :: "mem \<Rightarrow> addr \<Rightarrow> addr \<Rightarrow> (addr \<times> mem) option" where
  "strcat m dest src =
     (case strlen m dest of
        None \<Rightarrow> None
      | Some n \<Rightarrow>
          (case strcpy_loop m (dest + n) src of
             None \<Rightarrow> None
           | Some m' \<Rightarrow>
               (case strlen_loop m src of
                  None \<Rightarrow> None
                | Some e \<Rightarrow> Some (dest, m'(dest + n + (e - src) := 0)))))"

text \<open>\<open>char\<close> is signed: the difference is of the sign-extended bytes.\<close>

partial_function (option) strcmp :: "mem \<Rightarrow> addr \<Rightarrow> addr \<Rightarrow> int option" where
  "strcmp m stra strb =
     (let ret = sint (m stra) - sint (m strb)
      in if ret = 0 \<or> m stra = 0 then Some ret else strcmp m (stra + 1) (strb + 1))"

fun memcmp_loop :: "mem \<Rightarrow> addr \<Rightarrow> addr \<Rightarrow> nat \<Rightarrow> int" where
  "memcmp_loop m p1 p2 0 = 0"
| "memcmp_loop m p1 p2 (Suc n) =
     (if m p1 > m p2 then 1
      else if m p1 < m p2 then -1
      else memcmp_loop m (p1 + 1) (p2 + 1) n)"

definition memcmp :: "mem \<Rightarrow> addr \<Rightarrow> addr \<Rightarrow> 64 word \<Rightarrow> int" where
  "memcmp m s1 s2 n = memcmp_loop m s1 s2 (unat n)"

fun memcpy_loop :: "mem \<Rightarrow> addr \<Rightarrow> addr \<Rightarrow> nat \<Rightarrow> mem" where
  "memcpy_loop m p1 p2 0 = m"
| "memcpy_loop m p1 p2 (Suc n) = memcpy_loop (m(p1 := m p2)) (p1 + 1) (p2 + 1) n"

definition memcpy :: "mem \<Rightarrow> addr \<Rightarrow> addr \<Rightarrow> 64 word \<Rightarrow> addr \<times> mem" where
  "memcpy m dest src n = (dest, memcpy_loop m dest src (unat n))"

fun memset_loop :: "mem \<Rightarrow> addr \<Rightarrow> 8 word \<Rightarrow> nat \<Rightarrow> mem" where
  "memset_loop m p pat 0 = m"
| "memset_loop m p pat (Suc n) = memset_loop (m(p := pat)) (p + 1) pat n"

definition memset :: "mem \<Rightarrow> addr \<Rightarrow> int \<Rightarrow> 64 word \<Rightarrow> addr \<times> mem" where
  "memset m s c n = (s, memset_loop m s (word_of_int c) (unat n))"

section \<open>Bytes and strings in memory\<close>

fun bytes_at :: "mem \<Rightarrow> addr \<Rightarrow> 8 word list \<Rightarrow> bool" where
  "bytes_at m p [] \<longleftrightarrow> True"
| "bytes_at m p (b # bs) \<longleftrightarrow> m p = b \<and> bytes_at m (p + 1) bs"

text \<open>The string \<open>bs\<close> with its terminator; none of its bytes is the terminator.\<close>

definition cstr :: "mem \<Rightarrow> addr \<Rightarrow> 8 word list \<Rightarrow> bool" where
  "cstr m p bs \<longleftrightarrow> 0 \<notin> set bs \<and> bytes_at m p (bs @ [0])"

text \<open>The \<open>n\<close> addresses from \<open>p\<close> on, around the end of the address space if need be.\<close>

definition span :: "addr \<Rightarrow> nat \<Rightarrow> addr set" where
  "span p n = (\<lambda>i. p + of_nat i) ` {..<n}"

lemma span_0 [simp]: "span p 0 = {}"
  by (simp add: span_def)

lemma span_Suc: "span p (Suc n) = insert p (span (p + 1) n)"
proof -
  have "{..<Suc n} = insert 0 (Suc ` {..<n})" by (auto simp: image_iff less_Suc_eq_0_disj)
  then have "span p (Suc n) = insert p ((\<lambda>i. p + of_nat (Suc i)) ` {..<n})"
    by (simp add: span_def image_image)
  then show ?thesis by (simp add: span_def add.assoc)
qed

lemma bytes_at_iff: "bytes_at m p bs \<longleftrightarrow> (\<forall>i < length bs. m (p + of_nat i) = bs ! i)"
proof (induction bs arbitrary: p)
  case Nil
  then show ?case by simp
next
  case (Cons b bs)
  have "(\<forall>i < length (b # bs). m (p + of_nat i) = (b # bs) ! i) \<longleftrightarrow>
      m p = b \<and> (\<forall>i < length bs. m (p + 1 + of_nat i) = bs ! i)"
    by (auto simp: less_Suc_eq_0_disj add.assoc)
  with Cons show ?case by simp
qed

lemma bytes_at_append [simp]:
  "bytes_at m p (xs @ ys) \<longleftrightarrow> bytes_at m p xs \<and> bytes_at m (p + of_nat (length xs)) ys"
  by (induction xs arbitrary: p) (auto simp: add.assoc)

lemma bytes_at_cong:
  "(\<And>a. a \<in> span p (length bs) \<Longrightarrow> m' a = m a) \<Longrightarrow> bytes_at m' p bs \<longleftrightarrow> bytes_at m p bs"
  by (induction bs arbitrary: p) (auto simp: span_Suc)

lemma span_inj:
  assumes "n \<le> 2 ^ 64" and "i < n" and "j < n" and "p + of_nat i = p + (of_nat j :: addr)"
  shows "i = j"
proof -
  have "unat (of_nat i :: addr) = unat (of_nat j :: addr)" using assms(4) by simp
  moreover have "i < 2 ^ 64" "j < 2 ^ 64" using assms by simp_all
  ultimately show ?thesis by (simp add: unat_of_nat)
qed

lemma span_mono: "n \<le> k \<Longrightarrow> span p n \<subseteq> span p k"
  by (auto simp: span_def)

lemma span_tail: "span (p + of_nat k) n \<subseteq> span p (k + n)"
proof
  fix a assume "a \<in> span (p + of_nat k) n"
  then obtain i where "i < n" "a = p + of_nat (k + i)" by (auto simp: span_def add.assoc)
  then show "a \<in> span p (k + n)" by (auto simp only: span_def intro!: imageI)
qed

lemma not_in_later_span: "n < 2 ^ 64 \<Longrightarrow> p \<notin> span (p + 1) n"
proof
  assume "n < 2 ^ 64" and "p \<in> span (p + 1) n"
  then obtain i where i: "i < n" "p = p + 1 + of_nat i" by (auto simp: span_def)
  then have "p + of_nat 0 = p + of_nat (Suc i)" by (simp add: add.assoc)
  with span_inj [of "Suc n" 0 "Suc i" p] i \<open>n < 2 ^ 64\<close> show False by simp
qed

section \<open>What the functions compute\<close>

lemma strlen_loop_cstr:
  "cstr m p bs \<Longrightarrow> strlen_loop m p = Some (p + of_nat (length bs))"
proof (induction bs arbitrary: p)
  case Nil
  then show ?case by (subst strlen_loop.simps) (simp add: cstr_def)
next
  case (Cons b bs)
  then show ?case by (subst strlen_loop.simps) (auto simp: cstr_def add.assoc)
qed

lemma strlen_cstr: "cstr m p bs \<Longrightarrow> strlen m p = Some (of_nat (length bs))"
  by (simp add: strlen_def strlen_loop_cstr)

text \<open>
  The copy loop behind \<open>strcpy\<close> and \<open>strcat\<close>: the bytes of the source before its terminator, and no
  others, are written.
\<close>

lemma strcpy_loop_cstr:
  assumes "cstr m src bs" and "span src (Suc (length bs)) \<inter> span dest (length bs) = {}"
    and "length bs < 2 ^ 64"
  shows "\<exists>m'. strcpy_loop m dest src = Some m' \<and> bytes_at m' dest bs \<and>
           (\<forall>a. a \<notin> span dest (length bs) \<longrightarrow> m' a = m a)"
  using assms
proof (induction bs arbitrary: m src dest)
  case Nil
  then show ?case by (subst strcpy_loop.simps) (simp add: cstr_def)
next
  case (Cons b bs)
  let ?m = "m(dest := b)"
  have dest: "dest \<notin> span (src + 1) (Suc (length bs))" "dest \<notin> span (dest + 1) (length bs)"
    using Cons.prems(2,3) not_in_later_span [of "length bs" dest]
    by (auto simp: span_Suc [of src] span_Suc [of dest])
  have "bytes_at ?m (src + 1) (bs @ [0]) \<longleftrightarrow> bytes_at m (src + 1) (bs @ [0])"
    using dest(1) by (intro bytes_at_cong) auto
  with Cons.prems(1) have "cstr ?m (src + 1) bs" by (simp add: cstr_def)
  moreover have "span (src + 1) (Suc (length bs)) \<inter> span (dest + 1) (length bs) = {}"
    using Cons.prems(2) by (auto simp: span_Suc [of src] span_Suc [of dest])
  moreover have "length bs < 2 ^ 64" using Cons.prems(3) by simp
  ultimately obtain m' where IH: "strcpy_loop ?m (dest + 1) (src + 1) = Some m'"
    "bytes_at m' (dest + 1) bs" "\<forall>a. a \<notin> span (dest + 1) (length bs) \<longrightarrow> m' a = ?m a"
    using Cons.IH by blast
  have "m src = b" "b \<noteq> 0" using Cons.prems(1) by (auto simp: cstr_def)
  moreover have "m' dest = b" using IH(3) dest(2) by simp
  ultimately show ?case using IH
    by (intro exI [of _ m']) (subst strcpy_loop.simps, auto simp: span_Suc)
qed

lemma strcat_cstr:
  assumes d: "cstr m dest as" and s: "cstr m src bs"
    and disj: "span src (Suc (length bs)) \<inter> span dest (Suc (length as + length bs)) = {}"
    and size: "length as + length bs < 2 ^ 64 - 1"
  shows "\<exists>m'. strcat m dest src = Some (dest, m') \<and> cstr m' dest (as @ bs) \<and> cstr m' src bs"
proof -
  let ?stop = "dest + of_nat (length as)"
  have tail: "span ?stop (length bs) \<subseteq> span dest (Suc (length as + length bs))"
    using span_tail [of dest "length as" "length bs"]
      span_mono [of "length as + length bs" "Suc (length as + length bs)" dest] by auto
  then have "span src (Suc (length bs)) \<inter> span ?stop (length bs) = {}" using disj by blast
  from strcpy_loop_cstr [OF s this] size obtain m1 where
    m1: "strcpy_loop m ?stop src = Some m1" "bytes_at m1 ?stop bs"
    "\<And>a. a \<notin> span ?stop (length bs) \<Longrightarrow> m1 a = m a" by auto
  let ?z = "dest + of_nat (length as + length bs)"
  let ?m = "m1(?z := 0)"
  have apart: "dest + of_nat i \<noteq> dest + (of_nat j :: addr)"
    if "i < j" "j \<le> length as + length bs" for i j
    using span_inj [of "Suc (length as + length bs)" i j dest] that size by auto
  have "?m (dest + of_nat i) = (as @ bs) ! i" if i: "i < length as + length bs" for i
  proof (cases "i < length as")
    case True
    have "dest + of_nat i \<notin> span ?stop (length bs)"
      using apart [of i] True by (auto simp: span_def add.assoc simp flip: of_nat_add)
    with True apart [of i "length as + length bs"] i m1(3) d show ?thesis
      by (auto simp: cstr_def bytes_at_iff nth_append)
  next
    case False
    with i obtain k where k: "i = length as + k" "k < length bs"
      by (metis le_Suc_ex linorder_not_less nat_add_left_cancel_less)
    with m1(2) apart [of i "length as + length bs"] show ?thesis
      by (auto simp: bytes_at_iff nth_append add.assoc)
  qed
  then have "bytes_at ?m dest (as @ bs)" by (simp add: bytes_at_iff)
  then have "cstr ?m dest (as @ bs)" using d s by (auto simp: cstr_def)
  moreover have "?z \<in> span dest (Suc (length as + length bs))"
    by (simp only: span_def) (intro imageI, simp)
  then have "a \<in> span src (Suc (length bs)) \<Longrightarrow> ?m a = m a" for a
    using m1(3) [of a] disj tail by auto
  then have "bytes_at ?m src (bs @ [0]) \<longleftrightarrow> bytes_at m src (bs @ [0])"
    by (intro bytes_at_cong) auto
  then have "cstr ?m src bs" using s by (simp add: cstr_def)
  moreover have "strcat m dest src = Some (dest, ?m)"
    using m1(1) strlen_cstr [OF d] strlen_loop_cstr [OF s] by (simp add: strcat_def add.assoc)
  ultimately show ?thesis by blast
qed

lemma memset_loop_spec:
  "n \<le> 2 ^ 64 \<Longrightarrow> memset_loop m p pat n a = (if a \<in> span p n then pat else m a)"
proof (induction n arbitrary: m p)
  case 0
  then show ?case by simp
next
  case (Suc n)
  then show ?case using not_in_later_span [of n p] by (auto simp: span_Suc)
qed

lemma memset_spec:
  "memset m s c n = (s, \<lambda>a. if a \<in> span s (unat n) then word_of_int c else m a)"
proof -
  have "unat n < 2 ^ LENGTH(64)" by (rule unsigned_less)
  then show ?thesis by (auto simp: memset_def memset_loop_spec intro!: ext)
qed

text \<open>\<open>memcpy\<close> copies forwards: right for disjoint areas, and for a destination below the source.\<close>

lemma memcpy_loop_spec:
  assumes "n \<le> 2 ^ 64"
    and "\<And>i j. j \<le> i \<Longrightarrow> i < n \<Longrightarrow> p2 + of_nat i = p1 + of_nat j \<Longrightarrow> i = j"
  shows "(\<forall>i < n. memcpy_loop m p1 p2 n (p1 + of_nat i) = m (p2 + of_nat i)) \<and>
         (\<forall>a. a \<notin> span p1 n \<longrightarrow> memcpy_loop m p1 p2 n a = m a)"
  using assms
proof (induction n arbitrary: m p1 p2)
  case 0
  then show ?case by simp
next
  case (Suc n)
  obtain m1 where m1: "m1 = m(p1 := m p2)" by blast
  have next_areas: "i = j" if "j \<le> i" "i < n" "p2 + 1 + of_nat i = p1 + 1 + of_nat j" for i j
    using Suc.prems(2) [of "Suc j" "Suc i"] that by (simp add: add.assoc)
  have IH: "\<forall>i < n. memcpy_loop m1 (p1 + 1) (p2 + 1) n (p1 + 1 + of_nat i) = m1 (p2 + 1 + of_nat i)"
    "\<forall>a. a \<notin> span (p1 + 1) n \<longrightarrow> memcpy_loop m1 (p1 + 1) (p2 + 1) n a = m1 a"
    using Suc.IH [of "p2 + 1" "p1 + 1" m1] next_areas Suc.prems(1) by auto
  have first: "p1 \<notin> span (p1 + 1) n" using Suc.prems(1) by (intro not_in_later_span) simp
  have src: "p2 + 1 + of_nat i \<noteq> p1" if "i < n" for i
    using Suc.prems(2) [of 0 "Suc i"] that by (auto simp: add.assoc)
  have loop: "memcpy_loop m p1 p2 (Suc n) = memcpy_loop m1 (p1 + 1) (p2 + 1) n" by (simp add: m1)
  show ?case
  proof (intro conjI allI impI)
    fix i assume i: "i < Suc n"
    show "memcpy_loop m p1 p2 (Suc n) (p1 + of_nat i) = m (p2 + of_nat i)"
    proof (cases i)
      case 0
      with IH(2) first show ?thesis unfolding loop by (simp add: m1)
    next
      case (Suc k)
      with i have "k < n" by simp
      with IH(1) have "memcpy_loop m1 (p1 + 1) (p2 + 1) n (p1 + 1 + of_nat k) = m1 (p2 + 1 + of_nat k)"
        by blast
      with Suc src [OF \<open>k < n\<close>] show ?thesis unfolding loop by (simp add: add.assoc m1)
    qed
  next
    fix a assume "a \<notin> span p1 (Suc n)"
    then have "a \<noteq> p1" "a \<notin> span (p1 + 1) n" by (auto simp: span_Suc)
    with IH(2) show "memcpy_loop m p1 p2 (Suc n) a = m a" unfolding loop by (simp add: m1)
  qed
qed

lemma memcmp_loop_spec:
  "bytes_at m p1 xs \<Longrightarrow> bytes_at m p2 ys \<Longrightarrow> length xs = n \<Longrightarrow> length ys = n \<Longrightarrow>
   memcmp_loop m p1 p2 n = (if xs = ys then 0 else if (xs, ys) \<in> lexord {(a, b). a < b} then -1 else 1)"
proof (induction n arbitrary: p1 p2 xs ys)
  case 0
  then show ?case by simp
next
  case (Suc n)
  then obtain x xs' y ys' where "xs = x # xs'" "ys = y # ys'"
    by (metis length_Suc_conv)
  with Suc.prems Suc.IH [of "p1 + 1" xs' "p2 + 1" ys'] show ?case
    by auto
qed

lemma strcmp_first_equal: "m a = m b \<Longrightarrow> strcmp m a b = Some 0"
  by (subst strcmp.simps) simp

end
