(* ===== verification/Context.thy ===== *)
theory Context
  imports CString
begin

text \<open>
  The machine side of a context switch: the first stack frame of a thread (\<open>init_thread_stack\<close> of
  \<open>kernel/thread.c\<close>) and the switch itself (\<open>arch/x64/x64_context_switch.S\<close>), on byte memory and
  the registers a C function must preserve. The scheduler above only says which thread runs; here
  it is shown that a switch really continues there.
\<close>

unbundle bit_operations_syntax

section \<open>64-bit cells in byte memory\<close>

definition byte_of :: "64 word \<Rightarrow> nat \<Rightarrow> 8 word" where
  "byte_of v i = ucast (drop_bit (8 * i) v)"

fun store_bytes :: "mem \<Rightarrow> addr \<Rightarrow> 8 word list \<Rightarrow> mem" where
  "store_bytes m p [] = m"
| "store_bytes m p (b # bs) = store_bytes (m(p := b)) (p + 1) bs"

definition store64 :: "addr \<Rightarrow> 64 word \<Rightarrow> mem \<Rightarrow> mem" where
  "store64 p v m = store_bytes m p (map (byte_of v) [0..<8])"

fun load_bytes :: "mem \<Rightarrow> addr \<Rightarrow> nat \<Rightarrow> 64 word" where
  "load_bytes m p 0 = 0"
| "load_bytes m p (Suc n) = ucast (m p) OR push_bit 8 (load_bytes m (p + 1) n)"

definition load64 :: "mem \<Rightarrow> addr \<Rightarrow> 64 word" where
  "load64 m p = load_bytes m p 8"

lemma store_bytes_other: "a \<notin> span p (length bs) \<Longrightarrow> store_bytes m p bs a = m a"
  by (induction bs arbitrary: m p) (auto simp: span_Suc)

lemma store_bytes_at:
  "length bs \<le> 2 ^ 64 \<Longrightarrow> bytes_at (store_bytes m p bs) p bs"
proof (induction bs arbitrary: m p)
  case Nil
  then show ?case by simp
next
  case (Cons b bs)
  then have "p \<notin> span (p + 1) (length bs)" by (intro not_in_later_span) simp
  then have "store_bytes (m(p := b)) (p + 1) bs p = b" by (simp add: store_bytes_other)
  with Cons show ?case by simp
qed

lemma bit_load_bytes:
  "bit (load_bytes m p n) k \<longleftrightarrow> k < 64 \<and> k div 8 < n \<and> bit (m (p + of_nat (k div 8))) (k mod 8)"
proof (induction n arbitrary: p k)
  case 0
  then show ?case by simp
next
  case (Suc n)
  show ?case
  proof (cases "k < 8")
    case True
    then show ?thesis by (simp add: bit_or_iff bit_push_bit_iff bit_ucast_iff)
  next
    case False
    then obtain j where j: "k = 8 + j" using le_Suc_ex by (metis not_less)
    have "\<not> bit (m p) k" using False bit_imp_le_length [of "m p" k] by auto
    then have "bit (load_bytes m p (Suc n)) k \<longleftrightarrow> k < 64 \<and> bit (load_bytes m (p + 1) n) j"
      using j by (auto simp: bit_or_iff bit_push_bit_iff bit_ucast_iff)
    moreover have "k div 8 = Suc (j div 8)" "k mod 8 = j mod 8" using j by simp_all
    ultimately show ?thesis using Suc [of "p + 1" j] by (auto simp: add.assoc)
  qed
qed

lemma load64_store64 [simp]: "load64 (store64 p v m) p = v"
proof (rule bit_word_eqI)
  fix k assume "k < LENGTH(64)"
  then have k: "k div 8 < 8" "k < 64" by simp_all
  have "bytes_at (store64 p v m) p (map (byte_of v) [0..<8])"
    unfolding store64_def by (rule store_bytes_at) simp
  with k(1) have "store64 p v m (p + of_nat (k div 8)) = byte_of v (k div 8)"
    by (simp add: bytes_at_iff)
  with k show "bit (load64 (store64 p v m) p) k \<longleftrightarrow> bit v k"
    by (simp add: load64_def bit_load_bytes byte_of_def bit_ucast_iff bit_drop_bit_eq)
qed

lemma load_bytes_cong: "(\<And>a. a \<in> span p n \<Longrightarrow> m' a = m a) \<Longrightarrow> load_bytes m' p n = load_bytes m p n"
  by (induction n arbitrary: p) (auto simp: span_Suc)

lemma load64_cong: "(\<And>a. a \<in> span p 8 \<Longrightarrow> m' a = m a) \<Longrightarrow> load64 m' p = load64 m p"
  unfolding load64_def by (rule load_bytes_cong)

lemma store64_other: "a \<notin> span p 8 \<Longrightarrow> store64 p v m a = m a"
  unfolding store64_def by (rule store_bytes_other) simp

lemma load64_store64_other: "span p 8 \<inter> span q 8 = {} \<Longrightarrow> load64 (store64 q v m) p = load64 m p"
  by (rule load64_cong) (auto intro!: store64_other)

text \<open>Cells at different multiples of 8 from a common base do not overlap.\<close>

lemma cells_disjoint:
  assumes "i \<noteq> j" and "i < 2 ^ 32" and "j < 2 ^ 32"
  shows "span (p + 8 * of_nat i) 8 \<inter> span (p + 8 * of_nat j) 8 = {}"
proof -
  have False if "k < 8" "l < 8" "p + 8 * of_nat i + of_nat k = p + 8 * of_nat j + (of_nat l :: addr)" for k l
  proof -
    have "p + of_nat (8 * i + k) = p + (of_nat (8 * j + l) :: addr)" using that(3) by (simp add: add.assoc)
    then have "8 * i + k = 8 * j + l"
      using assms that(1,2) by (intro span_inj [of "2 ^ 36" _ _ p]) simp_all
    with that(1,2) assms(1) show False by arith
  qed
  then show ?thesis by (auto simp: span_def)
qed

definition cell :: "addr \<Rightarrow> nat \<Rightarrow> addr" where
  "cell p i = p + 8 * of_nat i"

lemma load64_cell_store64 [simp]:
  assumes "i < 2 ^ 32" and "j < 2 ^ 32"
  shows "load64 (store64 (cell p j) v m) (cell p i) = (if i = j then v else load64 m (cell p i))"
  using cells_disjoint [of i j p] assms by (auto simp: cell_def intro!: load64_store64_other)

section \<open>The first frame of a thread\<close>

text \<open>
  \<open>struct x64_context_frame\<close>: eight cells from the lowest address on: \<open>r15 r14 r13 r12 rbp rbx rflags
  rip\<close>. \<open>entry\<close> is the address of \<open>initial_thread_func\<close>.
\<close>

definition init_thread_stack :: "addr \<Rightarrow> addr \<Rightarrow> 64 word \<Rightarrow> mem \<Rightarrow> addr \<times> mem" where
  "init_thread_stack initial_thread_func stack stack_size m =
     (let stack_top = stack + stack_size;
          stack_top = stack_top AND NOT 0xf;
          stack_top = stack_top - 8;
          frame = stack_top - 64;
          m = snd (memset m frame 0 64);
          m = store64 (frame + 56) initial_thread_func m;
          m = store64 (frame + 48) 0x3002 m
      in (frame, m))"

section \<open>The switch\<close>

record regs =
  rsp :: "64 word"
  rbx :: "64 word"
  rbp :: "64 word"
  r12 :: "64 word"
  r13 :: "64 word"
  r14 :: "64 word"
  r15 :: "64 word"
  eflags :: "64 word"
  rip :: "64 word"

definition push :: "64 word \<Rightarrow> regs \<times> mem \<Rightarrow> regs \<times> mem" where
  "push v = (\<lambda>(r, m). let r = r\<lparr>rsp := rsp r - 8\<rparr> in (r, store64 (rsp r) v m))"

definition pop :: "regs \<times> mem \<Rightarrow> 64 word \<times> (regs \<times> mem)" where
  "pop = (\<lambda>(r, m). (load64 m (rsp r), (r\<lparr>rsp := rsp r + 8\<rparr>, m)))"

text \<open>
  \<open>x64_thread_context_switch(sp1, sp2)\<close>: \<open>new_sp\<close> is what \<open>*sp2\<close> holds; the value stored to \<open>*sp1\<close>
  is returned. The call itself has pushed the return address, which is at the top of the stack on
  entry.
\<close>

definition x64_thread_context_switch ::
    "64 word \<Rightarrow> regs \<times> mem \<Rightarrow> 64 word \<times> (regs \<times> mem)" where
  "x64_thread_context_switch new_sp c =
     (let c = push (eflags (fst c)) c;
          c = push (rbx (fst c)) c;
          c = push (rbp (fst c)) c;
          c = push (r12 (fst c)) c;
          c = push (r13 (fst c)) c;
          c = push (r14 (fst c)) c;
          c = push (r15 (fst c)) c;
          old_sp = rsp (fst c);
          c = ((fst c)\<lparr>rsp := new_sp\<rparr>, snd c);
          (v, c) = pop c; c = ((fst c)\<lparr>r15 := v\<rparr>, snd c);
          (v, c) = pop c; c = ((fst c)\<lparr>r14 := v\<rparr>, snd c);
          (v, c) = pop c; c = ((fst c)\<lparr>r13 := v\<rparr>, snd c);
          (v, c) = pop c; c = ((fst c)\<lparr>r12 := v\<rparr>, snd c);
          (v, c) = pop c; c = ((fst c)\<lparr>rbp := v\<rparr>, snd c);
          (v, c) = pop c; c = ((fst c)\<lparr>rbx := v\<rparr>, snd c);
          (v, c) = pop c; c = ((fst c)\<lparr>eflags := v\<rparr>, snd c);
          (v, c) = pop c; c = ((fst c)\<lparr>rip := v\<rparr>, snd c)
      in (old_sp, c))"

text \<open>The saving half and the loading half, and what each of them is.\<close>

definition saved_frame :: "regs \<Rightarrow> mem \<Rightarrow> mem" where
  "saved_frame r m =
     store64 (rsp r - 56) (r15 r) (store64 (rsp r - 48) (r14 r) (store64 (rsp r - 40) (r13 r)
    (store64 (rsp r - 32) (r12 r) (store64 (rsp r - 24) (rbp r) (store64 (rsp r - 16) (rbx r)
    (store64 (rsp r - 8) (eflags r) m))))))"

definition loaded_frame :: "64 word \<Rightarrow> mem \<Rightarrow> regs" where
  "loaded_frame sp m =
     \<lparr>rsp = sp + 64, rbx = load64 m (sp + 40), rbp = load64 m (sp + 32), r12 = load64 m (sp + 24),
      r13 = load64 m (sp + 16), r14 = load64 m (sp + 8), r15 = load64 m sp,
      eflags = load64 m (sp + 48), rip = load64 m (sp + 56)\<rparr>"

lemma x64_thread_context_switch_eq:
  "x64_thread_context_switch new_sp (r, m) =
     (rsp r - 56, (loaded_frame new_sp (saved_frame r m), saved_frame r m))"
  by (cases r) (simp add: x64_thread_context_switch_def push_def pop_def loaded_frame_def
      saved_frame_def Let_def add.commute)

text \<open>Reading a saved frame back, in any memory that still holds it.\<close>

lemma saved_frame_cells:
  "load64 (saved_frame r m) (rsp r - 56) = r15 r"
  "load64 (saved_frame r m) (rsp r - 48) = r14 r"
  "load64 (saved_frame r m) (rsp r - 40) = r13 r"
  "load64 (saved_frame r m) (rsp r - 32) = r12 r"
  "load64 (saved_frame r m) (rsp r - 24) = rbp r"
  "load64 (saved_frame r m) (rsp r - 16) = rbx r"
  "load64 (saved_frame r m) (rsp r - 8) = eflags r"
  "load64 (saved_frame r m) (rsp r) = load64 m (rsp r)"
proof -
  have cells: "rsp r - 56 = cell (rsp r - 56) 0" "rsp r - 48 = cell (rsp r - 56) 1"
    "rsp r - 40 = cell (rsp r - 56) 2" "rsp r - 32 = cell (rsp r - 56) 3"
    "rsp r - 24 = cell (rsp r - 56) 4" "rsp r - 16 = cell (rsp r - 56) 5"
    "rsp r - 8 = cell (rsp r - 56) 6" "rsp r = cell (rsp r - 56) 7"
    by (simp_all add: cell_def)
  obtain b where b: "b = rsp r - 56" by blast
  have frame: "saved_frame r m =
      store64 (cell b 0) (r15 r) (store64 (cell b 1) (r14 r) (store64 (cell b 2) (r13 r)
     (store64 (cell b 3) (r12 r) (store64 (cell b 4) (rbp r) (store64 (cell b 5) (rbx r)
     (store64 (cell b 6) (eflags r) m))))))"
    unfolding saved_frame_def b cells [symmetric] ..
  have "load64 (saved_frame r m) (cell b 0) = r15 r" "load64 (saved_frame r m) (cell b 1) = r14 r"
    "load64 (saved_frame r m) (cell b 2) = r13 r" "load64 (saved_frame r m) (cell b 3) = r12 r"
    "load64 (saved_frame r m) (cell b 4) = rbp r" "load64 (saved_frame r m) (cell b 5) = rbx r"
    "load64 (saved_frame r m) (cell b 6) = eflags r"
    "load64 (saved_frame r m) (cell b 7) = load64 m (cell b 7)"
    by (simp_all add: frame)
  then show "load64 (saved_frame r m) (rsp r - 56) = r15 r"
    "load64 (saved_frame r m) (rsp r - 48) = r14 r"
    "load64 (saved_frame r m) (rsp r - 40) = r13 r"
    "load64 (saved_frame r m) (rsp r - 32) = r12 r"
    "load64 (saved_frame r m) (rsp r - 24) = rbp r"
    "load64 (saved_frame r m) (rsp r - 16) = rbx r"
    "load64 (saved_frame r m) (rsp r - 8) = eflags r"
    "load64 (saved_frame r m) (rsp r) = load64 m (rsp r)"
    unfolding b cells [symmetric] by blast+
qed

section \<open>Switching there and back\<close>

lemma loaded_frame_cong:
  assumes "\<And>a. a \<in> span sp 64 \<Longrightarrow> m' a = m a"
  shows "loaded_frame sp m' = loaded_frame sp m"
proof -
  have "load64 m' (sp + of_nat (8 * i)) = load64 m (sp + of_nat (8 * i))" if "i < 8" for i
  proof (rule load64_cong)
    fix a assume "a \<in> span (sp + of_nat (8 * i)) 8"
    then have "a \<in> span sp (8 * i + 8)" using span_tail [of sp "8 * i" 8] by blast
    then have "a \<in> span sp 64" using span_mono [of "8 * i + 8" 64 sp] that by auto
    then show "m' a = m a" by (rule assms)
  qed
  from this [of 0] this [of 1] this [of 2] this [of 3] this [of 4] this [of 5] this [of 6]
    this [of 7]
  show ?thesis by (simp add: loaded_frame_def)
qed

text \<open>
  A thread that was switched away from continues where it was: if the 64 bytes its switch left on its
  stack are still there, switching to the stack pointer it saved restores every register of the
  calling convention, and returns to the address the call had pushed.
\<close>

lemma switch_back:
  assumes away: "x64_thread_context_switch other (r, m) = (old_sp, (r1, m1))"
    and kept: "\<And>a. a \<in> span old_sp 64 \<Longrightarrow> saved_frame r2 m2 a = m1 a"
  shows "fst (snd (x64_thread_context_switch old_sp (r2, m2))) =
           r\<lparr>rsp := rsp r + 8, rip := load64 m (rsp r)\<rparr>"
proof -
  from away have sp: "old_sp = rsp r - 56" and m1: "m1 = saved_frame r m"
    by (auto simp: x64_thread_context_switch_eq)
  have "loaded_frame old_sp (saved_frame r2 m2) = loaded_frame old_sp m1"
    by (rule loaded_frame_cong) (rule kept)
  also have "\<dots> = r\<lparr>rsp := rsp r + 8, rip := load64 m (rsp r)\<rparr>"
    using saved_frame_cells [of r m]
    by (cases r) (simp add: loaded_frame_def sp m1 algebra_simps)
  finally show ?thesis by (simp add: x64_thread_context_switch_eq)
qed

text \<open>
  The first switch to a new thread enters \<open>initial_thread_func\<close> with interrupts off and the stack
  aligned as the calling convention asks at a function's entry.
\<close>

lemma first_switch:
  assumes new: "init_thread_stack entry stack sz m0 = (sp, m1)"
    and kept: "\<And>a. a \<in> span sp 64 \<Longrightarrow> saved_frame r m a = m1 a"
  shows "fst (snd (x64_thread_context_switch sp (r, m))) =
           \<lparr>rsp = sp + 64, rbx = 0, rbp = 0, r12 = 0, r13 = 0, r14 = 0, r15 = 0,
            eflags = 0x3002, rip = entry\<rparr>"
proof -
  let ?z = "snd (memset m0 sp 0 64)"
  from new have m1: "m1 = store64 (cell sp 6) 0x3002 (store64 (cell sp 7) entry ?z)"
    by (auto simp: init_thread_stack_def Let_def cell_def)
  have zero: "load64 ?z (cell sp i) = 0" if "i < 8" for i
  proof -
    have "load_bytes mm p n = 0" if "\<forall>a \<in> span p n. mm a = 0" for mm p n
      using that by (induction n arbitrary: p) (auto simp: span_Suc)
    moreover have "span (cell sp i) 8 \<subseteq> span sp 64"
      using span_tail [of sp "8 * i" 8] span_mono [of "8 * i + 8" 64 sp] that
      by (auto simp: cell_def)
    then have "\<forall>a \<in> span (cell sp i) 8. ?z a = 0" by (auto simp: memset_spec)
    ultimately show ?thesis unfolding load64_def by blast
  qed
  have cells: "sp = cell sp 0" "sp + 8 = cell sp 1" "sp + 16 = cell sp 2" "sp + 24 = cell sp 3"
    "sp + 32 = cell sp 4" "sp + 40 = cell sp 5" "sp + 48 = cell sp 6" "sp + 56 = cell sp 7"
    by (simp_all add: cell_def)
  have "load64 m1 (cell sp 0) = 0" "load64 m1 (cell sp 1) = 0" "load64 m1 (cell sp 2) = 0"
    "load64 m1 (cell sp 3) = 0" "load64 m1 (cell sp 4) = 0" "load64 m1 (cell sp 5) = 0"
    "load64 m1 (cell sp 6) = 0x3002" "load64 m1 (cell sp 7) = entry"
    by (simp_all add: m1 zero)
  then have "loaded_frame sp m1 =
      \<lparr>rsp = sp + 64, rbx = 0, rbp = 0, r12 = 0, r13 = 0, r14 = 0, r15 = 0,
       eflags = 0x3002, rip = entry\<rparr>"
    unfolding cells(1) [symmetric] cells(2-) [symmetric] by (simp add: loaded_frame_def)
  moreover have "loaded_frame sp (saved_frame r m) = loaded_frame sp m1"
    by (rule loaded_frame_cong) (rule kept)
  ultimately show ?thesis by (simp add: x64_thread_context_switch_eq)
qed

lemma init_thread_stack_aligned:
  assumes "init_thread_stack entry stack sz m0 = (sp, m1)"
  shows "(sp + 64 + 8) AND 0xf = 0" and "sp + 64 + 8 = (stack + sz) AND NOT 0xf"
proof -
  from assms have sp: "sp = ((stack + sz) AND NOT 0xf) - 8 - 64"
    by (auto simp: init_thread_stack_def Let_def)
  then show "sp + 64 + 8 = (stack + sz) AND NOT 0xf" by simp
  moreover have "(x AND NOT y) AND y = 0" for x y :: "64 word"
    by (rule bit_word_eqI) (auto simp: bit_and_iff bit_not_iff)
  ultimately show "(sp + 64 + 8) AND 0xf = 0" by presburger
qed

end
