(* ===== verification/Thread.thy ===== *)
theory Thread
  imports WaitQueue Context
begin

text \<open>
  The thread services of \<open>kernel/thread.c\<close>. A service that gives up the processor is modelled up to
  the context switch inside \<open>thread_resched\<close>; what follows the switch in its body is pushed on the
  calling thread's \<open>pending\<close> list first, and \<open>resume\<close> runs that list for whichever thread the
  processor has been switched to. So a service followed by \<open>resume\<close> is one uninterrupted run of
  kernel code, from the call of one thread to the return to the code of another.
\<close>

section \<open>Thread structures\<close>

definition zero_thread :: thread where
  "zero_thread = \<lparr>th_thread_id = 0, th_priority = 0, th_state = THREAD_SUSPENDED,
     th_remaining_quantum = 0, th_flags = 0, th_blocking_wait_queue = None,
     th_wait_queue_block_ret = 0, th_stack = 0, th_stack_size = 0, th_sp = 0, th_entry = 0,
     th_arg = 0, th_retcode = 0, th_name = replicate (TREAD_NAME_LEN + 1) 0\<rparr>"

text \<open>\<open>memset(thread, 0, sizeof(thread_t))\<close>: the fields, and the list nodes inside the struct.\<close>

definition clear_thread :: "tid \<Rightarrow> kstate \<Rightarrow> kstate" where
  "clear_thread t s =
     (let s = upd_thread t (\<lambda>_. zero_thread) s;
          s = set_nodes (list_clear_node (ThreadListNode t)) s;
          s = set_nodes (list_clear_node (QueueNode t)) s;
          s = set_nodes (list_clear_node (WaitListHead (ExitQueue t))) s
      in s\<lparr>wq_count := (wq_count s)(ExitQueue t := 0)\<rparr>)"

text \<open>
  \<open>strncpy(thread->name, name, strlen(name))\<close> for a string \<open>name\<close> (its bytes without the
  terminator): exactly those bytes are written, past the end of the array if there are too many.
\<close>

definition copy_name :: "8 word list \<Rightarrow> tid \<Rightarrow> kstate \<Rightarrow> kstate result" where
  "copy_name name t s =
     (if length name \<le> TREAD_NAME_LEN + 1
      then Inr (upd_thread t (\<lambda>th. th\<lparr>th_name := name @ drop (length name) (th_name th)\<rparr>) s)
      else Inl OutOfBounds)"

definition init_thread_strcut :: "tid \<Rightarrow> 8 word list \<Rightarrow> kstate \<Rightarrow> kstate result" where
  "init_thread_strcut t name s =
     (let s = clear_thread t s
      in bindE (kassert (\<lambda>_. length name < TREAD_NAME_LEN) s) (\<lambda>s. copy_name name t s))"

definition start_stack :: "tid \<Rightarrow> kstate \<Rightarrow> kstate" where
  "start_stack t s =
     (let (sp, m) = init_thread_stack (initial_thread_func_addr s) (th_stack (g_threads s t))
                      (th_stack_size (g_threads s t)) (mem s)
      in (upd_thread t (\<lambda>th. th\<lparr>th_sp := sp\<rparr>) s)\<lparr>mem := m, pending := (pending s)(t := [START])\<rparr>)"

section \<open>Creating threads\<close>

definition thread_create ::
    "8 word list \<Rightarrow> 64 word \<Rightarrow> 64 word \<Rightarrow> int \<Rightarrow> 64 word \<Rightarrow> 64 word \<Rightarrow> kstate \<Rightarrow> kstate result" where
  "thread_create name entry a priority stack stack_size s =
     bindE (get_free_thread_node s) (\<lambda>(node, s).
     case node of
       None \<Rightarrow> Inr (set_rax (-1) (printf_bracket s))
     | Some thread \<Rightarrow>
         bindE (init_thread_strcut thread name s) (\<lambda>s.
         let s = upd_thread thread (\<lambda>th. th\<lparr>th_entry := entry, th_arg := a, th_priority := priority,
                   th_state := THREAD_SUSPENDED, th_blocking_wait_queue := None,
                   th_wait_queue_block_ret := NO_ERR, th_retcode := 0\<rparr>) s;
             s = wait_queue_init (ExitQueue thread) s;
             s = s\<lparr>mem := snd (memset (mem s) stack 0 stack_size)\<rparr>;
             s = upd_thread thread (\<lambda>th. th\<lparr>th_stack := stack, th_stack_size := stack_size\<rparr>) s;
             s = start_stack thread s;
             (state, s) = THREAD_LOCK s
         in bindE (on_nodes (list_add_tail ThreadListHead (ThreadListNode thread)) s) (\<lambda>s.
            let s = printf_bracket (THREAD_UNLOCK state s)
            in bindE (thread_ptr_to_id thread s) (\<lambda>thid. Inr (set_rax thid s)))))"

section \<open>Giving up the processor\<close>

definition thread_yield :: "kstate \<Rightarrow> kstate result" where
  "thread_yield s =
     bindE (current s) (\<lambda>old.
     bindE (kassert (\<lambda>s. tstate s old = THREAD_RUNNING) s) (\<lambda>s.
     let (state, s) = THREAD_LOCK s;
         s = upd_thread old (\<lambda>th. th\<lparr>th_state := THREAD_READY, th_remaining_quantum := 0\<rparr>) s
     in bindE (if \<not> thread_is_idle s old then insert_in_run_queue_tail old s else Inr s) (\<lambda>s.
        thread_resched (push_frame old (UNLOCK state) s))))"

definition thread_preempt :: "kstate \<Rightarrow> kstate result" where
  "thread_preempt s =
     bindE (current s) (\<lambda>thread.
     bindE (kassert (\<lambda>s. tstate s thread = THREAD_RUNNING) s) (\<lambda>s.
     let (state, s) = THREAD_LOCK s;
         s = upd_thread thread (\<lambda>th. th\<lparr>th_state := THREAD_READY\<rparr>) s
     in bindE (if \<not> thread_is_idle s thread
               then if th_remaining_quantum (g_threads s thread) > 0
                    then insert_in_run_queue_head thread s
                    else insert_in_run_queue_tail thread s
               else Inr s) (\<lambda>s.
        thread_resched (push_frame thread (UNLOCK state) s))))"

definition thread_resume :: "int \<Rightarrow> kstate \<Rightarrow> kstate result" where
  "thread_resume thid s =
     bindE (thread_id_to_ptr thid s) (\<lambda>thread.
     bindE (kassert (\<lambda>s. tstate s thread \<noteq> THREAD_DEATH) s) (\<lambda>s.
     let ints_disabled = arch_ints_disabled (rflags s);
         (state, s) = THREAD_LOCK s
     in bindE (if tstate s thread = THREAD_SUSPENDED
               then bindE (insert_in_run_queue_head thread
                             (upd_thread thread (\<lambda>th. th\<lparr>th_state := THREAD_READY\<rparr>) s)) (\<lambda>s.
                    Inr (\<not> ints_disabled, s))
               else Inr (False, s)) (\<lambda>(resched, s).
        let s = THREAD_UNLOCK state s
        in if resched
           then bindE (current s) (\<lambda>c. thread_yield (push_frame c (RETURN NO_ERR) s))
           else Inr (set_rax NO_ERR s))))"

section \<open>Joining, detaching, exiting\<close>

text \<open>The part of \<open>thread_join\<close> after the wait.\<close>

definition thread_join_finish :: "tid \<Rightarrow> nat option \<Rightarrow> x64_flags \<Rightarrow> kstate \<Rightarrow> kstate result" where
  "thread_join_finish thread retcode state s =
     bindE (kassert (\<lambda>s. tstate s thread = THREAD_DEATH) s) (\<lambda>s.
     bindE (kassert (\<lambda>s. th_blocking_wait_queue (g_threads s thread) = None) s) (\<lambda>s.
     bindE (kassert (\<lambda>s. \<not> list_in_list (nodes s) (QueueNode thread)) s) (\<lambda>s.
     let s = (case retcode of
                None \<Rightarrow> s
              | Some p \<Rightarrow> s\<lparr>int_cells := (int_cells s)(p := th_retcode (g_threads s thread))\<rparr>)
     in bindE (on_nodes (list_delete (ThreadListNode thread)) s) (\<lambda>s.
        bindE (free_thread_node thread s) (\<lambda>s.
        Inr (set_rax NO_ERR (THREAD_UNLOCK state s)))))))"

definition thread_join_rest :: "tid \<Rightarrow> nat option \<Rightarrow> x64_flags \<Rightarrow> kstate \<Rightarrow> kstate result" where
  "thread_join_rest thread retcode state s =
     (let err = rax s
      in if err < 0 then Inr (set_rax err (THREAD_UNLOCK state s))
         else thread_join_finish thread retcode state s)"

definition thread_join :: "int \<Rightarrow> nat option \<Rightarrow> 64 word \<Rightarrow> kstate \<Rightarrow> kstate result" where
  "thread_join thid retcode timeout s =
     bindE (thread_id_to_ptr thid s) (\<lambda>thread.
     let (state, s) = THREAD_LOCK s
     in if th_flags (g_threads s thread) AND THREAD_FLAG_DETACHED \<noteq> 0
        then Inr (set_rax (- ERR_THREAD_DETACHED) (THREAD_UNLOCK state s))
        else if tstate s thread \<noteq> THREAD_DEATH
        then bindE (current s) (\<lambda>c.
             wait_queue_block (ExitQueue thread) timeout
               (push_frame c (JOIN_REST thread retcode state) s))
        else thread_join_finish thread retcode state s)"

text \<open>
  A \<open>thread_t*\<close> passed where an \<open>int\<close> is expected: the low half of the address. The size of
  \<open>thread_t\<close> is that of its fields on x86-64.
\<close>

definition sizeof_thread :: nat where "sizeof_thread = 176"

definition ptr_to_int :: "kstate \<Rightarrow> tid \<Rightarrow> int" where
  "ptr_to_int s t = sint (ucast (g_threads_addr s + of_nat (sizeof_thread * t)) :: 32 word)"

definition thread_detach :: "int \<Rightarrow> kstate \<Rightarrow> kstate result" where
  "thread_detach thid s =
     bindE (thread_id_to_ptr thid s) (\<lambda>thread.
     let (state, s) = THREAD_LOCK s
     in bindE (wait_queue_wake_all (ExitQueue thread) False ERR_THREAD_DETACHED s) (\<lambda>s.
        if tstate s thread = THREAD_DEATH
        then let s = upd_thread thread (\<lambda>th. th\<lparr>th_flags := th_flags th AND NOT THREAD_FLAG_DETACHED\<rparr>) s;
                 s = THREAD_UNLOCK state s
             in thread_join (ptr_to_int s thread) None 0 s
        else let s = upd_thread thread (\<lambda>th. th\<lparr>th_flags := th_flags th OR THREAD_FLAG_DETACHED\<rparr>) s
             in Inr (set_rax NO_ERR (THREAD_UNLOCK state s))))"

definition thread_exit :: "int \<Rightarrow> kstate \<Rightarrow> kstate result" where
  "thread_exit retcode s =
     bindE (current s) (\<lambda>thread.
     bindE (kassert (\<lambda>s. tstate s thread = THREAD_RUNNING) s) (\<lambda>s.
     bindE (kassert (\<lambda>s. \<not> thread_is_idle s thread) s) (\<lambda>s.
     let (state, s) = THREAD_LOCK s;
         s = upd_thread thread (\<lambda>th. th\<lparr>th_state := THREAD_DEATH, th_retcode := retcode\<rparr>) s
     in bindE (if th_flags (g_threads s thread) AND THREAD_FLAG_DETACHED \<noteq> 0
               then bindE (on_nodes (list_delete (ThreadListNode thread)) s) (free_thread_node thread)
               else wait_queue_wake_all (ExitQueue thread) False 0 s) (\<lambda>s.
        thread_resched (push_frame thread EXIT_REST s)))))"

section \<open>Sleeping, blocking\<close>

definition thread_sleep_handler ::
    "timer_id \<Rightarrow> 64 word \<Rightarrow> tid option \<Rightarrow> kstate \<Rightarrow> (handler_return \<times> kstate) result" where
  "thread_sleep_handler timer now a s =
     bindE (deref a) (\<lambda>thread.
     bindE (kassert (\<lambda>s. tstate s thread = THREAD_SLEEPING) s) (\<lambda>s.
     let (state, s) = THREAD_LOCK s;
         s = upd_thread thread (\<lambda>th. th\<lparr>th_state := THREAD_READY\<rparr>) s
     in bindE (insert_in_run_queue_head thread s) (\<lambda>s.
        Inr (INT_RESCHEDULE, THREAD_UNLOCK state s))))"

definition thread_sleep :: "64 word \<Rightarrow> kstate \<Rightarrow> kstate result" where
  "thread_sleep delay s =
     bindE (current s) (\<lambda>thread.
     bindE (kassert (\<lambda>s. tstate s thread = THREAD_RUNNING) s) (\<lambda>s.
     bindE (kassert (\<lambda>s. \<not> thread_is_idle s thread) s) (\<lambda>s.
     let s = timer_initialize (StackTimer thread) s;
         (state, s) = THREAD_LOCK s
     in bindE (timer_set_oneshot (StackTimer thread) delay ThreadSleepHandler (Some thread) s) (\<lambda>s.
        let s = upd_thread thread (\<lambda>th. th\<lparr>th_state := THREAD_SLEEPING\<rparr>) s
        in thread_resched (push_frame thread (UNLOCK state) s)))))"

definition thread_block :: "kstate \<Rightarrow> kstate result" where
  "thread_block s =
     bindE (current s) (\<lambda>thread.
     bindE (kassert (\<lambda>s. tstate s thread = THREAD_BLOCKED) s) (\<lambda>s.
     bindE (kassert (\<lambda>s. spinlock_held (thread_lock s)) s) (\<lambda>s.
     bindE (kassert (\<lambda>s. \<not> thread_is_idle s thread) s) (\<lambda>s.
     thread_resched s))))"

definition thread_unblock :: "int \<Rightarrow> bool \<Rightarrow> kstate \<Rightarrow> kstate result" where
  "thread_unblock thid resched s =
     bindE (thread_id_to_ptr thid s) (\<lambda>thread.
     bindE (kassert (\<lambda>s. tstate s thread = THREAD_BLOCKED) s) (\<lambda>s.
     bindE (kassert (\<lambda>s. spinlock_held (thread_lock s)) s) (\<lambda>s.
     bindE (kassert (\<lambda>s. \<not> thread_is_idle s thread) s) (\<lambda>s.
     bindE (insert_in_run_queue_head thread
              (upd_thread thread (\<lambda>th. th\<lparr>th_state := THREAD_READY\<rparr>) s)) (\<lambda>s.
     if resched then thread_resched s else Inr s)))))"

section \<open>Name and priority of the running thread\<close>

definition thread_set_name :: "8 word list \<Rightarrow> kstate \<Rightarrow> kstate result" where
  "thread_set_name name s =
     bindE (current s) (\<lambda>cur.
     let (state, s) = THREAD_LOCK s
     in bindE (copy_name name cur s) (\<lambda>s. Inr (THREAD_UNLOCK state s)))"

definition thread_set_priority :: "int \<Rightarrow> kstate \<Rightarrow> kstate result" where
  "thread_set_priority priority s =
     bindE (current s) (\<lambda>cur.
     let (state, s) = THREAD_LOCK s;
         priority = (if priority \<le> IDLE_PRIORITY then IDLE_PRIORITY + 1 else priority);
         priority = (if priority > HIGHEST_PRIORITY then HIGHEST_PRIORITY else priority);
         s = upd_thread cur (\<lambda>th. th\<lparr>th_priority := priority\<rparr>) s
     in bindE (insert_in_run_queue_head cur s) (\<lambda>s.
        thread_resched (push_frame cur (UNLOCK state) s)))"

section \<open>Coming back from a context switch\<close>

text \<open>\<open>initial_thread_func\<close> up to the call of the thread's entry routine.\<close>

definition initial_thread_func :: "kstate \<Rightarrow> kstate result" where
  "initial_thread_func s =
     (let s = s\<lparr>thread_lock := spin_unlock (thread_lock s)\<rparr>;
          s = s\<lparr>rflags := arch_enable_ints (rflags s)\<rparr>
      in bindE (current s) (\<lambda>thread.
         kassert (\<lambda>s. th_entry (g_threads s thread) \<noteq> 0) s))"

fun run_frame :: "tid \<Rightarrow> frame \<Rightarrow> kstate \<Rightarrow> kstate result" where
  "run_frame t (UNLOCK state) s = Inr (THREAD_UNLOCK state s)"
| "run_frame t (RETURN r) s = Inr (set_rax r s)"
| "run_frame t (BLOCK_REST timeout) s = wait_queue_block_rest t timeout s"
| "run_frame t (JOIN_REST thread retcode state) s = thread_join_rest thread retcode state s"
| "run_frame t EXIT_REST s = Inl Panic"
| "run_frame t START s = initial_thread_func s"
| "run_frame t (IRET f) s = Inr (s\<lparr>rflags := f\<rparr>)"

fun run_frames :: "tid \<Rightarrow> frame list \<Rightarrow> kstate \<Rightarrow> kstate result" where
  "run_frames t [] s = Inr s"
| "run_frames t (f # fs) s = bindE (run_frame t f s) (run_frames t fs)"

definition resume :: "kstate \<Rightarrow> kstate result" where
  "resume s =
     bindE (deref (current_thread s)) (\<lambda>t.
     run_frames t (pending s t) (s\<lparr>pending := (pending s)(t := [])\<rparr>))"

text \<open>\<open>thread_detach\<close> with a timeout of 0 never switches, so its frames run at once here.\<close>

definition thread_detach_and_resume :: "int \<Rightarrow> kstate \<Rightarrow> kstate result" where
  "thread_detach_and_resume thid s =
     bindE (thread_id_to_ptr thid s) (\<lambda>thread.
     bindE (bindE (thread_detach (ptr_to_int s thread) s) resume) (\<lambda>s.
     let err = rax s
     in if err < 0 then Inr (set_rax err s)
        else bindE (current s) (\<lambda>c.
             thread_resume (ptr_to_int s thread) (push_frame c (RETURN NO_ERR) s))))"

section \<open>Start-up\<close>

definition add_free_thread :: "nat \<Rightarrow> kstate \<Rightarrow> kstate result" where
  "add_free_thread i s =
     on_nodes (list_add_tail FreeListHead (ThreadListNode i))
       (upd_thread i (\<lambda>th. th\<lparr>th_thread_id := int i\<rparr>) s)"

fun add_free_threads :: "nat list \<Rightarrow> kstate \<Rightarrow> kstate result" where
  "add_free_threads [] s = Inr s"
| "add_free_threads (i # is) s = bindE (add_free_thread i s) (add_free_threads is)"

definition thread_init_early :: "kstate \<Rightarrow> kstate result" where
  "thread_init_early s =
     (let s = fold (\<lambda>i. set_nodes (list_initialize (RunQueueHead i))) [0..<nat NUM_PRIORITY] s;
          s = s\<lparr>run_queue_bitmap := 0\<rparr>;
          s = set_nodes (list_initialize ThreadListHead) s;
          s = set_nodes (list_initialize FreeListHead) s;
          s = fold clear_thread [0..<nat MAX_THREADS_NUM] s
      in bindE (add_free_threads [nat (IDLE_THREAD_ID + 1)..<nat MAX_THREAD_ID] s) (\<lambda>s.
         let s = upd_thread 0 (\<lambda>th. th\<lparr>th_thread_id := 0\<rparr>) s;
             idle = idle_thread
         in bindE (init_thread_strcut idle (map (\<lambda>c. of_nat (of_char c)) ''boot thread'') s) (\<lambda>s.
            let s = upd_thread idle (\<lambda>th. th\<lparr>th_priority := HIGHEST_PRIORITY,
                      th_state := THREAD_RUNNING, th_flags := THREAD_FLAG_DETACHED\<rparr>) s;
                s = wait_queue_init (ExitQueue idle) s
            in bindE (on_nodes (list_add_head ThreadListHead (ThreadListNode idle)) s) (\<lambda>s.
               Inr (set_current_thread idle s)))))"

definition thread_become_idle :: "kstate \<Rightarrow> kstate result" where
  "thread_become_idle s =
     bindE (kassert (\<lambda>s. arch_ints_disabled (rflags s)) s) (\<lambda>s.
     bindE (current s) (\<lambda>thread.
     bindE (thread_set_name (map (\<lambda>c. of_nat (of_char c)) ''idle'') s) (\<lambda>s.
     let s = upd_thread thread (\<lambda>th. th\<lparr>th_priority := IDLE_PRIORITY,
               th_flags := th_flags th OR THREAD_FLAG_IDLE\<rparr>) s;
         s = s\<lparr>rflags := arch_enable_ints (rflags s)\<rparr>
     in thread_yield s)))"

end
