(* ===== verification/Invariant.thy ===== *)
theory Invariant
  imports Thread
begin

text \<open>
  The invariant of the running kernel. \<open>inv b r v s\<close> relates the state \<open>s\<close> to the view \<open>v\<close> of its
  queues: every live thread is in exactly the queue its state calls for, has on its stack what a
  thread in that state has left to do, and no node is lost. \<open>r\<close> is the running thread; it is
  \<open>None\<close> inside the scheduler, between the moment the running thread has given up its state and
  the switch. \<open>b\<close> tells whether the boot thread has become the idle thread and interrupts are on.
  The main lemma, \<open>sched_resume\<close>, is the switch: from an intermediate state to one with a running
  thread, without fault.
\<close>

section \<open>What a thread in a given state has left to do\<close>

abbreviation ints_on :: "x64_flags \<Rightarrow> bool" where
  "ints_on f \<equiv> \<not> arch_ints_disabled f"

fun joined :: "frame list \<Rightarrow> tid list" where
  "joined [] = []"
| "joined (JOIN_REST u p f # fs) = u # joined fs"
| "joined (_ # fs) = joined fs"

definition joins :: "kstate \<Rightarrow> tid \<Rightarrow> tid \<Rightarrow> bool" where
  "joins s t u \<longleftrightarrow> u \<in> set (joined (pending s t))"

inductive waiting :: "frame list \<Rightarrow> bool" where
  "ints_on f \<Longrightarrow> waiting [BLOCK_REST INFINIT_TIME, JOIN_REST u p f]"

inductive switched_out :: "frame list \<Rightarrow> bool" where
  "ints_on f \<Longrightarrow> switched_out [UNLOCK f]"
| "ints_on f \<Longrightarrow> switched_out [UNLOCK f, RETURN x]"
| "ints_on f \<Longrightarrow> switched_out [UNLOCK g, IRET f]"
| "switched_out [START]"

inductive_cases waitingE: "waiting fs"
inductive_cases switched_outE: "switched_out fs"
inductive_simps switched_out_simps [simp]:
  "switched_out []" "switched_out [UNLOCK f]" "switched_out [START]" "switched_out [UNLOCK f, RETURN x]"
  "switched_out [UNLOCK f, IRET g]" "switched_out [EXIT_REST]"
inductive_simps waiting_simps [simp]:
  "waiting []" "waiting [UNLOCK f]" "waiting [START]" "waiting [EXIT_REST]"
  "waiting [BLOCK_REST w, JOIN_REST u p f]"

definition frames_ok :: "thread_state \<Rightarrow> frame list \<Rightarrow> bool" where
  "frames_ok st fs \<longleftrightarrow>
     (case st of
        THREAD_SUSPENDED \<Rightarrow> fs = [START]
      | THREAD_READY \<Rightarrow> switched_out fs \<or> waiting fs
      | THREAD_RUNNING \<Rightarrow> fs = []
      | THREAD_BLOCKED \<Rightarrow> waiting fs
      | THREAD_SLEEPING \<Rightarrow> (\<exists>f. fs = [UNLOCK f] \<and> ints_on f)
      | THREAD_DEATH \<Rightarrow> fs = [EXIT_REST])"

lemma frames_ok_simps [simp]:
  "frames_ok THREAD_SUSPENDED fs \<longleftrightarrow> fs = [START]"
  "frames_ok THREAD_READY fs \<longleftrightarrow> switched_out fs \<or> waiting fs"
  "frames_ok THREAD_RUNNING fs \<longleftrightarrow> fs = []"
  "frames_ok THREAD_BLOCKED fs \<longleftrightarrow> waiting fs"
  "frames_ok THREAD_SLEEPING fs \<longleftrightarrow> (\<exists>f. fs = [UNLOCK f] \<and> ints_on f)"
  "frames_ok THREAD_DEATH fs \<longleftrightarrow> fs = [EXIT_REST]"
  by (simp_all add: frames_ok_def)

lemma waiting_joined: "waiting fs \<Longrightarrow> \<exists>u. joined fs = [u]"
  by (induction rule: waiting.induct) auto

lemma switched_out_joined [simp]: "switched_out fs \<Longrightarrow> joined fs = []"
  by (induction rule: switched_out.induct) auto

definition is_detached :: "kstate \<Rightarrow> tid \<Rightarrow> bool" where
  "is_detached s t \<longleftrightarrow> th_flags (g_threads s t) AND THREAD_FLAG_DETACHED \<noteq> 0"

section \<open>The invariant\<close>

text \<open>Where a live thread is, by its state.\<close>

definition placed :: "kview \<Rightarrow> kstate \<Rightarrow> tid \<Rightarrow> bool" where
  "placed v s t \<longleftrightarrow>
     (\<forall>q < 32. t \<in> set (runq v q) \<longleftrightarrow> t \<noteq> 0 \<and> tstate s t = THREAD_READY \<and> prio_of s t = q) \<and>
     (\<forall>w xs. waitq v w = Some xs \<longrightarrow>
        (t \<in> set xs \<longleftrightarrow> th_blocking_wait_queue (g_threads s t) = Some w)) \<and>
     (StackTimer t \<in> set (timer_l v) \<longleftrightarrow> tstate s t = THREAD_SLEEPING) \<and>
     (tstate s t = THREAD_BLOCKED \<longleftrightarrow> th_blocking_wait_queue (g_threads s t) \<noteq> None) \<and>
     (\<forall>w. th_blocking_wait_queue (g_threads s t) = Some w \<longrightarrow> (\<exists>u. w = ExitQueue u \<and> joins s t u))"

text \<open>Whom a live thread waits for: the target is live, joinable, and dead once the wait is over.\<close>

definition joining_ok :: "kview \<Rightarrow> kstate \<Rightarrow> tid \<Rightarrow> bool" where
  "joining_ok v s t \<longleftrightarrow>
     (\<forall>u. joins s t u \<longrightarrow> u \<in> set (thread_l v) \<and> u \<noteq> 0 \<and> \<not> is_detached s u \<and>
        (tstate s t \<noteq> THREAD_BLOCKED \<longrightarrow>
           tstate s u = THREAD_DEATH \<and> th_wait_queue_block_ret (g_threads s t) = 0))"

definition thread_ok :: "bool \<Rightarrow> tid option \<Rightarrow> kview \<Rightarrow> kstate \<Rightarrow> tid \<Rightarrow> bool" where
  "thread_ok b r v s t \<longleftrightarrow>
     (tstate s t = THREAD_RUNNING \<longleftrightarrow> r = Some t) \<and>
     prio_ok s t \<and> placed v s t \<and> joining_ok v s t \<and>
     frames_ok (tstate s t) (pending s t) \<and>
     waitq v (ExitQueue t) \<noteq> None \<and>
     (t = 0 \<longrightarrow> tstate s t = THREAD_READY \<or> tstate s t = THREAD_RUNNING) \<and>
     (thread_is_idle s t \<longleftrightarrow> b \<and> t = 0) \<and>
     (tstate s t = THREAD_DEATH \<longrightarrow> \<not> is_detached s t \<and> waitq v (ExitQueue t) = Some []) \<and>
     (START \<in> set (pending s t) \<longrightarrow> th_entry (g_threads s t) \<noteq> 0)"

text \<open>What is in the queues, and which nodes there are.\<close>

definition nodes_ok :: "kview \<Rightarrow> kstate \<Rightarrow> bool" where
  "nodes_ok v s \<longleftrightarrow>
     queues_ok s v \<and>
     set (thread_l v) \<union> set (free_l v) = {0..<9} \<and> 0 \<in> set (thread_l v) \<and>
     (\<forall>q < 32. set (runq v q) \<subseteq> set (thread_l v)) \<and>
     (\<forall>w xs. waitq v w = Some xs \<longrightarrow> set xs \<subseteq> set (thread_l v) \<and> wq_count s w = int (length xs)) \<and>
     (\<forall>t \<in> set (free_l v). waitq v (ExitQueue t) = None \<or> waitq v (ExitQueue t) = Some [])"

definition timers_ok :: "kview \<Rightarrow> kstate \<Rightarrow> bool" where
  "timers_ok v s \<longleftrightarrow>
     sorted (map (due_time s) (timer_l v)) \<and>
     (\<forall>m \<in> set (timer_l v). \<exists>t \<in> set (thread_l v). m = StackTimer t \<and>
        callback (timers s m) = Some ThreadSleepHandler \<and> targ (timers s m) = Some t \<and>
        periodic_time (timers s m) = 0)"

definition one_joiner :: "kview \<Rightarrow> kstate \<Rightarrow> bool" where
  "one_joiner v s \<longleftrightarrow>
     (\<forall>t \<in> set (thread_l v). \<forall>t' \<in> set (thread_l v). \<forall>u. joins s t u \<longrightarrow> joins s t' u \<longrightarrow> t = t')"

definition inv :: "bool \<Rightarrow> tid option \<Rightarrow> kview \<Rightarrow> kstate \<Rightarrow> bool" where
  "inv b r v s \<longleftrightarrow>
     nodes_ok v s \<and> timers_ok v s \<and> one_joiner v s \<and> (\<forall>t \<in> set (thread_l v). thread_ok b r v s t)"

text \<open>The state between two services: a thread runs, the scheduler's lock is free.\<close>

definition kinv :: "bool \<Rightarrow> kview \<Rightarrow> kstate \<Rightarrow> bool" where
  "kinv b v s \<longleftrightarrow>
     (\<exists>c \<in> set (thread_l v). current_thread s = Some c \<and> inv b (Some c) v s) \<and>
     thread_lock s = 0 \<and> (ints_on (rflags s) \<longleftrightarrow> b)"

lemmas inv_defs = inv_def nodes_ok_def timers_ok_def one_joiner_def thread_ok_def

section \<open>Consequences\<close>

lemma invD:
  assumes "inv b r v s"
  shows "nodes_ok v s" and "timers_ok v s" and "one_joiner v s"
    and "queues_ok s v" and "set (thread_l v) \<union> set (free_l v) = {0..<9}" and "0 \<in> set (thread_l v)"
    and "t \<in> set (thread_l v) \<Longrightarrow> thread_ok b r v s t"
    and "t \<in> set (thread_l v) \<Longrightarrow> t < 9"
  using assms by (auto simp: inv_def nodes_ok_def)

lemma thread_okD:
  assumes "thread_ok b r v s t"
  shows "tstate s t = THREAD_RUNNING \<longleftrightarrow> r = Some t" and "prio_ok s t" and "placed v s t"
    and "joining_ok v s t" and "frames_ok (tstate s t) (pending s t)"
    and "thread_is_idle s t \<longleftrightarrow> b \<and> t = 0"
  using assms by (auto simp: thread_ok_def)

lemma prio_of_bound: "prio_ok s t \<Longrightarrow> prio_of s t < 32"
  by (simp add: prio_ok_def prio_of_def nat_less_iff)

lemma not_queuedI:
  assumes "placed v s t" and "tstate s t \<noteq> THREAD_READY" and "tstate s t \<noteq> THREAD_BLOCKED"
  shows "\<not> queued v t"
  using assms by (auto simp: placed_def queued_def)

lemma not_queued_outside:
  "nodes_ok v s \<Longrightarrow> t \<notin> set (thread_l v) \<Longrightarrow> \<not> queued v t"
  unfolding nodes_ok_def queued_def by blast

lemma runq_live: "nodes_ok v s \<Longrightarrow> q < 32 \<Longrightarrow> t \<in> set (runq v q) \<Longrightarrow> t \<in> set (thread_l v)"
  unfolding nodes_ok_def by blast

text \<open>The parts of the state the invariant does not depend on.\<close>

lemma inv_cong:
  assumes "nodes s' = nodes s" "g_threads s' = g_threads s" "timers s' = timers s"
    "wq_count s' = wq_count s" "run_queue_bitmap s' = run_queue_bitmap s" "pending s' = pending s"
  shows "inv b r v s' \<longleftrightarrow> inv b r v s"
  by (simp add: inv_defs assms placed_def joining_ok_def joins_def is_detached_def prio_ok_def
      prio_of_def thread_is_idle_def due_time_def [abs_def])

text \<open>Nor does it depend on all fields of a thread.\<close>

definition same_thread :: "thread \<Rightarrow> thread \<Rightarrow> bool" where
  "same_thread th th' \<longleftrightarrow>
     th_state th' = th_state th \<and> th_priority th' = th_priority th \<and> th_flags th' = th_flags th \<and>
     th_blocking_wait_queue th' = th_blocking_wait_queue th \<and>
     th_wait_queue_block_ret th' = th_wait_queue_block_ret th \<and> th_entry th' = th_entry th"

lemma inv_same_threads:
  assumes "\<And>t. same_thread (g_threads s t) (g_threads s' t)"
    and "nodes s' = nodes s" "timers s' = timers s" "wq_count s' = wq_count s"
    "run_queue_bitmap s' = run_queue_bitmap s" "pending s' = pending s"
  shows "inv b r v s' \<longleftrightarrow> inv b r v s"
proof -
  have f: "th_state (g_threads s' t) = th_state (g_threads s t)"
    "th_priority (g_threads s' t) = th_priority (g_threads s t)"
    "th_flags (g_threads s' t) = th_flags (g_threads s t)"
    "th_blocking_wait_queue (g_threads s' t) = th_blocking_wait_queue (g_threads s t)"
    "th_wait_queue_block_ret (g_threads s' t) = th_wait_queue_block_ret (g_threads s t)"
    "th_entry (g_threads s' t) = th_entry (g_threads s t)" for t
    using assms(1) [of t] by (simp_all add: same_thread_def)
  show ?thesis
    by (simp add: inv_defs assms(2-) f placed_def joining_ok_def joins_def is_detached_def prio_ok_def
        prio_of_def thread_is_idle_def due_time_def [abs_def])
qed

section \<open>Changes to a few threads\<close>

text \<open>
  A step changes some threads \<open>T\<close>, mostly one: their fields, their frames and the queues they are
  in. What then has to be shown is the invariant of \<open>T\<close> and of the queues; all other threads keep
  theirs.
\<close>

definition only_moves :: "tid set \<Rightarrow> kview \<Rightarrow> kview \<Rightarrow> bool" where
  "only_moves T v v' \<longleftrightarrow>
     thread_l v' = thread_l v \<and> free_l v' = free_l v \<and>
     (\<forall>q < 32. set (runq v' q) - T = set (runq v q) - T) \<and>
     (\<forall>w. (waitq v' w = None \<longleftrightarrow> waitq v w = None)) \<and>
     (\<forall>w xs ys. waitq v w = Some xs \<longrightarrow> waitq v' w = Some ys \<longrightarrow> set ys - T = set xs - T) \<and>
     set (timer_l v') - StackTimer ` T = set (timer_l v) - StackTimer ` T"

definition only_changes :: "tid set \<Rightarrow> kstate \<Rightarrow> kstate \<Rightarrow> bool" where
  "only_changes T s s' \<longleftrightarrow>
     (\<forall>u. u \<notin> T \<longrightarrow> g_threads s' u = g_threads s u \<and> pending s' u = pending s u) \<and>
     (\<forall>t \<in> T. (is_detached s' t \<longleftrightarrow> is_detached s t) \<and>
        (tstate s t = THREAD_DEATH \<longrightarrow> tstate s' t = THREAD_DEATH))"

lemma only_moves_refl [simp]: "only_moves T v v"
  by (auto simp: only_moves_def)

lemma placed_frame:
  assumes p: "placed v s u" and m: "only_moves T v v'" and c: "only_changes T s s'" and "u \<notin> T"
  shows "placed v' s' u"
proof -
  from c \<open>u \<notin> T\<close> have g: "g_threads s' u = g_threads s u" "pending s' u = pending s u"
    by (auto simp: only_changes_def)
  have r: "u \<in> set (runq v' q) \<longleftrightarrow> u \<in> set (runq v q)" if "q < 32" for q
    using m that \<open>u \<notin> T\<close> unfolding only_moves_def by blast
  have w: "\<exists>xs. waitq v w = Some xs \<and> (u \<in> set ys \<longleftrightarrow> u \<in> set xs)" if "waitq v' w = Some ys" for w ys
    using m that \<open>u \<notin> T\<close> unfolding only_moves_def by (metis Diff_iff option.exhaust)
  have tm: "StackTimer u \<in> set (timer_l v') \<longleftrightarrow> StackTimer u \<in> set (timer_l v)"
    using m \<open>u \<notin> T\<close> unfolding only_moves_def by blast
  show ?thesis
    using p w by (simp add: placed_def g r tm prio_of_def joins_def) metis
qed

lemma thread_ok_frame:
  assumes ok: "thread_ok b r v s u" and "u \<notin> T"
    and m: "only_moves T v v'" and c: "only_changes T s s'"
    and run: "r' = Some u \<longleftrightarrow> r = Some u"
    and empty: "tstate s u = THREAD_DEATH \<Longrightarrow> waitq v (ExitQueue u) = Some [] \<Longrightarrow>
                  waitq v' (ExitQueue u) = Some []"
  shows "thread_ok b r' v' s' u"
proof -
  have l: "thread_l v' = thread_l v" using m by (simp add: only_moves_def)
  from c \<open>u \<notin> T\<close> have g: "g_threads s' u = g_threads s u" "pending s' u = pending s u"
    by (auto simp: only_changes_def)
  have dead: "is_detached s' x \<longleftrightarrow> is_detached s x" "tstate s x = THREAD_DEATH \<Longrightarrow> tstate s' x = THREAD_DEATH" for x
    using c by (cases "x \<in> T"; simp add: only_changes_def is_detached_def)+
  have "placed v' s' u" using placed_frame [OF thread_okD(3) [OF ok] m c \<open>u \<notin> T\<close>] .
  moreover have "joining_ok v' s' u"
    using thread_okD(4) [OF ok] dead by (auto simp: joining_ok_def l joins_def g)
  moreover have "waitq v' (ExitQueue u) \<noteq> None"
    using ok m by (auto simp: thread_ok_def only_moves_def)
  ultimately show ?thesis
    using ok run empty dead(1) [of u]
    unfolding thread_ok_def prio_ok_def thread_is_idle_def g by simp
qed

lemma inv_change:
  assumes inv: "inv b r v s"
    and m: "only_moves T v v'" and c: "only_changes T s s'"
    and glob: "nodes_ok v' s'" "timers_ok v' s'" "one_joiner v' s'"
    and run: "\<And>u. u \<notin> T \<Longrightarrow> r' = Some u \<longleftrightarrow> r = Some u"
    and empty: "\<And>u. u \<notin> T \<Longrightarrow> tstate s u = THREAD_DEATH \<Longrightarrow> waitq v (ExitQueue u) = Some [] \<Longrightarrow>
                  waitq v' (ExitQueue u) = Some []"
    and t: "\<And>t. t \<in> T \<Longrightarrow> t \<in> set (thread_l v) \<Longrightarrow> thread_ok b r' v' s' t"
  shows "inv b r' v' s'"
proof -
  have l: "thread_l v' = thread_l v" using m by (simp add: only_moves_def)
  have "thread_ok b r' v' s' u" if u: "u \<in> set (thread_l v)" "u \<notin> T" for u
    using thread_ok_frame [OF _ u(2) m c run [OF u(2)] empty [OF u(2)]] inv u(1) by (simp add: inv_def)
  with glob t l show ?thesis by (auto simp: inv_def)
qed

text \<open>A thread that stops running, sleeping or being suspended and goes to its run queue.\<close>

definition make_ready :: "tid \<Rightarrow> kstate \<Rightarrow> kview \<Rightarrow> kview" where
  "make_ready t s v = enqueue (prio_of s t) t (v\<lparr>timer_l := remove1 (StackTimer t) (timer_l v)\<rparr>)"

lemma make_ready_simps [simp]:
  "waitq (make_ready t s v) = waitq v"
  "thread_l (make_ready t s v) = thread_l v"
  "free_l (make_ready t s v) = free_l v"
  "timer_l (make_ready t s v) = remove1 (StackTimer t) (timer_l v)"
  "runq (make_ready t s v) = (runq v)(prio_of s t := runq v (prio_of s t) @ [t])"
  by (simp_all add: make_ready_def)

lemma inv_make_ready:
  assumes inv: "inv b r v s" and t: "t \<in> set (thread_l v)" "t \<noteq> 0"
    and st: "tstate s t = THREAD_RUNNING \<or> tstate s t = THREAD_SLEEPING \<or> tstate s t = THREAD_SUSPENDED"
    and q: "qok (nodes s') (run_queue_bitmap s') (make_ready t s v)"
    and s': "g_threads s' = (g_threads s)(t := th)" "pending s' = (pending s)(t := fs)"
      "timers s' = timers s" "wq_count s' = wq_count s"
    and th: "th_state th = THREAD_READY" "th_priority th = th_priority (g_threads s t)"
      "th_flags th = th_flags (g_threads s t)" "th_entry th = th_entry (g_threads s t)"
      "th_blocking_wait_queue th = th_blocking_wait_queue (g_threads s t)"
    and fs: "switched_out fs" "START \<in> set fs \<Longrightarrow> START \<in> set (pending s t)"
    and run: "r' \<noteq> Some t" "\<And>u. u \<noteq> t \<Longrightarrow> r' = Some u \<longleftrightarrow> r = Some u"
  shows "inv b r' (make_ready t s v) s'"
proof (rule inv_change [OF inv, where T = "{t}"])
  note ok = invD(7) [OF inv t(1)]
  note p = thread_okD(2,3) [OF ok]
  note view = qok_view [OF invD(4) [OF inv]]
  have q32: "prio_of s t < 32" using p(1) by (rule prio_of_bound)
  have tm: "distinct (timer_l v)" using view_distinct(5) [OF view] .
  show "only_moves {t} v (make_ready t s v)"
    using tm by (auto simp: only_moves_def)
  show "only_changes {t} s s'"
    using st by (auto simp: only_changes_def s' is_detached_def th)
  show "nodes_ok (make_ready t s v) s'"
    using invD(1) [OF inv] q t by (auto simp: nodes_ok_def s' split: if_splits)
  show "timers_ok (make_ready t s v) s'"
    using invD(2) [OF inv] tm
    by (auto simp: timers_ok_def s' sorted_map_remove1 due_time_def [abs_def])
  show "one_joiner (make_ready t s v) s'"
    using invD(3) [OF inv] fs by (simp add: one_joiner_def joins_def s')
  show "waitq (make_ready t s v) (ExitQueue u) = Some []"
    if "waitq v (ExitQueue u) = Some []" for u using that by simp
  show "thread_ok b r' (make_ready t s v) s' u" if "u \<in> {t}" for u
  proof -
    have nq: "\<not> queued v t" using not_queuedI [OF p(2)] st by auto
    have "placed (make_ready t s v) s' t"
      using p st t(2) tm th q32 by (auto simp: placed_def s' prio_of_def)
    moreover have "joining_ok (make_ready t s v) s' t"
      using fs by (simp add: joining_ok_def joins_def s')
    ultimately show ?thesis
      using that ok st fs run t by (auto simp: thread_ok_def s' th prio_ok_def thread_is_idle_def is_detached_def)
  qed
  show "r' = Some u \<longleftrightarrow> r = Some u" if "u \<notin> {t}" for u using run(2) that by simp
qed

text \<open>A dead thread goes back to the free list.\<close>

lemma inv_free:
  assumes glob: "nodes_ok v s" "timers_ok v s" "one_joiner v s"
    and others: "\<And>t. t \<in> set (thread_l v) \<Longrightarrow> t \<noteq> u \<Longrightarrow> thread_ok b r v s t \<and> \<not> joins s t u"
    and u: "u \<noteq> 0" "\<not> queued v u" "StackTimer u \<notin> set (timer_l v)" "waitq v (ExitQueue u) = Some []"
      "u \<in> set (thread_l v)"
    and q: "qok (nodes s') (run_queue_bitmap s') (v\<lparr>thread_l := remove1 u (thread_l v), free_l := free_l v @ [u]\<rparr>)"
    and s': "g_threads s' = g_threads s" "pending s' = pending s" "timers s' = timers s"
      "wq_count s' = wq_count s"
  shows "inv b r (v\<lparr>thread_l := remove1 u (thread_l v), free_l := free_l v @ [u]\<rparr>) s'"
    (is "inv b r ?v s'")
proof -
  have d: "distinct (thread_l v)"
    using glob(1) view_distinct(3) [OF qok_view] by (auto simp: nodes_ok_def)
  then have l: "set (thread_l ?v) = set (thread_l v) - {u}" by simp
  have nq: "u \<notin> set (runq v q)" if "q < 32" for q using u(2) that by (auto simp: queued_def)
  have nw: "waitq v w = Some xs \<Longrightarrow> u \<notin> set xs" for w xs using u(2) by (auto simp: queued_def)
  have "nodes_ok ?v s'"
    using glob(1) q u nq nw unfolding nodes_ok_def l s' by (auto simp: subset_Diff_insert)
  moreover have "timers_ok ?v s'"
    using glob(2) u(3) unfolding timers_ok_def l s' by (auto simp: due_time_def [abs_def] s')
  moreover have "one_joiner ?v s'"
    using glob(3) unfolding one_joiner_def l joins_def s' by blast
  moreover have "thread_ok b r ?v s' t" if t: "t \<in> set (thread_l v)" "t \<noteq> u" for t
  proof -
    from others [OF t] have ok: "thread_ok b r v s t" and nj: "\<not> joins s t u" by auto
    have "placed ?v s' t" using thread_okD(3) [OF ok]
      unfolding placed_def joins_def prio_of_def s' by simp
    moreover have "joining_ok ?v s' t" using thread_okD(4) [OF ok] nj
      unfolding joining_ok_def joins_def is_detached_def l s' by auto
    ultimately show ?thesis using ok
      unfolding thread_ok_def prio_ok_def thread_is_idle_def is_detached_def s' by simp
  qed
  ultimately show ?thesis unfolding inv_def l by blast
qed

section \<open>The switch\<close>

lemma pick_ready:
  assumes inv: "inv b None v s"
  shows "fst (pick v) \<in> set (thread_l v)" and "tstate s (fst (pick v)) = THREAD_READY"
proof -
  have "fst (pick v) \<in> set (thread_l v) \<and> tstate s (fst (pick v)) = THREAD_READY"
  proof (cases "first_queue v")
    case None
    then have n: "fst (pick v) = 0" by (simp add: pick_def idle_thread_def thread_id_defs)
    with invD(7) [OF inv invD(6) [OF inv]] invD(6) [OF inv] show ?thesis
      by (auto simp: thread_ok_def)
  next
    case (Some q)
    then have q: "q < 32" "runq v q \<noteq> []" by (auto dest: first_queue_SomeD)
    then have m: "hd (runq v q) \<in> set (runq v q)" by simp
    from m q have "hd (runq v q) \<in> set (thread_l v)"
      using invD(1) [OF inv] unfolding nodes_ok_def by blast
    moreover from thread_okD(3) [OF invD(7) [OF inv this]] m q
    have "tstate s (hd (runq v q)) = THREAD_READY" unfolding placed_def by blast
    ultimately show ?thesis using Some by (simp add: pick_def)
  qed
  then show "fst (pick v) \<in> set (thread_l v)" and "tstate s (fst (pick v)) = THREAD_READY" by auto
qed

lemma inv_dispatch:
  assumes inv: "inv b None v s" and n: "n = fst (pick v)"
    and q: "qok (nodes s') (run_queue_bitmap s') (snd (pick v))"
    and s': "g_threads s' = (g_threads s)(n := th)" "pending s' = (pending s)(n := [])"
      "timers s' = timers s" "wq_count s' = wq_count s"
    and th: "th_state th = THREAD_RUNNING" "th_priority th = th_priority (g_threads s n)"
      "th_flags th = th_flags (g_threads s n)"
      "th_blocking_wait_queue th = th_blocking_wait_queue (g_threads s n)"
  shows "inv b (Some n) (snd (pick v)) s'"
proof (rule inv_change [OF inv, where T = "{n}"])
  note ready = pick_ready [OF inv, folded n]
  note ok = invD(7) [OF inv ready(1)]
  note view = qok_view [OF invD(4) [OF inv]]
  have keep: "set (runq (snd (pick v)) p) - {n} = set (runq v p) - {n}" for p
  proof (cases "first_queue v")
    case (Some q)
    then obtain ts where "runq v q = n # ts"
      using n by (cases "runq v q") (auto simp: pick_def dest: first_queue_SomeD)
    with Some show ?thesis by (simp add: pick_def)
  qed (simp add: pick_def)
  have sub: "set (runq (snd (pick v)) p) \<subseteq> set (runq v p)" for p
    by (cases "runq v p") (auto simp: pick_def split: option.splits)
  have gone: "n \<notin> set (runq (snd (pick v)) p)" if "p < 32" for p
  proof (cases "first_queue v")
    case None
    then have "runq v p = []" using that first_queue_None_iff [of v] by blast
    then show ?thesis using None by (simp add: pick_def)
  next
    case (Some q)
    then have q: "q < 32" "runq v q = n # tl (runq v q)" using n by (auto simp: pick_def dest: first_queue_SomeD)
    have "n \<notin> set (tl (runq v q))" using view_distinct(1) [OF view q(1)] q(2) by (metis distinct.simps(2))
    moreover have "n \<notin> set (runq v p)" if "p \<noteq> q"
      using view_disjoint(1) [OF view q(1) \<open>p < 32\<close>, of n] q that by (metis list.set_intros(1))
    ultimately show ?thesis using Some by (simp add: pick_def)
  qed
  show "only_moves {n} v (snd (pick v))"
    using keep by (auto simp: only_moves_def)
  show "only_changes {n} s s'"
    using ready by (auto simp: only_changes_def s' is_detached_def th)
  show "nodes_ok (snd (pick v)) s'"
    using invD(1) [OF inv] q sub by (fastforce simp: nodes_ok_def s')
  show "timers_ok (snd (pick v)) s'"
    using invD(2) [OF inv] by (auto simp: timers_ok_def s' due_time_def [abs_def])
  show "one_joiner (snd (pick v)) s'"
    using invD(3) [OF inv] by (auto simp: one_joiner_def joins_def s')
  show "waitq (snd (pick v)) (ExitQueue u) = Some []"
    if "waitq v (ExitQueue u) = Some []" for u using that by simp
  show "thread_ok b (Some n) (snd (pick v)) s' u" if "u \<in> {n}" for u
  proof -
    have "placed (snd (pick v)) s' n"
      using thread_okD(3) [OF ok] ready gone th by (auto simp: placed_def s')
    moreover have "joining_ok (snd (pick v)) s' n"
      by (simp add: joining_ok_def joins_def s')
    ultimately show ?thesis
      using that ok ready th by (auto simp: thread_ok_def s' prio_ok_def thread_is_idle_def is_detached_def)
  qed
  show "Some n = Some u \<longleftrightarrow> None = Some u" if "u \<notin> {n}" for u using that by simp
qed

text \<open>
  Strict priority: no queue before the running thread's own is waiting, and the idle thread runs only
  when all queues are empty.
\<close>

definition top_first :: "kview \<Rightarrow> kstate \<Rightarrow> bool" where
  "top_first v s \<longleftrightarrow>
     (\<forall>c. current_thread s = Some c \<longrightarrow> (\<forall>q < 32. runq v q \<noteq> [] \<longrightarrow> c \<noteq> 0 \<and> prio_of s c \<le> q))"

lemma pick_top:
  assumes inv: "inv b None v s" and q: "q < 32" "runq (snd (pick v)) q \<noteq> []"
  shows "fst (pick v) \<noteq> 0 \<and> prio_of s (fst (pick v)) \<le> q"
proof (cases "first_queue v")
  case None
  then have "runq v q = []" using q(1) first_queue_None_iff [of v] by blast
  with None q(2) show ?thesis by (simp add: pick_def)
next
  case (Some p)
  note f = first_queue_SomeD [OF Some]
  have n: "fst (pick v) \<in> set (runq v p)" using Some f by (simp add: pick_def)
  have "placed v s (fst (pick v))"
    using thread_okD(3) [OF invD(7) [OF inv pick_ready(1) [OF inv]]] .
  with n f have "fst (pick v) \<noteq> 0" "prio_of s (fst (pick v)) = p" unfolding placed_def by auto
  moreover have "runq v q \<noteq> []" using q Some by (auto simp: pick_def split: if_splits)
  then have "p \<le> q" using f by (meson not_le)
  ultimately show ?thesis by simp
qed

text \<open>What a switch changes for an observer of thread states and queues.\<close>

definition switched :: "kview \<Rightarrow> kstate \<Rightarrow> kview \<Rightarrow> kstate \<Rightarrow> bool" where
  "switched v s v' s' \<longleftrightarrow>
     current_thread s' = Some (fst (pick v)) \<and>
     runq v' = runq (snd (pick v)) \<and> timer_l v' = timer_l v \<and>
     (\<forall>t. tstate s' t = (if t = fst (pick v) then THREAD_RUNNING else tstate s t)) \<and>
     timers s' = timers s \<and> ptimer s' = ptimer s \<and>
     thread_preempt_lock s' = thread_preempt_lock s \<and>
     CONFIG_DEBUG_ASSERT s' = CONFIG_DEBUG_ASSERT s \<and>
     top_first v' s' \<and>
     (\<forall>t. th_priority (g_threads s' t) = th_priority (g_threads s t) \<and>
          th_retcode (g_threads s' t) = th_retcode (g_threads s t) \<and>
          th_flags (g_threads s' t) = th_flags (g_threads s t)) \<and>
     waitq v' = waitq v \<and>
     (\<forall>t. t \<noteq> fst (pick v) \<longrightarrow> pending s' t = pending s t) \<and>
     (\<forall>u a f w. pending s (fst (pick v)) = [BLOCK_REST w, JOIN_REST u (Some a) f] \<longrightarrow>
        rax s' = NO_ERR \<and> int_cells s' a = th_retcode (g_threads s u) \<and> u \<in> set (free_l v'))"

lemma kinvI:
  assumes "inv b (Some c) v s" and "current_thread s = Some c" and "c \<in> set (thread_l v)"
    and "thread_lock s = 0" and "ints_on (rflags s) \<longleftrightarrow> b"
  shows "kinv b v s"
  using assms by (auto simp: kinv_def)

text \<open>The end of a join: the target is dead and nobody else waits for it.\<close>

lemma thread_join_finish_spec:
  assumes inv: "inv b (Some c) v s" and u: "u \<in> set (thread_l v)" "u \<noteq> 0" "u \<noteq> c"
    and dead: "tstate s u = THREAD_DEATH" and nj: "\<And>t. t \<in> set (thread_l v) \<Longrightarrow> \<not> joins s t u"
  shows "\<exists>h. thread_join_finish u p f s = Inr (s\<lparr>nodes := h, thread_lock := 0, rflags := f, rax := 0,
            int_cells := (case p of None \<Rightarrow> int_cells s
                                  | Some a \<Rightarrow> (int_cells s)(a := th_retcode (g_threads s u)))\<rparr>) \<and>
          inv b (Some c) (v\<lparr>thread_l := remove1 u (thread_l v), free_l := free_l v @ [u]\<rparr>) (s\<lparr>nodes := h\<rparr>)"
proof -
  note ok = invD(7) [OF inv u(1)]
  note view = qok_view [OF invD(4) [OF inv]]
  have nb: "th_blocking_wait_queue (g_threads s u) = None"
    using thread_okD(3) [OF ok] dead by (auto simp: placed_def)
  have nq: "\<not> queued v u" using not_queuedI [OF thread_okD(3) [OF ok]] dead by simp
  from thread_list_delete [OF view u(1)] obtain h1 where
    h1: "list_delete (ThreadListNode u) (nodes s) = Inr h1"
    "lists_ok h1 (heads (v\<lparr>thread_l := remove1 u (thread_l v)\<rparr>))" by blast
  let ?v1 = "v\<lparr>thread_l := remove1 u (thread_l v)\<rparr>"
  let ?v2 = "v\<lparr>thread_l := remove1 u (thread_l v), free_l := free_l v @ [u]\<rparr>"
  have "view_ok (s\<lparr>nodes := h1\<rparr>) ?v1" using h1(2) by (simp add: view_ok_def)
  moreover have "u \<notin> set (thread_l ?v1)" using view_distinct(3) [OF view] by simp
  moreover have "u \<notin> set (free_l ?v1)" using view_disjoint(4) [OF view u(1)] by simp
  ultimately obtain h where
    h: "list_add_tail FreeListHead (ThreadListNode u) h1 = Inr h" "lists_ok h (heads ?v2)"
    using thread_list_push(3) [of "s\<lparr>nodes := h1\<rparr>" ?v1 u] by auto
  have "thread_join_finish u p f s = Inr (s\<lparr>nodes := h, thread_lock := 0, rflags := f, rax := 0,
            int_cells := (case p of None \<Rightarrow> int_cells s
                                  | Some a \<Rightarrow> (int_cells s)(a := th_retcode (g_threads s u)))\<rparr>)"
    using dead nb nq view_in_list(1) [OF view, of u] h1(1) h(1)
    by (cases p; cases s)
      (simp_all add: thread_join_finish_def on_nodes_def free_thread_node_def set_rax_def NO_ERR_def)
  moreover have "inv b (Some c) ?v2 (s\<lparr>nodes := h\<rparr>)"
  proof (rule inv_free)
    show "nodes_ok v s" "timers_ok v s" "one_joiner v s" using invD(1-3) [OF inv] .
    show "thread_ok b (Some c) v s t \<and> \<not> joins s t u" if "t \<in> set (thread_l v)" for t
      using invD(7) [OF inv that] nj [OF that] by simp
    show "StackTimer u \<notin> set (timer_l v)" using thread_okD(3) [OF ok] dead by (auto simp: placed_def)
    show "waitq v (ExitQueue u) = Some []" using ok dead by (auto simp: thread_ok_def)
    show "qok (nodes (s\<lparr>nodes := h\<rparr>)) (run_queue_bitmap (s\<lparr>nodes := h\<rparr>)) ?v2"
      using h(2) invD(4) [OF inv] by (simp add: qok_def)
  qed (use u nq in simp_all)
  ultimately show ?thesis by blast
qed

lemma run_switched_out:
  assumes "switched_out fs" and "current_thread s = Some n"
    and "START \<in> set fs \<Longrightarrow> th_entry (g_threads s n) \<noteq> 0"
  shows "\<exists>f x. run_frames n fs s = Inr (s\<lparr>thread_lock := 0, rflags := f, rax := x\<rparr>) \<and> ints_on f"
  using assms
proof (induction rule: switched_out.induct)
  case (1 f)
  then show ?case by (intro exI [of _ f] exI [of _ "rax s"]) (cases s, simp)
next
  case (2 f x)
  then show ?case by (intro exI [of _ f] exI [of _ x]) (cases s, simp add: set_rax_def)
next
  case (3 f g)
  then show ?case by (intro exI [of _ f] exI [of _ "rax s"]) (cases s, simp)
next
  case 4
  then show ?case
    by (intro exI [of _ "arch_enable_ints (rflags s)"] exI [of _ "rax s"])
      (cases s, simp add: initial_thread_func_def spin_unlock_def)
qed

theorem sched_resume:
  assumes inv: "inv True None v s" and c: "current_thread s = Some c"
  shows "\<exists>s' v'. bindE (thread_resched s) resume = Inr s' \<and> kinv True v' s' \<and> switched v s v' s'"
proof -
  define n where "n = fst (pick v)"
  note nread = pick_ready [OF inv, folded n_def]
  note okn = invD(7) [OF inv nread(1)]
  from thread_resched_spec [OF invD(4) [OF inv] c] obtain h b where
    r: "thread_resched s = Inr (dispatch n (s\<lparr>nodes := h, run_queue_bitmap := b\<rparr>))"
    and q: "qok h b (snd (pick v))" by (auto simp: n_def)
  define s1 where "s1 = dispatch n (s\<lparr>nodes := h, run_queue_bitmap := b\<rparr>)"
  define s2 where "s2 = s1\<lparr>pending := (pending s1)(n := [])\<rparr>"
  have res: "bindE (thread_resched s) resume = run_frames n (pending s n) s2"
    by (simp add: r resume_def s1_def s2_def)
  have g2: "g_threads s2 = (g_threads s)(n := g_threads s2 n)"
    using dispatch_quantum(2) [of _ n "s\<lparr>nodes := h, run_queue_bitmap := b\<rparr>"]
    by (auto simp: s2_def s1_def)
  have inv2: "inv True (Some n) (snd (pick v)) s2"
  proof (rule inv_dispatch [OF inv n_def _ g2])
    show "qok (nodes s2) (run_queue_bitmap s2) (snd (pick v))" using q by (simp add: s2_def s1_def)
  qed (simp_all add: s2_def s1_def dispatch_threads)
  have base: "current_thread s2 = Some n" "timers s2 = timers s" "ptimer s2 = ptimer s"
    "thread_preempt_lock s2 = thread_preempt_lock s" "CONFIG_DEBUG_ASSERT s2 = CONFIG_DEBUG_ASSERT s"
    "tstate s2 t = (if t = n then THREAD_RUNNING else tstate s t)"
    "th_entry (g_threads s2 n) = th_entry (g_threads s n)"
    "th_wait_queue_block_ret (g_threads s2 n) = th_wait_queue_block_ret (g_threads s n)" for t
    by (simp_all add: s2_def s1_def dispatch_threads)
  have pri: "th_priority (g_threads s2 t) = th_priority (g_threads s t)"
    "th_retcode (g_threads s2 t) = th_retcode (g_threads s t)"
    "th_flags (g_threads s2 t) = th_flags (g_threads s t)" "t \<noteq> n \<Longrightarrow> pending s2 t = pending s t" for t
    by (simp_all add: s2_def s1_def dispatch_threads)
  then have pr: "prio_of s2 n = prio_of s n" by (simp add: prio_of_def)
  have top: "top_first v' s'" if "runq v' = runq (snd (pick v))" "current_thread s' = Some n"
    "prio_of s' n = prio_of s2 n" for v' s'
    using that pick_top [OF inv, folded n_def] pr by (simp add: top_first_def)
  from thread_okD(5) [OF okn] nread(2) consider "switched_out (pending s n)" | "waiting (pending s n)" by auto
  then show ?thesis
  proof cases
    case 1
    have "START \<in> set (pending s n) \<Longrightarrow> th_entry (g_threads s2 n) \<noteq> 0"
      using okn base by (auto simp: thread_ok_def)
    from run_switched_out [OF 1 base(1) this] obtain f x where
      f: "run_frames n (pending s n) s2 = Inr (s2\<lparr>thread_lock := 0, rflags := f, rax := x\<rparr>)" "ints_on f"
      by blast
    let ?s = "s2\<lparr>thread_lock := 0, rflags := f, rax := x\<rparr>"
    have "inv True (Some n) (snd (pick v)) ?s" using inv2 by (subst inv_cong [where s = s2]) simp_all
    then have "kinv True (snd (pick v)) ?s" by (rule kinvI) (use base nread f in simp_all)
    moreover have "switched v s (snd (pick v)) ?s"
      using base pri 1 top [of "snd (pick v)" ?s]
      by (auto simp: switched_def n_def [symmetric] prio_of_def elim: switched_outE)
    ultimately show ?thesis using res f(1) by auto
  next
    case 2
    then obtain u p f where fs: "pending s n = [BLOCK_REST INFINIT_TIME, JOIN_REST u p f]" and f: "ints_on f"
      by (auto elim: waitingE)
    then have j: "joins s n u" by (simp add: joins_def)
    with thread_okD(4) [OF okn] nread(2) have u: "u \<in> set (thread_l v)" "u \<noteq> 0" "tstate s u = THREAD_DEATH"
      "th_wait_queue_block_ret (g_threads s n) = 0"
      by (auto simp: joining_ok_def)
    with nread(2) have "u \<noteq> n" by auto
    let ?s3 = "s2\<lparr>rax := 0\<rparr>"
    have inv3: "inv True (Some n) (snd (pick v)) ?s3" using inv2 by (subst inv_cong [where s = s2]) simp_all
    have nj: "\<not> joins ?s3 t u" if "t \<in> set (thread_l (snd (pick v)))" for t
      using invD(3) [OF inv] that j nread(1) by (auto simp: one_joiner_def joins_def s2_def s1_def)
    have ul: "u \<in> set (thread_l (snd (pick v)))" and dead: "tstate ?s3 u = THREAD_DEATH"
      using u \<open>u \<noteq> n\<close> base by simp_all
    define cells where "cells = (case p of None \<Rightarrow> int_cells ?s3
        | Some a \<Rightarrow> (int_cells ?s3)(a := th_retcode (g_threads ?s3 u)))"
    from thread_join_finish_spec [OF inv3 ul u(2) \<open>u \<noteq> n\<close> dead nj, of p f, folded cells_def] obtain h' where
      fin: "thread_join_finish u p f ?s3 = Inr (?s3\<lparr>nodes := h', thread_lock := 0, rflags := f, rax := 0,
        int_cells := cells\<rparr>)"
      and inv4: "inv True (Some n) (snd (pick v)\<lparr>thread_l := remove1 u (thread_l (snd (pick v))),
        free_l := free_l (snd (pick v)) @ [u]\<rparr>) (?s3\<lparr>nodes := h'\<rparr>)" by blast
    let ?v = "snd (pick v)\<lparr>thread_l := remove1 u (thread_l (snd (pick v))), free_l := free_l (snd (pick v)) @ [u]\<rparr>"
    let ?s = "?s3\<lparr>nodes := h', thread_lock := 0, rflags := f, rax := 0, int_cells := cells\<rparr>"
    have "run_frames n (pending s n) s2 = Inr ?s"
      using fin base u by (simp add: fs wait_queue_block_rest_def set_rax_def thread_join_rest_def)
    moreover have "inv True (Some n) ?v ?s" using inv4 by (subst inv_cong [where s = "?s3\<lparr>nodes := h'\<rparr>"]) simp_all
    then have "kinv True ?v ?s"
      by (rule kinvI) (use base nread f \<open>u \<noteq> n\<close> in simp_all)
    moreover have "g_threads s2 u = g_threads s u" using g2 \<open>u \<noteq> n\<close> by (metis fun_upd_apply)
    then have "switched v s ?v ?s"
      using base pri fs top [of ?v ?s] by (auto simp: switched_def n_def [symmetric] NO_ERR_def cells_def prio_of_def)
    ultimately show ?thesis using res by auto
  qed
qed

end
