(* ===== verification/Services.thy ===== *)
theory Services
  imports Invariant
begin

text \<open>
  Each thread service keeps the invariant and does not fault, the debug assertions included. The
  services that give up the processor are shown together with the switch (\<open>sched_resume\<close>):
  \<open>gave_up c st w s v' s'\<close> says that the caller \<open>c\<close> went to state \<open>st\<close>, that the queues before the
  choice were \<open>w\<close>, and what the choice left.
\<close>

section \<open>Giving up the processor\<close>

definition gave_up :: "tid \<Rightarrow> thread_state \<Rightarrow> kview \<Rightarrow> kstate \<Rightarrow> kview \<Rightarrow> kstate \<Rightarrow> bool" where
  "gave_up c st w s v' s' \<longleftrightarrow>
     current_thread s' = Some (fst (pick w)) \<and>
     runq v' = runq (snd (pick w)) \<and> timer_l v' = timer_l w \<and>
     (\<forall>t. tstate s' t = (if t = fst (pick w) then THREAD_RUNNING else if t = c then st else tstate s t)) \<and>
     ptimer s' = ptimer s \<and>
     thread_preempt_lock s' = thread_preempt_lock s \<and>
     CONFIG_DEBUG_ASSERT s' = CONFIG_DEBUG_ASSERT s \<and> top_first v' s' \<and>
     (\<forall>t. th_priority (g_threads s' t) = th_priority (g_threads s t) \<and>
          th_flags (g_threads s' t) = th_flags (g_threads s t)) \<and>
     waitq v' = waitq w"

lemma gave_upI:
  assumes "switched w s1 v' s'" and "\<And>t. tstate s1 t = (if t = c then st else tstate s t)"
    and "ptimer s1 = ptimer s" and "thread_preempt_lock s1 = thread_preempt_lock s"
    and "CONFIG_DEBUG_ASSERT s1 = CONFIG_DEBUG_ASSERT s"
    and "\<And>t. th_priority (g_threads s1 t) = th_priority (g_threads s t)"
    and "\<And>t. th_flags (g_threads s1 t) = th_flags (g_threads s t)"
  shows "gave_up c st w s v' s'"
  using assms by (simp add: switched_def gave_up_def)

lemma kinvE:
  assumes "kinv b v s"
  obtains c where "current_thread s = Some c" "c \<in> set (thread_l v)" "inv b (Some c) v s"
    "thread_lock s = 0" "ints_on (rflags s) \<longleftrightarrow> b" "thread_ok b (Some c) v s c"
    "tstate s c = THREAD_RUNNING" "pending s c = []" "prio_ok s c" "\<not> queued v c"
    "StackTimer c \<notin> set (timer_l v)" "thread_is_idle s c \<longleftrightarrow> b \<and> c = 0" "queues_ok s v"
    "th_blocking_wait_queue (g_threads s c) = None"
proof -
  from assms obtain c where c: "current_thread s = Some c" "c \<in> set (thread_l v)" "inv b (Some c) v s"
    "thread_lock s = 0" "ints_on (rflags s) \<longleftrightarrow> b" by (auto simp: kinv_def)
  have ok: "thread_ok b (Some c) v s c" using invD(7) [OF c(3,2)] .
  then have run: "tstate s c = THREAD_RUNNING" by (simp add: thread_ok_def)
  show thesis
  proof (rule that [OF c ok run])
    show "pending s c = []" using thread_okD(5) [OF ok] run by simp
    show "prio_ok s c" using thread_okD(2) [OF ok] .
    show "\<not> queued v c" using not_queuedI [OF thread_okD(3) [OF ok]] run by simp
    show "StackTimer c \<notin> set (timer_l v)" "th_blocking_wait_queue (g_threads s c) = None"
      using thread_okD(3) [OF ok] run by (auto simp: placed_def)
    show "thread_is_idle s c \<longleftrightarrow> b \<and> c = 0" using thread_okD(6) [OF ok] .
    show "queues_ok s v" using invD(4) [OF c(3)] .
  qed
qed

text \<open>The idle thread gives up the processor: it is ready but in no queue.\<close>

lemma inv_idle_ready:
  assumes inv: "inv b (Some 0) v s"
    and s': "g_threads s' = (g_threads s)(0 := th)" "pending s' = (pending s)(0 := fs)"
      "timers s' = timers s" "wq_count s' = wq_count s" "nodes s' = nodes s"
      "run_queue_bitmap s' = run_queue_bitmap s"
    and th: "th_state th = THREAD_READY" "th_priority th = th_priority (g_threads s 0)"
      "th_flags th = th_flags (g_threads s 0)" "th_entry th = th_entry (g_threads s 0)"
      "th_blocking_wait_queue th = th_blocking_wait_queue (g_threads s 0)"
    and fs: "switched_out fs" "START \<notin> set fs"
  shows "inv b None v s'"
proof (rule inv_change [OF inv, where T = "{0}"])
  note ok = invD(7) [OF inv invD(6) [OF inv]]
  have st: "tstate s 0 = THREAD_RUNNING" using ok by (simp add: thread_ok_def)
  show "only_changes {0} s s'" using st by (auto simp: only_changes_def s' is_detached_def th)
  show "nodes_ok v s'" using invD(1) [OF inv] by (simp add: nodes_ok_def s')
  show "timers_ok v s'" using invD(2) [OF inv] by (simp add: timers_ok_def s' due_time_def [abs_def])
  show "one_joiner v s'" using invD(3) [OF inv] fs by (simp add: one_joiner_def joins_def s')
  show "thread_ok b None v s' u" if "u \<in> {0}" for u
  proof -
    have "placed v s' 0" using thread_okD(3) [OF ok] st th by (auto simp: placed_def s')
    moreover have "joining_ok v s' 0" using fs by (simp add: joining_ok_def joins_def s')
    ultimately show ?thesis
      using that ok st th fs
      by (auto simp: thread_ok_def s' prio_ok_def thread_is_idle_def is_detached_def)
  qed
qed simp_all

text \<open>
  The caller goes to the end of its run queue, or is the idle thread: what \<open>thread_yield\<close> and
  \<open>thread_preempt\<close> have in common.
\<close>

definition put_back :: "tid \<Rightarrow> kstate \<Rightarrow> kview \<Rightarrow> kview" where
  "put_back c s v = (if c = 0 then v else make_ready c s v)"

lemma requeue_spec:
  assumes k: "kinv True v s" and c: "current_thread s = Some c"
    and th: "th_state th = THREAD_READY" "th_priority th = th_priority (g_threads s c)"
      "th_flags th = th_flags (g_threads s c)" "th_entry th = th_entry (g_threads s c)"
      "th_blocking_wait_queue th = th_blocking_wait_queue (g_threads s c)"
    and fs: "switched_out (UNLOCK st # fs)"
    and s0: "s0 = s\<lparr>g_threads := (g_threads s)(c := th), thread_lock := 1,
      rflags := arch_disable_ints f, pending := (pending s)(c := fs)\<rparr>"
    and ins: "ins = insert_in_run_queue_head c \<or> ins = insert_in_run_queue_tail c"
  shows "\<exists>s' v'. bindE (bindE (if \<not> thread_is_idle s0 c then ins s0 else Inr s0)
                     (\<lambda>s. thread_resched (push_frame c (UNLOCK st) s))) resume = Inr s' \<and>
           kinv True v' s' \<and> gave_up c THREAD_READY (put_back c s v) s v' s'"
proof -
  from k c have kc: "c \<in> set (thread_l v)" "inv True (Some c) v s" "tstate s c = THREAD_RUNNING"
    "pending s c = []" "prio_ok s c" "\<not> queued v c" "StackTimer c \<notin> set (timer_l v)"
    "thread_is_idle s c \<longleftrightarrow> c = 0" "queues_ok s v"
    by (auto elim: kinvE)
  have idle0: "thread_is_idle s0 c \<longleftrightarrow> c = 0" using kc(8) th by (simp add: s0 thread_is_idle_def)
  have nost: "START \<notin> set (UNLOCK st # fs)" using fs by (auto elim: switched_outE)
  have "\<exists>s1. (if \<not> thread_is_idle s0 c then ins s0 else Inr s0) = Inr s1 \<and>
      inv True None (put_back c s v) (push_frame c (UNLOCK st) s1) \<and>
      current_thread s1 = Some c \<and> thread_lock s1 = 1 \<and>
      g_threads s1 = (g_threads s)(c := th) \<and> ptimer s1 = ptimer s \<and>
      thread_preempt_lock s1 = thread_preempt_lock s \<and> CONFIG_DEBUG_ASSERT s1 = CONFIG_DEBUG_ASSERT s"
  proof (cases "c = 0")
    case True
    have "inv True None v (push_frame c (UNLOCK st) s0)"
      using kc(2) unfolding True
      by (rule inv_idle_ready [where th = th and fs = "UNLOCK st # fs"])
        (use th fs nost True in \<open>auto simp: s0 push_frame_def\<close>)
    then show ?thesis using idle0 True c by (simp add: put_back_def s0)
  next
    case False
    have "queues_ok s0 v" using kc(9) by (simp add: s0)
    moreover have "prio_ok s0 c" "tstate s0 c = THREAD_READY" "locked s0" "prio_of s0 c = prio_of s c"
      using kc(5) th by (simp_all add: s0 prio_ok_def locked_def prio_of_def)
    ultimately obtain h b where i: "ins s0 = Inr (s0\<lparr>nodes := h, run_queue_bitmap := b\<rparr>)"
      and q: "qok h b (enqueue (prio_of s c) c v)"
      using insert_spec [of s0 v c] kc(6) ins by metis
    have mr: "make_ready c s v = enqueue (prio_of s c) c v"
      using kc(7) by (simp add: make_ready_def remove1_idem)
    let ?s1 = "s0\<lparr>nodes := h, run_queue_bitmap := b\<rparr>"
    have "inv True None (make_ready c s v) (push_frame c (UNLOCK st) ?s1)"
      by (rule inv_make_ready [OF kc(2,1) False, where th = th and fs = "UNLOCK st # fs"])
        (use kc(3) q th fs nost in \<open>auto simp: s0 push_frame_def mr\<close>)
    then show ?thesis using i idle0 False c by (simp add: put_back_def s0)
  qed
  then obtain s1 where s1: "(if \<not> thread_is_idle s0 c then ins s0 else Inr s0) = Inr s1"
    "inv True None (put_back c s v) (push_frame c (UNLOCK st) s1)"
    "current_thread s1 = Some c" "thread_lock s1 = 1"
    "g_threads s1 = (g_threads s)(c := th)" "ptimer s1 = ptimer s"
    "thread_preempt_lock s1 = thread_preempt_lock s" "CONFIG_DEBUG_ASSERT s1 = CONFIG_DEBUG_ASSERT s" by blast
  let ?s2 = "push_frame c (UNLOCK st) s1"
  have "current_thread ?s2 = Some c" using s1 by (simp_all add: push_frame_def)
  from sched_resume [OF s1(2) this] obtain s' v' where
    r: "bindE (thread_resched ?s2) resume = Inr s'" "kinv True v' s'" "switched (put_back c s v) ?s2 v' s'"
    by (elim exE conjE) (rule that)
  have "gave_up c THREAD_READY (put_back c s v) s v' s'"
    by (rule gave_upI [OF r(3)]) (use s1 th in \<open>simp_all add: push_frame_def\<close>)
  with r(1,2) s1(1) show ?thesis by auto
qed

lemma thread_yield_spec:
  assumes k: "kinv True v s" and c: "current_thread s = Some c"
    and fs: "switched_out (UNLOCK (rflags s) # fs)"
  shows "\<exists>s' v'. bindE (thread_yield (s\<lparr>pending := (pending s)(c := fs)\<rparr>)) resume = Inr s' \<and>
           kinv True v' s' \<and> gave_up c THREAD_READY (put_back c s v) s v' s'"
proof -
  let ?th = "(g_threads s c)\<lparr>th_state := THREAD_READY, th_remaining_quantum := 0\<rparr>"
  let ?s0 = "s\<lparr>g_threads := (g_threads s)(c := ?th), thread_lock := 1,
      rflags := arch_disable_ints (rflags s), pending := (pending s)(c := fs)\<rparr>"
  have "tstate s c = THREAD_RUNNING" using k c by (auto elim: kinvE)
  with c have "thread_yield (s\<lparr>pending := (pending s)(c := fs)\<rparr>) =
      bindE (if \<not> thread_is_idle ?s0 c then insert_in_run_queue_tail c ?s0 else Inr ?s0)
        (\<lambda>s'. thread_resched (push_frame c (UNLOCK (rflags s)) s'))"
    by (cases s) (simp add: thread_yield_def upd_thread_def Let_def)
  with requeue_spec [OF k c _ _ _ _ _ fs refl, where th = ?th and ins = "insert_in_run_queue_tail c"
      and f = "rflags s"]
  show ?thesis by simp
qed

lemma thread_preempt_spec:
  assumes k: "kinv True v s" and c: "current_thread s = Some c"
    and fs: "switched_out (UNLOCK f # fs)"
  shows "\<exists>s' v'. bindE (thread_preempt (s\<lparr>rflags := f, pending := (pending s)(c := fs)\<rparr>)) resume = Inr s' \<and>
           kinv True v' s' \<and> gave_up c THREAD_READY (put_back c s v) s v' s'"
proof -
  let ?th = "(g_threads s c)\<lparr>th_state := THREAD_READY\<rparr>"
  let ?s0 = "s\<lparr>g_threads := (g_threads s)(c := ?th), thread_lock := 1,
      rflags := arch_disable_ints f, pending := (pending s)(c := fs)\<rparr>"
  let ?ins = "if th_remaining_quantum (g_threads s c) > 0 then insert_in_run_queue_head c
              else insert_in_run_queue_tail c"
  have "tstate s c = THREAD_RUNNING" using k c by (auto elim: kinvE)
  with c have "thread_preempt (s\<lparr>rflags := f, pending := (pending s)(c := fs)\<rparr>) =
      bindE (if \<not> thread_is_idle ?s0 c then ?ins ?s0 else Inr ?s0)
        (\<lambda>s'. thread_resched (push_frame c (UNLOCK f) s'))"
    by (cases s) (simp add: thread_preempt_def upd_thread_def Let_def)
  with requeue_spec [OF k c _ _ _ _ _ fs refl, where th = ?th and ins = ?ins and f = f]
  show ?thesis by simp
qed

text \<open>A service that ends in the scheduler, with the switch and the rest of the chosen thread.\<close>

lemma service_switch:
  assumes "inv True None w s1" and "current_thread s1 = Some c" and "r = thread_resched s1"
  obtains s' v' where "bindE r resume = Inr s'" "kinv True v' s'" "switched w s1 v' s'"
  using sched_resume [OF assms(1,2), folded assms(3)] by (elim exE conjE) (rule that)

section \<open>Services that return to their caller\<close>

lemma resume_now [simp]: "current_thread s = Some c \<Longrightarrow> pending s c = [] \<Longrightarrow> resume s = Inr s"
  by (simp add: resume_def fun_upd_idem)

lemma kinv_cong:
  assumes "kinv b v s"
    and "nodes s' = nodes s" "g_threads s' = g_threads s" "timers s' = timers s"
      "wq_count s' = wq_count s" "run_queue_bitmap s' = run_queue_bitmap s" "pending s' = pending s"
      "current_thread s' = current_thread s" "thread_lock s' = 0" "ints_on (rflags s') \<longleftrightarrow> ints_on (rflags s)"
  shows "kinv b v s'"
  using assms(1) inv_cong [OF assms(2-7)] assms(8-10) unfolding kinv_def by auto

text \<open>\<open>thread_resume\<close> up to the yield: a suspended thread becomes ready.\<close>

lemma make_ready_other:
  assumes k: "kinv b v s" and t: "t \<in> set (thread_l v)" "tstate s t = THREAD_SUSPENDED"
  shows "\<exists>s1 h bm. insert_in_run_queue_head t (s\<lparr>g_threads := (g_threads s)(t := (g_threads s t)\<lparr>th_state := THREAD_READY\<rparr>),
             thread_lock := 1, rflags := arch_disable_ints (rflags s)\<rparr>) =
           Inr (s1\<lparr>thread_lock := 1, rflags := arch_disable_ints (rflags s)\<rparr>) \<and>
         s1 = s\<lparr>nodes := h, g_threads := (g_threads s)(t := (g_threads s t)\<lparr>th_state := THREAD_READY\<rparr>),
             run_queue_bitmap := bm\<rparr> \<and>
         kinv b (make_ready t s v) s1"
proof -
  from k obtain c where c: "current_thread s = Some c" "c \<in> set (thread_l v)" "inv b (Some c) v s"
    "thread_lock s = 0" "ints_on (rflags s) \<longleftrightarrow> b" "tstate s c = THREAD_RUNNING" "queues_ok s v"
    by (auto elim: kinvE)
  let ?th = "(g_threads s t)\<lparr>th_state := THREAD_READY\<rparr>"
  let ?s0 = "s\<lparr>g_threads := (g_threads s)(t := ?th), thread_lock := 1, rflags := arch_disable_ints (rflags s)\<rparr>"
  note ok = invD(7) [OF c(3) t(1)]
  have nz: "t \<noteq> 0" using ok t(2) by (auto simp: thread_ok_def)
  have nq: "\<not> queued v t" using not_queuedI [OF thread_okD(3) [OF ok]] t(2) by simp
  have ntm: "StackTimer t \<notin> set (timer_l v)" using thread_okD(3) [OF ok] t(2) by (auto simp: placed_def)
  have fs: "pending s t = [START]" using thread_okD(5) [OF ok] t(2) by simp
  have "queues_ok ?s0 v" "prio_ok ?s0 t" "tstate ?s0 t = THREAD_READY" "locked ?s0" "prio_of ?s0 t = prio_of s t"
    using c(7) thread_okD(2) [OF ok] by (simp_all add: prio_ok_def locked_def prio_of_def)
  then obtain h bm where i: "insert_in_run_queue_head t ?s0 = Inr (?s0\<lparr>nodes := h, run_queue_bitmap := bm\<rparr>)"
    and q: "qok h bm (enqueue (prio_of s t) t v)"
    using insert_spec(1) [of ?s0 v t] nq by metis
  have mr: "make_ready t s v = enqueue (prio_of s t) t v"
    using ntm by (simp add: make_ready_def remove1_idem)
  let ?s1 = "s\<lparr>nodes := h, g_threads := (g_threads s)(t := ?th), run_queue_bitmap := bm\<rparr>"
  have "inv b (Some c) (make_ready t s v) ?s1"
    by (rule inv_make_ready [OF c(3) t(1) nz, where th = ?th and fs = "pending s t"])
      (use t(2) q fs c(6) in \<open>auto simp: mr\<close>)
  then have "kinv b (make_ready t s v) ?s1" by (rule kinvI) (use c in simp_all)
  moreover have "insert_in_run_queue_head t ?s0 = Inr (?s1\<lparr>thread_lock := 1, rflags := arch_disable_ints (rflags s)\<rparr>)"
    using i by (cases s) simp
  ultimately show ?thesis by blast
qed

lemma thread_resume_spec:
  assumes k: "kinv b v s" and c: "current_thread s = Some c"
    and id: "0 < thid" "thid < 9" and t: "nat thid \<in> set (thread_l v)" "tstate s (nat thid) \<noteq> THREAD_DEATH"
  shows "\<exists>s' v' s1 v1. bindE (thread_resume thid s) resume = Inr s' \<and> kinv b v' s' \<and>
     kinv b v1 s1 \<and> current_thread s1 = Some c \<and> ptimer s1 = ptimer s \<and>
     (if tstate s (nat thid) = THREAD_SUSPENDED
      then v1 = make_ready (nat thid) s v \<and> (\<forall>u. tstate s1 u = (if u = nat thid then THREAD_READY else tstate s u))
      else v1 = v \<and> s1 = s) \<and>
     (if tstate s (nat thid) = THREAD_SUSPENDED \<and> b
      then gave_up c THREAD_READY (put_back c s1 v1) s1 v' s'
      else v' = v1 \<and> s' = set_rax NO_ERR s1)"
proof -
  have kc: "pending s c = []" "thread_lock s = 0" "ints_on (rflags s) \<longleftrightarrow> b"
    using k c by (auto elim: kinvE)
  show ?thesis
  proof (cases "tstate s (nat thid) = THREAD_SUSPENDED")
    case False
    have "thread_resume thid s = Inr (set_rax NO_ERR s)"
      using id t False kc by (cases s) (simp add: thread_resume_def set_rax_def)
    moreover have "resume (set_rax NO_ERR s) = Inr (set_rax NO_ERR s)" using c kc by (simp add: set_rax_def)
    moreover have "kinv b v (set_rax NO_ERR s)" using k by (rule kinv_cong) (use kc in \<open>simp_all add: set_rax_def\<close>)
    ultimately show ?thesis using False k c
      by (intro exI [of _ "set_rax NO_ERR s"] exI [of _ v] exI [of _ s]) simp
  next
    case True
    from make_ready_other [OF k t(1) True] obtain s1 h bm where
      i: "insert_in_run_queue_head (nat thid) (s\<lparr>g_threads := (g_threads s)(nat thid := (g_threads s (nat thid))\<lparr>th_state := THREAD_READY\<rparr>),
             thread_lock := 1, rflags := arch_disable_ints (rflags s)\<rparr>) =
           Inr (s1\<lparr>thread_lock := 1, rflags := arch_disable_ints (rflags s)\<rparr>)"
      and s1: "s1 = s\<lparr>nodes := h, g_threads := (g_threads s)(nat thid := (g_threads s (nat thid))\<lparr>th_state := THREAD_READY\<rparr>),
             run_queue_bitmap := bm\<rparr>"
      and k1: "kinv b (make_ready (nat thid) s v) s1" by blast
    have u: "upd_thread (nat thid) (\<lambda>th. th\<lparr>th_state := THREAD_READY\<rparr>) (s\<lparr>thread_lock := 1, rflags := arch_disable_ints (rflags s)\<rparr>) =
      s\<lparr>g_threads := (g_threads s)(nat thid := (g_threads s (nat thid))\<lparr>th_state := THREAD_READY\<rparr>),
             thread_lock := 1, rflags := arch_disable_ints (rflags s)\<rparr>"
      by (cases s) (simp add: upd_thread_def)
    have s1f: "current_thread s1 = Some c" "pending s1 c = []" "thread_lock s1 = 0" "rflags s1 = rflags s"
      "ptimer s1 = ptimer s" "tstate s1 w = (if w = nat thid then THREAD_READY else tstate s w)" for w
      using c kc by (simp_all add: s1)
    have unl: "THREAD_UNLOCK (rflags s) (s1\<lparr>thread_lock := 1, rflags := arch_disable_ints (rflags s)\<rparr>) = s1"
      using kc by (cases s) (simp add: s1)
    have unl': "s1\<lparr>thread_lock := 0, rflags := rflags s, pending := p\<rparr> = s1\<lparr>pending := p\<rparr>" for p
      using kc by (cases s) (simp add: s1)
    show ?thesis
    proof (cases b)
      case False
      then have "thread_resume thid s = Inr (set_rax NO_ERR s1)"
        using id t True kc i unl u by (simp add: thread_resume_def)
      moreover have "resume (set_rax NO_ERR s1) = Inr (set_rax NO_ERR s1)" using s1f by (simp add: set_rax_def)
      moreover have "kinv b (make_ready (nat thid) s v) (set_rax NO_ERR s1)"
        using k1 by (rule kinv_cong) (use s1f in \<open>simp_all add: set_rax_def\<close>)
      ultimately show ?thesis using False True k1 s1f
        by (intro exI [of _ "set_rax NO_ERR s1"] exI [of _ "make_ready (nat thid) s v"] exI [of _ s1]) simp
    next
      case b: True
      then have k1': "kinv True (make_ready (nat thid) s v) s1" using k1 by simp
      have "thread_resume thid s =
          thread_yield (s1\<lparr>thread_lock := 0, rflags := rflags s, pending := (pending s1)(c := [RETURN NO_ERR])\<rparr>)"
        using id t True kc i u b s1f c by (simp add: thread_resume_def push_frame_def)
      then have "thread_resume thid s = thread_yield (s1\<lparr>pending := (pending s1)(c := [RETURN NO_ERR])\<rparr>)"
        by (simp only: unl')
      moreover have "switched_out (UNLOCK (rflags s1) # [RETURN NO_ERR])" using kc b s1f by simp
      ultimately obtain s' v' where "bindE (thread_resume thid s) resume = Inr s'" "kinv True v' s'"
        "gave_up c THREAD_READY (put_back c s1 (make_ready (nat thid) s v)) s1 v' s'"
        using thread_yield_spec [OF k1' s1f(1)] by metis
      then show ?thesis using b True k1 s1f
        by (intro exI [of _ s'] exI [of _ v'] exI [of _ s1] exI [of _ "make_ready (nat thid) s v"]) simp
    qed
  qed
qed

section \<open>Sleeping\<close>

text \<open>The timer \<open>thread_sleep\<close> sets, and the queues with it.\<close>

definition sleep_timer :: "tid \<Rightarrow> 64 word \<Rightarrow> kstate \<Rightarrow> ktimer" where
  "sleep_timer c delay s = \<lparr>sched_time = current_time (ptimer s) + (if delay = 0 then 1 else delay),
     periodic_time = 0, callback = Some ThreadSleepHandler, targ = Some c\<rparr>"

definition asleep :: "tid \<Rightarrow> 64 word \<Rightarrow> kstate \<Rightarrow> kview \<Rightarrow> kview" where
  "asleep c delay s v =
     v\<lparr>timer_l := insert_by (\<lambda>m. sched_time (((timers s)(StackTimer c := sleep_timer c delay s)) m))
                   (StackTimer c) (timer_l v)\<rparr>"

lemma asleep_simps [simp]:
  "runq (asleep c d s v) = runq v" "waitq (asleep c d s v) = waitq v"
  "thread_l (asleep c d s v) = thread_l v" "free_l (asleep c d s v) = free_l v"
  "set (timer_l (asleep c d s v)) = insert (StackTimer c) (set (timer_l v))"
  by (simp_all add: asleep_def set_insert_by)

lemma inv_asleep:
  assumes inv: "inv True (Some c) v s" and c: "c \<in> set (thread_l v)" "c \<noteq> 0"
    and q: "qok (nodes s') (run_queue_bitmap s') (asleep c delay s v)"
    and s': "g_threads s' = (g_threads s)(c := (g_threads s c)\<lparr>th_state := THREAD_SLEEPING\<rparr>)"
      "pending s' = (pending s)(c := [UNLOCK f])" "ints_on f"
      "timers s' = (timers s)(StackTimer c := sleep_timer c delay s)" "wq_count s' = wq_count s"
  shows "inv True None (asleep c delay s v) s'"
proof (rule inv_change [OF inv, where T = "{c}"])
  note ok = invD(7) [OF inv c(1)]
  have st: "tstate s c = THREAD_RUNNING" using ok by (simp add: thread_ok_def)
  have out: "StackTimer c \<notin> set (timer_l v)" using thread_okD(3) [OF ok] st by (auto simp: placed_def)
  show "only_moves {c} v (asleep c delay s v)" by (auto simp: only_moves_def)
  show "only_changes {c} s s'" using st by (auto simp: only_changes_def s' is_detached_def)
  show "nodes_ok (asleep c delay s v) s'" using invD(1) [OF inv] q by (simp add: nodes_ok_def s')
  show "one_joiner (asleep c delay s v) s'"
    using invD(3) [OF inv] by (simp add: one_joiner_def joins_def s')
  have same: "map (due_time s') (timer_l v) = map (due_time s) (timer_l v)"
    using out by (auto simp: due_time_def s')
  have key: "(\<lambda>m. sched_time (((timers s)(StackTimer c := sleep_timer c delay s)) m)) = due_time s'"
    by (simp add: due_time_def [abs_def] s')
  have "sorted (map (due_time s') (timer_l (asleep c delay s v)))"
    using timer_order.sorted_ins [of "due_time s'" "timer_l v" "StackTimer c"] invD(2) [OF inv] same
    unfolding asleep_def key by (simp add: timers_ok_def)
  then show "timers_ok (asleep c delay s v) s'"
    using invD(2) [OF inv] c(1) by (auto simp: timers_ok_def s' sleep_timer_def)
  show "thread_ok True None (asleep c delay s v) s' u" if "u \<in> {c}" for u
  proof -
    have "placed (asleep c delay s v) s' c" using thread_okD(3) [OF ok] st by (auto simp: placed_def s')
    moreover have "joining_ok (asleep c delay s v) s' c" by (simp add: joining_ok_def joins_def s')
    ultimately show ?thesis
      using that ok st c s'(3) by (auto simp: thread_ok_def s' prio_ok_def thread_is_idle_def is_detached_def)
  qed
  show "None = Some u \<longleftrightarrow> Some c = Some u" if "u \<notin> {c}" for u using that by simp
qed simp

lemma thread_sleep_spec:
  assumes k: "kinv True v s" and c: "current_thread s = Some c" "c \<noteq> 0"
  shows "\<exists>s' v'. bindE (thread_sleep delay s) resume = Inr s' \<and> kinv True v' s' \<and>
           gave_up c THREAD_SLEEPING (asleep c delay s v) s v' s' \<and>
           timers s' = (timers s)(StackTimer c := sleep_timer c delay s)"
proof -
  from k c have kc: "c \<in> set (thread_l v)" "inv True (Some c) v s" "tstate s c = THREAD_RUNNING"
    "pending s c = []" "StackTimer c \<notin> set (timer_l v)" "ints_on (rflags s)"
    "\<not> thread_is_idle s c" "queues_ok s v" "thread_lock s = 0"
    by (auto elim: kinvE)
  let ?f = "rflags s"
  let ?a = "s\<lparr>nodes := list_clear_node (TimerNode (StackTimer c)) (nodes s),
     timers := (timers s)(StackTimer c := TIMER_INITIAL_VALUE), thread_lock := 1, rflags := arch_disable_ints ?f\<rparr>"
  have "queues_ok ?a v"
    using clear_unlinked(3) [OF qok_view [OF kc(8)] kc(5)] kc(8) by (simp add: qok_def)
  from timer_set_spec [OF this kc(5), of "if delay = 0 then 1 else delay" 0 ThreadSleepHandler "Some c"]
  obtain h where
    t: "timer_set (StackTimer c) (if delay = 0 then 1 else delay) 0 ThreadSleepHandler (Some c) ?a =
        Inr (?a\<lparr>nodes := h, timer_lock := 0, timers := (timers s)(StackTimer c := sleep_timer c delay s)\<rparr>)"
    and q: "qok h (run_queue_bitmap s) (asleep c delay s v)"
    by (auto simp: sleep_timer_def asleep_def due_time_def [abs_def])
  let ?s1 = "s\<lparr>nodes := h, g_threads := (g_threads s)(c := (g_threads s c)\<lparr>th_state := THREAD_SLEEPING\<rparr>),
     timers := (timers s)(StackTimer c := sleep_timer c delay s), thread_lock := 1, timer_lock := 0,
     rflags := arch_disable_ints ?f, pending := (pending s)(c := [UNLOCK ?f])\<rparr>"
  have run: "thread_sleep delay s = thread_resched ?s1"
    using t c kc by (cases s) (simp add: thread_sleep_def timer_initialize_def set_nodes_def upd_timer_def
        timer_set_oneshot_def upd_thread_def push_frame_def thread_is_idle_def)
  have inv1: "inv True None (asleep c delay s v) ?s1"
    by (rule inv_asleep [OF kc(2,1) c(2)]) (use q kc in simp_all)
  have "current_thread ?s1 = Some c" using c by simp
  from service_switch [OF inv1 this run] obtain s' v' where r: "bindE (thread_sleep delay s) resume = Inr s'" "kinv True v' s'"
    "switched (asleep c delay s v) ?s1 v' s'" .
  have "gave_up c THREAD_SLEEPING (asleep c delay s v) s v' s'"
    by (rule gave_upI [OF r(3)]) simp_all
  moreover have "timers s' = (timers s)(StackTimer c := sleep_timer c delay s)"
    using r(3) by (simp add: switched_def)
  ultimately show ?thesis using r(1,2) by (intro exI [of _ s'] exI [of _ v']) simp
qed

section \<open>Exiting\<close>

lemma live_count:
  assumes "nodes_ok v s" and "distinct ts" and "set ts \<subseteq> set (thread_l v)"
  shows "int (length ts) \<le> INT_MAX"
proof -
  have "set ts \<subseteq> {0..<9}" using assms unfolding nodes_ok_def by blast
  then have "card (set ts) \<le> card {0..<9 :: nat}" by (intro card_mono) auto
  then show ?thesis using distinct_card [OF assms(2)] by (simp add: INT_MAX_def)
qed

text \<open>Who waits on the exit queue of a thread joins it.\<close>

lemma exit_queue_joins:
  assumes inv: "inv b r v s" and q: "waitq v (ExitQueue c) = Some ts" and t: "t \<in> set ts"
  shows "t \<in> set (thread_l v)" and "joins s t c" and "tstate s t = THREAD_BLOCKED"
    and "th_blocking_wait_queue (g_threads s t) = Some (ExitQueue c)" and "prio_ok s t"
proof -
  show l: "t \<in> set (thread_l v)" using invD(1) [OF inv] q t unfolding nodes_ok_def by blast
  note p = thread_okD(3) [OF invD(7) [OF inv l]]
  show bl: "th_blocking_wait_queue (g_threads s t) = Some (ExitQueue c)"
    using p q t unfolding placed_def by blast
  with p show "joins s t c" "tstate s t = THREAD_BLOCKED" unfolding placed_def by auto
  show "prio_ok s t" using thread_okD(2) [OF invD(7) [OF inv l]] .
qed

lemma exit_queue_sole:
  assumes inv: "inv b r v s" and q: "waitq v (ExitQueue c) = Some ts" and t: "t \<in> set ts"
    and j: "u \<in> set (thread_l v)" "joins s u c"
  shows "u = t"
  using invD(3) [OF inv] exit_queue_joins(1,2) [OF inv q t] j unfolding one_joiner_def by blast

text \<open>A joinable thread that exits stays as a dead thread and wakes who waits for it.\<close>

lemma inv_exit:
  assumes inv: "inv b (Some c) v s" and c: "c \<in> set (thread_l v)" "c \<noteq> 0" "\<not> is_detached s c"
    and q: "waitq v (ExitQueue c) = Some ts"
    and ok': "qok (nodes s') (run_queue_bitmap s') (enqueue_all s ts (v\<lparr>waitq := (waitq v)(ExitQueue c \<mapsto> [])\<rparr>))"
    and s': "\<And>t. g_threads s' t = (if t \<in> set ts then woken 0 (g_threads s t)
               else if t = c then (g_threads s c)\<lparr>th_state := THREAD_DEATH, th_retcode := ret\<rparr> else g_threads s t)"
      "pending s' = (pending s)(c := [EXIT_REST])" "timers s' = timers s"
      "wq_count s' = (wq_count s)(ExitQueue c := 0)"
  shows "inv b None (enqueue_all s ts (v\<lparr>waitq := (waitq v)(ExitQueue c \<mapsto> [])\<rparr>)) s'" (is "inv b None ?v s'")
proof -
  note ok = invD(7) [OF inv c(1)]
  note view = qok_view [OF invD(4) [OF inv]]
  have st: "tstate s c = THREAD_RUNNING" using ok by (simp add: thread_ok_def)
  note ts = exit_queue_joins [OF inv q]
  have "c \<notin> set ts" using ts(3) st by auto
  have d: "distinct ts" using view_distinct(2) [OF view q] .
  show ?thesis
  proof (rule inv_change [OF inv, where T = "insert c (set ts)"])
    show "only_moves (insert c (set ts)) v ?v"
      using q by (auto simp: only_moves_def runq_enqueue_all)
    show "only_changes (insert c (set ts)) s s'"
      using st ts(3) by (auto simp: only_changes_def s' is_detached_def)
    show "nodes_ok ?v s'"
      using invD(1) [OF inv] ok' ts(1)
      by (auto simp: nodes_ok_def s' runq_enqueue_all split: if_splits)
    show "timers_ok ?v s'"
      using invD(2) [OF inv] by (simp add: timers_ok_def s' due_time_def [abs_def])
    show "one_joiner ?v s'" using invD(3) [OF inv] by (auto simp: one_joiner_def joins_def s')
    show "waitq ?v (ExitQueue u) = Some []" if "waitq v (ExitQueue u) = Some []" for u using that by simp
    show "thread_ok b None ?v s' t" if t: "t \<in> insert c (set ts)" for t
    proof (cases "t = c")
      case True
      have "placed ?v s' c"
        using thread_okD(3) [OF ok] st \<open>c \<notin> set ts\<close> by (auto simp: placed_def s' runq_enqueue_all)
      moreover have "joining_ok ?v s' c" by (simp add: joining_ok_def joins_def s')
      ultimately show ?thesis
        using ok c \<open>c \<notin> set ts\<close> True
        by (simp add: thread_ok_def s' prio_ok_def thread_is_idle_def is_detached_def)
    next
      case False
      with t have m: "t \<in> set ts" by simp
      note okt = invD(7) [OF inv ts(1) [OF m]]
      have w: "waiting (pending s t)" using thread_okD(5) [OF okt] ts(3) [OF m] by simp
      then have j: "joins s t u \<longleftrightarrow> u = c" for u
        using waiting_joined [OF w] ts(2) [OF m] by (auto simp: joins_def)
      have nz: "t \<noteq> 0" using okt ts(3) [OF m] by (auto simp: thread_ok_def)
      have "placed ?v s' t"
        using thread_okD(3) [OF okt] ts(3,4) [OF m] m nz False
        by (auto simp: placed_def s' runq_enqueue_all prio_of_def)
      moreover have "joining_ok ?v s' t"
        using j c m False \<open>c \<notin> set ts\<close> by (auto simp: joining_ok_def joins_def s' is_detached_def)
      moreover have "waitq ?v (ExitQueue t) \<noteq> None" using okt by (auto simp: thread_ok_def)
      ultimately show ?thesis
        using okt w m nz False ts(3) [OF m]
        by (simp add: thread_ok_def s' prio_ok_def thread_is_idle_def is_detached_def)
    qed
    show "None = Some u \<longleftrightarrow> Some c = Some u" if "u \<notin> insert c (set ts)" for u using that by simp
  qed
qed

text \<open>A detached thread that exits is freed at once.\<close>

lemma inv_exit_detached:
  assumes inv: "inv b (Some c) v s" and c: "c \<in> set (thread_l v)" "c \<noteq> 0" "is_detached s c"
    and ok': "qok (nodes s') (run_queue_bitmap s') (v\<lparr>thread_l := remove1 c (thread_l v), free_l := free_l v @ [c]\<rparr>)"
    and s': "g_threads s' = (g_threads s)(c := (g_threads s c)\<lparr>th_state := THREAD_DEATH, th_retcode := ret\<rparr>)"
      "pending s' = (pending s)(c := [EXIT_REST])" "timers s' = timers s" "wq_count s' = wq_count s"
  shows "inv b None (v\<lparr>thread_l := remove1 c (thread_l v), free_l := free_l v @ [c]\<rparr>) s'"
proof -
  note ok = invD(7) [OF inv c(1)]
  have st: "tstate s c = THREAD_RUNNING" using ok by (simp add: thread_ok_def)
  let ?s1 = "s'\<lparr>nodes := nodes s, run_queue_bitmap := run_queue_bitmap s\<rparr>"
  have ch: "only_changes {c} s ?s1" using st by (auto simp: only_changes_def s' is_detached_def)
  have j: "\<not> joins s t c" if "t \<in> set (thread_l v)" for t
    using thread_okD(4) [OF invD(7) [OF inv that]] c(3) by (auto simp: joining_ok_def)
  have empty: "waitq v (ExitQueue c) = Some []"
  proof -
    from ok obtain ts where q: "waitq v (ExitQueue c) = Some ts" by (auto simp: thread_ok_def)
    with exit_queue_joins(1,2) [OF inv q] j show ?thesis by (cases ts) auto
  qed
  show ?thesis
  proof (rule inv_free [where s = ?s1])
    show "nodes_ok v ?s1" using invD(1) [OF inv] by (simp add: nodes_ok_def s')
    show "timers_ok v ?s1" using invD(2) [OF inv] by (simp add: timers_ok_def s' due_time_def [abs_def])
    show "one_joiner v ?s1" using invD(3) [OF inv] by (auto simp: one_joiner_def joins_def s')
    show "thread_ok b None v ?s1 t \<and> \<not> joins ?s1 t c" if t: "t \<in> set (thread_l v)" "t \<noteq> c" for t
    proof
      show "thread_ok b None v ?s1 t"
        by (rule thread_ok_frame [OF invD(7) [OF inv t(1)] _ _ ch]) (use t in auto)
      show "\<not> joins ?s1 t c" using j [OF t(1)] t(2) by (simp add: joins_def s')
    qed
    show "\<not> queued v c" using not_queuedI [OF thread_okD(3) [OF ok]] st by simp
    show "StackTimer c \<notin> set (timer_l v)" using thread_okD(3) [OF ok] st by (auto simp: placed_def)
  qed (use c empty ok' in \<open>simp_all add: s'\<close>)
qed

lemma free_node_lists:
  assumes ok: "queues_ok s v" and c: "c \<in> set (thread_l v)"
  shows "\<exists>h1 h. list_delete (ThreadListNode c) (nodes s) = Inr h1 \<and>
           list_add_tail FreeListHead (ThreadListNode c) h1 = Inr h \<and>
           qok h (run_queue_bitmap s) (v\<lparr>thread_l := remove1 c (thread_l v), free_l := free_l v @ [c]\<rparr>)"
proof -
  note view = qok_view [OF ok]
  from thread_list_delete [OF view c] obtain h1 where
    h1: "list_delete (ThreadListNode c) (nodes s) = Inr h1"
    "lists_ok h1 (heads (v\<lparr>thread_l := remove1 c (thread_l v)\<rparr>))" by blast
  let ?v1 = "v\<lparr>thread_l := remove1 c (thread_l v)\<rparr>"
  have "view_ok (s\<lparr>nodes := h1\<rparr>) ?v1" using h1(2) by (simp add: view_ok_def)
  moreover have "c \<notin> set (thread_l ?v1)" using view_distinct(3) [OF view] by simp
  moreover have "c \<notin> set (free_l ?v1)" using view_disjoint(4) [OF view c] by simp
  ultimately obtain h where "list_add_tail FreeListHead (ThreadListNode c) h1 = Inr h"
    "lists_ok h (heads (v\<lparr>thread_l := remove1 c (thread_l v), free_l := free_l v @ [c]\<rparr>))"
    using thread_list_push(3) [of "s\<lparr>nodes := h1\<rparr>" ?v1 c] by auto
  with h1(1) ok show ?thesis by (auto simp: qok_def)
qed

lemma thread_exit_spec:
  assumes k: "kinv True v s" and c: "current_thread s = Some c" "c \<noteq> 0"
  shows "\<exists>s' v' s1 w. bindE (thread_exit ret s) resume = Inr s' \<and> kinv True v' s' \<and> switched w s1 v' s' \<and>
     (if is_detached s c then w = v\<lparr>thread_l := remove1 c (thread_l v), free_l := free_l v @ [c]\<rparr>
      else \<exists>ts. waitq v (ExitQueue c) = Some ts \<and> w = enqueue_all s ts (v\<lparr>waitq := (waitq v)(ExitQueue c \<mapsto> [])\<rparr>)) \<and>
     tstate s1 c = THREAD_DEATH \<and> th_retcode (g_threads s1 c) = ret \<and>
     (\<forall>t. t \<noteq> c \<longrightarrow> pending s1 t = pending s t \<and>
        tstate s1 t = (if \<not> is_detached s c \<and> th_blocking_wait_queue (g_threads s t) = Some (ExitQueue c) \<and>
          t \<in> set (thread_l v) then THREAD_READY else tstate s t))"
proof -
  from k c have kc: "c \<in> set (thread_l v)" "inv True (Some c) v s" "tstate s c = THREAD_RUNNING"
    "pending s c = []" "ints_on (rflags s)" "\<not> thread_is_idle s c" "queues_ok s v" "thread_lock s = 0"
    by (auto elim: kinvE)
  let ?th = "(g_threads s c)\<lparr>th_state := THREAD_DEATH, th_retcode := ret\<rparr>"
  let ?a = "s\<lparr>g_threads := (g_threads s)(c := ?th), thread_lock := 1, rflags := arch_disable_ints (rflags s)\<rparr>"
  have start: "thread_exit ret s = bindE (if is_detached ?a c
      then bindE (on_nodes (list_delete (ThreadListNode c)) ?a) (free_thread_node c)
      else wait_queue_wake_all (ExitQueue c) False 0 ?a) (\<lambda>s. thread_resched (push_frame c EXIT_REST s))"
    using c kc by (cases s) (simp add: thread_exit_def upd_thread_def is_detached_def thread_is_idle_def)
  have det: "is_detached ?a c \<longleftrightarrow> is_detached s c" by (simp add: is_detached_def)
  show ?thesis
  proof (cases "is_detached s c")
    case True
    from free_node_lists [OF kc(7,1)] obtain h1 h where
      h: "list_delete (ThreadListNode c) (nodes s) = Inr h1" "list_add_tail FreeListHead (ThreadListNode c) h1 = Inr h"
      and q: "qok h (run_queue_bitmap s) (v\<lparr>thread_l := remove1 c (thread_l v), free_l := free_l v @ [c]\<rparr>)"
      by blast
    let ?s1 = "s\<lparr>nodes := h, g_threads := (g_threads s)(c := ?th), thread_lock := 0,
      rflags := arch_disable_ints (rflags s), pending := (pending s)(c := [EXIT_REST])\<rparr>"
    let ?w = "v\<lparr>thread_l := remove1 c (thread_l v), free_l := free_l v @ [c]\<rparr>"
    have run: "thread_exit ret s = thread_resched ?s1"
      unfolding start det if_P [OF True] using h kc
      by (cases s) (simp add: on_nodes_def free_thread_node_def push_frame_def)
    have inv1: "inv True None ?w ?s1"
      by (rule inv_exit_detached [OF kc(2,1) c(2) True, where ret = ret]) (use q in simp_all)
    have "current_thread ?s1 = Some c" using c by simp
    from service_switch [OF inv1 this run] obtain s' v' where
      sw: "bindE (thread_exit ret s) resume = Inr s'" "kinv True v' s'" "switched ?w ?s1 v' s'" .
    then show ?thesis using True
      by (intro exI [of _ s'] exI [of _ v'] exI [of _ ?s1] exI [of _ ?w]) simp
  next
    case False
    from invD(7) [OF kc(2,1)] obtain ts where ts: "waitq v (ExitQueue c) = Some ts" by (auto simp: thread_ok_def)
    note j = exit_queue_joins [OF kc(2) ts]
    have cn: "c \<notin> set ts" using j(3) kc(3) by auto
    have "queues_ok ?a v" using kc(7) by simp
    moreover have "locked ?a" by (simp add: locked_def)
    moreover have "\<forall>t \<in> set ts. tstate ?a t = THREAD_BLOCKED \<and> prio_ok ?a t"
      using j(3,5) cn by (auto simp: prio_ok_def)
    moreover have "wq_count ?a (ExitQueue c) = int (length ts)"
      using invD(1) [OF kc(2)] ts by (auto simp: nodes_ok_def)
    moreover have "int (length ts) \<le> INT_MAX"
      using live_count [OF invD(1) [OF kc(2)] view_distinct(2) [OF qok_view [OF kc(7)] ts]] j(1) by blast
    moreover have "current_thread ?a = Some c" using c by simp
    ultimately obtain h bm where
      wk: "wait_queue_wake_all (ExitQueue c) False 0 ?a = Inr (?a\<lparr>nodes := h,
              g_threads := \<lambda>t. if t \<in> set ts then woken 0 (g_threads ?a t) else g_threads ?a t,
              wq_count := (wq_count s)(ExitQueue c := 0), run_queue_bitmap := bm, rax := int (length ts)\<rparr>)"
      and q: "qok h bm (enqueue_all ?a ts (v\<lparr>waitq := (waitq v)(ExitQueue c \<mapsto> [])\<rparr>))"
      using wake_all_spec [of ?a v "ExitQueue c" ts c 0] ts by auto
    let ?w = "enqueue_all s ts (v\<lparr>waitq := (waitq v)(ExitQueue c \<mapsto> [])\<rparr>)"
    have "prio_of ?a = prio_of s" by (rule ext) (simp add: prio_of_def)
    then have q': "qok h bm ?w" using q by (simp add: enqueue_all_def)
    let ?s1 = "?a\<lparr>nodes := h, g_threads := \<lambda>t. if t \<in> set ts then woken 0 (g_threads ?a t) else g_threads ?a t,
              wq_count := (wq_count s)(ExitQueue c := 0), run_queue_bitmap := bm, rax := int (length ts),
              pending := (pending s)(c := [EXIT_REST])\<rparr>"
    have run: "thread_exit ret s = thread_resched ?s1"
      unfolding start det if_not_P [OF False] wk bindE_Inr
      using kc(4) by (cases s) (simp add: push_frame_def)
    have inv1: "inv True None ?w ?s1"
      by (rule inv_exit [OF kc(2,1) c(2) False ts, where ret = ret]) (use q' cn in simp_all)
    have "current_thread ?s1 = Some c" using c by simp
    from service_switch [OF inv1 this run] obtain s' v' where
      sw: "bindE (thread_exit ret s) resume = Inr s'" "kinv True v' s'" "switched ?w ?s1 v' s'" .
    have m: "t \<in> set ts \<longleftrightarrow> th_blocking_wait_queue (g_threads s t) = Some (ExitQueue c) \<and> t \<in> set (thread_l v)" for t
    proof
      assume "t \<in> set ts"
      then show "th_blocking_wait_queue (g_threads s t) = Some (ExitQueue c) \<and> t \<in> set (thread_l v)" using j by blast
    next
      assume "th_blocking_wait_queue (g_threads s t) = Some (ExitQueue c) \<and> t \<in> set (thread_l v)"
      then show "t \<in> set ts" using thread_okD(3) [OF invD(7) [OF kc(2)]] ts unfolding placed_def by blast
    qed
    have dead: "tstate ?s1 c = THREAD_DEATH" "th_retcode (g_threads ?s1 c) = ret" using cn by simp_all
    have others: "\<forall>t. t \<noteq> c \<longrightarrow> pending ?s1 t = pending s t \<and>
        tstate ?s1 t = (if \<not> is_detached s c \<and> th_blocking_wait_queue (g_threads s t) = Some (ExitQueue c) \<and>
          t \<in> set (thread_l v) then THREAD_READY else tstate s t)"
      using False by (simp add: m [symmetric])
    show ?thesis unfolding if_not_P [OF False]
      by (rule exI [of _ s'], rule exI [of _ v'], rule exI [of _ ?s1], rule exI [of _ ?w])
        (intro conjI exI [of _ ts] sw ts refl dead others)
  qed
qed

section \<open>Joining\<close>

text \<open>The caller on the exit queue of \<open>u\<close>.\<close>

definition on_exit_queue :: "tid \<Rightarrow> tid \<Rightarrow> kview \<Rightarrow> kview" where
  "on_exit_queue u c v =
     v\<lparr>waitq := (waitq v)(ExitQueue u := map_option (\<lambda>xs. xs @ [c]) (waitq v (ExitQueue u)))\<rparr>"

lemma on_exit_queue_simps [simp]:
  "runq (on_exit_queue u c v) = runq v" "thread_l (on_exit_queue u c v) = thread_l v"
  "free_l (on_exit_queue u c v) = free_l v" "timer_l (on_exit_queue u c v) = timer_l v"
  "waitq (on_exit_queue u c v) w =
     (if w = ExitQueue u then map_option (\<lambda>xs. xs @ [c]) (waitq v (ExitQueue u)) else waitq v w)"
  by (simp_all add: on_exit_queue_def)

lemma inv_join_block:
  assumes inv: "inv b (Some c) v s" and c: "c \<in> set (thread_l v)" "c \<noteq> 0"
    and u: "u \<in> set (thread_l v)" "u \<noteq> 0" "\<not> is_detached s u" "tstate s u \<noteq> THREAD_DEATH"
      "\<And>t. t \<in> set (thread_l v) \<Longrightarrow> \<not> joins s t u"
    and q: "qok (nodes s') (run_queue_bitmap s') (on_exit_queue u c v)"
    and s': "g_threads s' = (g_threads s)(c := (g_threads s c)\<lparr>th_state := THREAD_BLOCKED,
        th_blocking_wait_queue := Some (ExitQueue u), th_wait_queue_block_ret := NO_ERR\<rparr>)"
      "pending s' = (pending s)(c := [BLOCK_REST INFINIT_TIME, JOIN_REST u p f])" "ints_on f"
      "timers s' = timers s" "wq_count s' = (wq_count s)(ExitQueue u := wq_count s (ExitQueue u) + 1)"
  shows "inv b None (on_exit_queue u c v) s'" (is "inv b None ?v s'")
proof (rule inv_change [OF inv, where T = "{c}"])
  note ok = invD(7) [OF inv c(1)]
  have st: "tstate s c = THREAD_RUNNING" using ok by (simp add: thread_ok_def)
  show "only_moves {c} v ?v" by (auto simp: only_moves_def)
  show "only_changes {c} s s'" using st by (auto simp: only_changes_def s' is_detached_def)
  show "nodes_ok ?v s'"
    using invD(1) [OF inv] q c(1) view_disjoint(4) [OF qok_view [OF invD(4) [OF inv]] u(1)]
    by (auto simp: nodes_ok_def s' split: if_splits) blast
  show "timers_ok ?v s'" using invD(2) [OF inv] by (simp add: timers_ok_def s' due_time_def [abs_def])
  show "one_joiner ?v s'" using invD(3) [OF inv] u(5) by (auto simp: one_joiner_def joins_def s')
  show "waitq ?v (ExitQueue x) = Some []"
    if "tstate s x = THREAD_DEATH" "waitq v (ExitQueue x) = Some []" for x
    using that u(4) by auto
  show "thread_ok b None ?v s' t" if "t \<in> {c}" for t
  proof -
    have "placed ?v s' c" using thread_okD(3) [OF ok] st by (auto simp: placed_def s' joins_def)
    moreover have "joining_ok ?v s' c"
      using u by (auto simp: joining_ok_def joins_def s' is_detached_def)
    ultimately show ?thesis
      using that ok st c s'(3) by (auto simp: thread_ok_def s' prio_ok_def thread_is_idle_def is_detached_def)
  qed
  show "None = Some x \<longleftrightarrow> Some c = Some x" if "x \<notin> {c}" for x using that by simp
qed

lemma wq_count_bound:
  assumes "nodes_ok v s" and "view_ok s v" and "waitq v w = Some xs" and "c \<in> set (thread_l v)" and "\<not> queued v c"
  shows "upd_count w 1 (s'\<lparr>wq_count := wq_count s\<rparr>) =
           Inr (s'\<lparr>wq_count := (wq_count s)(w := wq_count s w + 1)\<rparr>)"
proof -
  have x: "wq_count s w = int (length xs)" "set xs \<subseteq> set (thread_l v)"
    using assms(1,3) by (auto simp: nodes_ok_def)
  have "c \<notin> set xs" using assms(3,5) by (auto simp: queued_def)
  then have "int (length (c # xs)) \<le> INT_MAX"
    using x(2) assms(4) view_distinct(2) [OF assms(2,3)] by (intro live_count [OF assms(1)]) auto
  then show ?thesis using x(1) by (simp add: upd_count_def INT_MIN_def)
qed

lemma thread_join_wait_spec:
  assumes k: "kinv True v s" and c: "current_thread s = Some c" "c \<noteq> 0"
    and id: "0 < thid" "thid < 9" and u: "nat thid \<in> set (thread_l v)" "\<not> is_detached s (nat thid)"
      "tstate s (nat thid) \<noteq> THREAD_DEATH" "\<And>t. t \<in> set (thread_l v) \<Longrightarrow> \<not> joins s t (nat thid)"
  shows "\<exists>s' v'. bindE (thread_join thid p INFINIT_TIME s) resume = Inr s' \<and> kinv True v' s' \<and>
           gave_up c THREAD_BLOCKED (on_exit_queue (nat thid) c v) s v' s' \<and>
           (current_thread s' \<noteq> Some c \<longrightarrow>
              pending s' c = [BLOCK_REST INFINIT_TIME, JOIN_REST (nat thid) p (rflags s)])"
proof -
  let ?u = "nat thid"
  from k c have kc: "c \<in> set (thread_l v)" "inv True (Some c) v s" "tstate s c = THREAD_RUNNING"
    "pending s c = []" "ints_on (rflags s)" "queues_ok s v" "thread_lock s = 0" "\<not> queued v c"
    by (auto elim: kinvE)
  note view = qok_view [OF kc(6)]
  from invD(7) [OF kc(2) u(1)] obtain xs where xs: "waitq v (ExitQueue ?u) = Some xs" by (auto simp: thread_ok_def)
  from wait_push [OF view xs kc(8)] obtain h where
    h: "list_add_tail (WaitListHead (ExitQueue ?u)) (QueueNode c) (nodes s) = Inr h"
    and q: "lists_ok h (heads (v\<lparr>waitq := (waitq v)(ExitQueue ?u \<mapsto> xs @ [c])\<rparr>))" by blast
  have v': "v\<lparr>waitq := (waitq v)(ExitQueue ?u \<mapsto> xs @ [c])\<rparr> = on_exit_queue ?u c v"
    by (simp add: on_exit_queue_def xs)
  have q': "qok h (run_queue_bitmap s) (on_exit_queue ?u c v)"
    using q kc(6) unfolding v' by (simp add: qok_def)
  let ?th = "(g_threads s c)\<lparr>th_state := THREAD_BLOCKED,
        th_blocking_wait_queue := Some (ExitQueue ?u), th_wait_queue_block_ret := NO_ERR\<rparr>"
  let ?s1 = "s\<lparr>nodes := h, g_threads := (g_threads s)(c := ?th),
      wq_count := (wq_count s)(ExitQueue ?u := wq_count s (ExitQueue ?u) + 1),
      thread_lock := 1, rflags := arch_disable_ints (rflags s),
      pending := (pending s)(c := [BLOCK_REST INFINIT_TIME, JOIN_REST ?u p (rflags s)])\<rparr>"
  have cnt: "upd_count (ExitQueue ?u) 1 (s'\<lparr>wq_count := wq_count s\<rparr>) =
      Inr (s'\<lparr>wq_count := (wq_count s)(ExitQueue ?u := wq_count s (ExitQueue ?u) + 1)\<rparr>)" for s'
    by (rule wq_count_bound [OF invD(1) [OF kc(2)] view xs kc(1) kc(8)])
  let ?m = "s\<lparr>nodes := h, thread_lock := 1, rflags := arch_disable_ints (rflags s),
      pending := (pending s)(c := [JOIN_REST ?u p (rflags s)])\<rparr>"
  have cnt': "upd_count (ExitQueue ?u) 1 ?m =
      Inr (?m\<lparr>wq_count := (wq_count s)(ExitQueue ?u := wq_count s (ExitQueue ?u) + 1)\<rparr>)"
    using cnt [of ?m] by simp
  have run: "thread_join thid p INFINIT_TIME s = thread_resched ?s1"
    using id u(2,3) c kc(3,4) h cnt'
    by (simp add: thread_join_def is_detached_def push_frame_def wait_queue_block_def on_nodes_def
        INFINIT_TIME_def upd_thread_def) (cases s, simp)
  have inv1: "inv True None (on_exit_queue ?u c v) ?s1"
    by (rule inv_join_block [OF kc(2,1) c(2) u(1) _ u(2,3,4), where p = p and f = "rflags s"])
      (use id q' kc(5) in simp_all)
  have "current_thread ?s1 = Some c" using c by simp
  from service_switch [OF inv1 this run] obtain s' v' where
    r: "bindE (thread_join thid p INFINIT_TIME s) resume = Inr s'" "kinv True v' s'"
      "switched (on_exit_queue ?u c v) ?s1 v' s'" .
  have "gave_up c THREAD_BLOCKED (on_exit_queue ?u c v) s v' s'"
    by (rule gave_upI [OF r(3)]) simp_all
  moreover have "current_thread s' \<noteq> Some c \<longrightarrow>
      pending s' c = [BLOCK_REST INFINIT_TIME, JOIN_REST ?u p (rflags s)]"
    using r(3) by (auto simp: switched_def)
  ultimately show ?thesis using r(1,2) by (intro exI [of _ s'] exI [of _ v']) simp
qed

lemma thread_join_dead_spec:
  assumes k: "kinv b v s" and c: "current_thread s = Some c"
    and id: "0 < thid" "thid < 9" and u: "nat thid \<in> set (thread_l v)" "tstate s (nat thid) = THREAD_DEATH"
      "\<And>t. t \<in> set (thread_l v) \<Longrightarrow> \<not> joins s t (nat thid)"
  shows "\<exists>h s'. bindE (thread_join thid p timeout s) resume = Inr s' \<and>
           s' = s\<lparr>nodes := h, thread_lock := 0, rax := 0,
                  int_cells := (case p of None \<Rightarrow> int_cells s
                                  | Some a \<Rightarrow> (int_cells s)(a := th_retcode (g_threads s (nat thid))))\<rparr> \<and>
           kinv b (v\<lparr>thread_l := remove1 (nat thid) (thread_l v), free_l := free_l v @ [nat thid]\<rparr>) s'"
proof -
  let ?u = "nat thid"
  from k c have kc: "c \<in> set (thread_l v)" "inv b (Some c) v s" "tstate s c = THREAD_RUNNING"
    "pending s c = []" "thread_lock s = 0" "ints_on (rflags s) \<longleftrightarrow> b"
    by (auto elim: kinvE)
  have "?u \<noteq> c" using kc(3) u(2) by auto
  have nd: "\<not> is_detached s ?u" using invD(7) [OF kc(2) u(1)] u(2) by (simp add: thread_ok_def)
  let ?a = "s\<lparr>thread_lock := 1, rflags := arch_disable_ints (rflags s)\<rparr>"
  have inva: "inv b (Some c) v ?a" using kc(2) by (subst inv_cong [where s = s]) simp_all
  have uz: "?u \<noteq> 0" and du: "tstate ?a ?u = THREAD_DEATH" using id u(2) by simp_all
  have nj: "\<not> joins ?a t ?u" if "t \<in> set (thread_l v)" for t using u(3) [OF that] by (simp add: joins_def)
  from thread_join_finish_spec [OF inva u(1) uz \<open>?u \<noteq> c\<close> du nj, of p "rflags s"] obtain h where
    f: "thread_join_finish ?u p (rflags s) ?a = Inr (?a\<lparr>nodes := h, thread_lock := 0, rflags := rflags s, rax := 0,
            int_cells := (case p of None \<Rightarrow> int_cells ?a
                                  | Some a \<Rightarrow> (int_cells ?a)(a := th_retcode (g_threads ?a ?u)))\<rparr>)"
    and i: "inv b (Some c) (v\<lparr>thread_l := remove1 ?u (thread_l v), free_l := free_l v @ [?u]\<rparr>) (?a\<lparr>nodes := h\<rparr>)"
    by blast
  let ?s' = "s\<lparr>nodes := h, thread_lock := 0, rax := 0,
                  int_cells := (case p of None \<Rightarrow> int_cells s
                                  | Some a \<Rightarrow> (int_cells s)(a := th_retcode (g_threads s ?u)))\<rparr>"
  have "thread_join thid p timeout s = thread_join_finish ?u p (rflags s) ?a"
    using id nd u(2) by (simp add: thread_join_def is_detached_def)
  then have "thread_join thid p timeout s = Inr ?s'" unfolding f by (cases p; cases s; simp)
  moreover have "resume ?s' = Inr ?s'" using c kc(4) by simp
  moreover have "inv b (Some c) (v\<lparr>thread_l := remove1 ?u (thread_l v), free_l := free_l v @ [?u]\<rparr>) ?s'"
    using i by (subst inv_cong [where s = "?a\<lparr>nodes := h\<rparr>"]) simp_all
  then have "kinv b (v\<lparr>thread_l := remove1 ?u (thread_l v), free_l := free_l v @ [?u]\<rparr>) ?s'"
    by (rule kinvI) (use c kc \<open>?u \<noteq> c\<close> in simp_all)
  ultimately show ?thesis by (intro exI [of _ h] exI [of _ ?s']) simp
qed

end
