(* ===== verification/Lifecycle.thy ===== *)
theory Lifecycle
  imports Services
begin

text \<open>
  The services that make, detach and name threads: each keeps the invariant, does not fault and
  returns to its caller without a switch.
\<close>

section \<open>Detaching\<close>

lemma flags_or_detached:
  "(f OR THREAD_FLAG_DETACHED) AND THREAD_FLAG_IDLE \<noteq> 0 \<longleftrightarrow> f AND THREAD_FLAG_IDLE \<noteq> 0"
  "(f OR THREAD_FLAG_DETACHED) AND THREAD_FLAG_DETACHED \<noteq> 0"
  unfolding THREAD_FLAG_DETACHED_def THREAD_FLAG_IDLE_def and_shifted_one bit_or_shifted_one by simp_all

lemma flags_or_idle:
  "(f OR THREAD_FLAG_IDLE) AND THREAD_FLAG_DETACHED \<noteq> 0 \<longleftrightarrow> f AND THREAD_FLAG_DETACHED \<noteq> 0"
  "(f OR THREAD_FLAG_IDLE) AND THREAD_FLAG_IDLE \<noteq> 0"
  unfolding THREAD_FLAG_DETACHED_def THREAD_FLAG_IDLE_def and_shifted_one bit_or_shifted_one by simp_all

text \<open>Nobody joins a thread that is alive and whose exit queue is empty.\<close>

lemma empty_exit_queue_unjoined:
  assumes inv: "inv b r v s" and u: "waitq v (ExitQueue u) = Some []" "tstate s u \<noteq> THREAD_DEATH"
    and t: "t \<in> set (thread_l v)"
  shows "\<not> joins s t u"
proof
  assume j: "joins s t u"
  note ok = invD(7) [OF inv t]
  have bl: "tstate s t = THREAD_BLOCKED" using thread_okD(4) [OF ok] j u(2) by (auto simp: joining_ok_def)
  then have "waiting (pending s t)" using thread_okD(5) [OF ok] by simp
  then have one: "joins s t w \<longleftrightarrow> w = u" for w using waiting_joined j by (fastforce simp: joins_def)
  from bl thread_okD(3) [OF ok] one have "th_blocking_wait_queue (g_threads s t) = Some (ExitQueue u)"
    by (auto simp: placed_def)
  with thread_okD(3) [OF ok] u(1) have "t \<in> set []" unfolding placed_def by blast
  then show False by simp
qed

lemma inv_detach:
  assumes inv: "inv b r v s" and u: "u \<in> set (thread_l v)" "waitq v (ExitQueue u) = Some []" "tstate s u \<noteq> THREAD_DEATH"
    and s': "queues_ok s' v"
      "g_threads s' = (g_threads s)(u := (g_threads s u)\<lparr>th_flags := th_flags (g_threads s u) OR THREAD_FLAG_DETACHED\<rparr>)"
      "pending s' = pending s" "timers s' = timers s" "wq_count s' = wq_count s"
  shows "inv b r v s'"
proof -
  have nj: "\<not> joins s t u" if "t \<in> set (thread_l v)" for t
    using empty_exit_queue_unjoined [OF inv u(2,3) that] .
  have st: "tstate s' t = tstate s t" for t by (simp add: s')
  have bl: "th_blocking_wait_queue (g_threads s' t) = th_blocking_wait_queue (g_threads s t)"
    "th_wait_queue_block_ret (g_threads s' t) = th_wait_queue_block_ret (g_threads s t)"
    "th_priority (g_threads s' t) = th_priority (g_threads s t)"
    "th_entry (g_threads s' t) = th_entry (g_threads s t)" for t by (simp_all add: s')
  have j: "joins s' t x \<longleftrightarrow> joins s t x" for t x by (simp add: joins_def s')
  have dt: "is_detached s' t \<longleftrightarrow> is_detached s t \<or> t = u" for t
    using flags_or_detached(2) by (simp add: is_detached_def s')
  have id: "thread_is_idle s' t \<longleftrightarrow> thread_is_idle s t" for t
    using flags_or_detached(1) by (simp add: thread_is_idle_def s')
  have "nodes_ok v s'" using invD(1) [OF inv] s'(1) by (simp add: nodes_ok_def s')
  moreover have "timers_ok v s'" using invD(2) [OF inv] by (simp add: timers_ok_def s' due_time_def [abs_def])
  moreover have "one_joiner v s'" using invD(3) [OF inv] by (simp add: one_joiner_def j)
  moreover have "thread_ok b r v s' t" if t: "t \<in> set (thread_l v)" for t
  proof -
    note ok = invD(7) [OF inv t]
    have "placed v s' t" using thread_okD(3) [OF ok] unfolding placed_def st bl j prio_of_def .
    moreover have "joining_ok v s' t"
      using thread_okD(4) [OF ok] nj [OF t] unfolding joining_ok_def st bl j dt by auto
    ultimately show ?thesis using ok u(3)
      unfolding thread_ok_def st bl prio_ok_def id dt s'(3) by auto
  qed
  ultimately show ?thesis by (simp add: inv_def)
qed

lemma thread_detach_spec:
  assumes k: "kinv b v s" and c: "current_thread s = Some c"
    and id: "0 < thid" "thid < 9" and u: "nat thid \<in> set (thread_l v)" "waitq v (ExitQueue (nat thid)) = Some []"
      "tstate s (nat thid) \<noteq> THREAD_DEATH"
  shows "\<exists>s'. bindE (thread_detach thid s) resume = Inr s' \<and> kinv b v s' \<and> current_thread s' = Some c \<and>
           is_detached s' (nat thid) \<and> rax s' = NO_ERR \<and> tstate s' (nat thid) = tstate s (nat thid) \<and>
           prio_of s' = prio_of s"
proof -
  let ?u = "nat thid"
  from k c have kc: "c \<in> set (thread_l v)" "inv b (Some c) v s" "pending s c = []" "queues_ok s v"
    "thread_lock s = 0" "ints_on (rflags s) \<longleftrightarrow> b"
    by (auto elim: kinvE)
  let ?a = "s\<lparr>thread_lock := 1, rflags := arch_disable_ints (rflags s)\<rparr>"
  have cnt: "wq_count s (ExitQueue ?u) = 0" using invD(1) [OF kc(2)] u(2) by (auto simp: nodes_ok_def)
  have "queues_ok ?a v" using kc(4) by simp
  moreover have "locked ?a" by (simp add: locked_def)
  ultimately obtain h bm where w: "wait_queue_wake_all (ExitQueue ?u) False ERR_THREAD_DETACHED ?a =
      Inr (?a\<lparr>nodes := h, g_threads := g_threads s, wq_count := (wq_count s)(ExitQueue ?u := 0),
             run_queue_bitmap := bm, rax := 0\<rparr>)"
    and q: "qok h bm (v\<lparr>waitq := (waitq v)(ExitQueue ?u \<mapsto> [])\<rparr>)"
    using wake_all_spec [of ?a v "ExitQueue ?u" "[]" c ERR_THREAD_DETACHED] u(2) c cnt
    by (auto simp: INT_MAX_def enqueue_all_def)
  have "v\<lparr>waitq := (waitq v)(ExitQueue ?u \<mapsto> [])\<rparr> = v" using u(2) by (simp add: fun_upd_idem)
  with q have q: "qok h bm v" by simp
  have wc: "(wq_count s)(ExitQueue ?u := 0) = wq_count s" using cnt by (simp add: fun_upd_idem)
  let ?th = "(g_threads s ?u)\<lparr>th_flags := th_flags (g_threads s ?u) OR THREAD_FLAG_DETACHED\<rparr>"
  let ?s' = "s\<lparr>nodes := h, g_threads := (g_threads s)(?u := ?th), run_queue_bitmap := bm, rax := NO_ERR\<rparr>"
  have "thread_detach thid s = Inr ?s'"
    using id u(3) kc(5) w wc by (cases s) (simp add: thread_detach_def upd_thread_def set_rax_def)
  moreover have "resume ?s' = Inr ?s'" using c kc(3) by simp
  moreover have "inv b (Some c) v ?s'"
    by (rule inv_detach [OF kc(2) u(1) u(2) u(3)]) (use q in simp_all)
  then have "kinv b v ?s'" by (rule kinvI) (use c kc in simp_all)
  moreover have "is_detached ?s' ?u" using flags_or_detached(2) by (simp add: is_detached_def)
  moreover have "prio_of ?s' = prio_of s" by (rule ext) (simp add: prio_of_def)
  ultimately show ?thesis using c by (intro exI [of _ ?s']) simp
qed

section \<open>Creating\<close>

text \<open>The queues with a thread \<open>t\<close> taken from the free list.\<close>

definition adopted :: "tid \<Rightarrow> kview \<Rightarrow> kview" where
  "adopted t v = v\<lparr>waitq := (waitq v)(ExitQueue t \<mapsto> []), thread_l := thread_l v @ [t],
                   free_l := remove1 t (free_l v)\<rparr>"

lemma adopted_simps [simp]:
  "runq (adopted t v) = runq v" "waitq (adopted t v) = (waitq v)(ExitQueue t \<mapsto> [])"
  "thread_l (adopted t v) = thread_l v @ [t]" "free_l (adopted t v) = remove1 t (free_l v)"
  "timer_l (adopted t v) = timer_l v"
  by (simp_all add: adopted_def)

lemma inv_adopted:
  assumes inv: "inv b r v s" and t: "t \<in> set (free_l v)"
    and q: "qok (nodes s') (run_queue_bitmap s') (adopted t v)"
    and s': "g_threads s' = (g_threads s)(t := th)" "pending s' = (pending s)(t := [START])"
      "timers s' = timers s" "wq_count s' = (wq_count s)(ExitQueue t := 0)"
    and th: "th_state th = THREAD_SUSPENDED" "0 \<le> th_priority th" "th_priority th < 32" "th_flags th = 0"
      "th_blocking_wait_queue th = None" "th_entry th \<noteq> 0"
    and r: "r \<noteq> Some t"
  shows "inv b r (adopted t v) s'"
proof -
  note view = qok_view [OF invD(4) [OF inv]]
  have new: "t \<notin> set (thread_l v)" using view_disjoint(4) [OF view] t by blast
  have nq: "\<not> queued v t" using not_queued_outside [OF invD(1) [OF inv] new] .
  have nz: "t \<noteq> 0" using new invD(6) [OF inv] by metis
  have ntm: "StackTimer t \<notin> set (timer_l v)" using invD(2) [OF inv] new by (auto simp: timers_ok_def)
  have g: "g_threads s' x = g_threads s x" "pending s' x = pending s x" if "x \<noteq> t" for x
    using that by (simp_all add: s')
  have old: "thread_ok b r (adopted t v) s' x" if x: "x \<in> set (thread_l v)" for x
  proof -
    have xt: "x \<noteq> t" using x new by auto
    note ok = invD(7) [OF inv x]
    have nj: "\<not> joins s x t" using thread_okD(4) [OF ok] new by (auto simp: joining_ok_def)
    have nb: "th_blocking_wait_queue (g_threads s x) \<noteq> Some (ExitQueue t)"
      using thread_okD(3) [OF ok] nj by (auto simp: placed_def)
    have "placed (adopted t v) s' x"
      using thread_okD(3) [OF ok] nb unfolding placed_def joins_def prio_of_def g [OF xt] by auto
    moreover have "joining_ok (adopted t v) s' x"
      using thread_okD(4) [OF ok] nj unfolding joining_ok_def joins_def is_detached_def g [OF xt]
      by (auto simp: s')
    ultimately show ?thesis
      using ok xt unfolding thread_ok_def prio_ok_def thread_is_idle_def is_detached_def g [OF xt]
      by simp
  qed
  have "thread_ok b r (adopted t v) s' t"
  proof -
    have "placed (adopted t v) s' t"
      using nq ntm th by (auto simp: placed_def s' queued_def)
    moreover have "joining_ok (adopted t v) s' t" by (simp add: joining_ok_def joins_def s')
    ultimately show ?thesis
      using th r nz by (simp add: thread_ok_def s' prio_ok_def thread_is_idle_def)
  qed
  moreover have "nodes_ok (adopted t v) s'"
  proof -
    have d: "distinct (free_l v)" using view_distinct(4) [OF view] .
    have n: "nodes_ok v s" using invD(1) [OF inv] .
    have "set (thread_l (adopted t v)) \<union> set (free_l (adopted t v)) = {0..<9}"
      using n d t unfolding nodes_ok_def by auto
    then show ?thesis using n q d unfolding nodes_ok_def by (auto simp: s' subset_insertI2)
  qed
  moreover have "timers_ok (adopted t v) s'"
    using invD(2) [OF inv] by (fastforce simp: timers_ok_def s' due_time_def [abs_def])
  moreover have "one_joiner (adopted t v) s'"
    using invD(3) [OF inv] new by (auto simp: one_joiner_def joins_def s')
  ultimately show ?thesis using old by (auto simp: inv_def)
qed

lemma printf_bracket_quiet:
  "printf_bracket s = s\<lparr>thread_lock := 0, thread_preempt_lock := thread_preempt_lock (printf_bracket s)\<rparr>"
  by (cases s) (simp add: printf_bracket_def thread_preempt_enable_def thread_preempt_disable_def Let_def)

lemma printf_bracket_reads [simp]:
  "nodes (printf_bracket s) = nodes s" "g_threads (printf_bracket s) = g_threads s"
  "timers (printf_bracket s) = timers s" "wq_count (printf_bracket s) = wq_count s"
  "run_queue_bitmap (printf_bracket s) = run_queue_bitmap s" "pending (printf_bracket s) = pending s"
  "current_thread (printf_bracket s) = current_thread s" "thread_lock (printf_bracket s) = 0"
  "rflags (printf_bracket s) = rflags s" "ptimer (printf_bracket s) = ptimer s"
  "CONFIG_DEBUG_ASSERT (printf_bracket s) = CONFIG_DEBUG_ASSERT s"
  by (subst printf_bracket_quiet, simp)+

lemma thread_create_full:
  assumes k: "kinv b v s" and "free_l v = []"
  shows "thread_create name entry a priority stk sz s = Inr (set_rax (-1) (printf_bracket s))"
    and "kinv b v (set_rax (-1) (printf_bracket s))"
proof -
  from k have "queues_ok s v" by (auto elim: kinvE)
  then have "list_is_empty (nodes s) FreeListHead" using assms(2) view_reads(2) [OF qok_view] by blast
  then show "thread_create name entry a priority stk sz s = Inr (set_rax (-1) (printf_bracket s))"
    by (simp add: thread_create_def get_free_thread_node_def)
  show "kinv b v (set_rax (-1) (printf_bracket s))"
    using k by (rule kinv_cong) (simp_all add: set_rax_def)
qed

text \<open>The list nodes of a thread on its way from the free list to the thread list.\<close>

lemma create_lists:
  assumes inv: "inv b r v s" and f: "free_l v = t # ts"
  shows "\<exists>h1 h. list_remove_head FreeListHead (nodes s) = Inr (Some (ThreadListNode t), h1) \<and>
    list_add_tail ThreadListHead (ThreadListNode t)
      (list_initialize (WaitListHead (ExitQueue t)) (list_clear_node (WaitListHead (ExitQueue t))
        (list_clear_node (QueueNode t) (list_clear_node (ThreadListNode t) h1)))) = Inr h \<and>
    qok h (run_queue_bitmap s) (adopted t v)"
proof -
  note ok = invD(4) [OF inv]
  note view = qok_view [OF ok]
  have new: "t \<notin> set (thread_l v)" using view_disjoint(4) [OF view] f by auto
  have nq: "\<not> queued v t" using not_queued_outside [OF invD(1) [OF inv] new] .
  have w: "waitq v (ExitQueue t) = None \<or> waitq v (ExitQueue t) = Some []"
    using invD(1) [OF inv] f by (auto simp: nodes_ok_def)
  have tts: "t \<notin> set ts" using view_distinct(4) [OF view] f by simp
  from free_list_pop [OF view f] obtain h1 where
    h1: "list_remove_head FreeListHead (nodes s) = Inr (Some (ThreadListNode t), h1)"
    "lists_ok h1 (heads (v\<lparr>free_l := ts\<rparr>))" by blast
  let ?v1 = "v\<lparr>free_l := ts\<rparr>"
  let ?S = "\<lambda>h. s\<lparr>nodes := h\<rparr>"
  have q1: "\<not> queued ?v1 t" using nq by (simp add: queued_def)
  have k1: "view_ok (?S h1) ?v1" using h1(2) by (simp add: view_ok_def)
  let ?h2 = "list_clear_node (ThreadListNode t) h1"
  have k2: "view_ok (?S ?h2) ?v1" using clear_unlinked(2) [OF k1, of t] new tts by (simp add: view_ok_def)
  let ?h3 = "list_clear_node (QueueNode t) ?h2"
  have k3: "view_ok (?S ?h3) ?v1" using clear_unlinked(1) [OF k2 q1] by (simp add: view_ok_def)
  let ?h4 = "list_clear_node (WaitListHead (ExitQueue t)) ?h3"
  let ?v4 = "?v1\<lparr>waitq := (waitq v)(ExitQueue t := None)\<rparr>"
  have k4: "view_ok (?S ?h4) ?v4" using wait_clear [OF k3, of "ExitQueue t"] w by (simp add: view_ok_def)
  let ?h5 = "list_initialize (WaitListHead (ExitQueue t)) ?h4"
  let ?v5 = "?v1\<lparr>waitq := (waitq v)(ExitQueue t \<mapsto> [])\<rparr>"
  have k5: "view_ok (?S ?h5) ?v5" using wait_initialize [OF k4, of "ExitQueue t"] by (simp add: view_ok_def)
  from thread_list_push(1) [OF k5, of t] new tts obtain h where
    "list_add_tail ThreadListHead (ThreadListNode t) ?h5 = Inr h"
    "lists_ok h (heads (?v5\<lparr>thread_l := thread_l v @ [t]\<rparr>))" by auto
  moreover have "?v5\<lparr>thread_l := thread_l v @ [t]\<rparr> = adopted t v"
    using f by (cases v) (simp add: adopted_def)
  ultimately show ?thesis using h1(1) ok by (auto simp: qok_def)
qed

lemma thread_create_spec:
  assumes k: "kinv b v s" and f: "free_l v = t # ts"
    and name: "length name < TREAD_NAME_LEN" and prio: "0 \<le> priority" "priority < 32" and entry: "entry \<noteq> 0"
  shows "\<exists>s'. thread_create name entry a priority stk sz s = Inr s' \<and> kinv b (adopted t v) s' \<and>
           current_thread s' = current_thread s \<and> rax s' = int t \<and> tstate s' t = THREAD_SUSPENDED \<and>
           th_priority (g_threads s' t) = priority \<and> pending s' t = [START] \<and>
           (\<forall>x. x \<noteq> t \<longrightarrow> g_threads s' x = g_threads s x) \<and> ptimer s' = ptimer s \<and> \<not> is_detached s' t"
proof -
  from k obtain c where c: "current_thread s = Some c" "c \<in> set (thread_l v)" "inv b (Some c) v s"
    "thread_lock s = 0" "ints_on (rflags s) \<longleftrightarrow> b" "queues_ok s v"
    by (auto elim: kinvE)
  from create_lists [OF c(3) f] obtain h1 h where
    h: "list_remove_head FreeListHead (nodes s) = Inr (Some (ThreadListNode t), h1)"
    "list_add_tail ThreadListHead (ThreadListNode t)
      (list_initialize (WaitListHead (ExitQueue t)) (list_clear_node (WaitListHead (ExitQueue t))
        (list_clear_node (QueueNode t) (list_clear_node (ThreadListNode t) h1)))) = Inr h"
    and q: "qok h (run_queue_bitmap s) (adopted t v)" by blast
  have ne: "\<not> list_is_empty (nodes s) FreeListHead" using view_reads(2) [OF qok_view [OF c(6)]] f by simp
  have t9: "t < 9" using invD(5) [OF c(3)] f by auto
  obtain m sp where stack: "init_thread_stack (initial_thread_func_addr s) stk sz (snd (memset (mem s) stk 0 sz)) = (sp, m)"
    by (metis surj_pair)
  let ?th = "zero_thread\<lparr>th_priority := priority, th_state := THREAD_SUSPENDED, th_blocking_wait_queue := None,
     th_wait_queue_block_ret := NO_ERR, th_stack := stk, th_stack_size := sz, th_sp := sp, th_entry := entry,
     th_arg := a, th_retcode := 0, th_name := name @ drop (length name) (th_name zero_thread)\<rparr>"
  let ?s1 = "s\<lparr>nodes := h, g_threads := (g_threads s)(t := ?th), wq_count := (wq_count s)(ExitQueue t := 0),
     thread_lock := 0, mem := m, pending := (pending s)(t := [START])\<rparr>"
  let ?s' = "set_rax (int t) (printf_bracket ?s1)"
  have "thread_create name entry a priority stk sz s = Inr ?s'"
    using ne h name c(4) t9 stack
    by (cases s) (simp add: thread_create_def get_free_thread_node_def init_thread_strcut_def clear_thread_def
        copy_name_def upd_thread_def set_nodes_def wait_queue_init_def start_stack_def on_nodes_def zero_thread_def
        fun_upd_def cong: if_cong)
  moreover have "inv b (Some c) (adopted t v) ?s1"
  proof (rule inv_adopted [OF c(3), where th = ?th])
    show "Some c \<noteq> Some t" using c(2) view_disjoint(4) [OF qok_view [OF c(6)]] f by auto
  qed (use f q prio entry in \<open>simp_all add: zero_thread_def\<close>)
  then have "kinv b (adopted t v) ?s1" by (rule kinvI) (use c in simp_all)
  then have "kinv b (adopted t v) ?s'" by (rule kinv_cong) (simp_all add: set_rax_def)
  ultimately show ?thesis by (intro exI [of _ ?s']) (simp add: set_rax_def is_detached_def zero_thread_def)
qed

end
