(* ===== verification/Kernel.thy ===== *)
theory Kernel
  imports Lifecycle
begin

text \<open>
  The kernel as a whole: the timer interrupt from the processor's entry to \<open>iretq\<close>
  (\<open>os_timer_tick\<close>, \<open>timer_tick\<close>, \<open>thread_timer_tick\<close>, \<open>thread_preempt\<close>), start-up, and the step
  relation of a running system. A step is a service called by the running thread or a timer
  interrupt, followed by what the thread that gets the processor has left to do. The invariant holds in
  every reachable state and no step faults.
\<close>

section \<open>The timer interrupt\<close>

definition invoke_callback :: invoke where
  "invoke_callback cb timer now a s =
     (case cb of
        ThreadSleepHandler \<Rightarrow> thread_sleep_handler timer now a s
      | WaitQueueTimeoutHandler \<Rightarrow> wait_queue_timeout_handler timer now a s)"

text \<open>The registered handler \<open>os_timer_tick\<close> with the callback it tail-calls, \<open>timer_tick\<close>.\<close>

definition timer_irq :: "kstate \<Rightarrow> (handler_return \<times> kstate) result" where
  "timer_irq s =
     (let (fire, pt) = os_timer_tick (ptimer s);
          s = s\<lparr>ptimer := pt\<rparr>
      in case fire of
           None \<Rightarrow> Inr (INT_NO_RESCHEDULE, s)
         | Some (TimerTick, _, time) \<Rightarrow> timer_tick invoke_callback time s)"

text \<open>
  The interrupt as the processor and \<open>x64_exception_handler\<close> run it: the flags are saved and
  interrupts are off, the handler runs, \<open>thread_preempt\<close> if it asks for it, and \<open>iretq\<close> restores the
  flags once the interrupted thread runs again.
\<close>

definition timer_interrupt :: "kstate \<Rightarrow> kstate result" where
  "timer_interrupt s =
     (let f = rflags s;
          s = s\<lparr>rflags := arch_disable_ints f\<rparr>
      in bindE (timer_irq s) (\<lambda>(ret, s).
         bindE (current s) (\<lambda>c.
         let s = push_frame c (IRET f) s
         in bindE (if ret = INT_RESCHEDULE then thread_preempt s else Inr s) resume)))"

fun sleeper :: "timer_id \<Rightarrow> tid" where
  "sleeper (StackTimer t) = t"
| "sleeper (StaticTimer n) = n"

definition wake_sleepers :: "timer_id list \<Rightarrow> kstate \<Rightarrow> kview \<Rightarrow> kview" where
  "wake_sleepers ms s v = fold (\<lambda>m. make_ready (sleeper m) s) ms v"

lemma wake_sleepers_simps [simp]:
  "waitq (wake_sleepers ms s v) = waitq v"
  "thread_l (wake_sleepers ms s v) = thread_l v"
  "free_l (wake_sleepers ms s v) = free_l v"
  "wake_sleepers [] s v = v"
  "wake_sleepers (m # ms) s v = wake_sleepers ms s (make_ready (sleeper m) s v)"
  by (induction ms arbitrary: v) (simp_all add: wake_sleepers_def)

lemma runq_wake_sleepers:
  "runq (wake_sleepers ms s v) q = runq v q @ filter (\<lambda>t. prio_of s t = q) (map sleeper ms)"
  by (induction ms arbitrary: v) auto

text \<open>One due timer: its thread becomes ready.\<close>

lemma timer_fire_spec:
  assumes inv: "inv b (Some c) v s" and ms: "timer_l v = m # ms"
    and off: "arch_ints_disabled (rflags s)"
  shows "\<exists>h bm t. m = StackTimer t \<and> t \<in> set (thread_l v) \<and> tstate s t = THREAD_SLEEPING \<and>
    timer_fire invoke_callback now m ret s = Inr (INT_RESCHEDULE,
      s\<lparr>nodes := h, g_threads := (g_threads s)(t := (g_threads s t)\<lparr>th_state := THREAD_READY\<rparr>),
        run_queue_bitmap := bm, thread_lock := 0\<rparr>) \<and>
    inv b (Some c) (make_ready t s v)
      (s\<lparr>nodes := h, g_threads := (g_threads s)(t := (g_threads s t)\<lparr>th_state := THREAD_READY\<rparr>),
        run_queue_bitmap := bm, thread_lock := 0\<rparr>)"
proof -
  note ok = invD(4) [OF inv]
  note view = qok_view [OF ok]
  from invD(2) [OF inv] ms obtain t where t: "m = StackTimer t" "t \<in> set (thread_l v)"
    "callback (timers s m) = Some ThreadSleepHandler" "targ (timers s m) = Some t" "periodic_time (timers s m) = 0"
    by (auto simp: timers_ok_def)
  note okt = invD(7) [OF inv t(2)]
  note p = thread_okD(3) [OF okt]
  have sl: "tstate s t = THREAD_SLEEPING" using p ms t(1) by (auto simp: placed_def)
  have nz: "t \<noteq> 0" using okt sl by (auto simp: thread_ok_def)
  have nq: "\<not> queued v t" using not_queuedI [OF p] sl by simp
  let ?v1 = "v\<lparr>timer_l := remove1 m (timer_l v)\<rparr>"
  from timer_list_delete [OF view, of m] ms obtain h1 where
    h1: "list_delete (TimerNode m) (nodes s) = Inr h1" "lists_ok h1 (heads ?v1)" by auto
  let ?th = "(g_threads s t)\<lparr>th_state := THREAD_READY\<rparr>"
  let ?s1 = "s\<lparr>nodes := h1, g_threads := (g_threads s)(t := ?th), thread_lock := 1,
    rflags := arch_disable_ints (rflags s)\<rparr>"
  have "queues_ok ?s1 ?v1" using h1(2) ok by (simp add: qok_def)
  moreover have "\<not> queued ?v1 t" using nq by (simp add: queued_def)
  moreover have "prio_ok ?s1 t" "tstate ?s1 t = THREAD_READY" "locked ?s1" "prio_of ?s1 t = prio_of s t"
    using thread_okD(2) [OF okt] by (simp_all add: prio_ok_def locked_def prio_of_def)
  ultimately obtain h bm where
    i: "insert_in_run_queue_head t ?s1 = Inr (?s1\<lparr>nodes := h, run_queue_bitmap := bm\<rparr>)"
    and q: "qok h bm (make_ready t s v)"
    using insert_spec(1) [of ?s1 ?v1 t] t(1) by (auto simp: make_ready_def)
  let ?s' = "s\<lparr>nodes := h, g_threads := (g_threads s)(t := ?th), run_queue_bitmap := bm, thread_lock := 0\<rparr>"
  have u: "upd_thread t (\<lambda>th. th\<lparr>th_state := THREAD_READY\<rparr>) (s\<lparr>nodes := h1, thread_lock := 1,
      rflags := arch_disable_ints (rflags s)\<rparr>) = ?s1" by (cases s) (simp add: upd_thread_def)
  have fin: "?s1\<lparr>nodes := h, run_queue_bitmap := bm, thread_lock := 0, rflags := rflags s\<rparr> = ?s'"
    by (cases s) simp
  have "thread_sleep_handler m now (Some t) (s\<lparr>nodes := h1\<rparr>) = Inr (INT_RESCHEDULE, ?s')"
    using sl i u fin by (simp add: thread_sleep_handler_def)
  then have "timer_fire invoke_callback now m ret s = Inr (INT_RESCHEDULE, ?s')"
    using h1(1) t by (simp add: timer_fire_def on_nodes_def invoke_callback_def)
  moreover have "inv b (Some c) (make_ready t s v) ?s'"
  proof (rule inv_make_ready [OF inv t(2) nz, where th = ?th and fs = "pending s t"])
    show "switched_out (pending s t)" using thread_okD(5) [OF okt] sl by auto
    show "Some c \<noteq> Some t" using thread_okD(1) [OF okt] sl by auto
  qed (use sl q in simp_all)
  ultimately show ?thesis using t sl by blast
qed

lemma make_ready_cong: "prio_of s' = prio_of s \<Longrightarrow> make_ready t s' = make_ready t s"
  unfolding make_ready_def by (rule ext) (simp only:)

lemma wake_sleepers_cong: "prio_of s' = prio_of s \<Longrightarrow> wake_sleepers ms s' v = wake_sleepers ms s v"
  unfolding wake_sleepers_def by (simp only: make_ready_cong [of s' s])

text \<open>What the handlers of the interrupt leave alone.\<close>

definition same_context :: "kstate \<Rightarrow> kstate \<Rightarrow> bool" where
  "same_context s s' \<longleftrightarrow>
     current_thread s' = current_thread s \<and> pending s' = pending s \<and> rflags s' = rflags s \<and>
     timers s' = timers s \<and> thread_preempt_lock s' = thread_preempt_lock s \<and>
     CONFIG_DEBUG_ASSERT s' = CONFIG_DEBUG_ASSERT s \<and> ptimer s' = ptimer s \<and>
     (\<forall>t. th_priority (g_threads s' t) = th_priority (g_threads s t))"

definition due :: "64 word \<Rightarrow> kstate \<Rightarrow> kview \<Rightarrow> timer_id list" where
  "due now s v = takeWhile (\<lambda>m. due_time s m \<le> now) (timer_l v)"

lemma timer_loop_spec:
  assumes "inv b (Some c) v s" and "arch_ints_disabled (rflags s)" and "thread_lock s = 0"
  shows "\<exists>s'. timer_loop invoke_callback now ret s =
            Some (Inr (if due now s v = [] then ret else INT_RESCHEDULE, s')) \<and>
          inv b (Some c) (wake_sleepers (due now s v) s v) s' \<and> same_context s s' \<and> thread_lock s' = 0 \<and>
          (\<forall>t. tstate s' t = (if StackTimer t \<in> set (due now s v) then THREAD_READY else tstate s t)) \<and>
          (\<forall>t. th_remaining_quantum (g_threads s' t) = th_remaining_quantum (g_threads s t))"
  using assms
proof (induction "timer_l v" arbitrary: s v ret)
  case Nil
  then have "list_peek_head (nodes s) TimerQueueHead = None"
    using view_reads(3) [OF qok_view [OF invD(4) [OF Nil.prems(1)]]] by simp
  with Nil show ?case
    by (intro exI [of _ s]) (simp add: timer_loop.simps due_def same_context_def)
next
  case (Cons m ms)
  note view = qok_view [OF invD(4) [OF Cons.prems(1)]]
  have peek: "list_peek_head (nodes s) TimerQueueHead = Some (TimerNode m)"
    using view_reads(3) [OF view] by (simp flip: Cons.hyps(2))
  show ?case
  proof (cases "due_time s m \<le> now")
    case False
    then have "due now s v = []" by (simp add: due_def flip: Cons.hyps(2))
    with False peek Cons.prems show ?thesis
      by (intro exI [of _ s]) (simp add: timer_loop.simps same_context_def due_time_def not_le)
  next
    case True
    from timer_fire_spec [OF Cons.prems(1) Cons.hyps(2) [symmetric] Cons.prems(2), of now ret]
    obtain h bm t where t: "m = StackTimer t" "tstate s t = THREAD_SLEEPING" and
      f: "timer_fire invoke_callback now m ret s = Inr (INT_RESCHEDULE,
        s\<lparr>nodes := h, g_threads := (g_threads s)(t := (g_threads s t)\<lparr>th_state := THREAD_READY\<rparr>),
          run_queue_bitmap := bm, thread_lock := 0\<rparr>)" and
      i: "inv b (Some c) (make_ready t s v)
        (s\<lparr>nodes := h, g_threads := (g_threads s)(t := (g_threads s t)\<lparr>th_state := THREAD_READY\<rparr>),
          run_queue_bitmap := bm, thread_lock := 0\<rparr>)" by blast
    define s1 where "s1 = s\<lparr>nodes := h, g_threads := (g_threads s)(t := (g_threads s t)\<lparr>th_state := THREAD_READY\<rparr>),
          run_queue_bitmap := bm, thread_lock := 0\<rparr>"
    have tl: "timer_l (make_ready t s v) = ms" using t(1) by (simp flip: Cons.hyps(2))
    have dt: "due_time s1 = due_time s" and pr: "prio_of s1 = prio_of s"
      by (auto simp: s1_def due_time_def prio_of_def)
    have d: "due now s v = m # due now s1 (make_ready t s v)"
      using True dt tl by (simp add: due_def flip: Cons.hyps(2))
    have "arch_ints_disabled (rflags s1)" "thread_lock s1 = 0" using Cons.prems by (simp_all add: s1_def)
    from Cons.hyps(1) [OF tl [symmetric] i [folded s1_def] this, of INT_RESCHEDULE] obtain s' where
      IH: "timer_loop invoke_callback now INT_RESCHEDULE s1 = Some (Inr (INT_RESCHEDULE, s'))"
      "inv b (Some c) (wake_sleepers (due now s1 (make_ready t s v)) s1 (make_ready t s v)) s'"
      "same_context s1 s'" "thread_lock s' = 0"
      "\<forall>u. tstate s' u = (if StackTimer u \<in> set (due now s1 (make_ready t s v)) then THREAD_READY else tstate s1 u)"
      "\<forall>u. th_remaining_quantum (g_threads s' u) = th_remaining_quantum (g_threads s1 u)"
      by auto
    have "timer_loop invoke_callback now ret s = Some (Inr (INT_RESCHEDULE, s'))"
      using peek True f IH(1) unfolding s1_def [symmetric]
      by (subst timer_loop.simps) (simp add: due_time_def not_less [symmetric])
    moreover have "inv b (Some c) (wake_sleepers (due now s v) s v) s'"
      using IH(2) t(1) d wake_sleepers_cong [OF pr] by simp
    moreover have "same_context s s'" using IH(3) by (simp add: same_context_def s1_def)
    moreover have "tstate s' u = (if StackTimer u \<in> set (due now s v) then THREAD_READY else tstate s u)" for u
      using IH(5) d t by (simp add: s1_def)
    moreover have "th_remaining_quantum (g_threads s' u) = th_remaining_quantum (g_threads s u)" for u
      using IH(6) by (simp add: s1_def)
    ultimately show ?thesis using d IH(4) by (intro exI [of _ s']) simp
  qed
qed

text \<open>The quantum of the running thread, one tick later, and whether it is to be preempted.\<close>

definition quantum_up :: "kstate \<Rightarrow> tid \<Rightarrow> bool" where
  "quantum_up s c \<longleftrightarrow> th_remaining_quantum (g_threads s c) \<le> 1 \<and> thread_preempt_lock s = 0"

definition quantum_in_range :: "kstate \<Rightarrow> tid \<Rightarrow> bool" where
  "quantum_in_range s c \<longleftrightarrow>
     INT_MIN < th_remaining_quantum (g_threads s c) \<and> th_remaining_quantum (g_threads s c) \<le> INT_MAX"

lemma timer_tick_spec:
  assumes i: "inv b (Some c) v s" and off: "arch_ints_disabled (rflags s)" "thread_lock s = 0"
    and c: "current_thread s = Some c" "quantum_in_range s c"
  shows "\<exists>s'. timer_tick invoke_callback now s =
            Inr (if due now s v \<noteq> [] \<or> quantum_up s c then INT_RESCHEDULE else INT_NO_RESCHEDULE, s') \<and>
          inv b (Some c) (wake_sleepers (due now s v) s v) s' \<and> same_context s s' \<and> thread_lock s' = 0 \<and>
          (\<forall>t. tstate s' t = (if StackTimer t \<in> set (due now s v) then THREAD_READY else tstate s t))"
proof -
  from timer_loop_spec [OF i off, of now INT_NO_RESCHEDULE] obtain s1 where
    l: "timer_loop invoke_callback now INT_NO_RESCHEDULE s =
          Some (Inr (if due now s v = [] then INT_NO_RESCHEDULE else INT_RESCHEDULE, s1))"
    and i1: "inv b (Some c) (wake_sleepers (due now s v) s v) s1" and ctx: "same_context s s1"
    and s1: "thread_lock s1 = 0"
      "\<forall>t. tstate s1 t = (if StackTimer t \<in> set (due now s v) then THREAD_READY else tstate s t)"
      "\<forall>t. th_remaining_quantum (g_threads s1 t) = th_remaining_quantum (g_threads s t)"
    by auto
  let ?q = "th_remaining_quantum (g_threads s c) - 1"
  let ?s' = "s1\<lparr>g_threads := (g_threads s1)(c := (g_threads s1 c)\<lparr>th_remaining_quantum := ?q\<rparr>)\<rparr>"
  have c1: "current_thread s1 = Some c" "thread_preempt_lock s1 = thread_preempt_lock s"
    using ctx c by (simp_all add: same_context_def)
  have "c_int ?q = Inr ?q" using c(2) by (simp add: quantum_in_range_def)
  then have "thread_timer_tick s1 = Inr (if quantum_up s c then INT_RESCHEDULE else INT_NO_RESCHEDULE, ?s')"
    using c1 s1(3) by (simp add: thread_timer_tick_def upd_thread_def thread_preempt_is_enabled_def quantum_up_def)
  then have "timer_tick invoke_callback now s =
      Inr (if due now s v \<noteq> [] \<or> quantum_up s c then INT_RESCHEDULE else INT_NO_RESCHEDULE, ?s')"
    using l off by (simp add: timer_tick_def)
  moreover have "inv b (Some c) (wake_sleepers (due now s v) s v) ?s'"
    using i1 by (subst inv_same_threads [where s = s1]) (simp_all add: same_thread_def)
  moreover have "same_context s ?s'" using ctx by (simp add: same_context_def)
  moreover have "tstate ?s' t = (if StackTimer t \<in> set (due now s v) then THREAD_READY else tstate s t)" for t
    using s1(2) by simp
  ultimately show ?thesis using s1(1) by (intro exI [of _ ?s']) simp
qed

text \<open>
  The time the interrupt takes for now, and the sleepers that are due then; nothing is due when the
  clock does not call back.
\<close>

definition tick_due :: "kstate \<Rightarrow> kview \<Rightarrow> timer_id list" where
  "tick_due s v = (case fst (os_timer_tick (ptimer s)) of
                     None \<Rightarrow> []
                   | Some (cb, a, now) \<Rightarrow> due now s v)"

lemma timer_irq_spec:
  assumes i: "inv b (Some c) v s" and off: "arch_ints_disabled (rflags s)" "thread_lock s = 0"
    and c: "current_thread s = Some c" "quantum_in_range s c"
  shows "\<exists>r s'. timer_irq s = Inr (r, s') \<and>
          (fst (os_timer_tick (ptimer s)) = None \<longrightarrow> r = INT_NO_RESCHEDULE) \<and>
          (fst (os_timer_tick (ptimer s)) \<noteq> None \<longrightarrow>
             (r = INT_RESCHEDULE \<longleftrightarrow> tick_due s v \<noteq> [] \<or> quantum_up s c)) \<and>
          inv b (Some c) (wake_sleepers (tick_due s v) s v) s' \<and> thread_lock s' = 0 \<and>
          current_thread s' = Some c \<and> rflags s' = rflags s \<and> pending s' = pending s \<and>
          ptimer s' = snd (os_timer_tick (ptimer s)) \<and>
          thread_preempt_lock s' = thread_preempt_lock s \<and>
          CONFIG_DEBUG_ASSERT s' = CONFIG_DEBUG_ASSERT s \<and> prio_of s' = prio_of s \<and>
          (\<forall>t. tstate s' t = (if StackTimer t \<in> set (tick_due s v) then THREAD_READY else tstate s t))"
proof -
  obtain fire pt where f: "os_timer_tick (ptimer s) = (fire, pt)" by fastforce
  let ?s = "s\<lparr>ptimer := pt\<rparr>"
  have i0: "inv b (Some c) v ?s" using i by (subst inv_cong [where s = s]) simp_all
  show ?thesis
  proof (cases fire)
    case None
    then show ?thesis using f i0 off c
      by (intro exI [of _ INT_NO_RESCHEDULE] exI [of _ ?s]) (simp add: timer_irq_def tick_due_def prio_of_def [abs_def])
  next
    case (Some p)
    then obtain a now where p: "fire = Some (TimerTick, a, now)"
      by (cases p) (metis (full_types) platform_callback.exhaust)
    have d: "due now ?s v = due now s v" by (simp add: due_def due_time_def)
    have q: "quantum_up ?s c \<longleftrightarrow> quantum_up s c" by (simp add: quantum_up_def)
    have pr: "prio_of ?s = prio_of s" by (rule ext) (simp add: prio_of_def)
    have "arch_ints_disabled (rflags ?s)" "thread_lock ?s = 0" "current_thread ?s = Some c" "quantum_in_range ?s c"
      using off c by (simp_all add: quantum_in_range_def)
    from timer_tick_spec [OF i0 this, of now, unfolded d q wake_sleepers_cong [OF pr]] obtain s' where
      t: "timer_tick invoke_callback now ?s =
            Inr (if due now s v \<noteq> [] \<or> quantum_up s c then INT_RESCHEDULE else INT_NO_RESCHEDULE, s')"
      "inv b (Some c) (wake_sleepers (due now s v) s v) s'" "same_context ?s s'" "thread_lock s' = 0"
      "\<forall>t. tstate s' t = (if StackTimer t \<in> set (due now s v) then THREAD_READY else tstate ?s t)" by blast
    let ?r = "if due now s v \<noteq> [] \<or> quantum_up s c then INT_RESCHEDULE else INT_NO_RESCHEDULE"
    have "timer_irq s = Inr (?r, s')" using f p t(1) by (simp add: timer_irq_def)
    then show ?thesis using f p t(2-5) c
      by (intro exI [of _ ?r] exI [of _ s']) (simp add: tick_due_def same_context_def prio_of_def [abs_def])
  qed
qed

definition rescheduled_by_tick :: "kstate \<Rightarrow> kview \<Rightarrow> tid \<Rightarrow> bool" where
  "rescheduled_by_tick s v c \<longleftrightarrow>
     fst (os_timer_tick (ptimer s)) \<noteq> None \<and> (tick_due s v \<noteq> [] \<or> quantum_up s c)"

lemma timer_interrupt_spec:
  assumes k: "kinv True v s" and c: "current_thread s = Some c" "quantum_in_range s c"
  shows "\<exists>s' v' s1. timer_interrupt s = Inr s' \<and> kinv True v' s' \<and>
     ptimer s' = snd (os_timer_tick (ptimer s)) \<and>
     (\<forall>t. tstate s1 t = (if StackTimer t \<in> set (tick_due s v) then THREAD_READY else tstate s t)) \<and>
     (if rescheduled_by_tick s v c
      then gave_up c THREAD_READY (put_back c s (wake_sleepers (tick_due s v) s v)) s1 v' s'
      else v' = v \<and> current_thread s' = Some c \<and> prio_of s' = prio_of s \<and> (\<forall>t. tstate s' t = tstate s t))"
proof -
  from k c have kc: "c \<in> set (thread_l v)" "inv True (Some c) v s" "pending s c = []"
    "ints_on (rflags s)" "thread_lock s = 0"
    by (auto elim: kinvE)
  let ?f = "rflags s"
  let ?a = "s\<lparr>rflags := arch_disable_ints ?f\<rparr>"
  let ?w = "wake_sleepers (tick_due s v) s v"
  have "inv True (Some c) v ?a" using kc(2) by (subst inv_cong [where s = s]) simp_all
  moreover have "arch_ints_disabled (rflags ?a)" "thread_lock ?a = 0" "current_thread ?a = Some c"
    "quantum_in_range ?a c" using kc c by (simp_all add: quantum_in_range_def)
  moreover have "tick_due ?a v = tick_due s v"
    by (auto simp: tick_due_def due_def due_time_def split: option.splits)
  moreover have "quantum_up ?a c \<longleftrightarrow> quantum_up s c" by (simp add: quantum_up_def)
  moreover have "prio_of ?a = prio_of s" by (rule ext) (simp add: prio_of_def)
  ultimately obtain r s1 where r: "timer_irq ?a = Inr (r, s1)"
    and r1: "fst (os_timer_tick (ptimer s)) = None \<Longrightarrow> r = INT_NO_RESCHEDULE"
    and r2: "fst (os_timer_tick (ptimer s)) \<noteq> None \<Longrightarrow>
               r = INT_RESCHEDULE \<longleftrightarrow> tick_due s v \<noteq> [] \<or> quantum_up s c"
    and i1: "inv True (Some c) ?w s1" and s1: "thread_lock s1 = 0" "current_thread s1 = Some c"
      "rflags s1 = arch_disable_ints ?f" "pending s1 = pending s" "ptimer s1 = snd (os_timer_tick (ptimer s))"
      "prio_of s1 = prio_of s"
      "\<forall>t. tstate s1 t = (if StackTimer t \<in> set (tick_due s v) then THREAD_READY else tstate s t)"
    using timer_irq_spec [of True c v ?a] wake_sleepers_cong [of ?a s] by auto
  have rr: "r = INT_RESCHEDULE \<longleftrightarrow> rescheduled_by_tick s v c"
    unfolding rescheduled_by_tick_def using r1 r2 by (cases "fst (os_timer_tick (ptimer s)) = None") simp_all
  have entry: "timer_interrupt s = bindE (if r = INT_RESCHEDULE
      then thread_preempt (push_frame c (IRET ?f) s1) else Inr (push_frame c (IRET ?f) s1)) resume"
    using r s1(2) by (simp add: timer_interrupt_def)
  let ?k = "s1\<lparr>rflags := ?f\<rparr>"
  have "inv True (Some c) ?w ?k" using i1 by (subst inv_cong [where s = s1]) simp_all
  then have k1: "kinv True ?w ?k" by (rule kinvI) (use s1 kc in simp_all)
  show ?thesis
  proof (cases "rescheduled_by_tick s v c")
    case True
    have "push_frame c (IRET ?f) s1 = ?k\<lparr>rflags := arch_disable_ints ?f, pending := (pending ?k)(c := [IRET ?f])\<rparr>"
      using s1(3,4) kc(3) by (cases s1) (simp add: push_frame_def)
    moreover have "current_thread ?k = Some c" "switched_out (UNLOCK (arch_disable_ints ?f) # [IRET ?f])"
      using s1 kc(4) by simp_all
    note thread_preempt_spec [OF k1 this]
    ultimately obtain s' v' where "bindE (thread_preempt (push_frame c (IRET ?f) s1)) resume = Inr s'"
      "kinv True v' s'" "gave_up c THREAD_READY (put_back c ?k ?w) ?k v' s'" by auto
    moreover have "put_back c ?k ?w = put_back c s ?w"
    proof -
      have "prio_of ?k = prio_of s" using s1(6) by (simp add: prio_of_def [abs_def])
      then show ?thesis by (simp add: put_back_def make_ready_cong [of ?k s])
    qed
    ultimately show ?thesis using entry rr True s1(5,7)
      by (intro exI [of _ s'] exI [of _ v'] exI [of _ ?k]) (simp add: gave_up_def)
  next
    case False
    then have nd: "tick_due s v = []"
      unfolding rescheduled_by_tick_def tick_due_def
      by (cases "fst (os_timer_tick (ptimer s))") auto
    let ?s' = "?k\<lparr>pending := (pending s1)(c := [])\<rparr>"
    have p: "(pending s1)(c := []) = pending s1" using s1(4) kc(3) by (simp add: fun_upd_idem)
    have "timer_interrupt s = Inr ?s'"
      using entry rr False s1(2,4) kc(3) by (cases s1) (simp add: resume_def push_frame_def)
    moreover have "kinv True v ?s'"
      using k1 nd s1(1) by (intro kinv_cong [where s = ?k and s' = ?s']) (simp_all add: p)
    moreover have "prio_of ?s' = prio_of s" using s1(6) by (simp add: prio_of_def [abs_def])
    ultimately show ?thesis using False nd s1
      by (intro exI [of _ ?s'] exI [of _ v] exI [of _ s1]) simp
  qed
qed

end
