(* ===== verification/System.thy ===== *)
theory System
  imports Kernel
begin

text \<open>
  Start-up and the running system. \<open>start_kernel\<close> (\<open>init/main.c\<close>) builds the lists out of zeroed
  memory, creates the init thread and turns the boot thread into the idle thread; \<open>kstep\<close> is a
  step of the system after that.
\<close>

section \<open>Start-up\<close>

text \<open>The scheduler's side of \<open>start_kernel\<close>: everything except console, UART and interrupt controller.\<close>

definition kernel_init :: "io \<Rightarrow> kstate \<Rightarrow> kstate result" where
  "kernel_init io s =
     bindE (thread_init_early s) (\<lambda>s.
     let s = s\<lparr>ptimer := fst (init_clock (ptimer s, io))\<rparr>
     in Inr (timer_init s))"

definition start_kernel :: "io \<Rightarrow> 64 word \<Rightarrow> 64 word \<Rightarrow> 64 word \<Rightarrow> kstate \<Rightarrow> kstate result" where
  "start_kernel io init_run stack stack_size s =
     bindE (kernel_init io s) (\<lambda>s.
     bindE (thread_create (map (\<lambda>c. of_nat (of_char c)) ''init_thread'') init_run 0 10 stack stack_size s) (\<lambda>s.
     let init_id = rax s
     in bindE (bindE (thread_detach init_id s) resume) (\<lambda>s.
        bindE (bindE (thread_resume init_id s) resume) (\<lambda>s.
        bindE (thread_become_idle s) resume))))"

text \<open>The machine as the loader leaves it: zeroed memory, interrupts off.\<close>

definition loaded :: "kstate \<Rightarrow> bool" where
  "loaded s \<longleftrightarrow>
     (\<forall>n. cleared (nodes s) n) \<and> (\<forall>t. pending s t = []) \<and>
     arch_ints_disabled (rflags s) \<and> thread_lock s = 0"

lemma initialize_heads:
  assumes "lists_ok h L" and "members L = {}" and "\<forall>n \<in> set ns. L n = None \<or> L n = Some []"
  shows "lists_ok (fold list_initialize ns h) (\<lambda>n. if n \<in> set ns then Some [] else L n)"
  using assms
proof (induction ns arbitrary: h L)
  case (Cons n ns)
  have "lists_ok (list_initialize n h) (L(n \<mapsto> []))"
    using initialize_ok [OF Cons.prems(1), of n] Cons.prems(2,3) by simp
  moreover have "members (L(n \<mapsto> [])) = {}" using Cons.prems(2,3) members_upd_empty(1) [of L n] by simp
  moreover have "\<forall>x \<in> set ns. (L(n \<mapsto> [])) x = None \<or> (L(n \<mapsto> [])) x = Some []" using Cons.prems(3) by auto
  ultimately have "lists_ok (fold list_initialize ns (list_initialize n h))
      (\<lambda>x. if x \<in> set ns then Some [] else (L(n \<mapsto> [])) x)" by (rule Cons.IH)
  moreover have "(\<lambda>x. if x \<in> set ns then Some [] else (L(n \<mapsto> [])) x) =
      (\<lambda>x. if x \<in> set (n # ns) then Some [] else L x)" by (rule ext) auto
  ultimately show ?case by simp
qed simp

lemma lists_ok_empty: "\<forall>n. cleared h n \<Longrightarrow> lists_ok h Map.empty"
  by (simp add: lists_ok_def)

text \<open>Clearing unlinked nodes changes no list.\<close>

lemma clear_quiet:
  "lists_ok h L \<Longrightarrow> n \<notin> members L \<Longrightarrow> L n = None \<Longrightarrow> lists_ok (list_clear_node n h) L"
  using clear_ok [of h L n] by (simp add: fun_upd_idem)

definition unlinked :: "(knode \<rightharpoonup> knode list) \<Rightarrow> tid \<Rightarrow> bool" where
  "unlinked L t \<longleftrightarrow> (\<forall>n \<in> {ThreadListNode t, QueueNode t, WaitListHead (ExitQueue t)}. n \<notin> members L \<and> L n = None)"

lemma clear_thread_lists:
  assumes "lists_ok (nodes s) L" and "unlinked L t"
  shows "lists_ok (nodes (clear_thread t s)) L"
  using assms by (simp add: clear_thread_def Let_def set_nodes_def upd_thread_def unlinked_def clear_quiet)

lemma clear_thread_reads [simp]:
  "current_thread (clear_thread t s) = current_thread s" "pending (clear_thread t s) = pending s"
  "rflags (clear_thread t s) = rflags s" "thread_lock (clear_thread t s) = thread_lock s"
  "run_queue_bitmap (clear_thread t s) = run_queue_bitmap s" "ptimer (clear_thread t s) = ptimer s"
  "CONFIG_DEBUG_ASSERT (clear_thread t s) = CONFIG_DEBUG_ASSERT s"
  "g_threads (clear_thread t s) = (g_threads s)(t := zero_thread)"
  "wq_count (clear_thread t s) = (wq_count s)(ExitQueue t := 0)"
  by (simp_all add: clear_thread_def Let_def set_nodes_def upd_thread_def)

lemma clear_threads:
  "lists_ok (nodes s) L \<Longrightarrow> \<forall>t \<in> set ts. unlinked L t \<Longrightarrow>
     lists_ok (nodes (fold clear_thread ts s)) L \<and>
     pending (fold clear_thread ts s) = pending s \<and> rflags (fold clear_thread ts s) = rflags s \<and>
     thread_lock (fold clear_thread ts s) = thread_lock s \<and>
     run_queue_bitmap (fold clear_thread ts s) = run_queue_bitmap s"
  by (induction ts arbitrary: s) (simp_all add: clear_thread_lists)

lemma add_free_threads_spec:
  assumes "lists_ok (nodes s) L" and "L FreeListHead = Some (map ThreadListNode xs)"
    and "distinct is" and "\<forall>i \<in> set is. ThreadListNode i \<notin> dom L \<and> ThreadListNode i \<notin> members L"
  shows "\<exists>h g. add_free_threads is s = Inr (s\<lparr>nodes := h, g_threads := g\<rparr>) \<and>
           lists_ok h (L(FreeListHead \<mapsto> map ThreadListNode (xs @ is)))"
  using assms
proof (induction "is" arbitrary: s L xs)
  case Nil
  then show ?case by (intro exI [of _ "nodes s"] exI [of _ "g_threads s"]) (simp add: fun_upd_idem)
next
  case (Cons i "is")
  let ?L = "L(FreeListHead \<mapsto> map ThreadListNode (xs @ [i]))"
  have "cleared (nodes s) (ThreadListNode i)"
    using Cons.prems(4) lists_ok_cleared_iff [OF Cons.prems(1)] by simp
  from add_tail_ok [OF Cons.prems(1,2) this] obtain h where
    h: "list_add_tail FreeListHead (ThreadListNode i) (nodes s) = Inr h" "lists_ok h ?L" by auto
  define s1 where "s1 = (upd_thread i (\<lambda>th. th\<lparr>th_thread_id := int i\<rparr>) s)\<lparr>nodes := h\<rparr>"
  have a: "add_free_thread i s = Inr s1"
    using h(1) by (simp add: add_free_thread_def on_nodes_def upd_thread_def s1_def)
  have mem: "members ?L \<subseteq> insert (ThreadListNode i) (members L)"
    using Cons.prems(2) by (auto simp: members_def split: if_splits) force
  have "\<forall>j \<in> set is. ThreadListNode j \<notin> dom ?L \<and> ThreadListNode j \<notin> members ?L"
    using Cons.prems(3,4) mem by auto
  moreover have "lists_ok (nodes s1) ?L" using h(2) by (simp add: s1_def)
  moreover have "?L FreeListHead = Some (map ThreadListNode (xs @ [i]))" by simp
  moreover have "distinct is" using Cons.prems(3) by simp
  ultimately obtain h' g where
    IH: "add_free_threads is s1 = Inr (s1\<lparr>nodes := h', g_threads := g\<rparr>)"
    "lists_ok h' (?L(FreeListHead \<mapsto> map ThreadListNode ((xs @ [i]) @ is)))"
    using Cons.IH [of s1 ?L "xs @ [i]"] by blast
  have eq: "s1\<lparr>nodes := h', g_threads := g\<rparr> = s\<lparr>nodes := h', g_threads := g\<rparr>"
    by (cases s) (simp add: s1_def upd_thread_def)
  have "lists_ok h' (L(FreeListHead \<mapsto> map ThreadListNode (xs @ i # is)))" using IH(2) by simp
  moreover have "add_free_threads (i # is) s = Inr (s\<lparr>nodes := h', g_threads := g\<rparr>)" using a IH(1) eq by simp
  ultimately show ?case by blast
qed

text \<open>The queues \<open>thread_init_early\<close> makes, and with \<open>timer_init\<close> those of the booting kernel.\<close>

definition early_lists :: "tid list \<Rightarrow> tid list \<Rightarrow> (knode \<rightharpoonup> knode list)" where
  "early_lists live free n =
     (case n of
        RunQueueHead q \<Rightarrow> if q < 32 then Some [] else None
      | ThreadListHead \<Rightarrow> Some (map ThreadListNode live)
      | FreeListHead \<Rightarrow> Some (map ThreadListNode free)
      | _ \<Rightarrow> None)"

definition boot_view :: kview where
  "boot_view = \<lparr>runq = \<lambda>_. [], waitq = [ExitQueue 0 \<mapsto> []], thread_l = [0], free_l = [1..<9], timer_l = []\<rparr>"

lemma early_members: "members (early_lists live free) = ThreadListNode ` (set live \<union> set free)"
proof
  show "members (early_lists live free) \<subseteq> ThreadListNode ` (set live \<union> set free)"
  proof
    fix x assume "x \<in> members (early_lists live free)"
    then obtain head xs where "early_lists live free head = Some xs" "x \<in> set xs" by (auto simp: members_def)
    then show "x \<in> ThreadListNode ` (set live \<union> set free)"
      by (cases head) (auto simp: early_lists_def split: if_splits)
  qed
  show "ThreadListNode ` (set live \<union> set free) \<subseteq> members (early_lists live free)"
    using members_I [of "early_lists live free" ThreadListHead "map ThreadListNode live"]
      members_I [of "early_lists live free" FreeListHead "map ThreadListNode free"]
    by (auto simp: early_lists_def)
qed

lemma early_upd:
  "(early_lists live free)(FreeListHead \<mapsto> map ThreadListNode fs) = early_lists live fs"
  "(early_lists live free)(ThreadListHead \<mapsto> map ThreadListNode ls) = early_lists ls free"
  by (rule ext; simp add: early_lists_def split: knode.splits)+

lemma early_nodes [simp]:
  "early_lists live free (ThreadListNode t) = None" "early_lists live free (QueueNode t) = None"
  "early_lists live free (WaitListHead w) = None" "early_lists live free TimerQueueHead = None"
  "early_lists live free FreeListHead = Some (map ThreadListNode free)"
  "early_lists live free ThreadListHead = Some (map ThreadListNode live)"
  by (simp_all add: early_lists_def)

lemma boot_heads:
  "(early_lists [0] [1..<9])(WaitListHead (ExitQueue 0) \<mapsto> [], TimerQueueHead \<mapsto> []) = heads boot_view"
  by (rule ext) (simp add: early_lists_def boot_view_def heads_def split: knode.splits)

lemma fold_set_nodes:
  "fold (\<lambda>i. set_nodes (f i)) is s = s\<lparr>nodes := fold f is (nodes s)\<rparr>"
  by (induction "is" arbitrary: s) (simp_all add: set_nodes_def)

lemma early_heads:
  assumes "\<forall>n. cleared h n"
  shows "lists_ok (list_initialize FreeListHead (list_initialize ThreadListHead
           (fold (\<lambda>i. list_initialize (RunQueueHead i)) [0..<32] h))) (early_lists [] [])"
proof -
  let ?ns = "map RunQueueHead [0..<32] @ [ThreadListHead, FreeListHead]"
  have "lists_ok (fold list_initialize ?ns h) (\<lambda>n. if n \<in> set ?ns then Some [] else Map.empty n)"
    by (rule initialize_heads [OF lists_ok_empty [OF assms]]) (simp_all add: members_def)
  moreover have "(\<lambda>n. if n \<in> set ?ns then Some [] else Map.empty n) = early_lists [] []"
    by (rule ext) (auto simp: early_lists_def split: knode.splits)
  ultimately show ?thesis by (simp add: fold_map comp_def del: upt_rec_numeral)
qed

lemma thread_init_early_spec:
  assumes "loaded s"
  shows "\<exists>s'. thread_init_early s = Inr s' \<and>
    lists_ok (nodes s') ((early_lists [0] [1..<9])(WaitListHead (ExitQueue 0) \<mapsto> [])) \<and>
    run_queue_bitmap s' = 0 \<and> current_thread s' = Some 0 \<and> pending s' = pending s \<and>
    rflags s' = rflags s \<and> thread_lock s' = 0 \<and> wq_count s' (ExitQueue 0) = 0 \<and>
    tstate s' 0 = THREAD_RUNNING \<and> th_priority (g_threads s' 0) = 31 \<and>
    th_flags (g_threads s' 0) = THREAD_FLAG_DETACHED \<and> th_blocking_wait_queue (g_threads s' 0) = None"
proof -
  let ?sA = "s\<lparr>nodes := list_initialize FreeListHead (list_initialize ThreadListHead
      (fold (\<lambda>i. list_initialize (RunQueueHead i)) [0..<32] (nodes s))), run_queue_bitmap := 0\<rparr>"
  define sB where "sB = fold clear_thread [0..<10] ?sA"
  have "lists_ok (nodes ?sA) (early_lists [] [])" using early_heads assms by (simp add: loaded_def)
  from clear_threads [OF this, of "[0..<10]"] have
    B: "lists_ok (nodes sB) (early_lists [] [])" "pending sB = pending s" "rflags sB = rflags s"
      "thread_lock sB = 0" "run_queue_bitmap sB = 0"
    using assms by (simp_all add: sB_def loaded_def unlinked_def early_members)
  have "\<forall>i \<in> set [1..<9]. ThreadListNode i \<notin> dom (early_lists [] []) \<and> ThreadListNode i \<notin> members (early_lists [] [])"
    by (auto simp: early_members dom_def)
  with add_free_threads_spec [OF B(1), of "[]" "[1..<9]"] obtain h g where
    C: "add_free_threads [1..<9] sB = Inr (sB\<lparr>nodes := h, g_threads := g\<rparr>)"
    "lists_ok h ((early_lists [] [])(FreeListHead \<mapsto> map ThreadListNode [1..<9]))"
    by (auto simp del: upt_rec_numeral)
  let ?sD = "upd_thread 0 (\<lambda>th. th\<lparr>th_thread_id := 0\<rparr>) (sB\<lparr>nodes := h, g_threads := g\<rparr>)"
  define sE where "sE = clear_thread 0 ?sD"
  have "lists_ok (nodes ?sD) (early_lists [] [1..<9])"
    using C(2) unfolding early_upd by (simp add: upd_thread_def)
  then have E: "lists_ok (nodes sE) (early_lists [] [1..<9])"
    unfolding sE_def by (rule clear_thread_lists) (simp add: unlinked_def early_members image_iff)
  let ?L = "(early_lists [] [1..<9])(WaitListHead (ExitQueue 0) \<mapsto> [])"
  have F: "lists_ok (list_initialize (WaitListHead (ExitQueue 0)) (nodes sE)) ?L"
    by (rule initialize_ok [OF E]) (simp_all add: early_members image_iff)
  have mem: "members ?L = ThreadListNode ` set [1..<9]"
    using members_upd_empty(1) [of "early_lists [] [1..<9]" "WaitListHead (ExitQueue 0)"] by (simp add: early_members)
  have "cleared (list_initialize (WaitListHead (ExitQueue 0)) (nodes sE)) (ThreadListNode 0)"
    unfolding lists_ok_cleared_iff [OF F] mem by (auto simp: dom_def)
  from add_head_ok [OF F _ this, of ThreadListHead "[]"] obtain h2 where
    G: "list_add_head ThreadListHead (ThreadListNode 0) (list_initialize (WaitListHead (ExitQueue 0)) (nodes sE)) = Inr h2"
    "lists_ok h2 (?L(ThreadListHead \<mapsto> map ThreadListNode [0]))" by auto
  have L: "?L(ThreadListHead \<mapsto> map ThreadListNode [0]) = (early_lists [0] [1..<9])(WaitListHead (ExitQueue 0) \<mapsto> [])"
    by (subst fun_upd_twist) (simp_all only: early_upd, simp)
  let ?name = "map (\<lambda>c. of_nat (of_char c)) ''boot thread'' :: 8 word list"
  let ?th = "zero_thread\<lparr>th_priority := 31, th_state := THREAD_RUNNING, th_flags := THREAD_FLAG_DETACHED,
    th_name := ?name @ drop (length ?name) (th_name zero_thread)\<rparr>"
  let ?s' = "sE\<lparr>nodes := h2, g_threads := (g_threads sE)(0 := ?th), wq_count := (wq_count sE)(ExitQueue 0 := 0),
     current_thread := Some 0\<rparr>"
  have "init_thread_strcut 0 ?name ?sD = copy_name ?name 0 sE"
    by (simp add: init_thread_strcut_def sE_def [symmetric] TREAD_NAME_LEN_def)
  then have I: "init_thread_strcut 0 ?name ?sD = Inr (upd_thread 0
      (\<lambda>th. th\<lparr>th_name := ?name @ drop (length ?name) (th_name th)\<rparr>) sE)"
    by (simp add: copy_name_def TREAD_NAME_LEN_def)
  have g0: "g_threads sE 0 = zero_thread" by (simp add: sE_def)
  have rd: "[nat (IDLE_THREAD_ID + 1)..<nat MAX_THREAD_ID] = [1..<9]" "idle_thread = 0" "nat NUM_PRIORITY = 32"
    "nat MAX_THREADS_NUM = 10" "HIGHEST_PRIORITY = 31"
    by (simp_all add: thread_id_defs priority_defs idle_thread_def del: upt_rec_numeral)
  have A: "fold clear_thread [0..<10] (set_nodes (list_initialize FreeListHead) (set_nodes (list_initialize ThreadListHead)
      ((fold (\<lambda>i. set_nodes (list_initialize (RunQueueHead i))) [0..<32] s)\<lparr>run_queue_bitmap := 0\<rparr>))) = sB"
    unfolding sB_def fold_set_nodes set_nodes_def
    by (rule arg_cong [where f = "fold clear_thread [0..<10]"]) (cases s, simp del: upt_rec_numeral)
  have "thread_init_early s = Inr ?s'"
    unfolding thread_init_early_def Let_def rd A C(1) bindE_Inr I
    using G(1) g0 by (cases sE) (simp add: wait_queue_init_def set_nodes_def upd_thread_def on_nodes_def
        set_current_thread_def zero_thread_def)
  moreover have "lists_ok (nodes ?s') ((early_lists [0] [1..<9])(WaitListHead (ExitQueue 0) \<mapsto> []))"
    using G(2) unfolding L by simp
  moreover have "pending ?s' = pending s" "rflags ?s' = rflags s" "thread_lock ?s' = 0" "run_queue_bitmap ?s' = 0"
    using B by (simp_all add: sE_def upd_thread_def)
  ultimately show ?thesis by (intro exI [of _ ?s']) (simp add: zero_thread_def)
qed

lemma inv_boot:
  assumes l: "lists_ok (nodes s) (heads boot_view)" and b: "run_queue_bitmap s = 0" "pending s 0 = []"
    "wq_count s (ExitQueue 0) = 0" "tstate s 0 = THREAD_RUNNING" "th_priority (g_threads s 0) = 31"
    "th_flags (g_threads s 0) = THREAD_FLAG_DETACHED" "th_blocking_wait_queue (g_threads s 0) = None"
  shows "inv False (Some 0) boot_view s"
proof -
  have "queues_ok s boot_view" using l b(1) by (simp add: qok_def boot_view_def)
  moreover have "\<not> thread_is_idle s 0"
    using b(6) by (simp add: thread_is_idle_def THREAD_FLAG_DETACHED_def THREAD_FLAG_IDLE_def)
  ultimately show ?thesis using b
    by (auto simp: inv_defs boot_view_def prio_ok_def placed_def joining_ok_def joins_def simp del: upt_rec_numeral)
qed

lemma kernel_init_spec:
  assumes "loaded s"
  shows "\<exists>s'. kernel_init io s = Inr s' \<and> kinv False boot_view s' \<and> current_thread s' = Some 0"
proof -
  from thread_init_early_spec [OF assms] obtain s1 where
    i: "thread_init_early s = Inr s1" and l: "lists_ok (nodes s1) ((early_lists [0] [1..<9])(WaitListHead (ExitQueue 0) \<mapsto> []))"
    and f: "run_queue_bitmap s1 = 0" "current_thread s1 = Some 0" "pending s1 = pending s" "rflags s1 = rflags s"
      "thread_lock s1 = 0" "wq_count s1 (ExitQueue 0) = 0" "tstate s1 0 = THREAD_RUNNING"
      "th_priority (g_threads s1 0) = 31" "th_flags (g_threads s1 0) = THREAD_FLAG_DETACHED"
      "th_blocking_wait_queue (g_threads s1 0) = None" by blast
  let ?L = "(early_lists [0] [1..<9])(WaitListHead (ExitQueue 0) \<mapsto> [])"
  have m: "TimerQueueHead \<notin> members ?L"
    using members_upd_empty(1) [of "early_lists [0] [1..<9]" "WaitListHead (ExitQueue 0)"]
    by (auto simp: early_members simp del: upt_rec_numeral)
  have lt: "lists_ok (list_initialize TimerQueueHead (nodes s1)) (heads boot_view)"
    using initialize_ok [OF l m] unfolding boot_heads by simp
  let ?s' = "timer_init (s1\<lparr>ptimer := fst (init_clock (ptimer s1, io))\<rparr>)"
  have g: "nodes ?s' = list_initialize TimerQueueHead (nodes s1)" "run_queue_bitmap ?s' = 0"
    "pending ?s' = pending s" "current_thread ?s' = Some 0" "rflags ?s' = rflags s" "thread_lock ?s' = 0"
    "wq_count ?s' = wq_count s1" "g_threads ?s' = g_threads s1"
    using f by (simp_all add: timer_init_def Let_def set_nodes_def)
  have "inv False (Some 0) boot_view ?s'"
    by (rule inv_boot) (use lt f assms in \<open>simp_all add: g loaded_def\<close>)
  then have "kinv False boot_view ?s'"
    by (rule kinvI) (use g assms in \<open>simp_all add: boot_view_def loaded_def\<close>)
  moreover have "kernel_init io s = Inr ?s'" using i by (simp add: kernel_init_def)
  ultimately show ?thesis using g(4) by blast
qed

text \<open>The boot thread becomes the idle thread.\<close>

lemma thread_become_idle_spec:
  assumes k: "kinv False v s" and c: "current_thread s = Some 0"
  shows "\<exists>s' v' s1. bindE (thread_become_idle s) resume = Inr s' \<and> kinv True v' s' \<and>
           gave_up 0 THREAD_READY v s1 v' s' \<and> (\<forall>t. t \<noteq> 0 \<longrightarrow> g_threads s1 t = g_threads s t)"
proof -
  from k c have kc: "0 \<in> set (thread_l v)" "inv False (Some 0) v s" "pending s 0 = []"
    "arch_ints_disabled (rflags s)" "thread_lock s = 0" "tstate s 0 = THREAD_RUNNING"
    by (auto elim: kinvE)
  let ?name = "map (\<lambda>c. of_nat (of_char c)) ''idle'' :: 8 word list"
  let ?th = "(g_threads s 0)\<lparr>th_name := ?name @ drop (length ?name) (th_name (g_threads s 0)),
    th_priority := 0, th_flags := th_flags (g_threads s 0) OR THREAD_FLAG_IDLE\<rparr>"
  let ?s = "s\<lparr>g_threads := (g_threads s)(0 := ?th), rflags := arch_enable_ints (rflags s)\<rparr>"
  have det: "is_detached ?s t \<longleftrightarrow> is_detached s t" for t
    using flags_or_idle(1) by (simp add: is_detached_def)
  have idle: "thread_is_idle ?s 0"
    using flags_or_idle(2) by (simp add: thread_is_idle_def)
  have ok: "thread_ok True (Some 0) v ?s t" if t: "t \<in> set (thread_l v)" for t
  proof -
    note o = invD(7) [OF kc(2) t]
    have "placed v ?s t"
      using thread_okD(3) [OF o] kc(6) by (cases "t = 0") (auto simp: placed_def prio_of_def joins_def)
    moreover have "joining_ok v ?s t"
      using thread_okD(4) [OF o] unfolding joining_ok_def det by (cases "t = 0") (auto simp: joins_def)
    moreover have "thread_is_idle ?s t \<longleftrightarrow> t = 0"
      using o idle by (cases "t = 0") (simp_all add: thread_ok_def thread_is_idle_def)
    ultimately show ?thesis using o unfolding thread_ok_def det by (auto simp: prio_ok_def)
  qed
  have "nodes_ok v ?s" using invD(1) [OF kc(2)] by (simp add: nodes_ok_def)
  moreover have "timers_ok v ?s" using invD(2) [OF kc(2)] by (simp add: timers_ok_def due_time_def [abs_def])
  moreover have "one_joiner v ?s" using invD(3) [OF kc(2)] by (simp add: one_joiner_def joins_def)
  ultimately have "inv True (Some 0) v ?s" using ok by (simp add: inv_def)
  then have k1: "kinv True v ?s" by (rule kinvI) (use c kc in simp_all)
  have cur: "current_thread ?s = Some 0" and on: "switched_out (UNLOCK (rflags ?s) # [])" using c by simp_all
  have p: "?s\<lparr>pending := (pending ?s)(0 := [])\<rparr> = ?s" using kc(3) by (cases s) (simp add: fun_upd_idem)
  have "thread_become_idle s = thread_yield ?s"
    using kc(4,5) c by (cases s) (simp add: thread_become_idle_def thread_set_name_def copy_name_def upd_thread_def
        TREAD_NAME_LEN_def IDLE_PRIORITY_def LOWEST_PRIORITY_def)
  moreover from thread_yield_spec [OF k1 cur on, unfolded p] obtain s' v' where
    y: "bindE (thread_yield ?s) resume = Inr s'" "kinv True v' s'" "gave_up 0 THREAD_READY v ?s v' s'"
    by (auto simp: put_back_def)
  ultimately show ?thesis using y by (intro exI [of _ s'] exI [of _ v'] exI [of _ ?s]) simp
qed

lemma pick_single:
  assumes "q < 32" and "\<forall>p < 32. runq v p = (if p = q then [t] else [])"
  shows "fst (pick v) = t"
proof -
  have "first_queue v = Some q" by (rule first_queue_eqI) (use assms in auto)
  then show ?thesis using assms by (simp add: pick_def)
qed

lemma start_kernel_spec:
  assumes "loaded s" and entry: "init_run \<noteq> 0"
  shows "\<exists>s' v'. start_kernel io init_run stack sz s = Inr s' \<and> kinv True v' s' \<and> top_first v' s' \<and>
    current_thread s' = Some 1"
proof -
  from kernel_init_spec [OF assms(1)] obtain s1 where
    s1: "kernel_init io s = Inr s1" "kinv False boot_view s1" "current_thread s1 = Some 0" by blast
  let ?name = "map (\<lambda>c. of_nat (of_char c)) ''init_thread'' :: 8 word list"
  have "free_l boot_view = 1 # [2..<9]"
    using upt_conv_Cons [of 1 9] by (simp add: boot_view_def numeral_2_eq_2 del: upt_rec_numeral)
  from thread_create_spec [OF s1(2) this, of ?name 10 init_run 0 stack sz] entry obtain s2 where
    s2: "thread_create ?name init_run 0 10 stack sz s1 = Inr s2" "kinv False (adopted 1 boot_view) s2"
      "current_thread s2 = Some 0" "rax s2 = 1" "tstate s2 1 = THREAD_SUSPENDED"
    using s1(3) by (auto simp: TREAD_NAME_LEN_def)
  have m: "nat 1 \<in> set (thread_l (adopted 1 boot_view))"
    "waitq (adopted 1 boot_view) (ExitQueue (nat 1)) = Some []" by simp_all
  have sus: "tstate s2 (nat 1) \<noteq> THREAD_DEATH" using s2(5) by simp
  from thread_detach_spec [OF s2(2,3) _ _ m sus] s2(5) obtain s3 where
    s3: "bindE (thread_detach 1 s2) resume = Inr s3" "kinv False (adopted 1 boot_view) s3"
      "current_thread s3 = Some 0" "tstate s3 1 = THREAD_SUSPENDED" by auto
  have "tstate s3 (nat 1) \<noteq> THREAD_DEATH" using s3(4) by simp
  from thread_resume_spec [OF s3(2,3) _ _ m(1) this] s3(4) obtain s4 where
    s4: "bindE (thread_resume 1 s3) resume = Inr s4" "kinv False (make_ready 1 s3 (adopted 1 boot_view)) s4"
      "current_thread s4 = Some 0" by (auto simp: set_rax_def)
  from thread_become_idle_spec [OF s4(2,3)] obtain s' v' s5 where
    s': "bindE (thread_become_idle s4) resume = Inr s'" "kinv True v' s'"
      "gave_up 0 THREAD_READY (make_ready 1 s3 (adopted 1 boot_view)) s5 v' s'"
    by (elim exE conjE) (rule that)
  have "prio_of s3 1 < 32"
  proof -
    from s3(2) obtain c where "inv False (Some c) (adopted 1 boot_view) s3" by (auto elim: kinvE)
    then show ?thesis using prio_of_bound [OF thread_okD(2) [OF invD(7)]] m(1) by simp
  qed
  then have "fst (pick (make_ready 1 s3 (adopted 1 boot_view))) = 1"
    by (rule pick_single) (simp add: boot_view_def)
  with s' have "current_thread s' = Some 1" "top_first v' s'" by (simp_all add: gave_up_def)
  moreover have "start_kernel io init_run stack sz s = Inr s'"
    using s1(1) s2(1,4) s3(1) s4(1) s'(1) by (simp add: start_kernel_def)
  ultimately show ?thesis using s'(2) by blast
qed

section \<open>The running system\<close>

text \<open>
  The calls a thread can make, with their arguments; \<open>service\<close> runs one up to its context switch,
  \<open>call\<close> up to the return to a thread's own code. \<open>allowed\<close> is what the caller is responsible for:
  names and priorities in range, ids of live threads, at most one joiner and none of a detached
  thread, and no sleeping or exiting in the idle thread.
\<close>

datatype kcall =
    Create "8 word list" "64 word" "64 word" int "64 word" "64 word"
  | Resume int
  | Yield
  | Sleep "64 word"
  | Exit int
  | Detach int
  | Join int "nat option"
  | SetName "8 word list"
  | PreemptDisable
  | PreemptEnable

fun service :: "kcall \<Rightarrow> kstate \<Rightarrow> kstate result" where
  "service (Create name entry a priority stk sz) s = thread_create name entry a priority stk sz s"
| "service (Resume thid) s = thread_resume thid s"
| "service Yield s = thread_yield s"
| "service (Sleep delay) s = thread_sleep delay s"
| "service (Exit retcode) s = thread_exit retcode s"
| "service (Detach thid) s = thread_detach thid s"
| "service (Join thid p) s = thread_join thid p INFINIT_TIME s"
| "service (SetName name) s = thread_set_name name s"
| "service PreemptDisable s = Inr (thread_preempt_disable s)"
| "service PreemptEnable s = Inr (thread_preempt_enable s)"

definition kcall_run :: "kcall \<Rightarrow> kstate \<Rightarrow> kstate result" where
  "kcall_run a s = bindE (service a s) resume"

definition live :: "kstate \<Rightarrow> tid \<Rightarrow> bool" where
  "live s t \<longleftrightarrow>
     (case list_foreach (nodes s) ThreadListHead of
        Some (Inr ns) \<Rightarrow> ThreadListNode t \<in> set ns
      | _ \<Rightarrow> False)"

definition valid_id :: "kstate \<Rightarrow> int \<Rightarrow> bool" where
  "valid_id s thid \<longleftrightarrow> 0 < thid \<and> thid < 9 \<and> live s (nat thid)"

definition unjoined :: "kstate \<Rightarrow> tid \<Rightarrow> bool" where
  "unjoined s u \<longleftrightarrow> (\<forall>t \<in> set [0..<9]. \<not> joins s t u)"

fun allowed :: "kcall \<Rightarrow> kstate \<Rightarrow> bool" where
  "allowed (Create name entry a priority stk sz) s \<longleftrightarrow>
     length name < TREAD_NAME_LEN \<and> entry \<noteq> 0 \<and> 0 \<le> priority \<and> priority < 32"
| "allowed (Resume thid) s \<longleftrightarrow> valid_id s thid \<and> tstate s (nat thid) \<noteq> THREAD_DEATH"
| "allowed Yield s \<longleftrightarrow> True"
| "allowed (Sleep delay) s \<longleftrightarrow> current_thread s \<noteq> Some 0"
| "allowed (Exit retcode) s \<longleftrightarrow> current_thread s \<noteq> Some 0"
| "allowed (Detach thid) s \<longleftrightarrow> valid_id s thid \<and> tstate s (nat thid) \<noteq> THREAD_DEATH \<and>
     wq_count s (ExitQueue (nat thid)) = 0"
| "allowed (Join thid p) s \<longleftrightarrow> valid_id s thid \<and>
     (is_detached s (nat thid) \<or>
      unjoined s (nat thid) \<and> (tstate s (nat thid) = THREAD_DEATH \<or> current_thread s \<noteq> Some 0))"
| "allowed (SetName name) s \<longleftrightarrow> length name \<le> TREAD_NAME_LEN + 1"
| "allowed PreemptDisable s \<longleftrightarrow> True"
| "allowed PreemptEnable s \<longleftrightarrow> True"

text \<open>
  A timer interrupt comes when interrupts are on; the counter it decrements must not be at the least
  \<open>int\<close>, which takes \<open>2 ^ 31\<close> ticks without a switch.
\<close>

definition tick_possible :: "kstate \<Rightarrow> bool" where
  "tick_possible s \<longleftrightarrow> ints_on (rflags s) \<and>
     (case current_thread s of None \<Rightarrow> False | Some c \<Rightarrow> quantum_in_range s c)"

inductive kstep :: "kstate \<Rightarrow> kstate \<Rightarrow> bool" where
  Call: "allowed a s \<Longrightarrow> kcall_run a s = Inr s' \<Longrightarrow> kstep s s'"
| Tick: "tick_possible s \<Longrightarrow> timer_interrupt s = Inr s' \<Longrightarrow> kstep s s'"

inductive_cases kstepE: "kstep s s'"

inductive reachable :: "kstate \<Rightarrow> bool" where
  Boot: "loaded s0 \<Longrightarrow> init_run \<noteq> 0 \<Longrightarrow> start_kernel io init_run stack sz s0 = Inr s \<Longrightarrow> reachable s"
| Step: "reachable s \<Longrightarrow> kstep s s' \<Longrightarrow> reachable s'"

lemma live_view: "kinv b v s \<Longrightarrow> live s t \<longleftrightarrow> t \<in> set (thread_l v)"
proof -
  assume "kinv b v s"
  then have "lists_ok (nodes s) (heads v)" by (auto elim!: kinvE simp: qok_def)
  from list_foreach_ok [OF this, of ThreadListHead] show ?thesis by (auto simp: live_def)
qed

lemma unjoined_view:
  "kinv b v s \<Longrightarrow> unjoined s u \<Longrightarrow> t \<in> set (thread_l v) \<Longrightarrow> \<not> joins s t u"
  by (auto elim!: kinvE dest: invD(8) simp: unjoined_def simp del: upt_rec_numeral)

lemma thread_set_name_spec:
  assumes k: "kinv b v s" and c: "current_thread s = Some c" and "length name \<le> TREAD_NAME_LEN + 1"
  shows "\<exists>s'. bindE (thread_set_name name s) resume = Inr s' \<and> kinv b v s' \<and> current_thread s' = Some c \<and>
           prio_of s' = prio_of s"
proof -
  from k c have kc: "inv b (Some c) v s" "pending s c = []" "thread_lock s = 0" "c \<in> set (thread_l v)"
    "ints_on (rflags s) \<longleftrightarrow> b" by (auto elim: kinvE)
  let ?s' = "s\<lparr>g_threads := (g_threads s)(c := (g_threads s c)\<lparr>th_name := name @ drop (length name) (th_name (g_threads s c))\<rparr>)\<rparr>"
  have "thread_set_name name s = Inr ?s'"
    using c assms(3) kc(3) by (cases s) (simp add: thread_set_name_def copy_name_def upd_thread_def)
  moreover have "resume ?s' = Inr ?s'" using c kc(2) by simp
  moreover have "inv b (Some c) v ?s'"
    using kc(1) by (subst inv_same_threads [where s = s]) (simp_all add: same_thread_def)
  then have "kinv b v ?s'" by (rule kinvI) (use c kc in simp_all)
  moreover have "prio_of ?s' = prio_of s" by (rule ext) (simp add: prio_of_def)
  ultimately show ?thesis using c by (intro exI [of _ ?s']) simp
qed

lemma preempt_switches:
  "nodes (thread_preempt_disable s) = nodes s" "g_threads (thread_preempt_disable s) = g_threads s"
  "timers (thread_preempt_disable s) = timers s" "wq_count (thread_preempt_disable s) = wq_count s"
  "run_queue_bitmap (thread_preempt_disable s) = run_queue_bitmap s"
  "pending (thread_preempt_disable s) = pending s" "current_thread (thread_preempt_disable s) = current_thread s"
  "thread_lock (thread_preempt_disable s) = 0" "rflags (thread_preempt_disable s) = rflags s"
  "nodes (thread_preempt_enable s) = nodes s" "g_threads (thread_preempt_enable s) = g_threads s"
  "timers (thread_preempt_enable s) = timers s" "wq_count (thread_preempt_enable s) = wq_count s"
  "run_queue_bitmap (thread_preempt_enable s) = run_queue_bitmap s"
  "pending (thread_preempt_enable s) = pending s" "current_thread (thread_preempt_enable s) = current_thread s"
  "thread_lock (thread_preempt_enable s) = 0" "rflags (thread_preempt_enable s) = rflags s"
  by (simp_all add: thread_preempt_disable_def thread_preempt_enable_def Let_def)

lemma service_returns:
  assumes k: "kinv True v s" and s': "service a s = Inr s'" "kinv True v' s'"
  shows "kcall_run a s = Inr s'"
proof -
  from s'(2) obtain c where "current_thread s' = Some c" "pending s' c = []" by (auto elim: kinvE)
  then show ?thesis using s'(1) by (simp add: kcall_run_def)
qed

lemma join_detached_spec:
  assumes k: "kinv b v s" and c: "current_thread s = Some c" and id: "0 < thid" "thid < 9"
    and d: "is_detached s (nat thid)"
  shows "thread_join thid p timeout s = Inr (set_rax (- ERR_THREAD_DETACHED) s)"
    and "kinv b v (set_rax (- ERR_THREAD_DETACHED) s)"
proof -
  from k c have l: "thread_lock s = 0" by (auto elim: kinvE)
  then show "thread_join thid p timeout s = Inr (set_rax (- ERR_THREAD_DETACHED) s)"
    using id d by (cases s) (simp add: thread_join_def is_detached_def set_rax_def)
  show "kinv b v (set_rax (- ERR_THREAD_DETACHED) s)"
    using k by (rule kinv_cong) (use l in \<open>simp_all add: set_rax_def\<close>)
qed

lemma top_first_cong:
  assumes "top_first v s" and "runq v' = runq v" and "current_thread s' = current_thread s"
    and "\<And>c. current_thread s = Some c \<Longrightarrow> prio_of s' c = prio_of s c"
  shows "top_first v' s'"
  using assms by (auto simp: top_first_def)

lemmas switch_top = gave_up_def switched_def

text \<open>Every call a thread may make returns, and leaves the kernel in order.\<close>

definition kgood :: "kstate \<Rightarrow> bool" where
  "kgood s \<longleftrightarrow> (\<exists>v. kinv True v s \<and> top_first v s)"

lemma kgoodI: "kinv True v s \<Longrightarrow> top_first v s \<Longrightarrow> kgood s"
  by (auto simp: kgood_def)

lemma kcall_run_ok:
  assumes k: "kinv True v s" and top: "top_first v s" and a: "allowed a s"
  shows "\<exists>s'. kcall_run a s = Inr s' \<and> kgood s'"
proof -
  from k obtain c where c: "current_thread s = Some c" "pending s c = []" "c \<in> set (thread_l v)"
    "inv True (Some c) v s" "thread_lock s = 0"
    "ints_on (rflags s)" by (auto elim: kinvE)
  note same = top_first_cong [OF top]
  have ret: "kcall_run a s = Inr s' \<and> kgood s'"
    if "service a s = Inr s'" "kinv True v' s'" "top_first v' s'" for s' v'
    using service_returns [OF k that(1,2)] kgoodI [OF that(2,3)] by simp
  show ?thesis
  proof (cases a)
    case (Create name entry arg priority stk sz)
    show ?thesis
    proof (cases "free_l v")
      case Nil
      from thread_create_full [OF k Nil] show ?thesis
        using ret Create same [of v] by (fastforce simp: set_rax_def prio_of_def)
    next
      case (Cons t ts)
      have "t \<noteq> c" using view_disjoint(4) [OF qok_view [OF invD(4) [OF c(4)]] c(3)] Cons by auto
      moreover from thread_create_spec [OF k Cons, of name priority entry arg stk sz] a Create obtain s' where
        s': "service a s = Inr s'" "kinv True (adopted t v) s'" "current_thread s' = current_thread s"
        "\<forall>x. x \<noteq> t \<longrightarrow> g_threads s' x = g_threads s x" by auto
      ultimately have "top_first (adopted t v) s'"
        using c(1) by (intro same) (auto simp: prio_of_def)
      with ret s' show ?thesis by blast
    qed
  next
    case (Resume thid)
    with a live_view [OF k] have "0 < thid" "thid < 9" "nat thid \<in> set (thread_l v)"
      "tstate s (nat thid) \<noteq> THREAD_DEATH" by (auto simp: valid_id_def)
    from thread_resume_spec [OF k c(1) this] obtain s' v' s1 where
      s': "kcall_run a s = Inr s'" "kinv True v' s'"
      "(\<exists>w. gave_up c THREAD_READY w s1 v' s') \<or> v' = v \<and> s' = set_rax NO_ERR s"
      using Resume by (auto simp: kcall_run_def split: if_splits)
    have "top_first v (set_rax NO_ERR s)" by (rule same) (simp_all add: set_rax_def prio_of_def)
    with s'(3) have "top_first v' s'" by (auto simp: switch_top)
    with s' show ?thesis by (auto simp: kgood_def)
  next
    case Yield
    have "s\<lparr>pending := (pending s)(c := [])\<rparr> = s" using c(2) by (cases s) (simp add: fun_upd_idem)
    with thread_yield_spec [OF k c(1), of "[]"] c(6) Yield show ?thesis
      by (auto simp: kcall_run_def kgood_def switch_top)
  next
    case (Sleep delay)
    with thread_sleep_spec [OF k c(1), of delay] a c(1) show ?thesis
      by (auto simp: kcall_run_def kgood_def switch_top)
  next
    case (Exit retcode)
    with thread_exit_spec [OF k c(1), of retcode] a c(1) show ?thesis
      by (auto simp: kcall_run_def kgood_def switch_top)
  next
    case (Detach thid)
    with a live_view [OF k] have d: "0 < thid" "thid < 9" "nat thid \<in> set (thread_l v)"
      "tstate s (nat thid) \<noteq> THREAD_DEATH" "wq_count s (ExitQueue (nat thid)) = 0" by (auto simp: valid_id_def)
    from invD(7) [OF c(4) d(3)] obtain xs where "waitq v (ExitQueue (nat thid)) = Some xs"
      by (auto simp: thread_ok_def)
    with d(5) invD(1) [OF c(4)] have "waitq v (ExitQueue (nat thid)) = Some []" by (auto simp: nodes_ok_def)
    from thread_detach_spec [OF k c(1) d(1-3) this d(4)] obtain s' where
      s': "kcall_run a s = Inr s'" "kinv True v s'" "current_thread s' = Some c" "prio_of s' = prio_of s"
      using Detach by (auto simp: kcall_run_def)
    have "top_first v s'" by (rule same) (use s' c in simp_all)
    with s' show ?thesis by (auto simp: kgood_def)
  next
    case (Join thid p)
    with a live_view [OF k] have j: "0 < thid" "thid < 9" "nat thid \<in> set (thread_l v)"
      "is_detached s (nat thid) \<or> unjoined s (nat thid) \<and>
         (tstate s (nat thid) = THREAD_DEATH \<or> c \<noteq> 0)" using c(1) by (auto simp: valid_id_def)
    show ?thesis
    proof (cases "is_detached s (nat thid)")
      case True
      have "top_first v (set_rax (- ERR_THREAD_DETACHED) s)"
        by (rule same) (simp_all add: set_rax_def prio_of_def)
      with join_detached_spec [OF k c(1) j(1,2) True] show ?thesis using ret Join by auto
    next
      case False
      with j(4) have u: "unjoined s (nat thid)" "tstate s (nat thid) = THREAD_DEATH \<or> c \<noteq> 0" by auto
      note nj = unjoined_view [OF k u(1)]
      show ?thesis
      proof (cases "tstate s (nat thid) = THREAD_DEATH")
        case True
        let ?v = "v\<lparr>thread_l := remove1 (nat thid) (thread_l v), free_l := free_l v @ [nat thid]\<rparr>"
        from thread_join_dead_spec [OF k c(1) j(1-3) True nj, of p INFINIT_TIME] Join obtain s' h i where
          s': "kcall_run a s = Inr s'" "kinv True ?v s'"
            "s' = s\<lparr>nodes := h, thread_lock := 0, rax := 0, int_cells := i\<rparr>"
          by (auto simp: kcall_run_def)
        have "top_first ?v s'" by (rule same) (simp_all add: s'(3) prio_of_def)
        with s' show ?thesis by (auto simp: kgood_def)
      next
        case alive: False
        with u(2) have "c \<noteq> 0" by simp
        from thread_join_wait_spec [OF k c(1) this j(1-3) False alive nj, of p] Join show ?thesis
          by (auto simp: kcall_run_def kgood_def switch_top)
      qed
    qed
  next
    case (SetName name)
    with thread_set_name_spec [OF k c(1), of name] a obtain s' where
      s': "kcall_run a s = Inr s'" "kinv True v s'" "current_thread s' = Some c" "prio_of s' = prio_of s"
      by (auto simp: kcall_run_def)
    have "top_first v s'" by (rule same) (use s' c in simp_all)
    with s' show ?thesis by (auto simp: kgood_def)
  next
    case PreemptDisable
    have "kinv True v (thread_preempt_disable s)" using k by (rule kinv_cong) (simp_all add: preempt_switches)
    moreover have "top_first v (thread_preempt_disable s)" by (rule same) (simp_all add: preempt_switches prio_of_def)
    ultimately show ?thesis using ret PreemptDisable by fastforce
  next
    case PreemptEnable
    have "kinv True v (thread_preempt_enable s)" using k by (rule kinv_cong) (simp_all add: preempt_switches)
    moreover have "top_first v (thread_preempt_enable s)" by (rule same) (simp_all add: preempt_switches prio_of_def)
    ultimately show ?thesis using ret PreemptEnable by fastforce
  qed
qed

lemma tick_ok:
  assumes k: "kinv True v s" and top: "top_first v s" and t: "tick_possible s"
  shows "\<exists>s'. timer_interrupt s = Inr s' \<and> kgood s'"
proof -
  from t obtain c where c: "current_thread s = Some c" "quantum_in_range s c"
    by (auto simp: tick_possible_def split: option.splits)
  from timer_interrupt_spec [OF k c] obtain s' v' s1 where
    s': "timer_interrupt s = Inr s'" "kinv True v' s'" and
    or: "(\<exists>w. gave_up c THREAD_READY w s1 v' s') \<or> v' = v \<and> current_thread s' = Some c \<and> prio_of s' = prio_of s"
    by (auto split: if_splits)
  then have "top_first v' s'"
    using top_first_cong [OF top, of v s'] c(1) by (auto simp: switch_top)
  with s' show ?thesis by (auto simp: kgood_def)
qed

lemma kstep_kgood: "kgood s \<Longrightarrow> kstep s s' \<Longrightarrow> kgood s'"
  unfolding kgood_def [of s] using kcall_run_ok tick_ok by (elim kstepE exE conjE) fastforce+

text \<open>The same as events, for runs.\<close>

datatype kevent = CallEvent kcall | TimerInterrupt

fun kernel_exec :: "kevent \<Rightarrow> kstate \<Rightarrow> kstate result" where
  "kernel_exec (CallEvent a) s = kcall_run a s"
| "kernel_exec TimerInterrupt s = timer_interrupt s"

fun kernel_enabled :: "kevent \<Rightarrow> kstate \<Rightarrow> bool" where
  "kernel_enabled (CallEvent a) s = allowed a s"
| "kernel_enabled TimerInterrupt s = tick_possible s"

interpretation kernel_machine: safe_machine kernel_exec kernel_enabled kgood
proof
  fix s e assume "kgood s" "kernel_enabled e s"
  then show "\<exists>s'. kernel_exec e s = Inr s' \<and> kgood s'"
    unfolding kgood_def [of s] using kcall_run_ok tick_ok by (cases e) auto
qed

lemma kstep_event: "kstep s s' \<longleftrightarrow> (\<exists>e. kernel_enabled e s \<and> kernel_exec e s = Inr s')"
proof
  assume "kstep s s'"
  then show "\<exists>e. kernel_enabled e s \<and> kernel_exec e s = Inr s'"
    by (elim kstepE) (metis kernel_enabled.simps kernel_exec.simps)+
next
  assume "\<exists>e. kernel_enabled e s \<and> kernel_exec e s = Inr s'"
  then obtain e where "kernel_enabled e s" "kernel_exec e s = Inr s'" by blast
  then show "kstep s s'" by (cases e) (auto intro: kstep.intros)
qed

lemma start_kernel_kgood:
  assumes "loaded s" and "init_run \<noteq> 0"
  shows "\<exists>s'. start_kernel io init_run stack sz s = Inr s' \<and> kgood s' \<and> current_thread s' = Some 1"
  using start_kernel_spec [OF assms, of io stack sz] by (auto simp: kgood_def)

lemma reachable_kgood: "reachable s \<Longrightarrow> kgood s"
proof (induction rule: reachable.induct)
  case (Boot s0 init_run io stack sz s)
  with start_kernel_kgood [OF Boot(1,2), of io stack sz] show ?case by auto
next
  case (Step s s')
  show ?case using Step.IH Step.hyps(2) by (rule kstep_kgood)
qed

end
