(* ===== verification/Printf.thy ===== *)
theory Printf
  imports Prelude
begin

text \<open>
  \<open>libc/printf.c\<close>: the conversion of numbers to digits in a caller-supplied buffer, and the format
  interpreter \<open>_printf_driver\<close>, which hands its output piece by piece to a driver function.

  A C string is the list of its characters before the terminator. The argument list is a list of
  64-bit slots, as the x86-64 calling convention passes integers and pointers; a slot that holds the
  address of a string carries the string. Reading past the last slot, or reading a string through a
  slot that is no string's address, is a fault. The driver is a parameter: it takes a string and
  returns a count, or a negative error. \<open>FLOAT_PRINTF\<close> is not set, \<open>size_t\<close> is the compiler's 64-bit
  type, and \<open>ssize_t\<close> is the \<open>int\<close> of \<open>include/sys/types.h\<close>.
\<close>

unbundle bit_operations_syntax

section \<open>Flags\<close>

definition LONGFLAG :: "32 word" where "LONGFLAG = 0x00000001"
definition LONGLONGFLAG :: "32 word" where "LONGLONGFLAG = 0x00000002"
definition HALFFLAG :: "32 word" where "HALFFLAG = 0x00000004"
definition HALFHALFFLAG :: "32 word" where "HALFHALFFLAG = 0x00000008"
definition SIZETFLAG :: "32 word" where "SIZETFLAG = 0x00000010"
definition INTMAXFLAG :: "32 word" where "INTMAXFLAG = 0x00000020"
definition PTRDIFFFLAG :: "32 word" where "PTRDIFFFLAG = 0x00000040"
definition ALTFLAG :: "32 word" where "ALTFLAG = 0x00000080"
definition CAPSFLAG :: "32 word" where "CAPSFLAG = 0x00000100"
definition SHOWSIGNFLAG :: "32 word" where "SHOWSIGNFLAG = 0x00000200"
definition SIGNEDFLAG :: "32 word" where "SIGNEDFLAG = 0x00000400"
definition LEFTFORMATFLAG :: "32 word" where "LEFTFORMATFLAG = 0x00000800"
definition LEADZEROFLAG :: "32 word" where "LEADZEROFLAG = 0x00001000"
definition BLANKPOSFLAG :: "32 word" where "BLANKPOSFLAG = 0x00002000"

lemmas format_flags = LONGFLAG_def LONGLONGFLAG_def HALFFLAG_def HALFHALFFLAG_def SIZETFLAG_def
  INTMAXFLAG_def PTRDIFFFLAG_def ALTFLAG_def CAPSFLAG_def SHOWSIGNFLAG_def SIGNEDFLAG_def
  LEFTFORMATFLAG_def LEADZEROFLAG_def BLANKPOSFLAG_def

definition flag_on :: "32 word \<Rightarrow> 32 word \<Rightarrow> bool" where
  "flag_on flag f \<longleftrightarrow> flag AND f \<noteq> 0"

section \<open>Numbers to digits\<close>

text \<open>
  \<open>buf[--pos] = c\<close>: the digits are written from the end of the buffer down. A write outside the
  buffer is a fault.
\<close>

definition NUL :: char where "NUL = CHR 0x00"

definition buf_put :: "char \<Rightarrow> nat \<times> string \<Rightarrow> (nat \<times> string) result" where
  "buf_put c pb = (case pb of (pos, buf) \<Rightarrow>
     if 0 < pos \<and> pos - 1 < length buf then Inr (pos - 1, buf[pos - 1 := c]) else Inl OutOfBounds)"

definition digit_char :: "64 word \<Rightarrow> char" where
  "digit_char d = char_of (unat d + 48)"

function digit_loop :: "64 word \<Rightarrow> nat \<times> string \<Rightarrow> (64 word \<times> nat \<times> string) result" where
  "digit_loop n pb =
     (if 10 \<le> n
      then bindE (buf_put (digit_char (n mod 10)) pb) (digit_loop (n div 10))
      else Inr (n, pb))"
  by pat_completeness auto

termination digit_loop
  by (relation "measure (\<lambda>(n, pb). unat n)")
    (auto simp: unat_div word_le_nat_alt)

declare digit_loop.simps [simp del]

definition longlong_to_string ::
    "string \<Rightarrow> 64 word \<Rightarrow> nat \<Rightarrow> 32 word \<Rightarrow> (string \<times> char) result" where
  "longlong_to_string buf n len flag =
     (let negative = flag_on flag SIGNEDFLAG \<and> sint n < 0;
          n = (if negative then - n else n)
      in bindE (buf_put NUL (len, buf)) (\<lambda>pb.
         bindE (digit_loop n pb) (\<lambda>(n, pb).
         bindE (buf_put (digit_char n) pb) (\<lambda>(pos, buf).
           Inr (takeWhile (\<lambda>c. c \<noteq> NUL) (drop pos buf),
                if negative then CHR ''-''
                else if flag_on flag SHOWSIGNFLAG then CHR ''+''
                else if flag_on flag BLANKPOSFLAG then CHR '' ''
                else NUL)))))"

definition hextable :: string where "hextable = ''0123456789abcdef''"
definition hextable_caps :: string where "hextable_caps = ''0123456789ABCDEF''"

function hex_loop :: "string \<Rightarrow> 64 word \<Rightarrow> nat \<times> string \<Rightarrow> (nat \<times> string) result" where
  "hex_loop table u pb =
     bindE (buf_put (table ! unat (u mod 16)) pb) (\<lambda>pb.
       if u div 16 \<noteq> 0 then hex_loop table (u div 16) pb else Inr pb)"
  by pat_completeness auto

termination hex_loop
proof (relation "measure (\<lambda>(table, u, pb). unat u)", goal_cases)
  case (2 table u pb)
  then have "u div 16 \<noteq> 0" by simp
  then have "unat (u div 16) \<noteq> 0" by (simp add: unat_eq_0)
  then show ?case by (simp add: unat_div)
qed simp

declare hex_loop.simps [simp del]

definition longlong_to_hexstring :: "string \<Rightarrow> 64 word \<Rightarrow> nat \<Rightarrow> 32 word \<Rightarrow> string result" where
  "longlong_to_hexstring buf u len flag =
     (let table = (if flag_on flag CAPSFLAG then hextable_caps else hextable)
      in bindE (buf_put NUL (len, buf)) (\<lambda>pb.
         bindE (hex_loop table u pb) (\<lambda>(pos, buf).
           Inr (takeWhile (\<lambda>c. c \<noteq> NUL) (drop pos buf)))))"

section \<open>Arguments\<close>

datatype va_slot = Va "64 word" | VaStr "64 word" string

fun va_word :: "va_slot \<Rightarrow> 64 word" where
  "va_word (Va w) = w"
| "va_word (VaStr a s) = a"

definition va_next :: "va_slot list \<Rightarrow> (va_slot \<times> va_slot list) result" where
  "va_next ap = (case ap of [] \<Rightarrow> Inl OutOfBounds | v # ap' \<Rightarrow> Inr (v, ap'))"

fun va_string :: "va_slot \<Rightarrow> string result" where
  "va_string (Va w) = (if w = 0 then Inr ''<null>'' else Inl BadCast)"
| "va_string (VaStr a s) = Inr s"

text \<open>The casts of the integer conversions, all widened to \<open>unsigned long long\<close>.\<close>

definition signed_arg :: "32 word \<Rightarrow> 64 word \<Rightarrow> 64 word" where
  "signed_arg flags w =
     (if flag_on flags LONGLONGFLAG then w
      else if flag_on flags LONGFLAG then w
      else if flag_on flags HALFHALFFLAG then scast (ucast w :: 8 word)
      else if flag_on flags HALFFLAG then scast (ucast w :: 16 word)
      else if flag_on flags SIZETFLAG then scast (ucast w :: 32 word)
      else if flag_on flags INTMAXFLAG then w
      else if flag_on flags PTRDIFFFLAG then w
      else scast (ucast w :: 32 word))"

definition unsigned_arg :: "32 word \<Rightarrow> 64 word \<Rightarrow> 64 word" where
  "unsigned_arg flags w =
     (if flag_on flags LONGLONGFLAG then w
      else if flag_on flags LONGFLAG then w
      else if flag_on flags HALFHALFFLAG then ucast (ucast w :: 8 word)
      else if flag_on flags HALFFLAG then ucast (ucast w :: 16 word)
      else if flag_on flags SIZETFLAG then w
      else if flag_on flags INTMAXFLAG then w
      else if flag_on flags PTRDIFFFLAG then w
      else ucast (ucast w :: 32 word))"

section \<open>Output\<close>

text \<open>
  \<open>err\<close> and \<open>chars_written\<close> are the locals of the interpreter, \<open>stores\<close> what \<open>%n\<close> wrote: the
  address, the number of bytes and the count, oldest first. A negative \<open>err\<close> is the \<open>goto exit\<close> of
  \<open>OUTPUT_STRING\<close>: nothing is printed after it.
\<close>

record 'w out_state =
  world :: 'w
  err :: int
  chars_written :: "64 word"
  stores :: "(64 word \<times> nat \<times> 64 word) list"

type_synonym 'w driver = "string \<Rightarrow> 'w \<Rightarrow> (int \<times> 'w) result"

definition OUTPUT_STRING :: "'w driver \<Rightarrow> string \<Rightarrow> 'w out_state \<Rightarrow> 'w out_state result" where
  "OUTPUT_STRING print str ps =
     (if err ps < 0 then Inr ps
      else bindE (print str (world ps)) (\<lambda>(e, w).
        Inr (ps\<lparr>world := w, err := e,
                chars_written := (if e < 0 then chars_written ps else chars_written ps + word_of_int e)\<rparr>)))"

definition OUTPUT_CHAR :: "'w driver \<Rightarrow> char \<Rightarrow> 'w out_state \<Rightarrow> 'w out_state result" where
  "OUTPUT_CHAR print c ps = OUTPUT_STRING print [c] ps"

text \<open>A padding loop: \<open>OUTPUT_CHAR(c)\<close> as often as the width exceeds what is printed.\<close>

fun pad_loop :: "'w driver \<Rightarrow> char \<Rightarrow> nat \<Rightarrow> 'w out_state \<Rightarrow> 'w out_state result" where
  "pad_loop print c 0 ps = Inr ps"
| "pad_loop print c (Suc k) ps = bindE (OUTPUT_CHAR print c ps) (pad_loop print c k)"

definition output_field ::
    "'w driver \<Rightarrow> string \<Rightarrow> char \<Rightarrow> 32 word \<Rightarrow> 32 word \<Rightarrow> 'w out_state \<Rightarrow> 'w out_state result" where
  "output_field print s signchar flags format_num ps =
     (if flag_on flags LEFTFORMATFLAG
      then bindE (OUTPUT_STRING print s ps) (\<lambda>ps.
             let written = (word_of_int (err ps) :: 32 word)
             in pad_loop print (CHR '' '') (unat format_num - unat written) ps)
      else
        let format_num = (if signchar \<noteq> NUL \<and> 0 < format_num then format_num - 1 else format_num);
            zero = flag_on flags LEADZEROFLAG
        in bindE (if zero \<and> signchar \<noteq> NUL then OUTPUT_CHAR print signchar ps else Inr ps) (\<lambda>ps.
           bindE (pad_loop print (if zero then CHR ''0'' else CHR '' '') (unat format_num - length s) ps) (\<lambda>ps.
           bindE (if \<not> zero \<and> signchar \<noteq> NUL then OUTPUT_CHAR print signchar ps else Inr ps) (\<lambda>ps.
             OUTPUT_STRING print s ps))))"

section \<open>The format interpreter\<close>

text \<open>The characters after \<open>%\<close> that only change the format state (\<open>goto next_format\<close>).\<close>

definition is_digit_char :: "char \<Rightarrow> bool" where
  "is_digit_char c \<longleftrightarrow> 48 \<le> (of_char c :: nat) \<and> (of_char c :: nat) \<le> 57"

definition next_format :: "char \<Rightarrow> 32 word \<Rightarrow> 32 word \<Rightarrow> (32 word \<times> 32 word) option" where
  "next_format c flags format_num =
     (if is_digit_char c then
        Some (if c = CHR ''0'' \<and> format_num = 0 then flags OR LEADZEROFLAG else flags,
              format_num * 10 + word_of_nat (of_char c - 48))
      else if c = CHR ''.'' then Some (flags, format_num)
      else if c = CHR ''-'' then Some (flags OR LEFTFORMATFLAG, format_num)
      else if c = CHR ''+'' then Some (flags OR SHOWSIGNFLAG, format_num)
      else if c = CHR '' '' then Some (flags OR BLANKPOSFLAG, format_num)
      else if c = CHR ''#'' then Some (flags OR ALTFLAG, format_num)
      else if c = CHR ''l'' then
        Some ((if flag_on flags LONGFLAG then flags OR LONGLONGFLAG else flags) OR LONGFLAG, format_num)
      else if c = CHR ''h'' then
        Some ((if flag_on flags HALFFLAG then flags OR HALFHALFFLAG else flags) OR HALFFLAG, format_num)
      else if c = CHR ''z'' then Some (flags OR SIZETFLAG, format_num)
      else if c = CHR ''j'' then Some (flags OR INTMAXFLAG, format_num)
      else if c = CHR ''t'' then Some (flags OR PTRDIFFFLAG, format_num)
      else None)"

text \<open>The stores of \<open>%n\<close>, with the \<open>if\<close> that is not an \<open>else if\<close>.\<close>

definition count_stores :: "32 word \<Rightarrow> 64 word \<Rightarrow> 64 word \<Rightarrow> (64 word \<times> nat \<times> 64 word) list" where
  "count_stores flags p count =
     (if flag_on flags LONGLONGFLAG then [(p, 8, count)]
      else if flag_on flags LONGFLAG then [(p, 8, count)]
      else if flag_on flags HALFHALFFLAG then [(p, 1, count)]
      else []) @
     (if flag_on flags HALFFLAG then [(p, 2, count)]
      else if flag_on flags SIZETFLAG then [(p, 8, count)]
      else [(p, 4, count)])"

definition num_buffer :: string where "num_buffer = replicate 32 NUL"

definition signed_conversion ::
    "'w driver \<Rightarrow> 32 word \<Rightarrow> 32 word \<Rightarrow> 64 word \<Rightarrow> 'w out_state \<Rightarrow> 'w out_state result" where
  "signed_conversion print flags format_num w ps =
     (let n = signed_arg flags w; flags = flags OR SIGNEDFLAG
      in bindE (longlong_to_string num_buffer n 32 flags) (\<lambda>(s, signchar).
           output_field print s signchar flags format_num ps))"

definition unsigned_conversion ::
    "'w driver \<Rightarrow> 32 word \<Rightarrow> 32 word \<Rightarrow> 64 word \<Rightarrow> 'w out_state \<Rightarrow> 'w out_state result" where
  "unsigned_conversion print flags format_num w ps =
     (let n = unsigned_arg flags w
      in bindE (longlong_to_string num_buffer n 32 flags) (\<lambda>(s, signchar).
           output_field print s signchar flags format_num ps))"

definition hex_conversion ::
    "'w driver \<Rightarrow> 32 word \<Rightarrow> 32 word \<Rightarrow> 64 word \<Rightarrow> 'w out_state \<Rightarrow> 'w out_state result" where
  "hex_conversion print flags format_num w ps =
     (let n = unsigned_arg flags w
      in bindE (longlong_to_hexstring num_buffer n 32 flags) (\<lambda>s.
         bindE (if flag_on flags ALTFLAG
                then bindE (OUTPUT_CHAR print (CHR ''0'') ps)
                       (OUTPUT_CHAR print (if flag_on flags CAPSFLAG then CHR ''X'' else CHR ''x''))
                else Inr ps) (\<lambda>ps.
           output_field print s NUL flags format_num ps)))"

definition conversion ::
    "'w driver \<Rightarrow> char \<Rightarrow> 32 word \<Rightarrow> 32 word \<Rightarrow> va_slot list \<Rightarrow> 'w out_state
       \<Rightarrow> (va_slot list \<times> 'w out_state) result" where
  "conversion print c flags format_num ap ps =
     (if c = CHR ''%'' then bindE (OUTPUT_CHAR print (CHR ''%'') ps) (\<lambda>ps. Inr (ap, ps))
      else if c = CHR ''c'' then
        bindE (va_next ap) (\<lambda>(v, ap).
        bindE (OUTPUT_CHAR print (char_of (unat (va_word v))) ps) (\<lambda>ps. Inr (ap, ps)))
      else if c = CHR ''s'' then
        bindE (va_next ap) (\<lambda>(v, ap).
        bindE (va_string v) (\<lambda>s.
        bindE (output_field print s NUL (flags AND NOT LEADZEROFLAG) format_num ps) (\<lambda>ps. Inr (ap, ps))))
      else if c = CHR ''i'' \<or> c = CHR ''d'' then
        bindE (va_next ap) (\<lambda>(v, ap).
        bindE (signed_conversion print flags format_num (va_word v) ps) (\<lambda>ps. Inr (ap, ps)))
      else if c = CHR ''u'' then
        bindE (va_next ap) (\<lambda>(v, ap).
        bindE (unsigned_conversion print flags format_num (va_word v) ps) (\<lambda>ps. Inr (ap, ps)))
      else if c = CHR ''p'' then
        bindE (va_next ap) (\<lambda>(v, ap).
        bindE (hex_conversion print (flags OR (LONGFLAG OR ALTFLAG)) format_num (va_word v) ps) (\<lambda>ps. Inr (ap, ps)))
      else if c = CHR ''X'' then
        bindE (va_next ap) (\<lambda>(v, ap).
        bindE (hex_conversion print (flags OR CAPSFLAG) format_num (va_word v) ps) (\<lambda>ps. Inr (ap, ps)))
      else if c = CHR ''x'' then
        bindE (va_next ap) (\<lambda>(v, ap).
        bindE (hex_conversion print flags format_num (va_word v) ps) (\<lambda>ps. Inr (ap, ps)))
      else if c = CHR ''n'' then
        bindE (va_next ap) (\<lambda>(v, ap).
          Inr (ap, ps\<lparr>stores := stores ps @ count_stores flags (va_word v) (chars_written ps)\<rparr>))
      else
        bindE (OUTPUT_CHAR print (CHR ''%'') ps) (\<lambda>ps.
        bindE (OUTPUT_CHAR print c ps) (\<lambda>ps. Inr (ap, ps))))"

function (sequential)
    printf_text :: "'w driver \<Rightarrow> string \<Rightarrow> va_slot list \<Rightarrow> 'w out_state \<Rightarrow> 'w out_state result"
  and printf_format :: "'w driver \<Rightarrow> string \<Rightarrow> 32 word \<Rightarrow> 32 word \<Rightarrow> va_slot list \<Rightarrow> 'w out_state
                          \<Rightarrow> 'w out_state result"
where
  "printf_text print fmt ap ps =
     bindE (OUTPUT_STRING print (takeWhile (\<lambda>c. c \<noteq> CHR ''%'') fmt) ps) (\<lambda>ps.
       if err ps < 0 then Inr ps
       else case dropWhile (\<lambda>c. c \<noteq> CHR ''%'') fmt of
              [] \<Rightarrow> Inr ps
            | _ # fmt' \<Rightarrow> printf_format print fmt' 0 0 ap ps)"
| "printf_format print [] flags format_num ap ps = Inr ps"
| "printf_format print (c # fmt) flags format_num ap ps =
     (case next_format c flags format_num of
        Some (flags', format_num') \<Rightarrow> printf_format print fmt flags' format_num' ap ps
      | None \<Rightarrow> bindE (conversion print c flags format_num ap ps) (\<lambda>(ap, ps).
                  if err ps < 0 then Inr ps else printf_text print fmt ap ps))"
  by pat_completeness auto

lemma dropWhile_shorter: "dropWhile P xs = y # ys \<Longrightarrow> length ys < length xs"
  by (metis Suc_le_eq length_Cons length_dropWhile_le)

termination printf_text
  by (relation "measure (\<lambda>x. case x of Inl (_, fmt, _) \<Rightarrow> 2 * length fmt + 1 | Inr (_, fmt, _) \<Rightarrow> 2 * length fmt)")
    (auto dest: dropWhile_shorter)

definition out_start :: "'w \<Rightarrow> 'w out_state" where
  "out_start w = \<lparr>world = w, err = 0, chars_written = 0, stores = []\<rparr>"

definition printf_driver ::
    "'w driver \<Rightarrow> string \<Rightarrow> va_slot list \<Rightarrow> 'w \<Rightarrow> (int \<times> 'w out_state) result" where
  "printf_driver print fmt ap w =
     bindE (printf_text print fmt ap (out_start w)) (\<lambda>ps.
       Inr (if err ps < 0 then err ps else sint (ucast (chars_written ps) :: 32 word), ps))"

end
