(* ===== verification/Format.thy ===== *)
theory Format
  imports Printf
begin

text \<open>
  What \<open>libc/printf.c\<close> computes: the digits of a number read back as the number and fit the buffer of
  the caller, a field is padded to its width, and the value \<open>_printf_driver\<close> returns is determined by
  what the driver returned. The locale \<open>output_invariant\<close> carries a property of the output state
  through the whole interpreter once it survives one call of the driver.
\<close>

section \<open>Positional notation\<close>

text \<open>The reference: a number in base \<open>b\<close>, most significant digit first, and its value read back.\<close>

fun positional :: "string \<Rightarrow> nat \<Rightarrow> nat \<Rightarrow> string" where
  "positional table b n =
     (if n < b \<or> b < 2 then [table ! n] else positional table b (n div b) @ [table ! (n mod b)])"

declare positional.simps [simp del]

fun digit_value :: "char \<Rightarrow> nat" where
  "digit_value c =
     (let k = of_char c :: nat in if k \<le> 57 then k - 48 else if k \<le> 70 then k - 55 else k - 87)"

declare digit_value.simps [simp del]

definition read_number :: "nat \<Rightarrow> string \<Rightarrow> nat" where
  "read_number b s = foldl (\<lambda>a c. a * b + digit_value c) 0 s"

lemma read_number_snoc [simp]: "read_number b (s @ [c]) = read_number b s * b + digit_value c"
  by (simp add: read_number_def)

lemma read_number_single [simp]: "read_number b [c] = digit_value c"
  by (simp add: read_number_def)

definition digit_table :: "string \<Rightarrow> bool" where
  "digit_table table \<longleftrightarrow> length table = 16 \<and>
     list_all (\<lambda>k. digit_value (table ! k) = k \<and> table ! k \<noteq> NUL) [0..<16]"

lemma digit_tables: "digit_table hextable" "digit_table hextable_caps"
  by (simp_all add: digit_table_def hextable_def hextable_caps_def upt_rec [of _ "16"] upt_rec [of _ "numeral _"]
      digit_value.simps NUL_def upt_conv_Cons numeral_eq_Suc)

lemma digit_tableD:
  assumes "digit_table table" and "k < 16"
  shows "digit_value (table ! k) = k" and "table ! k \<noteq> NUL" and "k < length table"
  using assms by (auto simp: digit_table_def list_all_iff)

lemma mod_below_16: "2 \<le> b \<Longrightarrow> b \<le> 16 \<Longrightarrow> n mod b < (16 :: nat)"
  by (rule order.strict_trans2 [of _ b]) simp_all

lemma read_positional:
  assumes "digit_table table" and "2 \<le> b" and "b \<le> 16"
  shows "read_number b (positional table b n) = n"
proof (induction n rule: less_induct)
  case (less n)
  show ?case
  proof (cases "n < b")
    case True
    then show ?thesis using assms by (subst positional.simps) (simp add: digit_tableD)
  next
    case False
    with assms have d: "n div b < n" "n mod b < 16" by (simp_all add: mod_below_16)
    from less [OF d(1)] digit_tableD(1) [OF assms(1) d(2)] False assms show ?thesis
      by (subst positional.simps) simp
  qed
qed

lemma positional_no_NUL:
  assumes "digit_table table" and "2 \<le> b" and "b \<le> 16"
  shows "c \<in> set (positional table b n) \<Longrightarrow> c \<noteq> NUL \<and> (\<exists>k < b. c = table ! k)"
proof (induction n rule: less_induct)
  case (less n)
  show ?case
  proof (cases "n < b")
    case True
    then show ?thesis using less.prems assms by (subst (asm) positional.simps) (auto simp: digit_tableD)
  next
    case False
    with assms have d: "n div b < n" "n mod b < b" by simp_all
    have "n mod b < 16" using assms by (simp add: mod_below_16)
    from less.prems False assms have c: "c \<in> set (positional table b (n div b)) \<or> c = table ! (n mod b)"
      by (subst (asm) positional.simps) auto
    have "table ! (n mod b) \<noteq> NUL" using digit_tableD(2) [OF assms(1) \<open>n mod b < 16\<close>] .
    with c show ?thesis using less.IH [OF d(1)] d(2) by (elim disjE) auto
  qed
qed

lemma positional_length:
  assumes "2 \<le> b"
  shows "n < b ^ Suc k \<Longrightarrow> length (positional table b n) \<le> Suc k"
proof (induction k arbitrary: n)
  case 0
  then show ?case by (subst positional.simps) simp
next
  case (Suc k)
  show ?case
  proof (cases "n < b")
    case False
    from Suc.prems have "n div b < b ^ Suc k"
      by (metis less_mult_imp_div_less mult.commute power_Suc)
    from Suc.IH [OF this] False assms show ?thesis by (subst positional.simps) simp
  qed (subst positional.simps, simp)
qed

lemma positional_nonempty: "positional table b n \<noteq> []"
  by (subst positional.simps) simp

lemma positional_leading:
  assumes "digit_table table" and "2 \<le> b" and "b \<le> 16"
  shows "hd (positional table b n) = table ! 0 \<longleftrightarrow> n = 0"
proof (induction n rule: less_induct)
  case (less n)
  show ?case
  proof (cases "n < b")
    case True
    then have "table ! n = table ! 0 \<longleftrightarrow> n = 0"
      using digit_tableD(1) [OF assms(1), of n] digit_tableD(1) [OF assms(1), of 0] assms by auto
    with True show ?thesis by (subst positional.simps) simp
  next
    case False
    with assms have "n div b < n" "n div b \<noteq> 0" by (simp_all add: div_eq_0_iff)
    with less [of "n div b"] False assms show ?thesis
      by (subst positional.simps) (simp add: positional_nonempty)
  qed
qed

section \<open>The two digit loops\<close>

lemma buf_put_ok:
  assumes "pos \<le> length buf" and "0 < pos"
  shows "\<exists>buf'. buf_put c (pos, buf) = Inr (pos - 1, buf') \<and> length buf' = length buf \<and>
           drop (pos - 1) buf' = c # drop pos buf"
  using assms
  by (auto simp: buf_put_def drop_update_swap Cons_nth_drop_Suc [symmetric] intro!: nth_equalityI
      simp: nth_list_update nth_Cons split: nat.splits)

text \<open>Stated as one equation: what the loop has written, in front of what was in the buffer.\<close>

lemma digit_char_table: "unat d < 10 \<Longrightarrow> digit_char d = hextable ! unat d"
proof -
  assume "unat d < 10"
  then have "unat d \<in> {0,1,2,3,4,5,6,7,8,9}" by auto
  then show ?thesis by (auto simp: digit_char_def hextable_def char_of_def bit_0)
qed

lemma digit_loop_writes:
  assumes "unat n < 10 ^ Suc k" and "k \<le> pos" and "pos \<le> length buf"
  shows "\<exists>m p buf'. digit_loop n (pos, buf) = Inr (m, p, buf') \<and> pos - k \<le> p \<and> p \<le> length buf' \<and>
           length buf' = length buf \<and> unat m < 10 \<and>
           digit_char m # drop p buf' = positional hextable 10 (unat n) @ drop pos buf"
  using assms
proof (induction k arbitrary: n pos buf)
  case 0
  then have "\<not> 10 \<le> n" by (simp add: word_le_nat_alt)
  with 0 show ?case
    by (subst digit_loop.simps) (auto simp: positional.simps [of _ _ "unat n"] digit_char_table)
next
  case (Suc k n pos buf)
  show ?case
  proof (cases "10 \<le> n")
    case False
    then have "unat n < 10" by (simp add: word_le_nat_alt)
    with False Suc.prems show ?thesis
      by (subst digit_loop.simps) (auto simp: positional.simps [of _ _ "unat n"] digit_char_table)
  next
    case True
    from Suc.prems have "0 < pos" by simp
    from buf_put_ok [OF Suc.prems(3) this, of "digit_char (n mod 10)"] obtain buf1 where
      b1: "buf_put (digit_char (n mod 10)) (pos, buf) = Inr (pos - 1, buf1)" "length buf1 = length buf"
        "drop (pos - 1) buf1 = digit_char (n mod 10) # drop pos buf" by blast
    have "unat (n div 10) < 10 ^ Suc k"
      using Suc.prems(1) by (simp add: unat_div less_mult_imp_div_less mult.commute)
    moreover have "k \<le> pos - 1" "pos - 1 \<le> length buf1" using Suc.prems b1(2) by arith+
    ultimately obtain m p buf2 where
      m: "digit_loop (n div 10) (pos - 1, buf1) = Inr (m, p, buf2)" "pos - 1 - k \<le> p" "p \<le> length buf2"
        "length buf2 = length buf1" "unat m < 10"
        "digit_char m # drop p buf2 = positional hextable 10 (unat (n div 10)) @ drop (pos - 1) buf1"
      using Suc.IH [of "n div 10" "pos - 1" buf1] by blast
    have "positional hextable 10 (unat n) = positional hextable 10 (unat (n div 10)) @ [digit_char (n mod 10)]"
      using True by (subst positional.simps) (simp add: word_le_nat_alt digit_char_table unat_mod unat_div)
    with m(6) b1(3) have "digit_char m # drop p buf2 = positional hextable 10 (unat n) @ drop pos buf" by simp
    moreover have "digit_loop n (pos, buf) = Inr (m, p, buf2)"
      using b1(1) m(1) True by (subst digit_loop.simps) simp
    moreover have "pos - Suc k \<le> p" using m(2) by simp
    ultimately show ?thesis using m(3,4,5) b1(2) by simp
  qed
qed

lemma hex_loop_writes:
  assumes "digit_table table" and "unat u < 16 ^ Suc k" and "Suc k \<le> pos" and "pos \<le> length buf"
  shows "\<exists>p buf'. hex_loop table u (pos, buf) = Inr (p, buf') \<and>
           drop p buf' = positional table 16 (unat u) @ drop pos buf"
  using assms(2-)
proof (induction k arbitrary: u pos buf)
  case (0 u pos buf)
  then have "0 < pos" by simp
  from buf_put_ok [OF 0(3) this, of "table ! unat (u mod 16)"] obtain buf1 where
    b1: "buf_put (table ! unat (u mod 16)) (pos, buf) = Inr (pos - 1, buf1)"
      "drop (pos - 1) buf1 = table ! unat (u mod 16) # drop pos buf" by blast
  from 0 have "unat (u div 16) = 0" by (simp add: unat_div)
  then have "u div 16 = 0" by (simp add: unat_eq_0)
  with b1 0 show ?case by (subst hex_loop.simps) (simp add: positional.simps [of _ _ "unat u"] unat_mod)
next
  case (Suc k u pos buf)
  then have "0 < pos" by simp
  from buf_put_ok [OF Suc.prems(3) this, of "table ! unat (u mod 16)"] obtain buf1 where
    b1: "buf_put (table ! unat (u mod 16)) (pos, buf) = Inr (pos - 1, buf1)" "length buf1 = length buf"
      "drop (pos - 1) buf1 = table ! unat (u mod 16) # drop pos buf" by blast
  show ?case
  proof (cases "u div 16 = 0")
    case True
    then have "unat u < 16" using unat_div [of u 16] by (simp add: div_eq_0_iff)
    with b1 True show ?thesis
      by (subst hex_loop.simps) (simp add: positional.simps [of _ _ "unat u"] unat_mod)
  next
    case False
    have "unat (u div 16) < 16 ^ Suc k"
      using Suc.prems(1) by (simp add: unat_div less_mult_imp_div_less mult.commute)
    moreover have "Suc k \<le> pos - 1" "pos - 1 \<le> length buf1" using Suc.prems b1(2) by arith+
    ultimately obtain p buf2 where
      p: "hex_loop table (u div 16) (pos - 1, buf1) = Inr (p, buf2)"
        "drop p buf2 = positional table 16 (unat (u div 16)) @ drop (pos - 1) buf1"
      using Suc.IH [of "u div 16" "pos - 1" buf1] by blast
    from False have "\<not> unat u < 16" using unat_div [of u 16] by (auto simp: unat_eq_0 [symmetric])
    then have "positional table 16 (unat u) = positional table 16 (unat (u div 16)) @ [table ! unat (u mod 16)]"
      by (subst positional.simps) (simp add: unat_mod unat_div)
    with p b1 False show ?thesis by (subst hex_loop.simps) simp
  qed
qed


lemma takeWhile_to_NUL: "NUL \<notin> set s \<Longrightarrow> takeWhile (\<lambda>c. c \<noteq> NUL) (s @ NUL # r) = s"
  by (induction s) auto

definition magnitude :: "32 word \<Rightarrow> 64 word \<Rightarrow> 64 word" where
  "magnitude flag n = (if flag_on flag SIGNEDFLAG \<and> sint n < 0 then - n else n)"

definition sign_of :: "32 word \<Rightarrow> 64 word \<Rightarrow> char" where
  "sign_of flag n =
     (if flag_on flag SIGNEDFLAG \<and> sint n < 0 then CHR ''-''
      else if flag_on flag SHOWSIGNFLAG then CHR ''+''
      else if flag_on flag BLANKPOSFLAG then CHR '' '' else NUL)"

lemma longlong_to_string_eq:
  assumes "21 \<le> length buf"
  shows "longlong_to_string buf n (length buf) flag =
           Inr (positional hextable 10 (unat (magnitude flag n)), sign_of flag n)"
proof -
  let ?n = "magnitude flag n"
  from assms have "0 < length buf" by arith
  from buf_put_ok [OF order_refl this, of NUL] obtain buf1 where
    b1: "buf_put NUL (length buf, buf) = Inr (length buf - 1, buf1)" "length buf1 = length buf"
      "drop (length buf - 1) buf1 = [NUL]" by auto
  have "unat ?n < 2 ^ LENGTH(64)" by (rule unsigned_less)
  then have "unat ?n < 10 ^ Suc 19" by simp
  moreover have "19 \<le> length buf - 1" "length buf - 1 \<le> length buf1" using assms b1(2) by arith+
  ultimately obtain m p buf2 where
    m: "digit_loop ?n (length buf - 1, buf1) = Inr (m, p, buf2)" "length buf - 1 - 19 \<le> p" "p \<le> length buf2"
      "length buf2 = length buf" "digit_char m # drop p buf2 = positional hextable 10 (unat ?n) @ [NUL]"
    using digit_loop_writes [of ?n 19 "length buf - 1" buf1] b1(2,3) by auto
  have "0 < p" using m(2) assms by arith
  from buf_put_ok [OF m(3) this, of "digit_char m"] obtain buf3 where
    b3: "buf_put (digit_char m) (p, buf2) = Inr (p - 1, buf3)" "drop (p - 1) buf3 = digit_char m # drop p buf2"
    by blast
  have "NUL \<notin> set (positional hextable 10 (unat ?n))"
    using positional_no_NUL [OF digit_tables(1), of 10 NUL] by auto
  from takeWhile_to_NUL [OF this, of "[]"] m(5) b3(2)
  have "takeWhile (\<lambda>c. c \<noteq> NUL) (drop (p - 1) buf3) = positional hextable 10 (unat ?n)" by simp
  with b1(1) m(1) b3(1) show ?thesis
    by (simp add: longlong_to_string_def magnitude_def sign_of_def Let_def)
qed

lemma longlong_to_hexstring_eq:
  assumes "17 \<le> length buf"
  shows "longlong_to_hexstring buf u (length buf) flag =
           Inr (positional (if flag_on flag CAPSFLAG then hextable_caps else hextable) 16 (unat u))"
proof -
  define table where "table = (if flag_on flag CAPSFLAG then hextable_caps else hextable)"
  have t: "digit_table table" by (simp add: table_def digit_tables)
  from assms have "0 < length buf" by arith
  from buf_put_ok [OF order_refl this, of NUL] obtain buf1 where
    b1: "buf_put NUL (length buf, buf) = Inr (length buf - 1, buf1)" "length buf1 = length buf"
      "drop (length buf - 1) buf1 = [NUL]" by auto
  have "unat u < 2 ^ LENGTH(64)" by (rule unsigned_less)
  then have "unat u < 16 ^ Suc 15" by simp
  moreover have "Suc 15 \<le> length buf - 1" "length buf - 1 \<le> length buf1" using assms b1(2) by arith+
  ultimately obtain p buf2 where
    m: "hex_loop table u (length buf - 1, buf1) = Inr (p, buf2)"
      "drop p buf2 = positional table 16 (unat u) @ [NUL]"
    using hex_loop_writes [OF t, of u 15 "length buf - 1" buf1] b1(3) by auto
  have "NUL \<notin> set (positional table 16 (unat u))" using positional_no_NUL [OF t, of 16 NUL] by auto
  from takeWhile_to_NUL [OF this, of "[]"] m b1(1) show ?thesis
    by (simp add: longlong_to_hexstring_def Let_def table_def [symmetric])
qed

section \<open>A property of the output state through the interpreter\<close>

text \<open>\<open>post Q m\<close>: if the statement does not fault, its outcome satisfies \<open>Q\<close>.\<close>

definition post :: "('a \<Rightarrow> bool) \<Rightarrow> 'a result \<Rightarrow> bool" where
  "post Q m \<longleftrightarrow> (\<forall>x. m = Inr x \<longrightarrow> Q x)"

lemma postI: "(\<And>x. m = Inr x \<Longrightarrow> Q x) \<Longrightarrow> post Q m"
  by (simp add: post_def)

lemma postD: "post Q m \<Longrightarrow> m = Inr x \<Longrightarrow> Q x"
  by (simp add: post_def)

lemma post_Inr [simp]: "post Q (Inr x) \<longleftrightarrow> Q x"
  by (simp add: post_def)

lemma post_bind: "post R m \<Longrightarrow> (\<And>x. R x \<Longrightarrow> post Q (f x)) \<Longrightarrow> post Q (bindE m f)"
  by (auto simp: post_def)

lemma post_bind_any: "(\<And>x. post Q (f x)) \<Longrightarrow> post Q (bindE m f)"
  by (auto simp: post_def)

locale output_invariant =
  fixes print :: "'w driver" and P :: "'w out_state \<Rightarrow> bool"
  assumes call: "P ps \<Longrightarrow> post P (OUTPUT_STRING print s ps)"
    and store: "P ps \<Longrightarrow> P (ps\<lparr>stores := st\<rparr>)"
begin

lemma char_keeps: "P ps \<Longrightarrow> post P (OUTPUT_CHAR print c ps)"
  using call by (simp add: OUTPUT_CHAR_def)

lemma pad_keeps: "P ps \<Longrightarrow> post P (pad_loop print c k ps)"
  by (induction k arbitrary: ps) (auto intro: post_bind [OF char_keeps])

lemma field_keeps: "P ps \<Longrightarrow> post P (output_field print s signchar flags w ps)"
  unfolding output_field_def Let_def
  by (auto intro!: post_bind [where R = P] call pad_keeps char_keeps)

lemma integer_keeps:
  assumes "P ps"
  shows "post P (signed_conversion print flags w v ps)"
    and "post P (unsigned_conversion print flags w v ps)"
  using assms unfolding signed_conversion_def unsigned_conversion_def Let_def
  by (auto intro!: post_bind_any field_keeps split: prod.split)

lemma hex_keeps: "P ps \<Longrightarrow> post P (hex_conversion print flags w v ps)"
  unfolding hex_conversion_def Let_def
  by (rule post_bind_any, rule post_bind [where R = P])
    (auto intro: field_keeps char_keeps post_bind [OF char_keeps char_keeps])

lemma post_if: "(b \<Longrightarrow> post Q x) \<Longrightarrow> (\<not> b \<Longrightarrow> post Q y) \<Longrightarrow> post Q (if b then x else y)"
  by simp

lemma post_take: "(\<And>v ap. post Q (f v ap)) \<Longrightarrow> post Q (bindE m (\<lambda>(v, ap). f v ap))"
  by (auto intro: post_bind_any split: prod.split)

lemma post_return: "post P m \<Longrightarrow> post (\<lambda>(ap, ps). P ps) (bindE m (\<lambda>ps. Inr (ap, ps)))"
  by (auto intro: post_bind)

lemma conversion_keeps: "P ps \<Longrightarrow> post (\<lambda>(ap, ps). P ps) (conversion print c flags w ap ps)"
  unfolding conversion_def
  apply (intro post_if post_take post_return integer_keeps hex_keeps char_keeps)
  apply (simp_all add: store)
  apply (auto intro: post_bind_any post_return field_keeps post_bind [OF char_keeps] char_keeps)
  done

lemma interpreter_keeps:
  "pr = print \<Longrightarrow> P ps \<Longrightarrow> post P (printf_text pr fmt ap ps)"
  "pr = print \<Longrightarrow> P ps \<Longrightarrow> post P (printf_format pr fmt flags w ap ps)"
proof (induction pr fmt ap ps and pr fmt flags w ap ps rule: printf_text_printf_format.induct)
  case (1 pr fmt ap ps)
  have "post P (OUTPUT_STRING print (takeWhile (\<lambda>c. c \<noteq> CHR ''%'') fmt) ps)" using 1 call by blast
  then show ?case
    using 1 unfolding printf_text.simps [of pr fmt ap ps]
    by (auto intro!: post_bind [where R = P] split: list.split)
next
  case (3 pr c fmt flags w ap ps)
  show ?case
  proof (cases "next_format c flags w")
    case None
    have "post (\<lambda>(ap, ps). P ps) (conversion print c flags w ap ps)" using 3 conversion_keeps by blast
    then show ?thesis
      using 3 None
      by (auto intro!: post_bind [where R = "\<lambda>(ap, ps). P ps"] split: prod.split)
  next
    case (Some a)
    with 3 show ?thesis by (cases a) simp
  qed
qed simp

end

section \<open>The value that is returned\<close>

text \<open>A driver that also keeps what it returned, call after call.\<close>

definition logged :: "'w driver \<Rightarrow> ('w \<times> int list) driver" where
  "logged print s wl =
     bindE (print s (fst wl)) (\<lambda>(e, w). Inr (e, (w, snd wl @ [e])))"

definition accounted :: "('w \<times> int list) out_state \<Rightarrow> bool" where
  "accounted ps \<longleftrightarrow>
     (let l = snd (world ps)
      in list_all (\<lambda>e. 0 \<le> e) (butlast l) \<and> err ps = (if l = [] then 0 else last l) \<and>
         chars_written ps = word_of_int (sum_list (filter (\<lambda>e. 0 \<le> e) l)))"

interpretation logging: output_invariant "logged print" accounted for print :: "'w driver"
proof
  fix ps :: "('w \<times> int list) out_state" and s st
  show "accounted ps \<Longrightarrow> post accounted (OUTPUT_STRING (logged print) s ps)"
  proof (cases "err ps < 0")
    case False
    assume a: "accounted ps"
    have "list_all (\<lambda>e. 0 \<le> e) (snd (world ps))"
    proof (cases "snd (world ps) = []")
      case False
      with a \<open>\<not> err ps < 0\<close> have
        "list_all (\<lambda>e. 0 \<le> e) (butlast (snd (world ps)))" "list_all (\<lambda>e. 0 \<le> e) [last (snd (world ps))]"
        by (simp_all add: accounted_def Let_def)
      then have "list_all (\<lambda>e. 0 \<le> e) (butlast (snd (world ps)) @ [last (snd (world ps))])"
        by (simp only: list_all_append)
      then show ?thesis by (simp only: append_butlast_last_id [OF False])
    qed simp
    with a False show ?thesis
      by (intro postI) (auto simp: OUTPUT_STRING_def logged_def accounted_def Let_def split: prod.splits if_splits)
  qed (auto simp: OUTPUT_STRING_def)
  show "accounted ps \<Longrightarrow> accounted (ps\<lparr>stores := st\<rparr>)" by (simp add: accounted_def)
qed

lemma printf_accounted:
  "printf_driver (logged print) fmt ap (w, []) = Inr (r, ps) \<Longrightarrow>
     accounted ps \<and> r = (if err ps < 0 then err ps else sint (ucast (chars_written ps) :: 32 word))"
proof -
  assume "printf_driver (logged print) fmt ap (w, []) = Inr (r, ps)"
  then have t: "printf_text (logged print) fmt ap (out_start (w, [])) = Inr ps"
    and r: "r = (if err ps < 0 then err ps else sint (ucast (chars_written ps) :: 32 word))"
    by (auto simp: printf_driver_def)
  have "accounted (out_start (w, []))" by (simp add: accounted_def out_start_def)
  from postD [OF logging.interpreter_keeps(1) [OF refl this] t] r show ?thesis by blast
qed

section \<open>What is printed\<close>

text \<open>
  The text of a whole call, as a function of the format and the arguments: \<open>render\<close>. It is the
  interpreter without a driver and with the reference digits.
\<close>

definition render_field :: "string \<Rightarrow> char \<Rightarrow> 32 word \<Rightarrow> 32 word \<Rightarrow> string" where
  "render_field s signchar flags w =
     (let sg = (if signchar = NUL then [] else [signchar]) in
      if flag_on flags LEFTFORMATFLAG then s @ replicate (unat w - length s) (CHR '' '')
      else if flag_on flags LEADZEROFLAG then sg @ replicate (unat w - length sg - length s) (CHR ''0'') @ s
      else replicate (unat w - length sg - length s) (CHR '' '') @ sg @ s)"

definition render_decimal :: "64 word \<Rightarrow> 32 word \<Rightarrow> 32 word \<Rightarrow> string" where
  "render_decimal n flags w =
     render_field (positional hextable 10 (unat (magnitude flags n))) (sign_of flags n) flags w"

definition render_hex :: "64 word \<Rightarrow> 32 word \<Rightarrow> 32 word \<Rightarrow> string" where
  "render_hex n flags w =
     (let caps = flag_on flags CAPSFLAG
      in (if flag_on flags ALTFLAG then (if caps then ''0X'' else ''0x'') else []) @
         render_field (positional (if caps then hextable_caps else hextable) 16 (unat n)) NUL flags w)"

definition render_conversion ::
    "char \<Rightarrow> 32 word \<Rightarrow> 32 word \<Rightarrow> va_slot list \<Rightarrow> (va_slot list \<times> string) result" where
  "render_conversion c flags w ap =
     (if c \<in> set ''csidupxXn'' then
        bindE (va_next ap) (\<lambda>(v, ap).
        bindE (if c = CHR ''s'' then va_string v else Inr []) (\<lambda>s.
          Inr (ap,
            if c = CHR ''c'' then [char_of (unat (va_word v))]
            else if c = CHR ''s'' then render_field s NUL (flags AND NOT LEADZEROFLAG) w
            else if c = CHR ''i'' \<or> c = CHR ''d'' then render_decimal (signed_arg flags (va_word v)) (flags OR SIGNEDFLAG) w
            else if c = CHR ''u'' then render_decimal (unsigned_arg flags (va_word v)) flags w
            else if c = CHR ''n'' then []
            else let flags = (if c = CHR ''p'' then flags OR (LONGFLAG OR ALTFLAG)
                              else if c = CHR ''X'' then flags OR CAPSFLAG else flags)
                 in render_hex (unsigned_arg flags (va_word v)) flags w)))
      else Inr (ap, if c = CHR ''%'' then ''%'' else [CHR ''%'', c]))"

function (sequential)
    render :: "string \<Rightarrow> va_slot list \<Rightarrow> string result"
  and render_format :: "string \<Rightarrow> 32 word \<Rightarrow> 32 word \<Rightarrow> va_slot list \<Rightarrow> string result"
where
  "render fmt ap =
     bindE (case dropWhile (\<lambda>c. c \<noteq> CHR ''%'') fmt of
              [] \<Rightarrow> Inr [] | _ # fmt' \<Rightarrow> render_format fmt' 0 0 ap) (\<lambda>rest.
       Inr (takeWhile (\<lambda>c. c \<noteq> CHR ''%'') fmt @ rest))"
| "render_format [] flags w ap = Inr []"
| "render_format (c # fmt) flags w ap =
     (case next_format c flags w of
        Some (flags', w') \<Rightarrow> render_format fmt flags' w' ap
      | None \<Rightarrow> bindE (render_conversion c flags w ap) (\<lambda>(ap, s).
                  bindE (render fmt ap) (\<lambda>rest. Inr (s @ rest))))"
  by pat_completeness auto

termination render
  by (relation "measure (\<lambda>x. case x of Inl (fmt, _) \<Rightarrow> 2 * length fmt + 1 | Inr (fmt, _) \<Rightarrow> 2 * length fmt)")
    (auto dest: dropWhile_shorter)

definition short_slot :: "va_slot \<Rightarrow> bool" where
  "short_slot v \<longleftrightarrow> (case v of Va w \<Rightarrow> True | VaStr a s \<Rightarrow> length s < 2 ^ 31)"

text \<open>A driver that appends what it is given to what it has sent, and returns the length.\<close>

locale appending_driver =
  fixes print :: "'w driver" and ok :: "'w \<Rightarrow> bool" and sent :: "'w \<Rightarrow> string"
  assumes appends: "ok w \<Longrightarrow> length s < 2 ^ 31 \<Longrightarrow>
    \<exists>w'. print s w = Inr (int (length s), w') \<and> ok w' \<and> sent w' = sent w @ s"
begin

definition prints :: "string \<Rightarrow> 'w out_state \<Rightarrow> 'w out_state result \<Rightarrow> bool" where
  "prints s ps m \<longleftrightarrow>
     (\<exists>ps'. m = Inr ps' \<and> ok (world ps') \<and> 0 \<le> err ps' \<and> sent (world ps') = sent (world ps) @ s \<and>
        chars_written ps' = chars_written ps + word_of_nat (length s))"

definition ready :: "'w out_state \<Rightarrow> bool" where
  "ready ps \<longleftrightarrow> ok (world ps) \<and> 0 \<le> err ps"

lemma prints_ready: "prints s ps (Inr ps') \<Longrightarrow> ready ps'"
  by (simp add: prints_def ready_def)

lemma prints_nothing: "ready ps \<Longrightarrow> prints [] ps (Inr ps)"
  by (simp add: prints_def ready_def)

lemma prints_string: "ready ps \<Longrightarrow> length s < 2 ^ 31 \<Longrightarrow> prints s ps (OUTPUT_STRING print s ps)"
  using appends [of "world ps" s] by (auto simp: prints_def ready_def OUTPUT_STRING_def)

lemma prints_char: "ready ps \<Longrightarrow> prints [c] ps (OUTPUT_CHAR print c ps)"
  using prints_string [of ps "[c]"] by (simp add: OUTPUT_CHAR_def)

lemma prints_bind:
  assumes "prints s ps m" and "\<And>ps'. ready ps' \<Longrightarrow> m = Inr ps' \<Longrightarrow> prints t ps' (f ps')"
  shows "prints (s @ t) ps (bindE m f)"
proof -
  from assms(1) obtain ps1 where 1: "m = Inr ps1" "prints s ps (Inr ps1)" by (auto simp: prints_def)
  from assms(2) [OF prints_ready [OF 1(2)] 1(1)] 1 show ?thesis by (auto simp: prints_def add.assoc)
qed

lemma prints_pad: "ready ps \<Longrightarrow> prints (replicate k c) ps (pad_loop print c k ps)"
proof (induction k arbitrary: ps)
  case (Suc k ps)
  from prints_bind [OF prints_char [OF Suc.prems] Suc.IH] show ?case by simp
qed (simp add: prints_nothing)

lemma prints_field:
  assumes r: "ready ps" and l: "length s < 2 ^ 31"
  shows "prints (render_field s signchar flags w) ps (output_field print s signchar flags w ps)"
proof (cases "flag_on flags LEFTFORMATFLAG")
  case True
  from prints_string [OF r l] obtain ps1 where 1: "OUTPUT_STRING print s ps = Inr ps1" "ready ps1"
    "prints s ps (Inr ps1)" by (auto simp: prints_def ready_def)
  have "err ps1 = int (length s)"
    using 1(1) r l appends [of "world ps" s] by (auto simp: OUTPUT_STRING_def ready_def)
  then have "unat (word_of_int (err ps1) :: 32 word) = length s"
    using l by (simp add: unat_of_nat take_bit_nat_eq_self)
  with prints_bind [OF 1(3), of "replicate (unat w - length s) (CHR '' '')" "pad_loop print (CHR '' '') (unat w - length s)"]
    prints_pad True 1(1) show ?thesis by (simp add: output_field_def render_field_def Let_def)
next
  case False
  have w: "unat (w - 1) = unat w - 1" if "0 < w" using that by (simp add: unat_minus_one word_gt_0)
  have w0: "unat w = 0" if "\<not> 0 < w" using that by (simp add: word_gt_0)
  show ?thesis
    using r l False w w0 by (cases "flag_on flags LEADZEROFLAG"; cases "signchar = NUL"; cases "0 < w")
      (auto simp: output_field_def render_field_def Let_def
        intro!: prints_bind prints_pad prints_string prints_char prints_bind [of "[c]" for c, simplified])
qed

lemma positional_short: "length (positional hextable 10 (unat (n :: 64 word))) < 2 ^ 31"
  "length (positional table 16 (unat (n :: 64 word))) < 2 ^ 31"
proof -
  have "unat n < 2 ^ LENGTH(64)" by (rule unsigned_less)
  then have "unat n < 10 ^ Suc 19" "unat n < 16 ^ Suc 15" by simp_all
  from positional_length [OF _ this(1), of hextable] positional_length [OF _ this(2), of table]
  show "length (positional hextable 10 (unat n)) < 2 ^ 31" "length (positional table 16 (unat n)) < 2 ^ 31"
    by simp_all
qed

lemma prints_decimal:
  assumes "ready ps"
  shows "prints (render_decimal (signed_arg flags v) (flags OR SIGNEDFLAG) w) ps (signed_conversion print flags w v ps)"
    and "prints (render_decimal (unsigned_arg flags v) flags w) ps (unsigned_conversion print flags w v ps)"
  using prints_field [OF assms positional_short(1)] longlong_to_string_eq [of num_buffer]
  by (simp_all add: render_decimal_def signed_conversion_def unsigned_conversion_def Let_def num_buffer_def)

lemma prints_hex:
  assumes "ready ps"
  shows "prints (render_hex (unsigned_arg flags v) flags w) ps (hex_conversion print flags w v ps)"
proof -
  have two: "prints [CHR ''0'', x] ps (bindE (OUTPUT_CHAR print (CHR ''0'') ps) (OUTPUT_CHAR print x))" for x
    using prints_bind [OF prints_char [OF assms] prints_char, of "CHR ''0''" x] by simp
  have "prints (if flag_on flags ALTFLAG then (if flag_on flags CAPSFLAG then ''0X'' else ''0x'') else []) ps
          (if flag_on flags ALTFLAG
           then bindE (OUTPUT_CHAR print (CHR ''0'') ps)
                  (OUTPUT_CHAR print (if flag_on flags CAPSFLAG then CHR ''X'' else CHR ''x''))
           else Inr ps)"
    using two prints_nothing [OF assms] by simp
  from prints_bind [OF this prints_field [OF _ positional_short(2)]]
  show ?thesis
    using longlong_to_hexstring_eq [of num_buffer]
    by (simp add: render_hex_def hex_conversion_def Let_def num_buffer_def)
qed

lemma conversion_prints:
  assumes r: "ready ps" and ap: "list_all short_slot ap" and c: "render_conversion c flags w ap = Inr (ap', s)"
  shows "\<exists>m. conversion print c flags w ap ps = bindE m (\<lambda>ps. Inr (ap', ps)) \<and> prints s ps m"
    and "list_all short_slot ap'"
proof -
  show "list_all short_slot ap'"
    using ap c by (auto simp: render_conversion_def va_next_def split: if_splits list.splits)
  show "\<exists>m. conversion print c flags w ap ps = bindE m (\<lambda>ps. Inr (ap', ps)) \<and> prints s ps m"
  proof (cases "c \<in> set ''csidupxXn''")
    case False
    show ?thesis
    proof (cases "c = CHR ''%''")
      case True
      with False c prints_char [OF r] show ?thesis
        by (auto simp: render_conversion_def conversion_def)
    next
      case notp: False
      have "prints [CHR ''%'', c] ps (bindE (OUTPUT_CHAR print (CHR ''%'') ps) (OUTPUT_CHAR print c))"
        using prints_bind [OF prints_char [OF r] prints_char, of "CHR ''%''" c] by simp
      moreover have "conversion print c flags w ap ps =
          bindE (bindE (OUTPUT_CHAR print (CHR ''%'') ps) (OUTPUT_CHAR print c)) (\<lambda>ps. Inr (ap, ps))"
        using False notp by (simp add: conversion_def bindE_assoc)
      moreover have "ap' = ap" "s = [CHR ''%'', c]" using c False notp by (auto simp: render_conversion_def)
      ultimately show ?thesis by blast
    qed
  next
    case True
    from True c obtain v where v: "ap = v # ap'" by (auto simp: render_conversion_def va_next_def split: list.splits)
    consider "c = CHR ''s''" | "c = CHR ''n''" | "c \<in> set ''cidupxX''" using True by auto
    then show ?thesis
    proof cases
      case 1
      with c v obtain t where t: "va_string v = Inr t" "s = render_field t NUL (flags AND NOT LEADZEROFLAG) w"
        by (auto simp: render_conversion_def va_next_def)
      have "length t < 2 ^ 31" using t(1) ap v by (cases v) (auto simp: short_slot_def split: if_splits)
      from prints_field [OF r this] t 1 v show ?thesis by (auto simp: conversion_def va_next_def)
    next
      case 2
      have "conversion print c flags w ap ps = bindE (Inr (ps\<lparr>stores := stores ps @ count_stores flags (va_word v) (chars_written ps)\<rparr>)) (\<lambda>ps. Inr (ap', ps))"
        using 2 v by (simp add: conversion_def va_next_def)
      moreover have "s = []" using c 2 v by (simp add: render_conversion_def va_next_def)
      moreover have "prints [] ps (Inr (ps\<lparr>stores := stores ps @ count_stores flags (va_word v) (chars_written ps)\<rparr>))"
        using r by (simp add: prints_def ready_def)
      ultimately show ?thesis by blast
    next
      case 3
      then consider "c = CHR ''c''" | "c = CHR ''i''" | "c = CHR ''d''" | "c = CHR ''u''" | "c = CHR ''p''"
        | "c = CHR ''x''" | "c = CHR ''X''" by auto
      then show ?thesis
      proof cases
        case 1
        with c v prints_char [OF r] show ?thesis by (auto simp: conversion_def render_conversion_def va_next_def)
      next
        case 2
        with c v prints_decimal(1) [OF r] show ?thesis by (auto simp: conversion_def render_conversion_def va_next_def)
      next
        case 3
        with c v prints_decimal(1) [OF r] show ?thesis by (auto simp: conversion_def render_conversion_def va_next_def)
      next
        case 4
        with c v prints_decimal(2) [OF r] show ?thesis by (auto simp: conversion_def render_conversion_def va_next_def)
      next
        case 5
        with c v prints_hex [OF r] show ?thesis by (auto simp: conversion_def render_conversion_def va_next_def Let_def)
      next
        case 6
        with c v prints_hex [OF r] show ?thesis by (auto simp: conversion_def render_conversion_def va_next_def Let_def)
      next
        case 7
        with c v prints_hex [OF r] show ?thesis by (auto simp: conversion_def render_conversion_def va_next_def Let_def)
      qed
    qed
  qed
qed

lemma interpreter_prints:
  "pr = print \<Longrightarrow> ready ps \<Longrightarrow> length fmt < 2 ^ 31 \<Longrightarrow> list_all short_slot ap \<Longrightarrow> render fmt ap = Inr s \<Longrightarrow>
     prints s ps (printf_text pr fmt ap ps)"
  "pr = print \<Longrightarrow> ready ps \<Longrightarrow> length fmt < 2 ^ 31 \<Longrightarrow> list_all short_slot ap \<Longrightarrow>
     render_format fmt flags w ap = Inr s \<Longrightarrow> prints s ps (printf_format pr fmt flags w ap ps)"
proof (induction pr fmt ap ps and pr fmt flags w ap ps arbitrary: s and s rule: printf_text_printf_format.induct)
  case (1 pr fmt ap ps s)
  let ?t = "takeWhile (\<lambda>c. c \<noteq> CHR ''%'') fmt"
  have "length ?t < 2 ^ 31" using 1(4) length_takeWhile_le [of _ fmt] by (rule order.strict_trans1 [rotated])
  from prints_string [OF 1(3) this] have t: "prints ?t ps (OUTPUT_STRING print ?t ps)" .
  show ?case
  proof (cases "dropWhile (\<lambda>c. c \<noteq> CHR ''%'') fmt")
    case Nil
    with 1(6) have s: "s = ?t @ []" by simp
    have "prints [] ps1 (if err ps1 < 0 then Inr ps1 else Inr ps1)" if "ready ps1" for ps1
      using that by (simp add: prints_nothing)
    from prints_bind [OF t this] show ?thesis
      unfolding 1(2) printf_text.simps [of print fmt ap ps] s Nil list.case by blast
  next
    case (Cons p fmt')
    with 1(6) obtain s' where s: "s = ?t @ s'" and s': "render_format fmt' 0 0 ap = Inr s'" by auto
    have l: "length fmt' < 2 ^ 31" using dropWhile_shorter [OF Cons] 1(4) by simp
    have "prints s' ps1 (if err ps1 < 0 then Inr ps1 else printf_format pr fmt' 0 0 ap ps1)"
      if "ready ps1" "OUTPUT_STRING print ?t ps = Inr ps1" for ps1
    proof -
      have e: "\<not> err ps1 < 0" using that(1) by (simp add: ready_def)
      from 1(1) [of ps1, OF e Cons 1(2) that(1) l 1(5) s'] e show ?thesis
        by simp
    qed
    from prints_bind [OF t this] show ?thesis
      unfolding 1(2) printf_text.simps [of print fmt ap ps] s Cons list.case by (simp add: 1(2))
  qed
next
  case (2 pr flags w ap ps s)
  then show ?case by (simp add: prints_nothing)
next
  case (3 pr c fmt flags w ap ps s)
  show ?case
  proof (cases "next_format c flags w")
    case (Some a)
    obtain f w' where "a = (f, w')" by (cases a)
    with 3 Some show ?thesis by simp
  next
    case None
    with 3(7) obtain ap1 s1 s2 where
      c: "render_conversion c flags w ap = Inr (ap1, s1)" and s2: "render fmt ap1 = Inr s2" and s: "s = s1 @ s2" by auto
    from conversion_prints [OF 3(4,6) c] obtain m where
      m: "conversion print c flags w ap ps = bindE m (\<lambda>ps. Inr (ap1, ps))" "prints s1 ps m" "list_all short_slot ap1"
      by blast
    have "prints s2 ps1 (if err ps1 < 0 then Inr ps1 else printf_text pr fmt ap1 ps1)"
      if "ready ps1" "m = Inr ps1" for ps1
    proof -
      have e: "\<not> err ps1 < 0" using that(1) by (simp add: ready_def)
      have "length fmt < 2 ^ 31" using 3(5) by simp
      from 3(1) [OF None e 3(3) that(1) this m(3) s2] e show ?thesis
        by simp
    qed
    from prints_bind [OF m(2) this, unfolded 3(3)] show ?thesis
      using None m(1) s 3(3) by (simp add: bindE_assoc)
  qed
qed

lemma printf_prints:
  assumes "ok w" and "length fmt < 2 ^ 31" and "list_all short_slot ap" and "render fmt ap = Inr s"
  shows "\<exists>ps. printf_driver print fmt ap w = Inr (sint (word_of_nat (length s) :: 32 word), ps) \<and>
           ok (world ps) \<and> sent (world ps) = sent w @ s"
proof -
  have "ready (out_start w)" using assms(1) by (simp add: ready_def out_start_def)
  from interpreter_prints(1) [OF refl this assms(2-4)] obtain ps where
    ps: "printf_text print fmt ap (out_start w) = Inr ps" "ok (world ps)" "0 \<le> err ps"
      "sent (world ps) = sent w @ s" "chars_written ps = word_of_nat (length s)"
    by (auto simp: prints_def out_start_def)
  have "(ucast (word_of_nat (length s) :: 64 word) :: 32 word) = word_of_nat (length s)"
    by (simp add: unsigned_of_nat word_of_nat_eq_iff)
  with ps show ?thesis by (auto simp: printf_driver_def)
qed

end

section \<open>Properties\<close>

text \<open>C12: The decimal conversion of any 64-bit number fits \<open>_printf_driver\<close>'s buffer of 32 bytes, needs
  at most 20 digits, has no leading zero, and reads back as the number: with the sign character, as the
  signed value when the conversion is signed, and as the unsigned value when it is not.\<close>

theorem decimal_reads_back:
  "\<exists>s sign. longlong_to_string num_buffer n 32 flag = Inr (s, sign) \<and> length s \<le> 20 \<and>
     (hd s = CHR ''0'' \<longleftrightarrow> s = ''0'') \<and>
     (if flag_on flag SIGNEDFLAG
      then (if sign = CHR ''-'' then - int (read_number 10 s) else int (read_number 10 s)) = sint n
      else int (read_number 10 s) = uint n)"
proof -
  let ?m = "magnitude flag n"
  let ?s = "positional hextable 10 (unat ?m)"
  have eq: "longlong_to_string num_buffer n 32 flag = Inr (?s, sign_of flag n)"
    using longlong_to_string_eq [of num_buffer n flag] by (simp add: num_buffer_def)
  have "unat ?m < 2 ^ LENGTH(64)" by (rule unsigned_less)
  then have "unat ?m < 10 ^ Suc 19" by simp
  from positional_length [OF _ this] have l: "length ?s \<le> 20" by simp
  have h0: "hextable ! 0 = CHR ''0''" by (simp add: hextable_def)
  have h: "hd ?s = CHR ''0'' \<longleftrightarrow> ?s = ''0''"
  proof
    assume "hd ?s = CHR ''0''"
    then have "unat ?m = 0" using positional_leading [OF digit_tables(1), of 10 "unat ?m"] h0 by simp
    then show "?s = ''0''" by (simp add: positional.simps h0)
  qed simp
  have r: "read_number 10 ?s = unat ?m" by (simp add: read_positional [OF digit_tables(1)])
  have sg: "sign_of flag n = CHR ''-'' \<longleftrightarrow> flag_on flag SIGNEDFLAG \<and> sint n < 0"
    by (simp add: sign_of_def NUL_def)
  have range: "- (2 ^ 63) \<le> sint n" "sint n < 2 ^ 63" using sint_ge [of n] sint_lt [of n] by simp_all
  have "- n = word_of_int (- sint n)" by simp
  then have "uint (- n) = uint (word_of_int (- sint n) :: 64 word)" by (simp only:)
  also have "\<dots> = take_bit 64 (- sint n)" by (simp only: uint_word_of_int_eq) simp
  finally have "uint (- n) = take_bit 64 (- sint n)" .
  then have neg: "int (unat (- n)) = - sint n" if "sint n < 0"
    using that range by (simp add: take_bit_int_eq_self)
  have pos: "int (unat n) = sint n" if "\<not> sint n < 0"
    using that range by (simp add: uint_sint take_bit_int_eq_self)
  show ?thesis
    by (rule exI [of _ ?s], rule exI [of _ "sign_of flag n"])
      (use eq l h r sg neg pos in \<open>auto simp: magnitude_def\<close>)
qed

text \<open>C13: The hexadecimal conversion of any 64-bit number fits the same buffer, needs at most 16 digits, and
  reads back as the number in both alphabets.\<close>

theorem hexadecimal_reads_back:
  "\<exists>s. longlong_to_hexstring num_buffer u 32 flag = Inr s \<and> length s \<le> 16 \<and> s \<noteq> [] \<and> read_number 16 s = unat u"
proof -
  define table where "table = (if flag_on flag CAPSFLAG then hextable_caps else hextable)"
  have t: "digit_table table" by (simp add: table_def digit_tables)
  have "longlong_to_hexstring num_buffer u 32 flag = Inr (positional table 16 (unat u))"
    using longlong_to_hexstring_eq [of num_buffer u flag] by (simp add: num_buffer_def table_def)
  moreover have "unat u < 2 ^ LENGTH(64)" by (rule unsigned_less)
  then have "unat u < 16 ^ Suc 15" by simp
  from positional_length [OF _ this, of table] have "length (positional table 16 (unat u)) \<le> 16" by simp
  ultimately show ?thesis by (simp add: read_positional [OF t] positional_nonempty)
qed

text \<open>C14: Whatever the driver does, \<open>_printf_driver\<close> never calls it again after it has returned a negative
  value; it then returns that value, and otherwise the sum of what the driver returned, as an \<open>int\<close>.\<close>

theorem printf_return_value:
  assumes "printf_driver (logged print) fmt ap (w, []) = Inr (r, ps)" and "l = snd (world ps)"
  shows "list_all (\<lambda>e. 0 \<le> e) (butlast l) \<and>
         r = (if l \<noteq> [] \<and> last l < 0 then last l else sint (word_of_int (sum_list l) :: 32 word))"
proof -
  from printf_accounted [OF assms(1)] assms(2) have
    b: "list_all (\<lambda>e. 0 \<le> e) (butlast l)" and e: "err ps = (if l = [] then 0 else last l)"
    and c: "chars_written ps = word_of_int (sum_list (filter (\<lambda>e. 0 \<le> e) l))"
    and r: "r = (if err ps < 0 then err ps else sint (ucast (chars_written ps) :: 32 word))"
    by (auto simp: accounted_def Let_def)
  show ?thesis
  proof (cases "err ps < 0")
    case True
    with b e r show ?thesis by (auto split: if_splits)
  next
    case False
    have "list_all (\<lambda>e. 0 \<le> e) l"
    proof (cases "l = []")
      case nonempty: False
      with b e False have "list_all (\<lambda>e. 0 \<le> e) (butlast l)" "list_all (\<lambda>e. 0 \<le> e) [last l]" by simp_all
      then have "list_all (\<lambda>e. 0 \<le> e) (butlast l @ [last l])" by (simp only: list_all_append)
      then show ?thesis by (simp only: append_butlast_last_id [OF nonempty])
    qed simp
    then have "filter (\<lambda>e. 0 \<le> e) l = l" by (simp add: filter_id_conv list_all_iff)
    then have "(ucast (chars_written ps) :: 32 word) = word_of_int (sum_list l)"
      by (simp add: c unsigned_of_int word_of_int_eq_iff)
    with False b e r show ?thesis by auto
  qed
qed

text \<open>A driver that counts its calls and fails on the third.\<close>

definition failing_driver :: "nat driver" where
  "failing_driver s k = Inr (if k = 2 then - 5 else int (length s), k + 1)"

lemma printf_return_value_witness:
  "\<exists>ps. printf_driver (logged failing_driver) ''ab%%cd%%ef'' [] (0, []) = Inr (- 5, ps) \<and>
     list_all (\<lambda>e. 0 \<le> e) (butlast (snd (world ps))) \<and> world ps = (3, [2, 1, - 5])"
proof -
  obtain ps where ps: "printf_driver (logged failing_driver) ''ab%%cd%%ef'' [] (0, []) = Inr (- 5, ps)"
    "world ps = (3, [2, 1, - 5])"
    by (simp add: printf_driver_def out_start_def OUTPUT_STRING_def OUTPUT_CHAR_def logged_def failing_driver_def
        conversion_def next_format_def is_digit_char_def printf_text.simps)
  from printf_return_value [OF this(1) refl] this show ?thesis by auto
qed

text \<open>
  What the left-justified branch does to a number: its sign is not printed.
\<close>

lemma left_justified_loses_sign:
  "render ''%-4d|'' [Va (- 7)] = Inr ''7   |''" "render ''%4d|'' [Va (- 7)] = Inr ''  -7|''"
  by code_simp+

text \<open>
  A precision is read as more digits of the width, and \<open>%hhn\<close> stores the count twice, the second time
  as two bytes: the chain of \<open>else if\<close> is broken after the one-byte store.
\<close>

lemma precision_widens: "render ''%5.2d'' [Va 7] = render ''%52d'' [Va 7]"
  by code_simp

lemma byte_count_stored_twice: "count_stores (HALFFLAG OR HALFHALFFLAG) p n = [(p, 1, n), (p, 2, n)]"
  by (simp add: count_stores_def flag_on_def format_flags)

end
