(* ===== verification/Console.thy ===== *)
theory Console
  imports Format PortIO
begin

text \<open>
  \<open>driver/console/console.c\<close>, \<open>libc/stdio.c\<close>: the text console of the CGA frame buffer, mirrored to
  the serial port, and \<open>printf\<close> on top of it.

  The frame buffer is a function from cell numbers to 16-bit cells: cell \<open>80 y + x\<close> is the one
  \<open>ANCHOR_BUF(x, y)\<close> addresses. The code computes cell numbers outside the 2000 cells of the screen in
  a few cases, and the model writes those cells too. The cursor position is kept in \<open>char\<close> fields,
  here 8-bit words read as signed numbers.
\<close>

section \<open>State\<close>

definition FRAME_WIDTH :: int where "FRAME_WIDTH = 80"
definition FRAME_HEIGHT :: int where "FRAME_HEIGHT = 25"
definition CURSOR_POS_MSB :: byte where "CURSOR_POS_MSB = 0x0E"
definition CURSOR_POS_LSB :: byte where "CURSOR_POS_LSB = 0x0F"
definition CGA_INDEX_PORT :: port where "CGA_INDEX_PORT = 0x3D4"
definition CGA_DATA_PORT :: port where "CGA_DATA_PORT = 0x3D5"

record window =
  wd_x1 :: int
  wd_x2 :: int
  wd_y1 :: int
  wd_y2 :: int

record cursor =
  cs_x :: "8 word"
  cs_y :: "8 word"
  default_attr :: "8 word"

record console =
  wd :: window
  cs :: cursor
  fb :: "int \<Rightarrow> 16 word"
  ports :: io
  devices :: device

definition ANCHOR_BUF :: "int \<Rightarrow> int \<Rightarrow> int" where
  "ANCHOR_BUF x y = FRAME_WIDTH * y + x"

definition outb_console :: "port \<Rightarrow> byte \<Rightarrow> console \<Rightarrow> console" where
  "outb_console p b c = c\<lparr>ports := outb p b (ports c)\<rparr>"

section \<open>Operations\<close>

definition place :: "int \<Rightarrow> int \<Rightarrow> console \<Rightarrow> console" where
  "place x y c =
     (let w = (word_of_int (x + y * 80) :: 16 word);
          c = outb_console CGA_INDEX_PORT CURSOR_POS_LSB c;
          c = outb_console CGA_DATA_PORT (ucast (w AND 0xff)) c;
          c = outb_console CGA_INDEX_PORT CURSOR_POS_MSB c;
          c = outb_console CGA_DATA_PORT (ucast (drop_bit 8 w AND 0xff)) c
      in c\<lparr>cs := (cs c)\<lparr>cs_x := word_of_int x, cs_y := word_of_int y\<rparr>\<rparr>)"

definition read_pos_value :: "console \<Rightarrow> int \<Rightarrow> int \<Rightarrow> 16 word" where
  "read_pos_value c x y = fb c (ANCHOR_BUF x y)"

definition set_pos_value :: "int \<Rightarrow> int \<Rightarrow> 16 word \<Rightarrow> console \<Rightarrow> console" where
  "set_pos_value x y v c = c\<lparr>fb := (fb c)(ANCHOR_BUF x y := v)\<rparr>"

definition char_cell :: "8 word \<Rightarrow> 8 word \<Rightarrow> 16 word" where
  "char_cell attr ch = push_bit 8 (ucast attr) OR ucast ch"

definition console_display_char :: "int \<Rightarrow> int \<Rightarrow> 8 word \<Rightarrow> 8 word \<Rightarrow> console \<Rightarrow> console" where
  "console_display_char x y attr ch c = c\<lparr>fb := (fb c)(ANCHOR_BUF x y := char_cell attr ch)\<rparr>"

fun display_from :: "int \<Rightarrow> 8 word \<Rightarrow> 8 word list \<Rightarrow> console \<Rightarrow> console" where
  "display_from p attr [] c = c"
| "display_from p attr (b # s) c = display_from (p + 1) attr s (c\<lparr>fb := (fb c)(p := char_cell attr b)\<rparr>)"

definition console_display_str :: "int \<Rightarrow> int \<Rightarrow> 8 word \<Rightarrow> 8 word list \<Rightarrow> console \<Rightarrow> console" where
  "console_display_str x y attr s c = display_from (ANCHOR_BUF x y) attr s c"

definition clear_console :: "console \<Rightarrow> console" where
  "clear_console c =
     (let w = wd c; attr = default_attr (cs c);
          c = fold (\<lambda>y. fold (\<lambda>x. console_display_char x y attr 32) [wd_x1 w .. wd_x2 w]) [wd_y1 w .. wd_y2 w] c
      in c\<lparr>cs := (cs c)\<lparr>cs_x := word_of_int (wd_x1 w), cs_y := word_of_int (wd_y1 w)\<rparr>\<rparr>)"

definition copy_up :: "int \<Rightarrow> int \<Rightarrow> console \<Rightarrow> console" where
  "copy_up y x c = set_pos_value x (y - 1) (read_pos_value c x y) c"

definition scroll :: "console \<Rightarrow> console" where
  "scroll c =
     (let w = wd c; attr = default_attr (cs c);
          c = fold (\<lambda>y. fold (copy_up y) [wd_x1 w .. wd_x2 w]) [wd_y1 w + 1 .. wd_y2 w] c
      in fold (\<lambda>x. set_pos_value x (wd_y2 w) (push_bit 8 (ucast attr))) [wd_x1 w .. wd_x2 w] c)"

definition next_line :: "int \<Rightarrow> console \<Rightarrow> int \<times> console" where
  "next_line y c = (if y = wd_y2 (wd c) then (y, scroll c) else (y + 1, c))"

definition console_putc :: "char \<Rightarrow> console \<Rightarrow> console" where
  "console_putc ch c =
     (let x = sint (cs_x (cs c)); y = sint (cs_y (cs c)); w = wd c; attr = default_attr (cs c) in
      if ch = CHR 0x09 then
        (if wd_x2 w + 1 \<le> x + 8
         then let (y, c) = next_line y c in place (wd_x1 w) y c
         else place (((x + 8) + 0x07) AND 0xf8) y c)
      else if ch = CHR 0x0D then place (wd_x1 w) y c
      else if ch = CHR 0x0A then let (y, c) = next_line y c in place x y c
      else if ch = CHR 0x08 then place (x - 1) y (console_display_char (x - 1) y attr 32 c)
      else
        let c = console_display_char x y attr (of_char ch) c in
        if wd_x2 w + 1 \<le> x + 1
        then let (y, c) = next_line y c in place (wd_x1 w) y c
        else place (x + 1) y c)"

definition uart_console :: "char \<Rightarrow> console \<Rightarrow> console result" where
  "uart_console ch c =
     (case uart_putc (devices c) (of_char ch) (ports c) of
        None \<Rightarrow> Inl Diverges
      | Some io \<Rightarrow> Inr (c\<lparr>ports := io\<rparr>))"

text \<open>The loop of \<open>console_put_str\<close> over the first \<open>len\<close> characters, the list that is passed.\<close>

fun put_loop :: "string \<Rightarrow> console \<Rightarrow> console result" where
  "put_loop [] c = Inr c"
| "put_loop (ch # s) c =
     (let c = (if ch = CHR 0x0A then console_putc (CHR 0x0D) c else c)
      in bindE (uart_console ch (console_putc ch c)) (put_loop s))"

definition console_put_str :: "string \<Rightarrow> console \<Rightarrow> (int \<times> console) result" where
  "console_put_str s c =
     bindE (put_loop s c) (\<lambda>c. Inr (sint (word_of_nat (length s) :: 32 word), c))"

definition console_init :: "console \<Rightarrow> console" where
  "console_init c =
     (let c = c\<lparr>wd := \<lparr>wd_x1 = 0, wd_x2 = FRAME_WIDTH - 1, wd_y1 = 0, wd_y2 = FRAME_HEIGHT - 1\<rparr>,
                cs := (cs c)\<lparr>cs_x := 0, cs_y := 0, default_attr := 0x07\<rparr>\<rparr>
      in place 0 0 (clear_console c))"

section \<open>\<open>printf\<close> (\<open>libc/stdio.c\<close>)\<close>

definition vfprintf :: "string \<Rightarrow> va_slot list \<Rightarrow> console \<Rightarrow> (int \<times> console out_state) result" where
  "vfprintf fmt ap c = printf_driver console_put_str fmt ap c"

definition kprintf :: "string \<Rightarrow> va_slot list \<Rightarrow> console \<Rightarrow> (int \<times> console) result" where
  "kprintf fmt ap c = bindE (vfprintf fmt ap c) (\<lambda>(e, ps). Inr (e, world ps))"

section \<open>Cells\<close>

lemma ANCHOR_BUF_inj:
  assumes "0 \<le> x" "x < 80" "0 \<le> x'" "x' < 80"
  shows "ANCHOR_BUF x y = ANCHOR_BUF x' y' \<longleftrightarrow> x = x' \<and> y = y'"
proof -
  consider "y = y'" | "y + 1 \<le> y'" | "y' + 1 \<le> y" by linarith
  then show ?thesis using assms by cases (auto simp: ANCHOR_BUF_def FRAME_WIDTH_def)
qed

lemma fold_copy_up:
  "set xs \<subseteq> {0..<80} \<Longrightarrow> distinct xs \<Longrightarrow>
   fold (copy_up y) xs c =
     c\<lparr>fb := \<lambda>p. if \<exists>x \<in> set xs. p = ANCHOR_BUF x (y - 1) then fb c (p + 80) else fb c p\<rparr>"
proof (induction xs arbitrary: c)
  case (Cons x xs c)
  have s: "ANCHOR_BUF x' (y - 1) + 80 = ANCHOR_BUF x' y" for x' by (simp add: ANCHOR_BUF_def FRAME_WIDTH_def)
  have d: "ANCHOR_BUF x' y \<noteq> ANCHOR_BUF x (y - 1)" if "x' \<in> set xs" for x'
    using that Cons.prems by (subst ANCHOR_BUF_inj) auto
  have n: "ANCHOR_BUF x (y - 1) \<noteq> ANCHOR_BUF x' (y - 1)" if "x' \<in> set xs" for x'
    using that Cons.prems by (subst ANCHOR_BUF_inj) auto
  show ?case
    using Cons d n by (auto simp: copy_up_def set_pos_value_def read_pos_value_def s fun_eq_iff
        intro!: console.equality)
qed simp

text \<open>The window \<open>console_init\<close> sets up, the whole screen.\<close>

definition full_window :: window where
  "full_window = \<lparr>wd_x1 = 0, wd_x2 = 79, wd_y1 = 0, wd_y2 = 24\<rparr>"

lemma in_row: "(\<exists>x \<in> {0..79}. p = ANCHOR_BUF x y) \<longleftrightarrow> 80 * y \<le> p \<and> p < 80 * y + 80"
proof
  assume "80 * y \<le> p \<and> p < 80 * y + 80"
  then have "p = ANCHOR_BUF (p - 80 * y) y" "p - 80 * y \<in> {0..79}"
    by (auto simp: ANCHOR_BUF_def FRAME_WIDTH_def)
  then show "\<exists>x \<in> {0..79}. p = ANCHOR_BUF x y" by blast
qed (auto simp: ANCHOR_BUF_def FRAME_WIDTH_def)

lemma copy_row:
  "fold (copy_up y) [0..79] c =
     c\<lparr>fb := \<lambda>p. if 80 * (y - 1) \<le> p \<and> p < 80 * y then fb c (p + 80) else fb c p\<rparr>"
proof -
  have "80 * (y - 1) + 80 = 80 * y" by simp
  with in_row [of _ "y - 1"] show ?thesis
    by (subst fold_copy_up) auto
qed

lemma copy_rows:
  "fold (\<lambda>y. fold (copy_up y) [0..79]) [1..int k] c =
     c\<lparr>fb := \<lambda>p. if 0 \<le> p \<and> p < 80 * int k then fb c (p + 80) else fb c p\<rparr>"
proof (induction k)
  case (Suc k)
  have "[1..int (Suc k)] = [1..int k] @ [int k + 1]" by (simp add: upto_rec2 add.commute)
  with Suc show ?case by (auto simp: copy_row fun_eq_iff intro!: console.equality)
qed (auto intro!: console.equality simp: fun_eq_iff)

lemma fold_set_row:
  "fold (\<lambda>x. set_pos_value x y v) xs c =
     c\<lparr>fb := \<lambda>p. if \<exists>x \<in> set xs. p = ANCHOR_BUF x y then v else fb c p\<rparr>"
  by (induction xs arbitrary: c) (auto simp: set_pos_value_def fun_eq_iff intro!: console.equality)

lemma scroll_eq:
  assumes "wd c = full_window"
  shows "scroll c = c\<lparr>fb := \<lambda>p. if 0 \<le> p \<and> p < 1920 then fb c (p + 80)
                              else if 1920 \<le> p \<and> p < 2000 then push_bit 8 (ucast (default_attr (cs c)))
                              else fb c p\<rparr>"
proof -
  have "fold (\<lambda>y. fold (copy_up y) [0..79]) [1..24] c =
     c\<lparr>fb := \<lambda>p. if 0 \<le> p \<and> p < 1920 then fb c (p + 80) else fb c p\<rparr>"
    using copy_rows [of 24 c] by simp
  with assms show ?thesis
    by (simp add: scroll_def full_window_def Let_def fold_set_row in_row)
      (auto simp: fun_eq_iff intro!: console.equality)
qed

lemma fold_clear_row:
  "fold (\<lambda>x. console_display_char x y attr b) xs c =
     c\<lparr>fb := \<lambda>p. if \<exists>x \<in> set xs. p = ANCHOR_BUF x y then char_cell attr b else fb c p\<rparr>"
  by (induction xs arbitrary: c) (auto simp: console_display_char_def fun_eq_iff intro!: console.equality)

lemma clear_rows:
  "fold (\<lambda>y. fold (\<lambda>x. console_display_char x y attr b) [0..79]) [0..int k - 1] c =
     c\<lparr>fb := \<lambda>p. if 0 \<le> p \<and> p < 80 * int k then char_cell attr b else fb c p\<rparr>"
proof (induction k)
  case (Suc k)
  have "[0..int (Suc k) - 1] = [0..int k - 1] @ [int k]" by (simp add: upto_rec2)
  with Suc show ?case by (auto simp: fold_clear_row in_row fun_eq_iff intro!: console.equality)
qed (auto intro!: console.equality simp: fun_eq_iff)

lemma clear_console_eq:
  assumes "wd c = full_window"
  shows "clear_console c = c\<lparr>fb := \<lambda>p. if 0 \<le> p \<and> p < 2000 then char_cell (default_attr (cs c)) 32 else fb c p,
                             cs := (cs c)\<lparr>cs_x := 0, cs_y := 0\<rparr>\<rparr>"
  using clear_rows [where k = 25 and attr = "default_attr (cs c)" and b = 32 and c = c] assms
  by (simp add: clear_console_def full_window_def Let_def)

section \<open>The cursor stays on the screen\<close>

definition cursor_at :: "console \<Rightarrow> int \<times> int" where
  "cursor_at c = (sint (cs_x (cs c)), sint (cs_y (cs c)))"

definition console_ok :: "console \<Rightarrow> bool" where
  "console_ok c \<longleftrightarrow> wd c = full_window \<and> 0 \<le> sint (cs_x (cs c)) \<and> sint (cs_x (cs c)) < 80 \<and>
     0 \<le> sint (cs_y (cs c)) \<and> sint (cs_y (cs c)) < 25"

text \<open>The characters that leave the cursor on the screen wherever it is on it.\<close>

definition keeps_cursor :: "char \<Rightarrow> console \<Rightarrow> bool" where
  "keeps_cursor ch c \<longleftrightarrow>
     (ch = CHR 0x08 \<longrightarrow> sint (cs_x (cs c)) \<noteq> 0) \<and>
     (ch = CHR 0x09 \<longrightarrow> sint (cs_x (cs c)) \<le> 64 \<or> 72 \<le> sint (cs_x (cs c)))"

lemma sint_small: "-128 \<le> k \<Longrightarrow> k < 128 \<Longrightarrow> sint (word_of_int k :: 8 word) = k"
  by (simp add: signed_of_int signed_take_bit_int_eq_self)

lemma place_simps [simp]:
  "wd (place x y c) = wd c" "fb (place x y c) = fb c" "devices (place x y c) = devices c"
  "cs_x (cs (place x y c)) = word_of_int x" "cs_y (cs (place x y c)) = word_of_int y"
  "default_attr (cs (place x y c)) = default_attr (cs c)"
  by (simp_all add: place_def outb_console_def Let_def)

text \<open>The cursor is on the screen, and nothing outside the frame buffer was written.\<close>

definition stays :: "console \<Rightarrow> console \<Rightarrow> bool" where
  "stays c c' \<longleftrightarrow> console_ok c' \<and> (\<forall>p. p < 0 \<or> 2000 \<le> p \<longrightarrow> fb c' p = fb c p) \<and> devices c' = devices c"

lemma place_stays:
  assumes "wd c' = full_window" "\<forall>p. p < 0 \<or> 2000 \<le> p \<longrightarrow> fb c' p = fb c p" "devices c' = devices c"
    and "0 \<le> x" "x < 80" "0 \<le> y" "y < 25"
  shows "stays c (place x y c')"
  using assms by (simp add: stays_def console_ok_def sint_small)

lemma next_line_stays:
  assumes "wd c' = full_window" "\<forall>p. p < 0 \<or> 2000 \<le> p \<longrightarrow> fb c' p = fb c p" "devices c' = devices c"
    and "0 \<le> x" "x < 80" "0 \<le> y" "y < 25"
  shows "stays c (case next_line y c' of (y, c) \<Rightarrow> place x y c)"
proof (cases "y = 24")
  case True
  with assms place_stays [of "scroll c'" c x 24] show ?thesis
    by (simp add: next_line_def full_window_def scroll_eq)
next
  case False
  with assms place_stays [of c' c x "y + 1"] show ?thesis by (simp add: next_line_def full_window_def)
qed

lemma display_on_screen:
  assumes "0 \<le> x" "x < 80" "0 \<le> y" "y < 25"
  shows "\<forall>p. p < 0 \<or> 2000 \<le> p \<longrightarrow> fb (console_display_char x y attr b c) p = fb c p"
  using assms by (auto simp: console_display_char_def ANCHOR_BUF_def FRAME_WIDTH_def)

lemma console_display_char_simps [simp]:
  "wd (console_display_char x y attr b c) = wd c" "devices (console_display_char x y attr b c) = devices c"
  "cs (console_display_char x y attr b c) = cs c" "ports (console_display_char x y attr b c) = ports c"
  by (simp_all add: console_display_char_def)

lemma console_putc_stays:
  assumes ok: "console_ok c" and k: "keeps_cursor ch c"
  shows "stays c (console_putc ch c)"
proof -
  let ?x = "sint (cs_x (cs c))" and ?y = "sint (cs_y (cs c))"
  from ok have w: "wd c = full_window" and b: "0 \<le> ?x" "?x < 80" "0 \<le> ?y" "?y < 25"
    by (auto simp: console_ok_def)
  have x2: "wd_x1 (wd c) = 0" "wd_x2 (wd c) = 79" by (simp_all add: w full_window_def)
  consider "ch = CHR 0x09" | "ch = CHR 0x0D" | "ch = CHR 0x0A" | "ch = CHR 0x08"
    | "ch \<notin> {CHR 0x09, CHR 0x0D, CHR 0x0A, CHR 0x08}" by blast
  then show ?thesis
  proof cases
    case 1
    with k have "?x \<le> 64 \<or> 72 \<le> ?x" by (simp add: keeps_cursor_def)
    then show ?thesis
    proof
      assume x: "?x \<le> 64"
      have "((?x + 8) + 7) AND 0xf8 \<le> (?x + 8) + 7" "0 \<le> ((?x + 8) + 7) AND 0xf8"
        using b by (simp_all add: AND_upper1)
      with x b w 1 x2 place_stays [of c c "((?x + 8) + 7) AND 0xf8" ?y]
      show ?thesis by (simp add: console_putc_def Let_def)
    next
      assume "72 \<le> ?x"
      with b w 1 x2 next_line_stays [of c c 0 ?y] show ?thesis by (simp add: console_putc_def Let_def)
    qed
  next
    case 2
    with b w x2 place_stays [of c c 0 ?y] show ?thesis by (simp add: console_putc_def Let_def)
  next
    case 3
    with b w x2 next_line_stays [of c c ?x ?y] show ?thesis by (simp add: console_putc_def Let_def)
  next
    case 4
    with k b have "0 \<le> ?x - 1" "?x - 1 < 80" by (simp_all add: keeps_cursor_def)
    with 4 b w x2 place_stays [of "console_display_char (?x - 1) ?y (default_attr (cs c)) 32 c" c "?x - 1" ?y]
      display_on_screen [of "?x - 1" ?y]
    show ?thesis by (simp add: console_putc_def Let_def)
  next
    case 5
    let ?c = "console_display_char ?x ?y (default_attr (cs c)) (of_char ch) c"
    from 5 b w x2 place_stays [of ?c c "?x + 1" ?y] next_line_stays [of ?c c 0 ?y] display_on_screen [of ?x ?y]
    show ?thesis by (simp add: console_putc_def Let_def)
  qed
qed

section \<open>The serial line\<close>

lemma transmitted_place [simp]: "transmitted (ports (place x y c)) = transmitted (ports c)"
  by (simp add: place_def outb_console_def Let_def CGA_INDEX_PORT_def CGA_DATA_PORT_def uart_io_port_def)

lemma set_pos_value_ports [simp]:
  "ports (set_pos_value x y v c) = ports c" "devices (set_pos_value x y v c) = devices c"
  by (simp_all add: set_pos_value_def)

lemma fold_keeps: "(\<And>x c. P (f x c) = P c) \<Longrightarrow> P (fold f xs c) = P c"
  by (induction xs arbitrary: c) simp_all

lemma scroll_quiet [simp]: "ports (scroll c) = ports c" "devices (scroll c) = devices c"
  by (simp_all add: scroll_def Let_def copy_up_def fold_keeps [where P = ports] fold_keeps [where P = devices])

lemma console_putc_quiet [simp]:
  "transmitted (ports (console_putc ch c)) = transmitted (ports c)"
  "devices (console_putc ch c) = devices c"
  by (simp_all add: console_putc_def Let_def next_line_def)

lemma uart_console_sends:
  assumes "transmitter_drains (devices c)"
  shows "\<exists>c'. uart_console ch c = Inr c' \<and> devices c' = devices c \<and>
           transmitted (ports c') = transmitted (ports c) @ [of_char ch]"
  using uart_putc_sends [OF assms, of "of_char ch" "ports c"] by (auto simp: uart_console_def)

lemma put_loop_sends:
  "transmitter_drains (devices c) \<Longrightarrow>
   \<exists>c'. put_loop s c = Inr c' \<and> devices c' = devices c \<and>
        transmitted (ports c') = transmitted (ports c) @ map of_char s"
proof (induction s arbitrary: c)
  case (Cons ch s)
  define c1 where "c1 = console_putc ch (if ch = CHR 0x0A then console_putc (CHR 0x0D) c else c)"
  have "transmitter_drains (devices c1)" "transmitted (ports c1) = transmitted (ports c)" "devices c1 = devices c"
    using Cons.prems by (auto simp: c1_def)
  from uart_console_sends [OF this(1), of ch] this(2,3) obtain c2 where
    c2: "uart_console ch c1 = Inr c2" "devices c2 = devices c"
      "transmitted (ports c2) = transmitted (ports c) @ [of_char ch]" by auto
  with Cons.IH [of c2] Cons.prems show ?case by (auto simp: c1_def Let_def)
qed simp

definition serial_text :: "console \<Rightarrow> string" where
  "serial_text c = map (\<lambda>b. char_of (unat b)) (transmitted (ports c))"

lemma char_of_byte: "char_of (unat (of_char ch :: 8 word)) = ch"
proof -
  have "(of_char ch :: 8 word) = word_of_nat (of_char ch)" by (rule of_nat_of_char [symmetric])
  then have "unat (of_char ch :: 8 word) = of_char ch mod 256" by (simp only: unat_of_nat) simp
  then show ?thesis by simp
qed

interpretation kconsole: appending_driver console_put_str "\<lambda>c :: console. transmitter_drains (devices c)" serial_text
proof
  fix c :: console and s
  assume d: "transmitter_drains (devices c)" and l: "length (s :: string) < 2 ^ 31"
  from put_loop_sends [OF d, of s] obtain c' where
    c': "put_loop s c = Inr c'" "devices c' = devices c"
      "transmitted (ports c') = transmitted (ports c) @ map of_char s" by auto
  have "map (\<lambda>b. char_of (unat b)) (map of_char s :: 8 word list) = s" by (induction s) (simp_all add: char_of_byte)
  moreover have "sint (word_of_nat (length s) :: 32 word) = int (length s)"
    using l by (simp add: signed_of_nat signed_take_bit_int_eq_self)
  ultimately show "\<exists>w'. console_put_str s c = Inr (int (length s), w') \<and> transmitter_drains (devices w') \<and>
      serial_text w' = serial_text c @ s"
    using c' d by (auto simp: console_put_str_def serial_text_def)
qed

section \<open>Properties\<close>

text \<open>A console whose serial port is always ready, right after start-up.\<close>

definition ready_console :: console where
  "ready_console =
     console_init \<lparr>wd = full_window, cs = \<lparr>cs_x = 0, cs_y = 0, default_attr = 0\<rparr>, fb = \<lambda>_. 0,
       ports = [], devices = \<lambda>_ _. 0x60\<rparr>"

lemma console_init_eq:
  "console_init c = place 0 0 (c\<lparr>wd := full_window, fb := \<lambda>p. if 0 \<le> p \<and> p < 2000 then char_cell 7 32 else fb c p,
      cs := (cs c)\<lparr>default_attr := 7, cs_x := 0, cs_y := 0\<rparr>\<rparr>)"
  by (simp add: console_init_def Let_def FRAME_WIDTH_def FRAME_HEIGHT_def full_window_def [symmetric] clear_console_eq cong: if_cong)

lemma ready_console_simps:
  "console_ok ready_console" "devices ready_console = (\<lambda>_ _. 0x60)" "serial_text ready_console = []"
  "fb ready_console 0 = char_cell 7 32" "default_attr (cs ready_console) = 7"
  by (simp_all add: ready_console_def console_init_eq console_ok_def serial_text_def) (simp add: transmitted_def)

lemma ready_console_drains: "transmitter_drains (devices ready_console)"
  by (simp add: ready_console_simps transmitter_drains_def)

text \<open>C15: \<open>printf\<close> on the console sends the rendering of its format and arguments to the serial line,
  after whatever was sent before, and returns its length.\<close>

theorem printf_sends_rendering:
  assumes "transmitter_drains (devices c)" and "length fmt < 2 ^ 31" and "list_all short_slot ap"
    and "render fmt ap = Inr s"
  shows "\<exists>c'. kprintf fmt ap c = Inr (sint (word_of_nat (length s) :: 32 word), c') \<and>
           serial_text c' = serial_text c @ s"
  using kconsole.printf_prints [OF assms] by (auto simp: kprintf_def vfprintf_def)

lemma app_message:
  "render ''app thread %d running 0x%x '' [Va 1, Va 26] = Inr ''app thread 1 running 0x1a ''"
  by code_simp

lemma printf_sends_rendering_witness:
  "\<exists>c'. kprintf ''app thread %d running 0x%x '' [Va 1, Va 26] ready_console = Inr (26, c') \<and>
     serial_text c' = ''app thread 1 running 0x1a ''"
  using printf_sends_rendering [OF ready_console_drains _ _ app_message]
  by (simp add: short_slot_def ready_console_simps)

text \<open>C16: \<open>scroll\<close> on the whole-screen window moves every line up by one, fills the last line with blanks
  of the default attribute, and writes nothing outside the frame buffer.\<close>

theorem scroll_moves_lines_up:
  assumes "wd c = full_window"
  shows "scroll c = c\<lparr>fb := fb (scroll c)\<rparr> \<and>
     (\<forall>x \<in> {0..79}. \<forall>y \<in> {0..23}. fb (scroll c) (ANCHOR_BUF x y) = fb c (ANCHOR_BUF x (y + 1))) \<and>
     (\<forall>x \<in> {0..79}. fb (scroll c) (ANCHOR_BUF x 24) = push_bit 8 (ucast (default_attr (cs c)))) \<and>
     (\<forall>p. p < 0 \<or> 2000 \<le> p \<longrightarrow> fb (scroll c) p = fb c p)"
  using assms by (auto simp: scroll_eq ANCHOR_BUF_def FRAME_WIDTH_def algebra_simps)

lemma scroll_moves_lines_up_witness:
  "fb (scroll (console_putc (CHR 0x0A) ready_console)) (ANCHOR_BUF 3 23) =
     fb (console_putc (CHR 0x0A) ready_console) (ANCHOR_BUF 3 24)"
proof -
  have "keeps_cursor (CHR 0x0A) ready_console" by (simp add: keeps_cursor_def)
  from console_putc_stays [OF ready_console_simps(1) this]
  have "wd (console_putc (CHR 0x0A) ready_console) = full_window" by (simp add: stays_def console_ok_def)
  from scroll_moves_lines_up [OF this] show ?thesis by simp
qed

lemma put_loop_stays:
  "console_ok c \<Longrightarrow> CHR 0x08 \<notin> set s \<Longrightarrow> CHR 0x09 \<notin> set s \<Longrightarrow> put_loop s c = Inr c' \<Longrightarrow> stays c c'"
proof (induction s arbitrary: c)
  case Nil
  then show ?case by (simp add: stays_def)
next
  case (Cons ch s c)
  let ?c0 = "if ch = CHR 0x0A then console_putc (CHR 0x0D) c else c"
  have 0: "stays c ?c0"
    using console_putc_stays [of c "CHR 0x0D"] Cons.prems(1) by (simp add: keeps_cursor_def stays_def)
  then have "console_ok ?c0" by (simp add: stays_def)
  moreover have "keeps_cursor ch ?c0" using Cons.prems(2,3) by (auto simp: keeps_cursor_def)
  ultimately have 1: "stays ?c0 (console_putc ch ?c0)" by (rule console_putc_stays)
  from Cons.prems(4) obtain c2 where c2: "uart_console ch (console_putc ch ?c0) = Inr c2" "put_loop s c2 = Inr c'"
    by (auto simp: Let_def)
  have 2: "stays (console_putc ch ?c0) c2"
    using c2(1) 1 by (auto simp: uart_console_def stays_def console_ok_def split: option.splits)
  then have "console_ok c2" by (simp add: stays_def)
  from Cons.IH [OF this _ _ c2(2)] Cons.prems(2,3) 0 1 2 show ?case by (simp add: stays_def)
qed

text \<open>C17: Writing a string without tabs and backspaces keeps the cursor on the screen and touches no
  memory outside the frame buffer.\<close>

theorem put_str_stays_on_screen:
  assumes "console_ok c" and "CHR 0x08 \<notin> set s" and "CHR 0x09 \<notin> set s" and "console_put_str s c = Inr (r, c')"
  shows "console_ok c' \<and> (\<forall>p. p < 0 \<or> 2000 \<le> p \<longrightarrow> fb c' p = fb c p)"
  using put_loop_stays [OF assms(1-3)] assms(4) by (auto simp: console_put_str_def stays_def)

lemma put_str_stays_on_screen_witness:
  "\<exists>r c'. console_put_str ''boot'' ready_console = Inr (r, c') \<and> console_ok c' \<and> fb c' 2000 = fb ready_console 2000"
proof -
  from kconsole.appends [OF ready_console_drains, of "''boot''"] obtain c' where
    c': "console_put_str ''boot'' ready_console = Inr (4, c')" by auto
  from put_str_stays_on_screen [OF ready_console_simps(1) _ _ c'] have "console_ok c'" "fb c' 2000 = fb ready_console 2000"
    by simp_all
  with c' show ?thesis by blast
qed

text \<open>
  A tab in columns 65 to 71 sends the cursor to column 80; on the last line the next character is
  written behind the frame buffer.
\<close>

lemma tab_leaves_the_screen:
  "\<exists>c. console_ok c \<and> fst (cursor_at (console_putc (CHR 0x09) c)) = 80 \<and>
     fb (console_putc (CHR ''x'') (console_putc (CHR 0x09) c)) 2000 \<noteq> fb c 2000"
proof -
  define c where "c = place 70 24 (ready_console\<lparr>fb := \<lambda>_. 0\<rparr>)"
  have ok: "wd ready_console = full_window" using ready_console_simps(1) by (simp add: console_ok_def)
  have s: "sint (70 :: 8 word) = 70" "sint (24 :: 8 word) = 24" "sint (80 :: 8 word) = 80" by simp_all
  have c: "wd c = full_window" "sint (cs_x (cs c)) = 70" "sint (cs_y (cs c)) = 24" "fb c = (\<lambda>_. 0)"
    "default_attr (cs c) = 7"
    by (simp_all add: c_def s ok ready_console_simps)
  define c1 where "c1 = console_putc (CHR 0x09) c"
  have a: "(85 :: int) AND 248 = 80" by simp
  have c1: "cursor_at c1 = (80, 24)" "fb c1 = (\<lambda>_. 0)" "wd c1 = full_window" "default_attr (cs c1) = 7"
    by (simp_all add: c1_def console_putc_def c full_window_def cursor_at_def a s)
  then have "fb (console_putc (CHR ''x'') c1) 2000 = char_cell 7 (of_char (CHR ''x'')) \<or>
      fb (console_putc (CHR ''x'') c1) 2000 = fb (scroll (console_display_char 80 24 7 (of_char (CHR ''x'')) c1)) 2000"
    by (simp add: console_putc_def cursor_at_def full_window_def next_line_def)
  moreover have "fb (scroll (console_display_char 80 24 7 (of_char (CHR ''x'')) c1)) 2000 = char_cell 7 (of_char (CHR ''x''))"
    using c1(3) by (simp add: scroll_eq) (simp add: console_display_char_def ANCHOR_BUF_def FRAME_WIDTH_def)
  moreover have "char_cell 7 (of_char (CHR ''x'')) \<noteq> 0" by (simp add: char_cell_def)
  ultimately have "fb (console_putc (CHR ''x'') c1) 2000 \<noteq> fb c 2000" using c(4) by auto
  with c1(1) c show ?thesis
    by (intro exI [of _ c]) (simp add: c1_def [symmetric] console_ok_def)
qed

end
