(* ===== verification/Interrupt.thy ===== *)
theory Interrupt
  imports Console X86
begin

text \<open>
  \<open>driver/interrupt/interrupt.c\<close>, \<open>arch/x64/exception.c\<close> and \<open>libc/debug.c\<close>: the two cascaded
  interrupt controllers, the table of handlers, and the entry point of every exception and interrupt.

  A handler is a number for the function whose address is in the table; what the functions do is the
  parameter \<open>run\<close>, over the rest of the kernel, the field \<open>rest\<close>. The controllers are devices behind
  ports, as in \<open>PortIO\<close>. The preemption bracket of the \<open>printf\<close> macro belongs to the scheduler and is
  not repeated here.
\<close>

unbundle bit_operations_syntax

section \<open>State\<close>

definition PIC1 :: "32 word" where "PIC1 = 0x20"
definition PIC2 :: "32 word" where "PIC2 = 0xA0"
definition ICW1 :: byte where "ICW1 = 0x11"
definition INT_MAX_VECTORS :: "32 word" where "INT_MAX_VECTORS = 0x31"
definition INT_PIC2 :: "32 word" where "INT_PIC2 = 0x22"
definition PIC1_BASE :: "32 word" where "PIC1_BASE = 0x20"
definition PIC2_BASE :: "32 word" where "PIC2_BASE = 0x28"

lemmas pic_defs = PIC1_def PIC2_def ICW1_def INT_MAX_VECTORS_def INT_PIC2_def PIC1_BASE_def PIC2_BASE_def

record int_handler_struct =
  handler :: "nat option"
  handler_arg :: "64 word"

record 'w irq_state =
  con :: console
  irqMask0 :: byte
  irqMask1 :: byte
  interrupt_spinlock :: spinlock
  cpu_flags :: x64_flags
  int_handler_table :: "int_handler_struct list"
  rest :: 'w

type_synonym 'w runner = "nat \<Rightarrow> 64 word \<Rightarrow> 'w \<Rightarrow> (handler_return \<times> 'w) result"

definition pic_out :: "32 word \<Rightarrow> byte \<Rightarrow> 'w irq_state \<Rightarrow> 'w irq_state" where
  "pic_out p b s = s\<lparr>con := outb_console (ucast p) b (con s)\<rparr>"

definition pic_in :: "32 word \<Rightarrow> 'w irq_state \<Rightarrow> byte \<times> 'w irq_state" where
  "pic_in p s =
     (let (b, io) = inb (devices (con s)) (ucast p) (ports (con s))
      in (b, s\<lparr>con := (con s)\<lparr>ports := io\<rparr>\<rparr>))"

definition say :: "string \<Rightarrow> va_slot list \<Rightarrow> 'w irq_state \<Rightarrow> 'w irq_state result" where
  "say fmt ap s = bindE (kprintf fmt ap (con s)) (\<lambda>(e, c). Inr (s\<lparr>con := c\<rparr>))"

definition newline :: string where "newline = [CHR 0x0A]"
definition crlf :: string where "crlf = [CHR 0x0D, CHR 0x0A]"

definition irq_lock :: "'w irq_state \<Rightarrow> x64_flags \<times> 'w irq_state" where
  "irq_lock s =
     (let (st, (l, f)) = spinlock_save (interrupt_spinlock s, cpu_flags s)
      in (st, s\<lparr>interrupt_spinlock := l, cpu_flags := f\<rparr>))"

definition irq_unlock :: "x64_flags \<Rightarrow> 'w irq_state \<Rightarrow> 'w irq_state" where
  "irq_unlock st s =
     (let (l, f) = spinlock_restore st (interrupt_spinlock s, cpu_flags s)
      in s\<lparr>interrupt_spinlock := l, cpu_flags := f\<rparr>)"

section \<open>The controllers (\<open>interrupt.c\<close>)\<close>

definition map_interrupt_controller :: "32 word \<Rightarrow> 32 word \<Rightarrow> 'w irq_state \<Rightarrow> 'w irq_state" where
  "map_interrupt_controller pic1 pic2 s =
     (let s = pic_out PIC1 ICW1 s;
          s = pic_out PIC2 ICW1 s;
          s = pic_out (PIC1 + 1) (ucast pic1) s;
          s = pic_out (PIC2 + 1) (ucast pic2) s;
          s = pic_out (PIC1 + 1) 4 s;
          s = pic_out (PIC2 + 1) 2 s;
          s = pic_out (PIC1 + 1) 5 s;
          s = pic_out (PIC2 + 1) 1 s;
          s = pic_out (PIC1 + 1) 0xff s;
          s = pic_out (PIC2 + 1) 0xff s
      in s\<lparr>irqMask0 := 0xff, irqMask1 := 0xff\<rparr>)"

text \<open>Read the mask register, change it, write it, read it back.\<close>

definition rewrite_mask0 :: "(byte \<Rightarrow> byte) \<Rightarrow> 'w irq_state \<Rightarrow> 'w irq_state" where
  "rewrite_mask0 f s =
     (let (b, s) = pic_in (PIC1 + 1) s;
          s = pic_out (PIC1 + 1) (f b) s;
          (b, s) = pic_in (PIC1 + 1) s
      in s\<lparr>irqMask0 := b\<rparr>)"

definition rewrite_mask1 :: "(byte \<Rightarrow> byte) \<Rightarrow> 'w irq_state \<Rightarrow> 'w irq_state" where
  "rewrite_mask1 f s =
     (let (b, s) = pic_in (PIC2 + 1) s;
          s = pic_out (PIC2 + 1) (f b) s;
          (b, s) = pic_in (PIC2 + 1) s
      in s\<lparr>irqMask1 := b\<rparr>)"

definition master_line :: "bool \<Rightarrow> byte \<Rightarrow> 'w irq_state \<Rightarrow> 'w irq_state" where
  "master_line enable bitm s =
     (if enable \<and> irqMask0 s AND bitm \<noteq> 0 then rewrite_mask0 (\<lambda>m. m AND NOT bitm) s
      else if \<not> enable \<and> irqMask0 s AND bitm = 0 then rewrite_mask0 (\<lambda>m. bitm) s
      else s)"

definition slave_line :: "bool \<Rightarrow> byte \<Rightarrow> 'w irq_state \<Rightarrow> 'w irq_state" where
  "slave_line enable bitm s =
     (if enable \<and> irqMask1 s AND bitm \<noteq> 0 then rewrite_mask1 (\<lambda>m. m AND NOT bitm) s
      else if \<not> enable \<and> irqMask1 s AND bitm = 0 then rewrite_mask1 (\<lambda>m. m OR bitm) s
      else s)"

definition cascade_line :: "byte \<Rightarrow> 'w irq_state \<Rightarrow> 'w irq_state" where
  "cascade_line bitm s =
     (if irqMask1 s \<noteq> 0xff \<and> irqMask0 s AND bitm \<noteq> 0 then rewrite_mask0 (\<lambda>m. m AND NOT bitm) s
      else if irqMask1 s = 0 \<and> irqMask0 s AND bitm = 0 then rewrite_mask0 (\<lambda>m. m OR bitm) s
      else s)"

definition interrupt_enable :: "32 word \<Rightarrow> bool \<Rightarrow> 'w irq_state \<Rightarrow> 'w irq_state result" where
  "interrupt_enable vector enable s =
     (if PIC1_BASE \<le> vector \<and> vector < PIC1_BASE + 8
      then Inr (master_line enable (push_bit (unat (vector - PIC1_BASE)) 1) s)
      else if PIC2_BASE \<le> vector \<and> vector < PIC2_BASE + 8
      then Inr (cascade_line (push_bit (unat (INT_PIC2 - PIC1_BASE)) 1)
                 (slave_line enable (push_bit (unat (vector - PIC2_BASE)) 1) s))
      else say (''invalid PIC interrupt 0x%x'' @ crlf) [Va (ucast vector)] s)"

definition issue_eoi :: "32 word \<Rightarrow> 'w irq_state \<Rightarrow> 'w irq_state" where
  "issue_eoi vector s =
     (if PIC1_BASE \<le> vector \<and> vector \<le> PIC1_BASE + 7 then pic_out PIC1 0x20 s
      else if PIC2_BASE \<le> vector \<and> vector \<le> PIC2_BASE + 7 then pic_out PIC1 0x20 (pic_out PIC2 0x20 s)
      else s)"

definition platform_init_interrupts :: "'w irq_state \<Rightarrow> 'w irq_state result" where
  "platform_init_interrupts s =
     bindE (say (''init interrupt controller'' @ crlf) [] s) (\<lambda>s.
       Inr (map_interrupt_controller PIC1_BASE PIC2_BASE s))"

definition mask_interrupt :: "32 word \<Rightarrow> 'w irq_state \<Rightarrow> (int \<times> 'w irq_state) result" where
  "mask_interrupt vector s =
     (if INT_MAX_VECTORS \<le> vector
      then bindE (say (''vector 0x%x exceeds max interrupt vector 0x%x'' @ crlf)
                    [Va (ucast vector), Va (ucast INT_MAX_VECTORS)] s) (\<lambda>s. Inr (ERR_ARG, s))
      else let (st, s) = irq_lock s
           in bindE (interrupt_enable vector False s) (\<lambda>s. Inr (NO_ERR, irq_unlock st s)))"

definition mask_all_interrupt :: "'w irq_state \<Rightarrow> 'w irq_state" where
  "mask_all_interrupt s =
     (let (b, s) = pic_in (PIC1 + 1) s; s = s\<lparr>irqMask0 := b\<rparr>;
          (b, s) = pic_in (PIC2 + 1) s; s = s\<lparr>irqMask1 := b\<rparr>;
          s = pic_out (PIC1 + 1) 0xff s;
          s = pic_out (PIC2 + 1) 0xff s;
          (b, s) = pic_in (PIC1 + 1) s; s = s\<lparr>irqMask0 := b\<rparr>;
          (b, s) = pic_in (PIC2 + 1) s
      in s\<lparr>irqMask1 := b\<rparr>)"

definition unmask_interrupt :: "bool \<Rightarrow> 32 word \<Rightarrow> 'w irq_state \<Rightarrow> (int \<times> 'w irq_state) result" where
  "unmask_interrupt dbg vector s =
     bindE (debug_assert dbg (vector < INT_MAX_VECTORS)) (\<lambda>_.
     let (st, s) = irq_lock s
     in bindE (interrupt_enable vector True s) (\<lambda>s. Inr (NO_ERR, irq_unlock st s)))"

section \<open>Handlers\<close>

definition table_entry :: "32 word \<Rightarrow> 'w irq_state \<Rightarrow> int_handler_struct result" where
  "table_entry vector s =
     (if unat vector < length (int_handler_table s) then Inr (int_handler_table s ! unat vector) else Inl OutOfBounds)"

definition platform_irq :: "bool \<Rightarrow> 'w runner \<Rightarrow> 32 word \<Rightarrow> 'w irq_state \<Rightarrow> (handler_return \<times> 'w irq_state) result" where
  "platform_irq dbg run vector s =
     bindE (debug_assert dbg (vector < INT_MAX_VECTORS)) (\<lambda>_.
     bindE (table_entry vector s) (\<lambda>e.
     bindE (case handler e of
              None \<Rightarrow> Inr (INT_NO_RESCHEDULE, rest s)
            | Some h \<Rightarrow> run h (handler_arg e) (rest s)) (\<lambda>(ret, w).
       Inr (ret, issue_eoi vector (s\<lparr>rest := w\<rparr>)))))"


section \<open>Exceptions (\<open>exception.c\<close>, \<open>debug.c\<close>)\<close>

record x64_iframe =
  fr_rdi :: "64 word"
  fr_rsi :: "64 word"
  fr_rbp :: "64 word"
  fr_rbx :: "64 word"
  fr_rdx :: "64 word"
  fr_rcx :: "64 word"
  fr_rax :: "64 word"
  fr_r8 :: "64 word"
  fr_r9 :: "64 word"
  fr_r10 :: "64 word"
  fr_r11 :: "64 word"
  fr_r12 :: "64 word"
  fr_r13 :: "64 word"
  fr_r14 :: "64 word"
  fr_r15 :: "64 word"
  fr_vector :: "64 word"
  fr_err_code :: "64 word"
  fr_rip :: "64 word"
  fr_cs :: "64 word"
  fr_rflag :: "64 word"
  fr_user_sp :: "64 word"
  fr_user_ss :: "64 word"

text \<open>The faulting address in \<open>cr2\<close> and the address of the frame are parameters.\<close>

definition dump_fault_frame :: "64 word \<Rightarrow> 64 word \<Rightarrow> x64_iframe \<Rightarrow> 'w irq_state \<Rightarrow> 'w irq_state result" where
  "dump_fault_frame cr2 frame_addr f s =
     bindE (say (''============ dump exception frame ============'' @ newline) [] s) (\<lambda>s.
     bindE (say ('' CS:  %016llx RIP: %016llx'' @ newline @ '' EFL: %016llx CR2: %016llx'' @ newline)
              [Va (fr_cs f), Va (fr_rip f), Va (fr_rflag f), Va cr2] s) (\<lambda>s.
     bindE (say ('' RAX: %016llx RBX: %016llx'' @ newline @ '' RCX: %016llx RDX: %016llx'' @ newline)
              [Va (fr_rax f), Va (fr_rbx f), Va (fr_rcx f), Va (fr_rdx f)] s) (\<lambda>s.
     bindE (say ('' RSI: %016llx RDI: %016llx'' @ newline @ '' RBP: %016llx RSP: %016llx'' @ newline)
              [Va (fr_rsi f), Va (fr_rdi f), Va (fr_rbp f), Va (fr_user_sp f)] s) (\<lambda>s.
     bindE (say ('' R8:  %016llx R9:  %016llx'' @ newline @ '' R10: %016llx R11: %016llx'' @ newline)
              [Va (fr_r8 f), Va (fr_r9 f), Va (fr_r10 f), Va (fr_r11 f)] s) (\<lambda>s.
     bindE (say ('' R12: %016llx R13: %016llx'' @ newline @ '' R14: %016llx R15: %016llx'' @ newline)
              [Va (fr_r12 f), Va (fr_r13 f), Va (fr_r14 f), Va (fr_r15 f)] s) (\<lambda>s.
     bindE (say (''err code:  %016llx'' @ newline) [Va (fr_err_code f)] s) (\<lambda>s.
     bindE (say (''vector no: %016llx'' @ newline) [Va (fr_vector f)] s) (\<lambda>s.
       if frame_addr \<noteq> 0
       then say (''bottom of stack at 0x%08x:'' @ newline) [Va (ucast (ucast frame_addr :: 32 word))] s
       else Inr s))))))))"

text \<open>
  How an entry ends: the handler returns to its caller, or the processor is halted with interrupts off
  in a loop that is never left.
\<close>

datatype 's outcome = Returned 's | Halted 's

definition platform_halt :: "'w irq_state \<Rightarrow> 'w irq_state outcome" where
  "platform_halt s = Halted (s\<lparr>cpu_flags := x64_cli (cpu_flags s)\<rparr>)"

definition platform_panic :: "string \<Rightarrow> va_slot list \<Rightarrow> 'w irq_state \<Rightarrow> 'w irq_state outcome result" where
  "platform_panic fmt ap s =
     bindE (vfprintf fmt ap (con s)) (\<lambda>(e, ps). Inr (platform_halt (s\<lparr>con := world ps\<rparr>)))"

definition exception_die ::
    "64 word \<Rightarrow> 64 word \<Rightarrow> x64_iframe \<Rightarrow> string \<Rightarrow> 'w irq_state \<Rightarrow> 'w irq_state outcome result" where
  "exception_die cr2 frame_addr f msg s =
     bindE (say msg [] s) (\<lambda>s.
     bindE (dump_fault_frame cr2 frame_addr f s) (\<lambda>s.
       Inr (Halted (s\<lparr>cpu_flags := x64_cli (cpu_flags s)\<rparr>))))"

definition x64_exception_handler ::
    "bool \<Rightarrow> 'w runner \<Rightarrow> ('w \<Rightarrow> 'w result) \<Rightarrow> 64 word \<Rightarrow> 64 word \<Rightarrow> x64_iframe \<Rightarrow> 'w irq_state
       \<Rightarrow> 'w irq_state outcome result" where
  "x64_exception_handler dbg run preempt cr2 frame_addr f s =
     (let vector = (ucast (fr_vector f) :: 32 word) in
      if vector = 0 then exception_die cr2 frame_addr f (''devide zero exception'' @ newline) s
      else if 0x20 \<le> vector \<and> vector \<le> 0xff then
        bindE (platform_irq dbg run vector s) (\<lambda>(ret, s).
          if ret = INT_RESCHEDULE
          then bindE (preempt (rest s)) (\<lambda>w. Inr (Returned (s\<lparr>rest := w\<rparr>)))
          else Inr (Returned s))
      else exception_die cr2 frame_addr f (''unknown exception'' @ newline) s)"

section \<open>The mask registers\<close>

text \<open>
  What the documentation of the controller says of its mask register: reading the second port returns
  the byte last written to it. It is the hypothesis about the device below.
\<close>

definition imr_device :: "device \<Rightarrow> bool" where
  "imr_device dev \<longleftrightarrow>
     (\<forall>io b. (last_out 0x21 io = Some b \<longrightarrow> dev io 0x21 = b) \<and> (last_out 0xA1 io = Some b \<longrightarrow> dev io 0xA1 = b))"

definition synced :: "'w irq_state \<Rightarrow> bool" where
  "synced s \<longleftrightarrow> imr_device (devices (con s)) \<and>
     last_out 0x21 (ports (con s)) = Some (irqMask0 s) \<and> last_out 0xA1 (ports (con s)) = Some (irqMask1 s)"

text \<open>The rest of the state, which the mask operations leave alone.\<close>

definition same_rest :: "'w irq_state \<Rightarrow> 'w irq_state \<Rightarrow> bool" where
  "same_rest s s' \<longleftrightarrow> int_handler_table s' = int_handler_table s \<and> rest s' = rest s \<and>
     interrupt_spinlock s' = interrupt_spinlock s \<and> cpu_flags s' = cpu_flags s"

lemma pic_ports: "ucast (PIC1 + 1) = (0x21 :: port)" "ucast (PIC2 + 1) = (0xA1 :: port)"
  "ucast PIC1 = (0x20 :: port)" "ucast PIC2 = (0xA0 :: port)"
  by (simp_all add: pic_defs)

lemma rewrite_mask0_spec:
  assumes "synced s"
  shows "synced (rewrite_mask0 f s) \<and> irqMask0 (rewrite_mask0 f s) = f (irqMask0 s) \<and>
         irqMask1 (rewrite_mask0 f s) = irqMask1 s \<and> same_rest s (rewrite_mask0 f s)"
  using assms
  by (auto simp: rewrite_mask0_def pic_in_def pic_out_def outb_console_def synced_def same_rest_def imr_device_def
      pic_ports inb_def outb_def Let_def)

lemma rewrite_mask1_spec:
  assumes "synced s"
  shows "synced (rewrite_mask1 f s) \<and> irqMask1 (rewrite_mask1 f s) = f (irqMask1 s) \<and>
         irqMask0 (rewrite_mask1 f s) = irqMask0 s \<and> same_rest s (rewrite_mask1 f s)"
  using assms
  by (auto simp: rewrite_mask1_def pic_in_def pic_out_def outb_console_def synced_def same_rest_def imr_device_def
      pic_ports inb_def outb_def Let_def)

lemma master_line_spec:
  assumes "synced s"
  shows "synced (master_line e b s)" and "same_rest s (master_line e b s)"
    and "irqMask1 (master_line e b s) = irqMask1 s"
    and "irqMask0 (master_line e b s) =
      (if e \<and> irqMask0 s AND b \<noteq> 0 then irqMask0 s AND NOT b
       else if \<not> e \<and> irqMask0 s AND b = 0 then b else irqMask0 s)"
  using rewrite_mask0_spec [OF assms] assms by (auto simp: master_line_def same_rest_def)

lemma slave_line_spec:
  assumes "synced s"
  shows "synced (slave_line e b s)" and "same_rest s (slave_line e b s)"
    and "irqMask0 (slave_line e b s) = irqMask0 s"
    and "irqMask1 (slave_line e b s) =
      (if e \<and> irqMask1 s AND b \<noteq> 0 then irqMask1 s AND NOT b
       else if \<not> e \<and> irqMask1 s AND b = 0 then irqMask1 s OR b else irqMask1 s)"
  using rewrite_mask1_spec [OF assms] assms by (auto simp: slave_line_def same_rest_def)

lemma cascade_line_spec:
  assumes "synced s"
  shows "synced (cascade_line b s)" and "same_rest s (cascade_line b s)"
    and "irqMask1 (cascade_line b s) = irqMask1 s"
    and "irqMask0 (cascade_line b s) =
      (if irqMask1 s \<noteq> 0xff \<and> irqMask0 s AND b \<noteq> 0 then irqMask0 s AND NOT b
       else if irqMask1 s = 0 \<and> irqMask0 s AND b = 0 then irqMask0 s OR b else irqMask0 s)"
  using rewrite_mask0_spec [OF assms] assms by (auto simp: cascade_line_def same_rest_def)

text \<open>Printing does not touch the controllers' ports.\<close>

lemma uart_wait_last_out: "uart_wait dev io = Some io' \<Longrightarrow> last_out p io' = last_out p io"
  by (rule uart_wait.raw_induct [of "\<lambda>dev io io'. last_out p io' = last_out p io"])
    (auto simp: inb_def Let_def split: if_splits)

definition pic_port :: "port \<Rightarrow> bool" where
  "pic_port p \<longleftrightarrow> p \<in> {0x20, 0x21, 0xA0, 0xA1}"

lemma place_last_out [simp]: "pic_port p \<Longrightarrow> last_out p (ports (place x y c)) = last_out p (ports c)"
  by (auto simp: place_def outb_console_def Let_def CGA_INDEX_PORT_def CGA_DATA_PORT_def pic_port_def)

lemma console_putc_last_out [simp]: "pic_port p \<Longrightarrow> last_out p (ports (console_putc ch c)) = last_out p (ports c)"
  by (simp add: console_putc_def Let_def next_line_def)

lemma put_loop_last_out:
  "pic_port p \<Longrightarrow> put_loop s c = Inr c' \<Longrightarrow> last_out p (ports c') = last_out p (ports c) \<and> devices c' = devices c"
proof (induction s arbitrary: c)
  case (Cons ch s c)
  then obtain c1 where c1: "uart_console ch (console_putc ch (if ch = CHR 0x0A then console_putc (CHR 0x0D) c else c)) = Inr c1"
    "put_loop s c1 = Inr c'" by (auto simp: Let_def)
  then have "last_out p (ports c1) = last_out p (ports c) \<and> devices c1 = devices c"
    using Cons.prems(1)
    by (auto simp: uart_console_def uart_putc_def uart_io_port_def pic_port_def uart_wait_last_out split: option.splits if_splits)
  with Cons.IH [OF Cons.prems(1) c1(2)] show ?case by simp
qed simp

definition reads_as :: "port \<Rightarrow> byte option \<Rightarrow> device \<Rightarrow> console out_state \<Rightarrow> bool" where
  "reads_as p v dev ps \<longleftrightarrow> pic_port p \<longrightarrow> last_out p (ports (world ps)) = v \<and> devices (world ps) = dev"

interpretation quiet_console: output_invariant console_put_str "reads_as p v dev" for p v dev
  by unfold_locales
    (auto simp: reads_as_def post_def OUTPUT_STRING_def console_put_str_def put_loop_last_out split: if_splits)

lemma say_quiet:
  assumes "say fmt ap s = Inr s'" and "pic_port p"
  shows "last_out p (ports (con s')) = last_out p (ports (con s))" and "devices (con s') = devices (con s)"
    and "irqMask0 s' = irqMask0 s" and "irqMask1 s' = irqMask1 s" and "same_rest s s'"
proof -
  from assms(1) obtain ps where t: "printf_text console_put_str fmt ap (out_start (con s)) = Inr ps"
    and s': "s' = s\<lparr>con := world ps\<rparr>"
    by (auto simp: say_def kprintf_def vfprintf_def printf_driver_def)
  have "reads_as p (last_out p (ports (con s))) (devices (con s)) (out_start (con s))"
    by (simp add: reads_as_def out_start_def)
  from postD [OF quiet_console.interpreter_keeps(1) [OF refl this] t] assms(2)
  show "last_out p (ports (con s')) = last_out p (ports (con s))" "devices (con s') = devices (con s)"
    by (simp_all add: reads_as_def s')
qed (use assms in \<open>auto simp: say_def same_rest_def\<close>)

lemma say_synced: "synced s \<Longrightarrow> say fmt ap s = Inr s' \<Longrightarrow> synced s'"
  using say_quiet [of fmt ap s s' "0x21"] say_quiet [of fmt ap s s' "0xA1"] by (simp add: synced_def pic_port_def)

lemma interrupt_enable_synced:
  assumes "synced s" and "interrupt_enable vector enable s = Inr s'"
  shows "synced s' \<and> same_rest s s'"
  using assms say_synced [OF assms(1)] say_quiet(5) [of _ _ s s' "0x21"] master_line_spec(1,2) [OF assms(1)]
    slave_line_spec(1,2) [OF assms(1)] cascade_line_spec(1,2) [OF slave_line_spec(1) [OF assms(1)]]
  by (auto simp: interrupt_enable_def same_rest_def pic_port_def split: if_splits)

section \<open>Lines\<close>

text \<open>Interrupt line \<open>n\<close> of the sixteen is masked.\<close>

definition masked :: "'w irq_state \<Rightarrow> nat \<Rightarrow> bool" where
  "masked s n \<longleftrightarrow> (if n < 8 then bit (irqMask0 s) n else bit (irqMask1 s) (n - 8))"

definition vector_of :: "nat \<Rightarrow> 32 word" where
  "vector_of n = PIC1_BASE + word_of_nat n"

lemma unat_vector_of: "n < 16 \<Longrightarrow> unat (vector_of n) = 32 + n"
  by (simp add: vector_of_def PIC1_BASE_def unat_word_ariths unat_of_nat take_bit_nat_eq_self)

lemma vector_master:
  assumes "n < 8"
  shows "PIC1_BASE \<le> vector_of n" "vector_of n < PIC1_BASE + 8" "unat (vector_of n - PIC1_BASE) = n"
    "vector_of n < INT_MAX_VECTORS"
  using assms unat_vector_of [of n]
  by (simp_all add: word_le_nat_alt word_less_nat_alt pic_defs unat_sub_if_size)

lemma vector_slave:
  assumes "8 \<le> n" "n < 16"
  shows "\<not> vector_of n < PIC1_BASE + 8" "PIC2_BASE \<le> vector_of n" "vector_of n < PIC2_BASE + 8"
    "unat (vector_of n - PIC2_BASE) = n - 8" "vector_of n < INT_MAX_VECTORS"
  using assms unat_vector_of [of n]
  by (simp_all add: word_le_nat_alt word_less_nat_alt pic_defs unat_sub_if_size)

lemma byte_eq_full: "(m :: byte) = 0xff \<longleftrightarrow> (\<forall>k < 8. bit m k)"
proof -
  have a: "(0xff :: byte) = - 1" by simp
  have "m = - 1 \<longleftrightarrow> (\<forall>k < 8. bit m k)"
  proof
    assume "\<forall>k < 8. bit m k"
    then show "m = - 1" by (intro bit_word_eqI) simp
  qed simp
  then show ?thesis unfolding a .
qed

lemma byte_bits:
  "(m :: byte) AND 2 ^ n = 0 \<longleftrightarrow> \<not> bit m n" "0 = (m :: byte) AND 2 ^ n \<longleftrightarrow> \<not> bit m n"
  "bit (m AND NOT (2 ^ n)) k \<longleftrightarrow> bit m k \<and> k \<noteq> n"
  "bit (m OR 2 ^ n) k \<longleftrightarrow> bit m k \<or> k = n \<and> n < 8"
  "bit (2 ^ n :: byte) k \<longleftrightarrow> k = n \<and> n < 8"
  using and_shifted_one [of m n] bit_clear_shifted_one [of m n k] bit_or_shifted_one [of m n k]
    bit_or_shifted_one [of "0 :: byte" n k]
  by auto

lemma synced_lock:
  "synced (snd (irq_lock s)) = synced s" "synced (irq_unlock st s) = synced s"
  "irqMask0 (snd (irq_lock s)) = irqMask0 s" "irqMask1 (snd (irq_lock s)) = irqMask1 s"
  "irqMask0 (irq_unlock st s) = irqMask0 s" "irqMask1 (irq_unlock st s) = irqMask1 s"
  "cpu_flags (irq_unlock st s) = st" "fst (irq_lock s) = cpu_flags s"
  "int_handler_table (snd (irq_lock s)) = int_handler_table s" "rest (snd (irq_lock s)) = rest s"
  "int_handler_table (irq_unlock st s) = int_handler_table s" "rest (irq_unlock st s) = rest s"
  "con (snd (irq_lock s)) = con s" "con (irq_unlock st s) = con s"
  "interrupt_spinlock (irq_unlock st s) = 0"
  by (simp_all add: irq_lock_def irq_unlock_def synced_def)

text \<open>The calls of the driver that change masks.\<close>

datatype irq_op = MaskOp "32 word" | UnmaskOp "32 word" | MaskAllOp

fun irq_exec :: "bool \<Rightarrow> irq_op \<Rightarrow> 'w irq_state \<Rightarrow> 'w irq_state result" where
  "irq_exec dbg (MaskOp v) s = bindE (mask_interrupt v s) (\<lambda>(r, s). Inr s)"
| "irq_exec dbg (UnmaskOp v) s = bindE (unmask_interrupt dbg v s) (\<lambda>(r, s). Inr s)"
| "irq_exec dbg MaskAllOp s = Inr (mask_all_interrupt s)"

lemma lock_enable_synced:
  assumes "synced s" and "irq_lock s = (st, s1)" and "interrupt_enable v e s1 = Inr s2"
  shows "synced (irq_unlock st s2) \<and> int_handler_table (irq_unlock st s2) = int_handler_table s \<and>
    rest (irq_unlock st s2) = rest s \<and> cpu_flags (irq_unlock st s2) = cpu_flags s"
proof -
  have "synced s1" using synced_lock(1) [of s] assms(1,2) by simp
  from interrupt_enable_synced [OF this assms(3)] show ?thesis
    using synced_lock(8,9,10) [of s] assms(2) by (simp add: synced_lock same_rest_def)
qed

lemma mask_all_synced:
  "synced s \<Longrightarrow> synced (mask_all_interrupt s) \<and> same_rest s (mask_all_interrupt s)"
  by (auto simp: mask_all_interrupt_def pic_in_def pic_out_def outb_console_def synced_def same_rest_def imr_device_def
      pic_ports inb_def outb_def Let_def)

lemma irq_exec_synced:
  assumes "synced s" and "irq_exec dbg op s = Inr s'"
  shows "synced s' \<and> int_handler_table s' = int_handler_table s \<and> rest s' = rest s \<and> cpu_flags s' = cpu_flags s"
proof (cases op)
  case (MaskOp v)
  show ?thesis
  proof (cases "INT_MAX_VECTORS \<le> v")
    case True
    with MaskOp assms(2) obtain fmt ap where "say fmt ap s = Inr s'" by (auto simp: mask_interrupt_def)
    with say_synced [OF assms(1) this] say_quiet(5) [OF this, of "0x21"] show ?thesis
      by (simp add: same_rest_def pic_port_def)
  next
    case False
    with MaskOp assms show ?thesis
      by (auto simp: mask_interrupt_def split: prod.splits dest: lock_enable_synced)
  qed
next
  case (UnmaskOp v)
  with assms show ?thesis by (auto simp: unmask_interrupt_def split: prod.splits dest: lock_enable_synced)
next
  case MaskAllOp
  with assms mask_all_synced [OF assms(1)] show ?thesis by (auto simp: same_rest_def)
qed

lemma map_synced: "imr_device (devices (con s)) \<Longrightarrow> synced (map_interrupt_controller p q s)"
  by (simp add: map_interrupt_controller_def pic_out_def outb_console_def synced_def pic_ports Let_def)

text \<open>C18: After \<open>platform_init_interrupts\<close>, whatever \<open>mask_interrupt\<close>, \<open>unmask_interrupt\<close> and
  \<open>mask_all_interrupt\<close> calls follow, with valid and invalid vectors, the cached \<open>irqMask\<close> bytes are what
  the two mask registers hold, and handlers, lock and flags are as they were.\<close>

theorem cached_masks_synced:
  assumes "imr_device (devices (con s0))" and "platform_init_interrupts s0 = Inr s"
    and "run_events (irq_exec dbg) ops s = Inr s'"
  shows "last_out 0x21 (ports (con s')) = Some (irqMask0 s') \<and> last_out 0xA1 (ports (con s')) = Some (irqMask1 s') \<and>
    int_handler_table s' = int_handler_table s0 \<and> rest s' = rest s0 \<and> cpu_flags s' = cpu_flags s0"
proof -
  from assms(2) obtain fmt s1 where s1: "say fmt [] s0 = Inr s1"
    and s: "s = map_interrupt_controller PIC1_BASE PIC2_BASE s1" by (auto simp: platform_init_interrupts_def)
  note q = say_quiet [OF s1, of "0x21"]
  from q(2) assms(1) have "synced s" unfolding s by (intro map_synced) (simp add: pic_port_def)
  moreover have "int_handler_table s = int_handler_table s0 \<and> rest s = rest s0 \<and> cpu_flags s = cpu_flags s0"
    using q(5) by (simp add: s map_interrupt_controller_def pic_out_def same_rest_def pic_port_def Let_def)
  ultimately show ?thesis using assms(3)
  proof (induction ops arbitrary: s)
    case (Cons op ops s)
    then obtain s2 where s2: "irq_exec dbg op s = Inr s2" "run_events (irq_exec dbg) ops s2 = Inr s'" by auto
    from irq_exec_synced [OF Cons.prems(1) s2(1)] Cons.prems(2) Cons.IH [OF _ _ s2(2)] show ?case by auto
  qed (simp add: synced_def)
qed

text \<open>Controllers whose mask registers read back, and a serial port that is always ready.\<close>

definition plain_device :: device where
  "plain_device io p =
     (if p = 0x21 \<or> p = 0xA1 then (case last_out p io of None \<Rightarrow> 0 | Some b \<Rightarrow> b) else 0x60)"

definition quiet_state :: "unit irq_state" where
  "quiet_state = \<lparr>con = ready_console\<lparr>ports := [], devices := plain_device\<rparr>, irqMask0 = 0, irqMask1 = 0,
     interrupt_spinlock = 0, cpu_flags = 2, int_handler_table = replicate 0x31 \<lparr>handler = None, handler_arg = 0\<rparr>,
     rest = ()\<rparr>"

lemma plain_device_ok: "imr_device plain_device" "transmitter_drains plain_device"
  by (auto simp: imr_device_def plain_device_def transmitter_drains_def uart_io_port_def intro: exI [of _ 0])



lemma say_returns:
  assumes "transmitter_drains (devices (con s))" and "length fmt < 2 ^ 31" and "list_all short_slot ap"
    and "render fmt ap = Inr t"
  shows "\<exists>s'. say fmt ap s = Inr s'"
  using printf_sends_rendering [OF assms] by (auto simp: say_def)

lemma unmask_returns:
  assumes "n < 16"
  shows "\<exists>s'. unmask_interrupt dbg (vector_of n) s = Inr (NO_ERR, s')"
  using assms vector_master [of n] vector_slave [of n]
  by (cases "n < 8") (auto simp: unmask_interrupt_def interrupt_enable_def split: prod.splits)

lemma INT_PIC2_bit: "unat (INT_PIC2 - PIC1_BASE) = 2"
  by (simp add: pic_defs)

lemma enable_master:
  assumes "synced s" and "n < 8" and "interrupt_enable (vector_of n) e s = Inr s'"
  shows "bit (irqMask0 s') k \<longleftrightarrow>
      (if e then bit (irqMask0 s) k \<and> k \<noteq> n else if bit (irqMask0 s) n then bit (irqMask0 s) k else k = n)"
    and "irqMask1 s' = irqMask1 s"
proof -
  have "s' = master_line e (2 ^ n) s" using assms(3) vector_master [OF assms(2)] by (simp add: interrupt_enable_def)
  with master_line_spec(3,4) [OF assms(1), of e "2 ^ n"] assms(2)
  show "bit (irqMask0 s') k \<longleftrightarrow>
      (if e then bit (irqMask0 s) k \<and> k \<noteq> n else if bit (irqMask0 s) n then bit (irqMask0 s) k else k = n)"
    "irqMask1 s' = irqMask1 s"
    by (auto simp: byte_bits)
qed

lemma enable_slave:
  assumes "synced s" and n: "8 \<le> n" "n < 16" and i: "interrupt_enable (vector_of n) e s = Inr s'"
  shows "bit (irqMask1 s') k \<longleftrightarrow> (if e then bit (irqMask1 s) k \<and> k \<noteq> n - 8 else bit (irqMask1 s) k \<or> k = n - 8)"
    and "bit (irqMask0 s') k \<longleftrightarrow>
      bit (irqMask0 s) k \<and> (k = 2 \<longrightarrow> (\<forall>j < 8. bit (irqMask1 s') j)) \<or>
      k = 2 \<and> \<not> bit (irqMask0 s) 2 \<and> irqMask1 s' = 0"
proof -
  let ?s1 = "slave_line e (2 ^ (n - 8)) s"
  have s': "s' = cascade_line 4 ?s1"
    using i vector_slave [OF n] by (simp add: interrupt_enable_def INT_PIC2_bit)
  note s1 = slave_line_spec [OF assms(1), of e "2 ^ (n - 8)"]
  have four: "(4 :: byte) = 2 ^ 2" by simp
  have m1: "irqMask1 s' = irqMask1 ?s1" using cascade_line_spec(3) [OF s1(1)] by (simp add: s')
  show "bit (irqMask1 s') k \<longleftrightarrow> (if e then bit (irqMask1 s) k \<and> k \<noteq> n - 8 else bit (irqMask1 s) k \<or> k = n - 8)"
    using n by (auto simp: m1 s1(4) byte_bits)
  show "bit (irqMask0 s') k \<longleftrightarrow>
      bit (irqMask0 s) k \<and> (k = 2 \<longrightarrow> (\<forall>j < 8. bit (irqMask1 s') j)) \<or>
      k = 2 \<and> \<not> bit (irqMask0 s) 2 \<and> irqMask1 s' = 0"
    unfolding m1 byte_eq_full [symmetric] unfolding s' cascade_line_spec(4) [OF s1(1)] s1(3) four
    by (auto simp only: byte_bits split: if_splits)
qed



lemma cached_masks_synced_witness:
  "\<exists>s s'. platform_init_interrupts quiet_state = Inr s \<and> run_events (irq_exec True) [UnmaskOp (vector_of 0), MaskAllOp] s = Inr s' \<and>
     last_out 0x21 (ports (con s')) = Some (irqMask0 s')"
proof -
  have d: "transmitter_drains (devices (con quiet_state))" "imr_device (devices (con quiet_state))"
    by (simp_all add: quiet_state_def plain_device_ok)
  have "render (''init interrupt controller'' @ crlf) [] = Inr (''init interrupt controller'' @ crlf)"
    by code_simp
  from say_returns [OF d(1) _ _ this] obtain s0 where "say (''init interrupt controller'' @ crlf) [] quiet_state = Inr s0"
    by (auto simp: crlf_def)
  then obtain s where s: "platform_init_interrupts quiet_state = Inr s" by (auto simp: platform_init_interrupts_def)
  obtain s1 where "unmask_interrupt True (vector_of 0) s = Inr (NO_ERR, s1)" using unmask_returns [of 0 True s] by auto
  then obtain s' where s': "run_events (irq_exec True) [UnmaskOp (vector_of 0), MaskAllOp] s = Inr s'" by simp
  from cached_masks_synced [OF d(2) s s'] s s' show ?thesis by blast
qed

text \<open>
  Masking a line of the first controller writes the bit of that line alone, so every other line of that
  controller is opened: the code assigns where the second controller's branch ors. And when the last line
  of the second controller is opened, the cascade line is masked.
\<close>

lemma mask_opens_the_other_lines:
  assumes "synced s" and "n < 8" and "\<not> masked s n" and "interrupt_enable (vector_of n) False s = Inr s'" and "k < 8"
  shows "masked s' k \<longleftrightarrow> k = n"
  using enable_master(1) [OF assms(1,2,4)] assms(2,3,5) by (simp add: masked_def)

lemma last_slave_line_masks_the_cascade:
  assumes "synced s" and "8 \<le> n" and "n < 16" and "\<not> masked s 2" and "\<forall>k. 8 \<le> k \<and> k < 16 \<and> k \<noteq> n \<longrightarrow> \<not> masked s k"
    and "interrupt_enable (vector_of n) True s = Inr s'"
  shows "masked s' 2"
proof -
  note e = enable_slave [OF assms(1,2,3,6)]
  have "\<not> bit (irqMask1 s') k" if "k < 8" for k
  proof (cases "k = n - 8")
    case False
    then have "k + 8 \<noteq> n" by arith
    with e(1) [of k] assms(5) [rule_format, of "k + 8"] that show ?thesis by (auto simp: masked_def)
  qed (use e(1) in simp)
  then have "irqMask1 s' = 0" by (intro bit_word_eqI) simp
  then show ?thesis using e(2) [of 2] assms(4) by (simp add: masked_def)
qed

section \<open>Dispatch\<close>



text \<open>C21: A vector from 0x31 to 0xff, which the exception entry passes on to \<open>platform_irq\<close>, is outside the
  handler table: a build with assertions stops there, one without them reads past the end of the table.\<close>

theorem vectors_outside_the_table:
  assumes "length (int_handler_table s) = 0x31" and "0x31 \<le> fr_vector f" and "fr_vector f \<le> 0xff"
  shows "x64_exception_handler dbg run preempt cr2 addr f s = Inl (if dbg then AssertFailed else OutOfBounds)"
proof -
  let ?v = "ucast (fr_vector f) :: 32 word"
  have "unat (fr_vector f) \<le> 255" using assms(3) by (simp add: word_le_nat_alt)
  have "?v = word_of_nat (unat (fr_vector f))" by simp
  then have u: "unat ?v = unat (fr_vector f)" using \<open>unat (fr_vector f) \<le> 255\<close> by (simp only: unat_of_nat) simp
  with assms(2,3) have v: "0x31 \<le> ?v" "?v \<le> 0xff" "0x20 \<le> ?v" "?v \<noteq> 0"
    by (auto simp: word_le_nat_alt)
  then have "\<not> ?v < INT_MAX_VECTORS" "\<not> unat ?v < length (int_handler_table s)"
    using assms(1) by (simp_all add: INT_MAX_VECTORS_def not_less word_le_nat_alt)
  with v show ?thesis
    by (simp add: x64_exception_handler_def Let_def platform_irq_def table_entry_def debug_assert_def)
qed

definition blank_frame :: "64 word \<Rightarrow> x64_iframe" where
  "blank_frame v = \<lparr>fr_rdi = 0, fr_rsi = 0, fr_rbp = 0, fr_rbx = 0, fr_rdx = 0, fr_rcx = 0, fr_rax = 0, fr_r8 = 0,
     fr_r9 = 0, fr_r10 = 0, fr_r11 = 0, fr_r12 = 0, fr_r13 = 0, fr_r14 = 0, fr_r15 = 0, fr_vector = v,
     fr_err_code = 0, fr_rip = 0, fr_cs = 0, fr_rflag = 0, fr_user_sp = 0, fr_user_ss = 0\<rparr>"

lemma vectors_outside_the_table_witness:
  "x64_exception_handler True (\<lambda>_ _ w. Inr (INT_NO_RESCHEDULE, w)) Inr 0 0 (blank_frame 0x80) quiet_state = Inl AssertFailed"
  using vectors_outside_the_table [of quiet_state "blank_frame 0x80" True]
  by (simp add: quiet_state_def blank_frame_def)

end
