(* ===== verification/Kconfig.thy ===== *)
theory Kconfig
  imports Prelude
begin

text \<open>
  The data of the configuration tool, from \<open>kconfig/expr.h\<close> and \<open>kconfig/lkc.h\<close>: the three
  truth values, symbols, dependency expressions, properties. A pointer to a symbol is a value of
  type \<open>sym\<close>: the four static symbols of \<open>symbol.c\<close> or the number of a symbol allocated by
  \<open>sym_lookup\<close>; two pointers are equal iff these values are. What the pointers point to is a
  table from \<open>sym\<close> to the record \<open>symbol\<close>. An expression is a tree that the functions of
  \<open>expr.c\<close> rewrite in place and never share, so it is a value of a datatype.
\<close>

section \<open>The three truth values\<close>

datatype tristate = no | tri_mod | yes

fun tri_num :: "tristate \<Rightarrow> nat" where
  "tri_num no = 0"
| "tri_num tri_mod = 1"
| "tri_num yes = 2"

lemma tri_num_inject [simp]: "tri_num a = tri_num b \<longleftrightarrow> a = b"
  by (cases a; cases b) simp_all

instantiation tristate :: linorder
begin

definition less_eq_tristate :: "tristate \<Rightarrow> tristate \<Rightarrow> bool" where
  "less_eq_tristate a b \<longleftrightarrow> tri_num a \<le> tri_num b"

definition less_tristate :: "tristate \<Rightarrow> tristate \<Rightarrow> bool" where
  "less_tristate a b \<longleftrightarrow> tri_num a < tri_num b"

instance
  by intro_classes (auto simp: less_eq_tristate_def less_tristate_def)

end

lemmas tri_order = less_eq_tristate_def less_tristate_def

definition EXPR_OR :: "tristate \<Rightarrow> tristate \<Rightarrow> tristate" where
  "EXPR_OR dep1 dep2 = (if dep1 > dep2 then dep1 else dep2)"

definition EXPR_AND :: "tristate \<Rightarrow> tristate \<Rightarrow> tristate" where
  "EXPR_AND dep1 dep2 = (if dep1 < dep2 then dep1 else dep2)"

text \<open>\<open>2 - dep\<close>\<close>

fun EXPR_NOT :: "tristate \<Rightarrow> tristate" where
  "EXPR_NOT no = yes"
| "EXPR_NOT tri_mod = tri_mod"
| "EXPR_NOT yes = no"

lemma EXPR_NOT_num: "tri_num (EXPR_NOT a) = 2 - tri_num a"
  by (cases a) simp_all

lemma EXPR_OR_max: "EXPR_OR a b = max a b"
  by (auto simp: EXPR_OR_def max_def)

lemma EXPR_AND_min: "EXPR_AND a b = min a b"
  by (auto simp: EXPR_AND_def min_def)

lemma tri_bounds [simp]: "no \<le> a" "a \<le> yes" "\<not> a < no" "\<not> yes < a"
  by (cases a; simp add: tri_order)+

lemma tri_le_no [simp]: "a \<le> no \<longleftrightarrow> a = no" "yes \<le> a \<longleftrightarrow> a = yes"
  by (cases a; simp add: tri_order)+

lemma EXPR_NOT_NOT [simp]: "EXPR_NOT (EXPR_NOT a) = a"
  by (cases a) simp_all

lemma EXPR_NOT_eq [simp]: "EXPR_NOT a = yes \<longleftrightarrow> a = no" "EXPR_NOT a = no \<longleftrightarrow> a = yes"
  "EXPR_NOT a = tri_mod \<longleftrightarrow> a = tri_mod"
  by (cases a; simp)+

section \<open>Symbols and expressions\<close>

datatype sym = symbol_yes | symbol_mod | symbol_no | symbol_empty | config_symbol nat

datatype symbol_type = S_UNKNOWN | S_BOOLEAN | S_TRISTATE | S_INT | S_HEX | S_STRING | S_OTHER

datatype expr_type =
    E_NONE | E_OR | E_AND | E_NOT | E_EQUAL | E_UNEQUAL | E_LIST | E_SYMBOL | E_RANGE

text \<open>
  The dependency expressions: \<open>SymE s\<close> has type \<open>E_SYMBOL\<close>, \<open>CmpE Eq s1 s2\<close> and
  \<open>CmpE Neq s1 s2\<close> have \<open>E_EQUAL\<close> and \<open>E_UNEQUAL\<close>, \<open>BinE Disj a b\<close> and
  \<open>BinE Conj a b\<close> have \<open>E_OR\<close> and \<open>E_AND\<close>. The other two kinds of expression occur in
  properties only: \<open>E_LIST\<close> chains the symbols of a choice and \<open>E_RANGE\<close> holds the two ends
  of a range.
\<close>

datatype comp = Eq | Neq
datatype conn = Disj | Conj

datatype expr =
    SymE sym
  | NotE expr
  | CmpE comp sym sym
  | BinE conn expr expr

datatype prop_expr = DepE expr | ListE "sym list" | RangeE sym sym

fun conn_type :: "conn \<Rightarrow> expr_type" where
  "conn_type Disj = E_OR"
| "conn_type Conj = E_AND"

fun comp_type :: "comp \<Rightarrow> expr_type" where
  "comp_type Eq = E_EQUAL"
| "comp_type Neq = E_UNEQUAL"

lemma type_inject [simp]:
  "comp_type a = comp_type b \<longleftrightarrow> a = b" "conn_type c = conn_type d \<longleftrightarrow> c = d"
  by (cases a; cases b; simp) (cases c; cases d; simp)

lemma comp_type_eq [simp]: "E_EQUAL = comp_type c \<longleftrightarrow> c = Eq" "E_UNEQUAL = comp_type c \<longleftrightarrow> c = Neq"
  by (cases c; simp)+

lemma type_distinct [simp]:
  "comp_type a \<noteq> E_NOT" "E_NOT \<noteq> comp_type a" "comp_type a \<noteq> E_SYMBOL" "E_SYMBOL \<noteq> comp_type a"
  "conn_type c \<noteq> E_NOT" "E_NOT \<noteq> conn_type c" "conn_type c \<noteq> E_SYMBOL" "E_SYMBOL \<noteq> conn_type c"
  "conn_type c \<noteq> comp_type a" "comp_type a \<noteq> conn_type c"
  by (cases a; simp)+ (cases c; simp; cases a; simp)+

text \<open>\<open>e->type\<close>\<close>

fun etype :: "expr \<Rightarrow> expr_type" where
  "etype (SymE s) = E_SYMBOL"
| "etype (NotE a) = E_NOT"
| "etype (CmpE c s1 s2) = comp_type c"
| "etype (BinE c a b) = conn_type c"

text \<open>\<open>void *val\<close>: a string, or for a choice the chosen symbol.\<close>

datatype symval = NullVal | StrVal string | SymVal sym

record symbol_value =
  sv_val :: symval
  sv_tri :: tristate

record expr_value =
  ev_expr :: "expr option"
  ev_tri :: tristate

datatype s_def = S_DEF_USER | S_DEF_AUTO | S_DEF_DEF3 | S_DEF_DEF4

datatype prop_type =
    P_UNKNOWN | P_PROMPT | P_COMMENT | P_MENU | P_DEFAULT | P_CHOICE | P_SELECT | P_RANGE | P_ENV | P_SYMBOL

record property =
  p_sym :: "sym option"
  p_type :: prop_type
  p_text :: "string option"
  p_visible :: expr_value
  p_expr :: "prop_expr option"
  p_menu :: "nat option"
  p_file :: string
  p_lineno :: int

text \<open>The list through \<open>prop->next\<close> is the list \<open>s_prop\<close>.\<close>

record symbol =
  s_name :: "string option"
  s_type :: symbol_type
  s_curr :: symbol_value
  s_def :: "s_def \<Rightarrow> symbol_value"
  s_visible :: tristate
  s_flags :: "32 word"
  s_prop :: "property list"
  s_dir_dep :: expr_value
  s_rev_dep :: expr_value

type_synonym symtab = "sym \<Rightarrow> symbol"

definition SYMBOL_CONST :: "32 word" where "SYMBOL_CONST = 0x0001"
definition SYMBOL_CHECK :: "32 word" where "SYMBOL_CHECK = 0x0008"
definition SYMBOL_CHOICE :: "32 word" where "SYMBOL_CHOICE = 0x0010"
definition SYMBOL_CHOICEVAL :: "32 word" where "SYMBOL_CHOICEVAL = 0x0020"
definition SYMBOL_VALID :: "32 word" where "SYMBOL_VALID = 0x0080"
definition SYMBOL_OPTIONAL :: "32 word" where "SYMBOL_OPTIONAL = 0x0100"
definition SYMBOL_WRITE :: "32 word" where "SYMBOL_WRITE = 0x0200"
definition SYMBOL_CHANGED :: "32 word" where "SYMBOL_CHANGED = 0x0400"
definition SYMBOL_AUTO :: "32 word" where "SYMBOL_AUTO = 0x1000"
definition SYMBOL_CHECKED :: "32 word" where "SYMBOL_CHECKED = 0x2000"
definition SYMBOL_WARNED :: "32 word" where "SYMBOL_WARNED = 0x8000"
definition SYMBOL_DEF_USER :: "32 word" where "SYMBOL_DEF_USER = 0x10000"
definition SYMBOL_NEED_SET_CHOICE_VALUES :: "32 word" where "SYMBOL_NEED_SET_CHOICE_VALUES = 0x100000"

definition has_flag :: "32 word \<Rightarrow> symbol \<Rightarrow> bool" where
  "has_flag f s \<longleftrightarrow> s_flags s AND f \<noteq> 0"

definition sym_get_tristate_value :: "symbol \<Rightarrow> tristate" where
  "sym_get_tristate_value s = sv_tri (s_curr s)"

definition sym_is_choice :: "symbol \<Rightarrow> bool" where
  "sym_is_choice s \<longleftrightarrow> has_flag SYMBOL_CHOICE s"

definition sym_is_choice_value :: "symbol \<Rightarrow> bool" where
  "sym_is_choice_value s \<longleftrightarrow> has_flag SYMBOL_CHOICEVAL s"

definition sym_is_optional :: "symbol \<Rightarrow> bool" where
  "sym_is_optional s \<longleftrightarrow> has_flag SYMBOL_OPTIONAL s"

definition sym_has_value :: "symbol \<Rightarrow> bool" where
  "sym_has_value s \<longleftrightarrow> has_flag SYMBOL_DEF_USER s"

text \<open>The static symbols, as \<open>symbol.c\<close> initialises them.\<close>

definition no_expr_value :: expr_value where
  "no_expr_value = \<lparr>ev_expr = None, ev_tri = no\<rparr>"

definition static_symbol :: "string \<Rightarrow> tristate \<Rightarrow> 32 word \<Rightarrow> symbol" where
  "static_symbol nm t fl =
     \<lparr>s_name = Some nm, s_type = S_UNKNOWN, s_curr = \<lparr>sv_val = StrVal nm, sv_tri = t\<rparr>,
      s_def = (\<lambda>_. \<lparr>sv_val = NullVal, sv_tri = no\<rparr>), s_visible = no, s_flags = fl, s_prop = [],
      s_dir_dep = no_expr_value, s_rev_dep = no_expr_value\<rparr>"

definition symbol_yes_init :: symbol where
  "symbol_yes_init = static_symbol ''y'' yes (SYMBOL_CONST OR SYMBOL_VALID)"

definition symbol_mod_init :: symbol where
  "symbol_mod_init = static_symbol ''m'' tri_mod (SYMBOL_CONST OR SYMBOL_VALID)"

definition symbol_no_init :: symbol where
  "symbol_no_init = static_symbol ''n'' no (SYMBOL_CONST OR SYMBOL_VALID)"

definition symbol_empty_init :: symbol where
  "symbol_empty_init = static_symbol '''' no SYMBOL_VALID"

text \<open>
  The global state of \<open>symbol.c\<close>: the symbols, the symbol that enables modules (after parsing it is
  never \<open>NULL\<close>), and the copy of its value.
\<close>

record kconf =
  symbols :: symtab
  modules_sym :: sym
  modules_val :: tristate

definition static_ok :: "kconf \<Rightarrow> bool" where
  "static_ok K \<longleftrightarrow> symbols K symbol_yes = symbol_yes_init \<and> symbols K symbol_mod = symbol_mod_init \<and>
     symbols K symbol_no = symbol_no_init \<and> symbols K symbol_empty = symbol_empty_init"

end
