(* ===== verification/Expr.thy ===== *)
theory Expr
  imports Kconfig
begin

text \<open>
  \<open>kconfig/expr.c\<close>: dependency expressions, their value, and the rewriting that brings the
  dependencies of a menu into shape. A parameter \<open>struct expr **ep\<close> through which a function
  replaces an expression is a value passed in and returned. The functions that walk one tree with
  two such pointers at once (\<open>expr_eliminate_dups1\<close>, \<open>expr_eliminate_dups2\<close>) get positions in
  the tree instead: the list of turns, to \<open>left.expr\<close> or \<open>right.expr\<close>, from the root. What
  \<open>expr_free\<close> releases is not modelled beyond the list of nodes it frees.
\<close>

section \<open>Construction\<close>

definition expr_alloc_symbol :: "sym \<Rightarrow> expr" where
  "expr_alloc_symbol s = SymE s"

definition expr_alloc_not :: "expr \<Rightarrow> expr" where
  "expr_alloc_not ce = NotE ce"

definition expr_alloc_two :: "conn \<Rightarrow> expr \<Rightarrow> expr \<Rightarrow> expr" where
  "expr_alloc_two type e1 e2 = BinE type e1 e2"

definition expr_alloc_comp :: "comp \<Rightarrow> sym \<Rightarrow> sym \<Rightarrow> expr" where
  "expr_alloc_comp type s1 s2 = CmpE type s1 s2"

lemmas expr_alloc_defs = expr_alloc_symbol_def expr_alloc_not_def expr_alloc_two_def expr_alloc_comp_def

text \<open>\<open>NULL\<close> is \<open>None\<close>.\<close>

definition expr_alloc_and :: "expr option \<Rightarrow> expr option \<Rightarrow> expr option" where
  "expr_alloc_and e1 e2 =
     (case e1 of None \<Rightarrow> e2
      | Some a \<Rightarrow> (case e2 of Some b \<Rightarrow> Some (expr_alloc_two Conj a b) | None \<Rightarrow> e1))"

definition expr_alloc_or :: "expr option \<Rightarrow> expr option \<Rightarrow> expr option" where
  "expr_alloc_or e1 e2 =
     (case e1 of None \<Rightarrow> e2
      | Some a \<Rightarrow> (case e2 of Some b \<Rightarrow> Some (expr_alloc_two Disj a b) | None \<Rightarrow> e1))"

fun expr_copy :: "expr \<Rightarrow> expr" where
  "expr_copy (SymE s) = SymE s"
| "expr_copy (NotE a) = NotE (expr_copy a)"
| "expr_copy (CmpE c s1 s2) = CmpE c s1 s2"
| "expr_copy (BinE c a b) = BinE c (expr_copy a) (expr_copy b)"

text \<open>The nodes that \<open>expr_free\<close> gives back, in order. For a negation it returns before it does.\<close>

fun expr_free :: "expr \<Rightarrow> expr list" where
  "expr_free (SymE s) = [SymE s]"
| "expr_free (NotE a) = expr_free a"
| "expr_free (CmpE c s1 s2) = [CmpE c s1 s2]"
| "expr_free (BinE c a b) = expr_free a @ expr_free b @ [BinE c a b]"

definition expr_is_yes :: "expr option \<Rightarrow> bool" where
  "expr_is_yes e \<longleftrightarrow> e = None \<or> e = Some (SymE symbol_yes)"

definition expr_is_no :: "expr option \<Rightarrow> bool" where
  "expr_is_no e \<longleftrightarrow> e = Some (SymE symbol_no)"

text \<open>\<open>e->type == type\<close> for \<open>type\<close> one of \<open>E_OR\<close> and \<open>E_AND\<close>\<close>

fun is_bin :: "conn \<Rightarrow> expr \<Rightarrow> bool" where
  "is_bin c (BinE c' a b) \<longleftrightarrow> c' = c"
| "is_bin c _ \<longleftrightarrow> False"

section \<open>Value\<close>

text \<open>
  \<open>sym_get_string_value\<close> of \<open>symbol.c\<close>, and the value of an expression when the values of its
  symbols have been calculated (\<open>sym_calc_value\<close> returns at once).
\<close>

fun string_of_val :: "symval \<Rightarrow> string" where
  "string_of_val (StrVal s) = s"
| "string_of_val _ = []"

definition sym_get_string_value :: "kconf \<Rightarrow> sym \<Rightarrow> string" where
  "sym_get_string_value K s =
     (let y = symbols K s in
      if s_type y = S_BOOLEAN \<or> s_type y = S_TRISTATE then
        (case sym_get_tristate_value y of
           no \<Rightarrow> ''n''
         | tri_mod \<Rightarrow> if sv_tri (s_curr (symbols K (modules_sym K))) = no then ''n'' else ''m''
         | yes \<Rightarrow> ''y'')
      else string_of_val (sv_val (s_curr y)))"

fun expr_calc_value :: "kconf \<Rightarrow> expr \<Rightarrow> tristate" where
  "expr_calc_value K (SymE s) = sv_tri (s_curr (symbols K s))"
| "expr_calc_value K (BinE Conj a b) = EXPR_AND (expr_calc_value K a) (expr_calc_value K b)"
| "expr_calc_value K (BinE Disj a b) = EXPR_OR (expr_calc_value K a) (expr_calc_value K b)"
| "expr_calc_value K (NotE a) = EXPR_NOT (expr_calc_value K a)"
| "expr_calc_value K (CmpE Eq s1 s2) =
     (if sym_get_string_value K s1 = sym_get_string_value K s2 then yes else no)"
| "expr_calc_value K (CmpE Neq s1 s2) =
     (if sym_get_string_value K s1 = sym_get_string_value K s2 then no else yes)"

text \<open>\<open>NULL\<close> is worth \<open>yes\<close>.\<close>

definition expr_value_of :: "kconf \<Rightarrow> expr option \<Rightarrow> tristate" where
  "expr_value_of K e = (case e of None \<Rightarrow> yes | Some a \<Rightarrow> expr_calc_value K a)"

section \<open>Constants\<close>

text \<open>The constants \<open>y\<close> and \<open>n\<close> disappear from conjunctions and disjunctions, from the leaves up.\<close>

fun expr_eliminate_yn :: "expr \<Rightarrow> expr" where
  "expr_eliminate_yn (BinE Conj a b) =
     (let l = expr_eliminate_yn a; r = expr_eliminate_yn b in
      if l = SymE symbol_no then SymE symbol_no
      else if l = SymE symbol_yes then r
      else if r = SymE symbol_no then SymE symbol_no
      else if r = SymE symbol_yes then l
      else BinE Conj l r)"
| "expr_eliminate_yn (BinE Disj a b) =
     (let l = expr_eliminate_yn a; r = expr_eliminate_yn b in
      if l = SymE symbol_no then r
      else if l = SymE symbol_yes then SymE symbol_yes
      else if r = SymE symbol_no then l
      else if r = SymE symbol_yes then SymE symbol_yes
      else BinE Disj l r)"
| "expr_eliminate_yn e = e"

text \<open>The symbol that is neutral for a connective: what a removed operand is replaced by.\<close>

fun neutral :: "conn \<Rightarrow> sym" where
  "neutral Disj = symbol_no"
| "neutral Conj = symbol_yes"

fun expr_trans_bool :: "kconf \<Rightarrow> expr \<Rightarrow> expr" where
  "expr_trans_bool K (BinE c a b) = BinE c (expr_trans_bool K a) (expr_trans_bool K b)"
| "expr_trans_bool K (NotE a) = NotE (expr_trans_bool K a)"
| "expr_trans_bool K (CmpE Neq s1 s2) =
     (if s_type (symbols K s1) = S_TRISTATE \<and> s2 = symbol_no then SymE s1 else CmpE Neq s1 s2)"
| "expr_trans_bool K e = e"

section \<open>Equality up to order and repetition\<close>

text \<open>
  \<open>expr_eq\<close> compares conjunctions and disjunctions by removing what they have in common;
  \<open>__expr_eliminate_eq\<close> compares with \<open>expr_eq\<close>. The number is \<open>trans_count\<close>, which
  \<open>expr_eq\<close> restores. The three functions end: the sizes of the two trees never grow.
\<close>

function expr_eq :: "expr \<Rightarrow> expr \<Rightarrow> bool"
  and expr_eliminate_eq :: "expr \<Rightarrow> expr \<Rightarrow> nat \<Rightarrow> expr \<times> expr \<times> nat"
  and expr_eliminate_eq_rec :: "conn \<Rightarrow> expr \<Rightarrow> expr \<Rightarrow> nat \<Rightarrow> expr \<times> expr \<times> nat"
where
  "expr_eq e1 e2 =
     (if etype e1 \<noteq> etype e2 then False
      else case (e1, e2) of
        (CmpE _ s1 s2, CmpE _ t1 t2) \<Rightarrow> s1 = t1 \<and> s2 = t2
      | (SymE s, SymE t) \<Rightarrow> s = t
      | (NotE a, NotE b) \<Rightarrow> expr_eq a b
      | (BinE _ _ _, BinE _ _ _) \<Rightarrow>
          (case expr_eliminate_eq e1 e2 0 of
             (SymE s, SymE t, _) \<Rightarrow> s = t
           | _ \<Rightarrow> False)
      | _ \<Rightarrow> False)"
| "expr_eliminate_eq e1 e2 n =
     (let (e1, e2, n) = (case e1 of BinE c _ _ \<Rightarrow> expr_eliminate_eq_rec c e1 e2 n | _ \<Rightarrow> (e1, e2, n));
          (e1, e2, n) = (if etype e1 \<noteq> etype e2 then
             (case e2 of BinE c _ _ \<Rightarrow> expr_eliminate_eq_rec c e1 e2 n | _ \<Rightarrow> (e1, e2, n))
             else (e1, e2, n))
      in (expr_eliminate_yn e1, expr_eliminate_yn e2, n))"
| "expr_eliminate_eq_rec type e1 e2 n =
     (if is_bin type e1 then
        (case e1 of BinE c l r \<Rightarrow>
           let (l, e2, n) = expr_eliminate_eq_rec type l e2 n;
               (r, e2, n) = expr_eliminate_eq_rec type r e2 n
           in (BinE c l r, e2, n)
         | _ \<Rightarrow> (e1, e2, n))
      else if is_bin type e2 then
        (case e2 of BinE c l r \<Rightarrow>
           let (e1, l, n) = expr_eliminate_eq_rec type e1 l n;
               (e1, r, n) = expr_eliminate_eq_rec type e1 r n
           in (e1, BinE c l r, n)
         | _ \<Rightarrow> (e1, e2, n))
      else if e1 = SymE symbol_yes \<and> e2 = SymE symbol_yes \<or> e1 = SymE symbol_no \<and> e2 = SymE symbol_no then
        (e1, e2, n)
      else if \<not> expr_eq e1 e2 then (e1, e2, n)
      else (SymE (neutral type), SymE (neutral type), n + 1))"
  by pat_completeness auto

fun size_e :: "expr \<Rightarrow> nat" where
  "size_e (SymE s) = 1"
| "size_e (NotE a) = Suc (size_e a)"
| "size_e (CmpE c s1 s2) = 1"
| "size_e (BinE c a b) = Suc (size_e a + size_e b)"

lemma size_e_pos [simp]: "0 < size_e e" "size_e e \<noteq> 0" "Suc 0 \<le> size_e e"
  by (cases e; simp)+

lemma expr_eliminate_yn_size: "size_e (expr_eliminate_yn e) \<le> size_e e"
  by (induction e rule: expr_eliminate_yn.induct) (auto simp: Let_def)


lemma eliminate_eq_sizes:
  shows "expr_eq_expr_eliminate_eq_expr_eliminate_eq_rec_dom (Inl (e1, e2)) \<Longrightarrow> True"
    and "expr_eq_expr_eliminate_eq_expr_eliminate_eq_rec_dom (Inr (Inl (e1, e2, n))) \<Longrightarrow> True"
    and "expr_eq_expr_eliminate_eq_expr_eliminate_eq_rec_dom (Inr (Inr (type, e1, e2, n))) \<Longrightarrow>
       expr_eliminate_eq_rec type e1 e2 n = (f1, f2, m) \<Longrightarrow> size_e f1 \<le> size_e e1 \<and> size_e f2 \<le> size_e e2"
proof (induction e1 e2 and e1 e2 n and type e1 e2 n arbitrary: and and f1 f2 m rule: expr_eq_expr_eliminate_eq_expr_eliminate_eq_rec.pinduct)
  case (3 type e1 e2 n)
  note res = 3(7) [unfolded expr_eliminate_eq_rec.psimps [OF 3(1)]]
  consider c l r where "is_bin type e1" "e1 = BinE c l r"
    | c l r where "\<not> is_bin type e1" "is_bin type e2" "e2 = BinE c l r"
    | "\<not> is_bin type e1" "\<not> is_bin type e2"
    by (metis is_bin.elims(2))
  then show ?case
  proof cases
    case 1
    then obtain l' e2' n' r' e2'' n'' where
      a: "expr_eliminate_eq_rec type l e2 n = (l', e2', n')" "expr_eliminate_eq_rec type r e2' n' = (r', e2'', n'')"
      and f: "f1 = BinE c l' r'" "f2 = e2''"
      using res by (auto split: prod.splits)
    have "size_e l' \<le> size_e l \<and> size_e e2' \<le> size_e e2" by (rule 3(2)) (use 1 a in auto)
    moreover have "size_e r' \<le> size_e r \<and> size_e e2'' \<le> size_e e2'" 
      by (rule 3(3)) (use 1 a in auto)
    ultimately show ?thesis using f 1 by auto
  next
    case 2
    then obtain l' e1' n' r' e1'' n'' where
      a: "expr_eliminate_eq_rec type e1 l n = (e1', l', n')" "expr_eliminate_eq_rec type e1' r n' = (e1'', r', n'')"
      and f: "f1 = e1''" "f2 = BinE c l' r'"
      using res by (auto split: prod.splits)
    have "size_e e1' \<le> size_e e1 \<and> size_e l' \<le> size_e l" by (rule 3(4)) (use 2 a in auto)
    moreover have "size_e e1'' \<le> size_e e1' \<and> size_e r' \<le> size_e r" 
      by (rule 3(5)) (use 2 a in auto)
    ultimately show ?thesis using f 2 by auto
  next
    case 3
    then show ?thesis using res by (auto split: if_splits)
  qed
qed auto

definition weight :: "conn \<Rightarrow> expr \<Rightarrow> expr \<Rightarrow> nat" where
  "weight type e1 e2 = (if is_bin type e1 \<or> is_bin type e2 then 4 * (size_e e1 + size_e e2) - 2
     else 4 * (size_e e1 + size_e e2) + 1)"

lemma weight_bin [simp]:
  "weight c (BinE c a b) e2 = 4 * (Suc (size_e a + size_e b) + size_e e2) - 2"
  "weight c e1 (BinE c a b) = 4 * (size_e e1 + Suc (size_e a + size_e b)) - 2"
  by (simp_all add: weight_def)

lemma weight_less: "4 * (size_e f1 + size_e f2) + 1 < t \<Longrightarrow> weight type f1 f2 < t"
  unfolding weight_def by (split if_split) arith

lemma weight_leaf [simp]:
  "\<not> is_bin type e1 \<Longrightarrow> \<not> is_bin type e2 \<Longrightarrow> weight type e1 e2 = 4 * (size_e e1 + size_e e2) + 1"
  by (simp add: weight_def)

lemma eliminate_eq_sum:
  assumes "expr_eq_expr_eliminate_eq_expr_eliminate_eq_rec_dom (Inr (Inr (type, e1, e2, n)))"
    and "(f1, f2, m) = expr_eliminate_eq_rec type e1 e2 n"
  shows "size_e f1 + size_e f2 \<le> size_e e1 + size_e e2" "size_e f1 \<le> size_e e1" "size_e f2 \<le> size_e e2"
  using eliminate_eq_sizes(3) [OF assms(1) assms(2) [symmetric]] by auto

termination expr_eq
proof (relation "measure (\<lambda>x. case x of
    Inl (e1, e2) \<Rightarrow> 4 * (size_e e1 + size_e e2)
  | Inr (Inl (e1, e2, n)) \<Rightarrow> 4 * (size_e e1 + size_e e2) - 1
  | Inr (Inr (type, e1, e2, n)) \<Rightarrow> weight type e1 e2)", goal_cases)
  case (5 e1 e2 n x xa y xb ya x41 x42 x43)
  have le: "size_e xa + size_e xb \<le> size_e e1 + size_e e2"
  proof (cases e1)
    case (BinE c a b)
    then show ?thesis using 5 eliminate_eq_sum(1) [of c e1 e2 n xa xb ya] by simp
  qed (use 5 in simp_all)
  have "weight x41 xa xb = 4 * (size_e xa + size_e xb) - 2" using 5 by simp
  moreover have "0 < size_e xa" by simp
  ultimately have "weight x41 xa xb < 4 * (size_e e1 + size_e e2) - 1" using le by arith
  then show ?case by simp
next
  case (7 type e1 e2 n x41 x42 x43 x xa y xb ya)
  then show ?case using eliminate_eq_sum(3) [of type x42 e2 n xa xb ya] by (auto intro!: weight_less)
next
  case (9 type e1 e2 n x41 x42 x43 x xa y xb ya)
  then show ?case using eliminate_eq_sum(2) [of type e1 x42 n xa xb ya] by (auto intro!: weight_less)
next
  case (2 e1 e2 x y x2 x2a)
  then show ?case by auto
qed (auto intro!: weight_less)
section \<open>Negation pushed inwards\<close>

fun flip :: "comp \<Rightarrow> comp" where
  "flip Eq = Neq"
| "flip Neq = Eq"

fun dual :: "conn \<Rightarrow> conn" where
  "dual Disj = Conj"
| "dual Conj = Disj"

text \<open>The messages printed for a boolean symbol that is compared with \<open>m\<close> are left out.\<close>

function expr_transform :: "kconf \<Rightarrow> expr \<Rightarrow> expr" where
  "expr_transform K (SymE s) = SymE s"
| "expr_transform K (CmpE Eq s1 s2) =
     (if s_type (symbols K s1) \<noteq> S_BOOLEAN then CmpE Eq s1 s2
      else if s2 = symbol_no then NotE (SymE s1)
      else if s2 = symbol_mod then SymE symbol_no
      else if s2 = symbol_yes then SymE s1
      else CmpE Eq s1 s2)"
| "expr_transform K (CmpE Neq s1 s2) =
     (if s_type (symbols K s1) \<noteq> S_BOOLEAN then CmpE Neq s1 s2
      else if s2 = symbol_no then SymE s1
      else if s2 = symbol_mod then SymE symbol_yes
      else if s2 = symbol_yes then NotE (SymE s1)
      else CmpE Neq s1 s2)"
| "expr_transform K (BinE c a b) = BinE c (expr_transform K a) (expr_transform K b)"
| "expr_transform K (NotE a) =
     (case expr_transform K a of
        NotE b \<Rightarrow> expr_transform K b
      | CmpE c s1 s2 \<Rightarrow> CmpE (flip c) s1 s2
      | BinE c x y \<Rightarrow> expr_transform K (BinE (dual c) (NotE x) (NotE y))
      | SymE s \<Rightarrow> if s = symbol_yes then SymE symbol_no
                  else if s = symbol_mod then SymE symbol_mod
                  else if s = symbol_no then SymE symbol_yes
                  else NotE (SymE s))"
  by pat_completeness auto

fun not_weight :: "expr \<Rightarrow> nat" where
  "not_weight (SymE s) = 1"
| "not_weight (CmpE c s1 s2) = 2"
| "not_weight (NotE a) = 2 * not_weight a"
| "not_weight (BinE c a b) = Suc (not_weight a + not_weight b)"

lemma not_weight_pos [simp]: "0 < not_weight e"
  by (induction e) simp_all

lemma expr_transform_weight:
  "expr_transform_dom (K, e) \<Longrightarrow> not_weight (expr_transform K e) \<le> not_weight e"
proof (induction K e rule: expr_transform.pinduct)
  case (5 K a)
  then show ?case
    by (cases "expr_transform K a") (auto simp: expr_transform.psimps)
qed (auto simp: expr_transform.psimps)

termination expr_transform
proof (relation "measure (\<lambda>(K, e). not_weight e)", goal_cases)
  case (5 K a x)
  then show ?case using expr_transform_weight [of K a] not_weight_pos [of x] by (auto simp del: not_weight_pos)
next
  case (6 K a c x y)
  then show ?case using expr_transform_weight [of K a] by auto
qed auto

end
