(* ===== verification/ExprJoin.thy ===== *)
theory ExprJoin
  imports Expr
begin

text \<open>
  The second half of \<open>kconfig/expr.c\<close>: joining two operands into one, removing repeated
  operands of a conjunction or disjunction, extracting what two expressions share, comparing an
  expression with a constant, the questions asked about an expression, and printing.
\<close>

section \<open>Joining two operands\<close>

text \<open>The symbol that the first and the second operand are about, if the operand has the right shape.\<close>

fun join_sym1 :: "expr \<Rightarrow> sym option" where
  "join_sym1 (SymE s) = Some s"
| "join_sym1 (CmpE c s s') = Some s"
| "join_sym1 (NotE (SymE s)) = Some s"
| "join_sym1 (NotE (CmpE c s s')) = Some s"
| "join_sym1 _ = None"

fun join_sym2 :: "expr \<Rightarrow> sym option" where
  "join_sym2 (SymE s) = Some s"
| "join_sym2 (CmpE c s s') = Some s"
| "join_sym2 (NotE (SymE s)) = Some s"
| "join_sym2 _ = None"

text \<open>Both operands compare \<open>s\<close>, with \<open>a\<close> and \<open>b\<close> in some order.\<close>

definition both_cmp :: "comp \<Rightarrow> expr \<Rightarrow> expr \<Rightarrow> sym \<Rightarrow> sym \<Rightarrow> sym \<Rightarrow> bool" where
  "both_cmp c e1 e2 s a b \<longleftrightarrow> e1 = CmpE c s a \<and> e2 = CmpE c s b \<or> e1 = CmpE c s b \<and> e2 = CmpE c s a"

text \<open>One operand is \<open>s\<close>, the other compares it with \<open>a\<close>.\<close>

definition one_cmp :: "comp \<Rightarrow> expr \<Rightarrow> expr \<Rightarrow> sym \<Rightarrow> sym \<Rightarrow> bool" where
  "one_cmp c e1 e2 s a \<longleftrightarrow> e1 = SymE s \<and> e2 = CmpE c s a \<or> e2 = SymE s \<and> e1 = CmpE c s a"

text \<open>\<open>None\<close> is \<open>NULL\<close>: the operands stay as they are.\<close>

definition expr_join_or :: "kconf \<Rightarrow> expr \<Rightarrow> expr \<Rightarrow> expr option" where
  "expr_join_or K e1 e2 =
     (if expr_eq e1 e2 then Some (expr_copy e1)
      else case (join_sym1 e1, join_sym2 e2) of
        (Some sym1, Some sym2) \<Rightarrow>
          (let type = s_type (symbols K sym1) in
           if sym1 \<noteq> sym2 then None
           else if type \<noteq> S_BOOLEAN \<and> type \<noteq> S_TRISTATE then None
           else if type = S_TRISTATE \<and> both_cmp Eq e1 e2 sym1 symbol_yes symbol_mod
             then Some (CmpE Neq sym1 symbol_no)
           else if type = S_TRISTATE \<and> both_cmp Eq e1 e2 sym1 symbol_yes symbol_no
             then Some (CmpE Neq sym1 symbol_mod)
           else if type = S_TRISTATE \<and> both_cmp Eq e1 e2 sym1 symbol_mod symbol_no
             then Some (CmpE Neq sym1 symbol_yes)
           else if type = S_BOOLEAN \<and>
               (e1 = NotE (SymE sym1) \<and> e2 = SymE sym1 \<or> e2 = NotE (SymE sym1) \<and> e1 = SymE sym1)
             then Some (SymE symbol_yes)
           else None)
      | _ \<Rightarrow> None)"

definition is_const :: "kconf \<Rightarrow> sym \<Rightarrow> bool" where
  "is_const K s \<longleftrightarrow> has_flag SYMBOL_CONST (symbols K s)"

text \<open>\<open>(a='b') && (a!='c')\<close>: \<open>Some r\<close> if both are constants.\<close>

definition join_eq_neq :: "kconf \<Rightarrow> sym \<Rightarrow> sym \<Rightarrow> sym \<Rightarrow> expr option" where
  "join_eq_neq K a b c =
     (if is_const K c \<and> is_const K b then Some (if b \<noteq> c then CmpE Eq a b else SymE symbol_no) else None)"

text \<open>The block for a tristate symbol.\<close>

definition join_and_tristate :: "kconf \<Rightarrow> sym \<Rightarrow> expr \<Rightarrow> expr \<Rightarrow> expr option" where
  "join_and_tristate K sym1 e1 e2 =
     (case (e1, e2) of
        (CmpE Eq _ b, CmpE Neq _ c) \<Rightarrow> join_eq_neq K sym1 b c
      | (CmpE Neq _ c, CmpE Eq _ b) \<Rightarrow> join_eq_neq K sym1 b c
      | _ \<Rightarrow>
        if both_cmp Neq e1 e2 sym1 symbol_yes symbol_no then Some (CmpE Eq sym1 symbol_mod)
        else if both_cmp Neq e1 e2 sym1 symbol_yes symbol_mod then Some (CmpE Eq sym1 symbol_no)
        else if both_cmp Neq e1 e2 sym1 symbol_mod symbol_no then Some (CmpE Eq sym1 symbol_yes)
        else None)"

definition expr_join_and :: "kconf \<Rightarrow> expr \<Rightarrow> expr \<Rightarrow> expr option" where
  "expr_join_and K e1 e2 =
     (if expr_eq e1 e2 then Some (expr_copy e1)
      else case (join_sym1 e1, join_sym2 e2) of
        (Some sym1, Some sym2) \<Rightarrow>
          (let type = s_type (symbols K sym1) in
           if sym1 \<noteq> sym2 then None
           else if type \<noteq> S_BOOLEAN \<and> type \<noteq> S_TRISTATE then None
           else if one_cmp Eq e1 e2 sym1 symbol_yes then Some (CmpE Eq sym1 symbol_yes)
           else if one_cmp Neq e1 e2 sym1 symbol_no then Some (SymE sym1)
           else if one_cmp Neq e1 e2 sym1 symbol_mod then Some (CmpE Eq sym1 symbol_yes)
           else if type = S_TRISTATE then join_and_tristate K sym1 e1 e2
           else None)
      | _ \<Rightarrow> None)"

fun expr_join :: "kconf \<Rightarrow> conn \<Rightarrow> expr \<Rightarrow> expr \<Rightarrow> expr option" where
  "expr_join K Disj e1 e2 = expr_join_or K e1 e2"
| "expr_join K Conj e1 e2 = expr_join_and K e1 e2"

section \<open>Positions in a tree\<close>

datatype turn = Lft | Rgt

type_synonym pos = "turn list"

text \<open>
  Reading and writing through a position; below a leaf of the \<open>BinE\<close> nodes there is nothing, and
  the functions below never go there.
\<close>

fun at :: "expr \<Rightarrow> pos \<Rightarrow> expr" where
  "at e [] = e"
| "at (BinE c a b) (Lft # p) = at a p"
| "at (BinE c a b) (Rgt # p) = at b p"
| "at e (_ # p) = e"

fun put :: "expr \<Rightarrow> pos \<Rightarrow> expr \<Rightarrow> expr" where
  "put e [] x = x"
| "put (BinE c a b) (Lft # p) x = BinE c (put a p x) b"
| "put (BinE c a b) (Rgt # p) x = BinE c a (put b p x)"
| "put e (_ # p) x = e"

section \<open>What two expressions share\<close>

function expr_extract_eq :: "conn \<Rightarrow> expr option \<Rightarrow> expr \<Rightarrow> expr \<Rightarrow> expr option \<times> expr \<times> expr" where
  "expr_extract_eq type ep e1 e2 =
     (if is_bin type e1 then
        (case e1 of BinE c l r \<Rightarrow>
           let (ep, l, e2) = expr_extract_eq type ep l e2;
               (ep, r, e2) = expr_extract_eq type ep r e2
           in (ep, BinE c l r, e2)
         | _ \<Rightarrow> (ep, e1, e2))
      else if is_bin type e2 then
        (case e2 of BinE c l r \<Rightarrow>
           let (ep, e1, l) = expr_extract_eq type ep e1 l;
               (ep, e1, r) = expr_extract_eq type ep e1 r
           in (ep, e1, BinE c l r)
         | _ \<Rightarrow> (ep, e1, e2))
      else if expr_eq e1 e2 then
        (Some (case ep of None \<Rightarrow> e1 | Some t \<Rightarrow> expr_alloc_two type t e1),
         SymE (neutral type), SymE (neutral type))
      else (ep, e1, e2))"
  by pat_completeness auto

lemma is_binE:
  assumes "is_bin c e"
  obtains a b where "e = BinE c a b"
  using assms by (cases "(c, e)" rule: is_bin.cases) auto

lemma extract_eq_sizes:
  "expr_extract_eq_dom (type, ep, e1, e2) \<Longrightarrow> expr_extract_eq type ep e1 e2 = (ep', f1, f2) \<Longrightarrow>
     size_e f1 \<le> size_e e1 \<and> size_e f2 \<le> size_e e2"
proof (induction type ep e1 e2 arbitrary: ep' f1 f2 rule: expr_extract_eq.pinduct)
  case (1 type ep e1 e2)
  note res = 1(6) [unfolded expr_extract_eq.psimps [OF 1(1)]]
  consider l r where "e1 = BinE type l r"
    | l r where "\<not> is_bin type e1" "e2 = BinE type l r"
    | "\<not> is_bin type e1" "\<not> is_bin type e2"
    by (metis is_binE)
  then show ?case
  proof cases
    case L: 1
    then obtain ep1 l' e2' ep2 r' e2'' where
      a: "expr_extract_eq type ep l e2 = (ep1, l', e2')" "expr_extract_eq type ep1 r e2' = (ep2, r', e2'')"
      and f: "f1 = BinE type l' r'" "f2 = e2''"
      using res by (auto split: prod.splits)
    have "size_e l' \<le> size_e l \<and> size_e e2' \<le> size_e e2" by (rule 1(2)) (use L a in auto)
    moreover have "size_e r' \<le> size_e r \<and> size_e e2'' \<le> size_e e2'" by (rule 1(3)) (use L a in auto)
    ultimately show ?thesis using f L by auto
  next
    case R: 2
    then obtain ep1 l' e1' ep2 r' e1'' where
      a: "expr_extract_eq type ep e1 l = (ep1, e1', l')" "expr_extract_eq type ep1 e1' r = (ep2, e1'', r')"
      and f: "f1 = e1''" "f2 = BinE type l' r'"
      using res by (auto split: prod.splits)
    have "size_e e1' \<le> size_e e1 \<and> size_e l' \<le> size_e l" by (rule 1(4)) (use R a in auto)
    moreover have "size_e e1'' \<le> size_e e1' \<and> size_e r' \<le> size_e r" by (rule 1(5)) (use R a in auto)
    ultimately show ?thesis using f R by auto
  next
    case 3
    then show ?thesis using res by (auto split: if_splits)
  qed
qed

termination expr_extract_eq
proof (relation "measure (\<lambda>(type, ep, e1, e2). size_e e1 + size_e e2)", goal_cases)
  case (3 type ep e1 e2 x41 x42 x43 x xa y xb ya)
  then show ?case using extract_eq_sizes [of type ep x42 e2 xa xb ya] by (auto elim!: is_binE)
next
  case (5 type ep e1 e2 x41 x42 x43 x xa y xb ya)
  then show ?case using extract_eq_sizes [of type ep e1 x42 xa xb ya] by (auto elim!: is_binE)
qed auto

declare expr_extract_eq.simps [simp del]

definition expr_extract_eq_and :: "expr \<Rightarrow> expr \<Rightarrow> expr option \<times> expr \<times> expr" where
  "expr_extract_eq_and e1 e2 =
     (let (tmp, e1, e2) = expr_extract_eq Conj None e1 e2 in
      if tmp \<noteq> None then (tmp, expr_eliminate_yn e1, expr_eliminate_yn e2) else (tmp, e1, e2))"

definition expr_extract_eq_or :: "expr \<Rightarrow> expr \<Rightarrow> expr option \<times> expr \<times> expr" where
  "expr_extract_eq_or e1 e2 =
     (let (tmp, e1, e2) = expr_extract_eq Disj None e1 e2 in
      if tmp \<noteq> None then (tmp, expr_eliminate_yn e1, expr_eliminate_yn e2) else (tmp, e1, e2))"

section \<open>Repeated operands\<close>

text \<open>
  Both functions are called with two pointers to the same place; \<open>p1\<close> and \<open>p2\<close> are the
  positions that \<open>ep1\<close> and \<open>ep2\<close> point to, and the state is the tree with \<open>trans_count\<close>.
  The first argument bounds the depth of the recursion; \<open>(size_e e + 1)\<^sup>2\<close> is enough for a call
  on a tree \<open>e\<close>.
\<close>

definition join_at :: "kconf \<Rightarrow> conn \<Rightarrow> pos \<Rightarrow> pos \<Rightarrow> expr \<times> nat \<Rightarrow> expr \<times> nat" where
  "join_at K type p1 p2 = (\<lambda>(e, n).
     case expr_join K type (at e p1) (at e p2) of
       None \<Rightarrow> (e, n)
     | Some tmp \<Rightarrow> (put (put e p1 (SymE (neutral type))) p2 tmp, n + 1))"

fun expr_eliminate_dups1 ::
    "nat \<Rightarrow> kconf \<Rightarrow> conn \<Rightarrow> pos \<Rightarrow> pos \<Rightarrow> expr \<times> nat \<Rightarrow> (expr \<times> nat) option" where
  "expr_eliminate_dups1 0 K type p1 p2 (e, n) = None"
| "expr_eliminate_dups1 (Suc k) K type p1 p2 (e, n) =
     (if is_bin type (at e p1) then
        Option.bind (expr_eliminate_dups1 k K type (p1 @ [Lft]) p2 (e, n))
          (expr_eliminate_dups1 k K type (p1 @ [Rgt]) p2)
      else if is_bin type (at e p2) then
        Option.bind (expr_eliminate_dups1 k K type p1 (p2 @ [Lft]) (e, n))
          (expr_eliminate_dups1 k K type p1 (p2 @ [Rgt]))
      else if p1 = p2 then Some (e, n)
      else
        Option.bind (case at e p1 of BinE c _ _ \<Rightarrow> expr_eliminate_dups1 k K c p1 p1 (e, n) | _ \<Rightarrow> Some (e, n))
          (\<lambda>s. Some (join_at K type p1 p2 s)))"

text \<open>\<open>(FOO || BAR) && (!FOO && !BAR) -> n\<close>, and its dual: \<open>e1\<close> is the disjunction.\<close>

definition contradicts :: "kconf \<Rightarrow> expr \<Rightarrow> expr \<Rightarrow> bool" where
  "contradicts K e1 e2 =
     (let tmp1 = expr_transform K (NotE (expr_copy e1)); tmp2 = expr_copy e2;
          (tmp, tmp1, tmp2) = expr_extract_eq_and tmp1 tmp2
      in expr_is_yes (Some tmp1))"

definition exhausts :: "kconf \<Rightarrow> expr \<Rightarrow> expr \<Rightarrow> bool" where
  "exhausts K e1 e2 =
     (let tmp1 = expr_transform K (NotE (expr_copy e1)); tmp2 = expr_copy e2;
          (tmp, tmp1, tmp2) = expr_extract_eq_or tmp1 tmp2
      in expr_is_no (Some tmp1))"

definition cancel_at :: "kconf \<Rightarrow> pos \<Rightarrow> pos \<Rightarrow> expr \<times> nat \<Rightarrow> expr \<times> nat" where
  "cancel_at K p1 p2 = (\<lambda>(e, n).
     case at e p1 of
       BinE Disj _ _ \<Rightarrow> if contradicts K (at e p1) (at e p2) then (put e p1 (SymE symbol_no), n + 1) else (e, n)
     | BinE Conj _ _ \<Rightarrow> if exhausts K (at e p1) (at e p2) then (put e p1 (SymE symbol_yes), n + 1) else (e, n)
     | _ \<Rightarrow> (e, n))"

fun expr_eliminate_dups2 ::
    "nat \<Rightarrow> kconf \<Rightarrow> conn \<Rightarrow> pos \<Rightarrow> pos \<Rightarrow> expr \<times> nat \<Rightarrow> (expr \<times> nat) option" where
  "expr_eliminate_dups2 0 K type p1 p2 (e, n) = None"
| "expr_eliminate_dups2 (Suc k) K type p1 p2 (e, n) =
     (if is_bin type (at e p1) then
        Option.bind (expr_eliminate_dups2 k K type (p1 @ [Lft]) p2 (e, n))
          (expr_eliminate_dups2 k K type (p1 @ [Rgt]) p2)
      else
        Option.bind
          (if is_bin type (at e p2) then
             Option.bind (expr_eliminate_dups2 k K type p1 (p2 @ [Lft]) (e, n))
               (expr_eliminate_dups2 k K type p1 (p2 @ [Rgt]))
           else Some (e, n))
          (\<lambda>(e, n).
             if p1 = p2 then Some (e, n)
             else
               Option.bind (case at e p1 of BinE c _ _ \<Rightarrow> expr_eliminate_dups2 k K c p1 p1 (e, n) | _ \<Rightarrow> Some (e, n))
                 (\<lambda>s. Some (cancel_at K p1 p2 s))))"

definition dups_fuel :: "expr \<Rightarrow> nat" where
  "dups_fuel e = (size_e e + 1) * (size_e e + 1)"

text \<open>One round of the loop of \<open>expr_eliminate_dups\<close>: the new tree and \<open>trans_count\<close>.\<close>

definition dups_round :: "kconf \<Rightarrow> expr \<Rightarrow> (expr \<times> nat) option" where
  "dups_round K e =
     (case e of
        BinE c _ _ \<Rightarrow>
          Option.bind (expr_eliminate_dups1 (dups_fuel e) K c [] [] (e, 0))
            (\<lambda>(e, n). expr_eliminate_dups2 (dups_fuel e) K c [] [] (e, n))
      | _ \<Rightarrow> Some (e, 0))"

partial_function (option) expr_eliminate_dups :: "kconf \<Rightarrow> expr \<Rightarrow> expr option" where
  "expr_eliminate_dups K e =
     Option.bind (dups_round K e)
       (\<lambda>r. if snd r = 0 then Some (fst r) else expr_eliminate_dups K (expr_eliminate_yn (fst r)))"

section \<open>Comparing an expression with a constant\<close>

definition negate_if :: "bool \<Rightarrow> expr \<Rightarrow> expr" where
  "negate_if b e = (if b then expr_alloc_not e else e)"

text \<open>The value \<open>None\<close> is the \<open>NULL\<close> returned for a symbol other than \<open>y\<close>, \<open>m\<close> and \<open>n\<close>.\<close>

fun expr_trans_compare_some :: "expr \<Rightarrow> comp \<Rightarrow> sym \<Rightarrow> expr option" where
  "expr_trans_compare_some (BinE c l r) type symb =
     (let e1 = expr_trans_compare_some l Eq symb; e2 = expr_trans_compare_some r Eq symb;
          e = (if symb = symbol_yes then
                 (case (e1, e2) of (Some a, Some b) \<Rightarrow> Some (expr_alloc_two c a b) | _ \<Rightarrow> None)
               else if symb = symbol_no then
                 (case (e1, e2) of (Some a, Some b) \<Rightarrow> Some (expr_alloc_two (dual c) a b) | _ \<Rightarrow> None)
               else Some (BinE c l r))
      in map_option (negate_if (type = Neq)) e)"
| "expr_trans_compare_some (NotE a) type symb =
     expr_trans_compare_some a (if type = Eq then Neq else Eq) symb"
| "expr_trans_compare_some (CmpE c s1 s2) type symb =
     (let e = CmpE c s1 s2 in
      if type = Eq then
        (if symb = symbol_yes then Some (expr_copy e)
         else if symb = symbol_mod then Some (expr_alloc_symbol symbol_no)
         else if symb = symbol_no then Some (expr_alloc_not (expr_copy e))
         else None)
      else
        (if symb = symbol_yes then Some (expr_alloc_not (expr_copy e))
         else if symb = symbol_mod then Some (expr_alloc_symbol symbol_yes)
         else if symb = symbol_no then Some (expr_copy e)
         else None))"
| "expr_trans_compare_some (SymE s) type symb = Some (expr_alloc_comp type s symb)"

definition expr_trans_compare :: "expr option \<Rightarrow> comp \<Rightarrow> sym \<Rightarrow> expr option" where
  "expr_trans_compare e type symb =
     (case e of
        None \<Rightarrow> Some (negate_if (type = Neq) (expr_alloc_symbol symb))
      | Some a \<Rightarrow> expr_trans_compare_some a type symb)"

section \<open>Questions about an expression\<close>

fun expr_contains_symbol :: "expr \<Rightarrow> sym \<Rightarrow> bool" where
  "expr_contains_symbol (BinE c a b) symb \<longleftrightarrow> expr_contains_symbol a symb \<or> expr_contains_symbol b symb"
| "expr_contains_symbol (SymE s) symb \<longleftrightarrow> s = symb"
| "expr_contains_symbol (CmpE c s1 s2) symb \<longleftrightarrow> s1 = symb \<or> s2 = symb"
| "expr_contains_symbol (NotE a) symb \<longleftrightarrow> expr_contains_symbol a symb"

fun expr_depends_symbol :: "expr \<Rightarrow> sym \<Rightarrow> bool" where
  "expr_depends_symbol (BinE Conj a b) symb \<longleftrightarrow> expr_depends_symbol a symb \<or> expr_depends_symbol b symb"
| "expr_depends_symbol (SymE s) symb \<longleftrightarrow> s = symb"
| "expr_depends_symbol (CmpE Eq s1 s2) symb \<longleftrightarrow> s1 = symb \<and> (s2 = symbol_yes \<or> s2 = symbol_mod)"
| "expr_depends_symbol (CmpE Neq s1 s2) symb \<longleftrightarrow> s1 = symb \<and> s2 = symbol_no"
| "expr_depends_symbol e symb \<longleftrightarrow> False"

text \<open>
  The loop follows \<open>left.expr\<close> until it meets a symbol. In a comparison that field holds a symbol,
  not an expression.
\<close>

fun leftmost_symbol :: "expr \<Rightarrow> expr result" where
  "leftmost_symbol (SymE s) = Inr (SymE s)"
| "leftmost_symbol (NotE a) = leftmost_symbol a"
| "leftmost_symbol (BinE c a b) = leftmost_symbol a"
| "leftmost_symbol (CmpE c s1 s2) = Inl BadCast"

definition expr_get_leftmost_symbol :: "expr option \<Rightarrow> expr option result" where
  "expr_get_leftmost_symbol e =
     (case e of None \<Rightarrow> Inr None | Some a \<Rightarrow> bindE (leftmost_symbol a) (\<lambda>s. Inr (Some (expr_copy s))))"

fun expr_simplify_unmet_dep :: "kconf \<Rightarrow> expr \<Rightarrow> expr option \<Rightarrow> expr option result" where
  "expr_simplify_unmet_dep K (BinE Disj a b) e2 =
     bindE (expr_simplify_unmet_dep K a e2) (\<lambda>l.
     bindE (expr_simplify_unmet_dep K b e2) (\<lambda>r. Inr (expr_alloc_and l r)))"
| "expr_simplify_unmet_dep K (BinE Conj a b) e2 =
     (let e1 = BinE Conj a b in
      bindE (bindE (deref (expr_alloc_and (Some (expr_copy e1)) (map_option expr_copy e2)))
               (\<lambda>e. loop_result (map_option Inr (expr_eliminate_dups K e))))
        (\<lambda>e. expr_get_leftmost_symbol (if \<not> expr_eq e e1 then Some e1 else None)))"
| "expr_simplify_unmet_dep K e1 e2 = expr_get_leftmost_symbol (Some e1)"

section \<open>Printing\<close>

text \<open>
  \<open>1\<close> if an expression of type \<open>t2\<close> needs parentheses below one of type \<open>t1\<close>. The cases of the
  switch fall through to the next.
\<close>

definition expr_compare_type :: "expr_type \<Rightarrow> expr_type \<Rightarrow> int" where
  "expr_compare_type t1 t2 =
     (if t1 = t2 then 0
      else if t1 \<in> {E_EQUAL, E_UNEQUAL} \<and> t2 = E_NOT then 1
      else if t1 \<in> {E_EQUAL, E_UNEQUAL, E_NOT} \<and> t2 = E_AND then 1
      else if t1 \<in> {E_EQUAL, E_UNEQUAL, E_NOT, E_AND} \<and> t2 = E_OR then 1
      else if t1 \<in> {E_EQUAL, E_UNEQUAL, E_NOT, E_AND, E_OR} \<and> t2 = E_LIST then 1
      else if t1 \<in> {E_EQUAL, E_UNEQUAL, E_NOT, E_AND, E_OR, E_LIST} \<and> t2 = E_NONE then 1
      else -1)"

text \<open>
  A call \<open>fn(data, sym, str)\<close> is the pair \<open>(sym, str)\<close>; printing an expression is the list of the
  calls. The symbol on the right of a comparison always has a name.
\<close>

type_synonym print_call = "sym option \<times> string"

definition print_name :: "kconf \<Rightarrow> sym \<Rightarrow> print_call" where
  "print_name K s = (case s_name (symbols K s) of Some nm \<Rightarrow> (Some s, nm) | None \<Rightarrow> (None, ''<choice>''))"

definition print_sym :: "kconf \<Rightarrow> sym \<Rightarrow> print_call" where
  "print_sym K s = (Some s, case s_name (symbols K s) of Some nm \<Rightarrow> nm | None \<Rightarrow> [])"

definition in_parens :: "expr_type \<Rightarrow> expr_type \<Rightarrow> print_call list \<Rightarrow> print_call list" where
  "in_parens prevtoken type body =
     (if expr_compare_type prevtoken type > 0 then [(None, ''('')] else []) @ body @
     (if expr_compare_type prevtoken type > 0 then [(None, '')'')] else [])"

fun expr_print_some :: "kconf \<Rightarrow> expr \<Rightarrow> expr_type \<Rightarrow> print_call list" where
  "expr_print_some K (SymE s) prevtoken = in_parens prevtoken E_SYMBOL [print_name K s]"
| "expr_print_some K (NotE a) prevtoken =
     in_parens prevtoken E_NOT ((None, ''!'') # expr_print_some K a E_NOT)"
| "expr_print_some K (CmpE Eq s1 s2) prevtoken =
     in_parens prevtoken E_EQUAL [print_name K s1, (None, ''=''), print_sym K s2]"
| "expr_print_some K (CmpE Neq s1 s2) prevtoken =
     in_parens prevtoken E_UNEQUAL [print_name K s1, (None, ''!=''), print_sym K s2]"
| "expr_print_some K (BinE Disj a b) prevtoken =
     in_parens prevtoken E_OR (expr_print_some K a E_OR @ [(None, '' || '')] @ expr_print_some K b E_OR)"
| "expr_print_some K (BinE Conj a b) prevtoken =
     in_parens prevtoken E_AND (expr_print_some K a E_AND @ [(None, '' && '')] @ expr_print_some K b E_AND)"

fun expr_print_list :: "kconf \<Rightarrow> sym list \<Rightarrow> expr_type \<Rightarrow> print_call list" where
  "expr_print_list K [] prevtoken = [(None, ''y'')]"
| "expr_print_list K (s # ss) prevtoken =
     in_parens prevtoken E_LIST
       (print_sym K s # (if ss \<noteq> [] then (None, '' ^ '') # expr_print_list K ss E_LIST else []))"

fun expr_print :: "kconf \<Rightarrow> prop_expr option \<Rightarrow> expr_type \<Rightarrow> print_call list" where
  "expr_print K None prevtoken = [(None, ''y'')]"
| "expr_print K (Some (DepE e)) prevtoken = expr_print_some K e prevtoken"
| "expr_print K (Some (ListE ss)) prevtoken = expr_print_list K ss prevtoken"
| "expr_print K (Some (RangeE s1 s2)) prevtoken =
     in_parens prevtoken E_RANGE
       [(None, ''[''), print_sym K s1, (None, '' ''), print_sym K s2, (None, '']'')]"

definition expr_fprint :: "kconf \<Rightarrow> prop_expr option \<Rightarrow> string" where
  "expr_fprint K e = concat (map snd (expr_print K e E_NONE))"

end
