(* ===== verification/ExprValue.thy ===== *)
theory ExprValue
  imports ExprJoin
begin

text \<open>
  What the rewriting of \<open>expr.c\<close> does to the value of an expression. The tables considered hold
  calculated values: the static symbols are what \<open>symbol.c\<close> initialises them to, a boolean symbol
  is not \<open>m\<close>, a tristate symbol is \<open>m\<close> only while modules are enabled, and the
  constants have different strings.
\<close>

section \<open>Calculated tables\<close>

definition tri :: "kconf \<Rightarrow> sym \<Rightarrow> tristate" where
  "tri K s = sv_tri (s_curr (symbols K s))"

fun tri_string :: "tristate \<Rightarrow> string" where
  "tri_string no = ''n''"
| "tri_string tri_mod = ''m''"
| "tri_string yes = ''y''"

lemma tri_string_inject [simp]: "tri_string a = tri_string b \<longleftrightarrow> a = b"
  by (cases a; cases b) simp_all

definition boolish :: "kconf \<Rightarrow> sym \<Rightarrow> bool" where
  "boolish K s \<longleftrightarrow> s_type (symbols K s) = S_BOOLEAN \<or> s_type (symbols K s) = S_TRISTATE"

definition calculated :: "kconf \<Rightarrow> bool" where
  "calculated K \<longleftrightarrow> static_ok K \<and>
     (\<forall>s. s_type (symbols K s) = S_BOOLEAN \<longrightarrow> tri K s \<noteq> tri_mod) \<and>
     (\<forall>s. s_type (symbols K s) = S_TRISTATE \<longrightarrow> tri K s = tri_mod \<longrightarrow> tri K (modules_sym K) \<noteq> no) \<and>
     (\<forall>s t. is_const K s \<longrightarrow> is_const K t \<longrightarrow>
        sym_get_string_value K s = sym_get_string_value K t \<longrightarrow> s = t)"

text \<open>No operand of the expression is a symbol that is \<open>m\<close>.\<close>

fun two_valued :: "kconf \<Rightarrow> expr \<Rightarrow> bool" where
  "two_valued K (SymE s) \<longleftrightarrow> tri K s \<noteq> tri_mod"
| "two_valued K (CmpE c s1 s2) \<longleftrightarrow> True"
| "two_valued K (NotE a) \<longleftrightarrow> two_valued K a"
| "two_valued K (BinE c a b) \<longleftrightarrow> two_valued K a \<and> two_valued K b"

lemma static_tri [simp]:
  assumes "static_ok K"
  shows "tri K symbol_yes = yes" "tri K symbol_mod = tri_mod" "tri K symbol_no = no"
  using assms by (simp_all add: static_ok_def tri_def symbol_yes_init_def symbol_mod_init_def symbol_no_init_def
      static_symbol_def)

lemma static_string [simp]:
  assumes "static_ok K"
  shows "sym_get_string_value K symbol_yes = ''y''" "sym_get_string_value K symbol_mod = ''m''"
    "sym_get_string_value K symbol_no = ''n''"
  using assms by (simp_all add: static_ok_def sym_get_string_value_def symbol_yes_init_def symbol_mod_init_def
      symbol_no_init_def static_symbol_def Let_def)

lemma calculated_static [simp]: "calculated K \<Longrightarrow> static_ok K"
  by (simp add: calculated_def)

lemma calculatedD:
  assumes "calculated K"
  shows "s_type (symbols K s) = S_BOOLEAN \<Longrightarrow> tri K s \<noteq> tri_mod"
    and "s_type (symbols K s) = S_TRISTATE \<Longrightarrow> tri K s = tri_mod \<Longrightarrow> tri K (modules_sym K) \<noteq> no"
    and "is_const K s \<Longrightarrow> is_const K t \<Longrightarrow> sym_get_string_value K s = sym_get_string_value K t \<Longrightarrow> s = t"
  using assms unfolding calculated_def by metis+

lemma boolish_string:
  assumes "calculated K" and "boolish K s"
  shows "sym_get_string_value K s = tri_string (tri K s)"
  using assms(2) calculatedD(1,2) [OF assms(1), of s]
  unfolding sym_get_string_value_def boolish_def sym_get_tristate_value_def Let_def tri_def [symmetric]
  by (cases "tri K s") auto

lemma value_sym [simp]: "expr_calc_value K (SymE s) = tri K s"
  by (simp add: tri_def)

declare expr_calc_value.simps(1) [simp del]

section \<open>Conjunction and disjunction\<close>

fun junction :: "conn \<Rightarrow> tristate \<Rightarrow> tristate \<Rightarrow> tristate" where
  "junction Conj a b = min a b"
| "junction Disj a b = max a b"

lemma value_bin [simp]:
  "expr_calc_value K (BinE c a b) = junction c (expr_calc_value K a) (expr_calc_value K b)"
  by (cases c) (simp_all add: EXPR_AND_min EXPR_OR_max)

declare expr_calc_value.simps(2,3) [simp del]

fun unit_of :: "conn \<Rightarrow> tristate" where
  "unit_of Conj = yes"
| "unit_of Disj = no"

lemma junction_unit [simp]: "junction c (unit_of c) a = a" "junction c a (unit_of c) = a"
  by (cases c; simp add: min_def max_def)+

lemma junction_assoc: "junction c (junction c a b) d = junction c a (junction c b d)"
  by (cases c) (simp_all add: min.assoc max.assoc)

lemma junction_commute: "junction c a b = junction c b a"
  by (cases c) (simp_all add: min.commute max.commute)

lemma junction_left_commute: "junction c a (junction c b d) = junction c b (junction c a d)"
  by (cases c) (simp_all add: min.left_commute max.left_commute)

lemma junction_idem [simp]: "junction c a a = a"
  by (cases c) simp_all

lemmas junction_ac = junction_assoc junction_commute junction_left_commute

lemma value_neutral [simp]: "static_ok K \<Longrightarrow> tri K (neutral c) = unit_of c"
  by (cases c) simp_all

lemma EXPR_NOT_junction: "EXPR_NOT (junction c a b) = junction (dual c) (EXPR_NOT a) (EXPR_NOT b)"
  by (cases c; cases a; cases b; simp add: min_def max_def tri_order)

lemma two_valued_value: "two_valued K e \<Longrightarrow> expr_calc_value K e \<noteq> tri_mod"
proof (induction e)
  case (BinE c a b)
  then show ?case by (cases c) (auto simp: min_def max_def)
next
  case (CmpE c s t)
  then show ?case by (cases c) simp_all
qed simp_all

section \<open>Rewriting steps that keep the value\<close>

lemma expr_copy_same [simp]: "expr_copy e = e"
  by (induction e) simp_all

lemma eliminate_yn_value [simp]:
  assumes "static_ok K"
  shows "expr_calc_value K (expr_eliminate_yn e) = expr_calc_value K e"
proof (induction e)
  case (BinE c a b)
  then show ?case
    using assms by (cases c) (auto simp: Let_def min_def max_def split: if_splits)
qed simp_all

lemma value_cmp:
  "expr_calc_value K (CmpE c s t) =
     (if (sym_get_string_value K s = sym_get_string_value K t) = (c = Eq) then yes else no)"
  by (cases c) auto

lemma value_flip: "expr_calc_value K (CmpE (flip c) s t) = EXPR_NOT (expr_calc_value K (CmpE c s t))"
  by (cases c) auto

lemma transform_value:
  assumes "calculated K"
  shows "expr_calc_value K (expr_transform K e) = expr_calc_value K e"
  using assms
proof (induction K e rule: expr_transform.induct)
  case (2 K s1 s2)
  then show ?case
    using calculatedD(1) [of K s1] by (cases "tri K s1") (auto simp: boolish_string boolish_def)
next
  case (3 K s1 s2)
  then show ?case
    using calculatedD(1) [of K s1] by (cases "tri K s1") (auto simp: boolish_string boolish_def)
next
  case (5 K a)
  show ?case
  proof (cases "expr_transform K a")
    case (NotE b)
    then have "expr_calc_value K a = EXPR_NOT (expr_calc_value K b)" using 5(1) [OF 5(4)] by simp
    then show ?thesis using NotE 5(2) [OF NotE 5(4)] by simp
  next
    case (BinE c x y)
    then have "expr_calc_value K a = junction c (expr_calc_value K x) (expr_calc_value K y)"
      using 5(1) [OF 5(4)] by simp
    moreover have "expr_transform K (NotE a) = expr_transform K (BinE (dual c) (NotE x) (NotE y))"
      using BinE by (simp only: expr_transform.simps(5) expr.case)
    ultimately show ?thesis using 5(3) [OF BinE 5(4)] by (simp only: value_bin EXPR_NOT_junction expr_calc_value.simps)
  qed (use 5(1) [OF 5(4)] 5(4) in \<open>auto simp: value_flip\<close>)
qed auto

section \<open>Normal form\<close>

text \<open>
  What \<open>expr_transform\<close> produces: negation only of symbols that are not constants, and no boolean
  symbol compared with a constant.
\<close>

fun normal :: "kconf \<Rightarrow> expr \<Rightarrow> bool" where
  "normal K (SymE s) \<longleftrightarrow> True"
| "normal K (CmpE c s1 s2) \<longleftrightarrow>
     (s_type (symbols K s1) = S_BOOLEAN \<longrightarrow> s2 \<notin> {symbol_yes, symbol_mod, symbol_no})"
| "normal K (NotE (SymE s)) \<longleftrightarrow> s \<notin> {symbol_yes, symbol_mod, symbol_no}"
| "normal K (NotE e) \<longleftrightarrow> False"
| "normal K (BinE c a b) \<longleftrightarrow> normal K a \<and> normal K b"

lemma static_type:
  assumes "static_ok K" and "s_type (symbols K s) = S_BOOLEAN"
  shows "s \<notin> {symbol_yes, symbol_mod, symbol_no}"
  using assms by (auto simp: static_ok_def symbol_yes_init_def symbol_mod_init_def symbol_no_init_def static_symbol_def)

lemma transform_normal:
  assumes "static_ok K"
  shows "normal K (expr_transform K e)"
  using assms
proof (induction K e rule: expr_transform.induct)
  case (2 K s1 s2)
  then show ?case using static_type [of K s1] by auto
next
  case (3 K s1 s2)
  then show ?case using static_type [of K s1] by auto
next
  case (5 K a)
  then show ?case
  proof (cases "expr_transform K a")
    case (BinE c x y)
    moreover have "expr_transform K (NotE a) = expr_transform K (BinE (dual c) (NotE x) (NotE y))"
      using BinE by (simp only: expr_transform.simps(5) expr.case)
    ultimately show ?thesis using 5(3) [OF BinE 5(4)] by (simp only:)
  qed (use 5 in auto)
qed auto

lemma transform_id: "normal K e \<Longrightarrow> expr_transform K e = e"
proof (induction K e rule: normal.induct)
  case (2 K c s1 s2)
  then show ?case by (cases c) auto
qed auto

section \<open>Equality is sound\<close>

lemma expr_eq_etype: "expr_eq e1 e2 \<Longrightarrow> etype e1 = etype e2"
  by (simp add: expr_eq.simps split: if_splits)

declare expr_eq.simps [simp del] expr_eliminate_eq.simps [simp del] expr_eliminate_eq_rec.simps [simp del]

text \<open>What a removal takes out of both trees.\<close>

definition shares :: "kconf \<Rightarrow> conn \<Rightarrow> expr \<Rightarrow> expr \<Rightarrow> expr \<Rightarrow> expr \<Rightarrow> bool" where
  "shares K c e1 e2 f1 f2 \<longleftrightarrow>
     (\<exists>x. expr_calc_value K e1 = junction c (expr_calc_value K f1) x \<and>
          expr_calc_value K e2 = junction c (expr_calc_value K f2) x)"

lemma shares_refl [simp]: "shares K c e1 e2 e1 e2"
  unfolding shares_def by (intro exI [of _ "unit_of c"]) simp

lemma shares_left:
  assumes "shares K c l e2 l' e2'" and "shares K c r e2' r' e2''"
  shows "shares K c (BinE c l r) e2 (BinE c l' r') e2''"
proof -
  from assms obtain x y where "expr_calc_value K l = junction c (expr_calc_value K l') x"
    "expr_calc_value K e2 = junction c (expr_calc_value K e2') x"
    "expr_calc_value K r = junction c (expr_calc_value K r') y"
    "expr_calc_value K e2' = junction c (expr_calc_value K e2'') y" by (auto simp: shares_def)
  then show ?thesis unfolding shares_def by (intro exI [of _ "junction c x y"]) (simp add: junction_ac)
qed

lemma shares_commute: "shares K c e1 e2 f1 f2 \<longleftrightarrow> shares K c e2 e1 f2 f1"
  by (auto simp: shares_def)

lemma shares_right:
  assumes "shares K c e1 l e1' l'" and "shares K c e1' r e1'' r'"
  shows "shares K c e1 (BinE c l r) e1'' (BinE c l' r')"
  using shares_left [of K c l e1 l' e1' r r' e1''] assms by (simp add: shares_commute)

lemma shares_neutral:
  assumes "static_ok K" and "expr_calc_value K e1 = expr_calc_value K e2"
  shows "shares K c e1 e2 (SymE (neutral c)) (SymE (neutral c))"
  unfolding shares_def by (intro exI [of _ "expr_calc_value K e1"]) (use assms in simp)

lemma shares_eq:
  assumes "shares K c e1 e2 f1 f2" and "expr_calc_value K f1 = expr_calc_value K f2"
  shows "expr_calc_value K e1 = expr_calc_value K e2"
  using assms by (auto simp: shares_def)

lemma eq_value:
  assumes "static_ok K"
  shows "expr_eq e1 e2 \<Longrightarrow> expr_calc_value K e1 = expr_calc_value K e2"
    and "expr_eliminate_eq e1 e2 n = (f1, f2, m) \<Longrightarrow>
      expr_calc_value K f1 = expr_calc_value K f2 \<Longrightarrow> expr_calc_value K e1 = expr_calc_value K e2"
    and "expr_eliminate_eq_rec type e1 e2 n = (f1, f2, m) \<Longrightarrow> shares K type e1 e2 f1 f2"
proof (induction e1 e2 and e1 e2 n and type e1 e2 n arbitrary: and f1 f2 m and f1 f2 m
    rule: expr_eq_expr_eliminate_eq_expr_eliminate_eq_rec.induct)
  case (1 e1 e2)
  note eq = 1(3)
  then have ty: "etype e1 = etype e2" by (rule expr_eq_etype)
  show ?case
  proof (cases e1)
    case (SymE s)
    then show ?thesis using eq ty by (cases e2) (auto simp: expr_eq.simps split: if_splits)
  next
    case (CmpE c s t)
    then show ?thesis using eq ty
      by (cases e2; cases c) (auto simp: expr_eq.simps value_cmp split: if_splits)
  next
    case (NotE a)
    then obtain b where b: "e2 = NotE b" using ty by (cases e2) auto
    moreover have "expr_eq a b" using eq NotE b by (simp add: expr_eq.simps [of "NotE a"])
    ultimately show ?thesis using 1(1) [of e1 e2 a b] NotE ty by simp
  next
    case (BinE c a b)
    then obtain c' a' b' where b: "e2 = BinE c' a' b'"
      using ty unfolding BinE by (cases e2) auto
    obtain f1 f2 m where el: "expr_eliminate_eq e1 e2 0 = (f1, f2, m)" by (metis prod.exhaust)
    obtain s where "f1 = SymE s" "f2 = SymE s"
      using eq ty BinE b el by (auto simp: expr_eq.simps split: expr.splits if_splits)
    then show ?thesis using 1(2) [of e1 e2] BinE b el ty by simp
  qed
next
  case (2 e1 e2 n)
  obtain g1 g2 k where one: "(case e1 of BinE c _ _ \<Rightarrow> expr_eliminate_eq_rec c e1 e2 n | _ \<Rightarrow> (e1, e2, n)) = (g1, g2, k)"
    by (metis prod.exhaust)
  obtain h1 h2 l where two: "(if etype g1 \<noteq> etype g2 then
      (case g2 of BinE c _ _ \<Rightarrow> expr_eliminate_eq_rec c g1 g2 k | _ \<Rightarrow> (g1, g2, k)) else (g1, g2, k)) = (h1, h2, l)"
    by (metis prod.exhaust)
  have "f1 = expr_eliminate_yn h1" "f2 = expr_eliminate_yn h2"
    using 2(3) one two by (simp_all add: expr_eliminate_eq.simps)
  with 2(4) assms have h: "expr_calc_value K h1 = expr_calc_value K h2" by simp
  have g: "expr_calc_value K g1 = expr_calc_value K g2"
  proof (cases "etype g1 \<noteq> etype g2 \<and> (\<exists>c a b. g2 = BinE c a b)")
    case True
    then obtain c a b where g2: "g2 = BinE c a b" by auto
    then have "shares K c g1 g2 h1 h2" using 2(2) [of _ g1] one two True by simp
    then show ?thesis using h by (rule shares_eq)
  next
    case False
    then have "g1 = h1 \<and> g2 = h2" using two by (auto split: if_splits expr.splits)
    then show ?thesis using h by simp
  qed
  show ?case
  proof (cases e1)
    case (BinE c a b)
    then have "shares K c e1 e2 g1 g2" using 2(1) one by simp
    then show ?thesis using g by (rule shares_eq)
  qed (use one g in auto)
next
  case (3 type e1 e2 n)
  note res = 3(6) [unfolded expr_eliminate_eq_rec.simps [of type e1 e2 n]]
  consider l r where "e1 = BinE type l r"
    | l r where "\<not> is_bin type e1" "e2 = BinE type l r"
    | "\<not> is_bin type e1" "\<not> is_bin type e2"
    by (metis is_binE)
  then show ?case
  proof cases
    case L: 1
    then obtain l' e2' n' r' e2'' n'' where
      a: "expr_eliminate_eq_rec type l e2 n = (l', e2', n')" "expr_eliminate_eq_rec type r e2' n' = (r', e2'', n'')"
      and f: "f1 = BinE type l' r'" "f2 = e2''"
      using res by (auto split: prod.splits)
    show ?thesis unfolding L f by (rule shares_left) (use 3(1,2) L a in auto)
  next
    case R: 2
    then obtain l' e1' n' r' e1'' n'' where
      a: "expr_eliminate_eq_rec type e1 l n = (e1', l', n')" "expr_eliminate_eq_rec type e1' r n' = (e1'', r', n'')"
      and f: "f1 = e1''" "f2 = BinE type l' r'"
      using res by (auto split: prod.splits)
    show ?thesis unfolding R f by (rule shares_right) (use 3(3,4) R a in auto)
  next
    case N: 3
    then show ?thesis using res 3(5) assms by (auto split: if_splits intro: shares_neutral)
  qed
qed

end
