(* ===== verification/ExprDups.thy ===== *)
theory ExprDups
  imports ExprValue
begin

text \<open>
  Joining operands and removing repeated ones: \<open>expr_join_or\<close> and \<open>expr_join_and\<close> keep the value of
  the pair, \<open>expr_eliminate_dups1\<close> the value of the tree. \<open>expr_eliminate_dups2\<close> keeps it when no
  symbol of the tree is \<open>m\<close>. Both make the tree no bigger and end within the depth given, and so
  the loop of \<open>expr_eliminate_dups\<close> ends.
\<close>

section \<open>Joins\<close>

declare expr_calc_value.simps(5,6) [simp del]

lemma junction_cmp:
  "boolish K s \<Longrightarrow> calculated K \<Longrightarrow>
     expr_calc_value K (CmpE c s symbol_yes) = (if (tri K s = yes) = (c = Eq) then yes else no)"
  "boolish K s \<Longrightarrow> calculated K \<Longrightarrow>
     expr_calc_value K (CmpE c s symbol_mod) = (if (tri K s = tri_mod) = (c = Eq) then yes else no)"
  "boolish K s \<Longrightarrow> calculated K \<Longrightarrow>
     expr_calc_value K (CmpE c s symbol_no) = (if (tri K s = no) = (c = Eq) then yes else no)"
  by (cases "tri K s"; cases c; simp add: boolish_string value_cmp)+

lemma both_cmp_value:
  "both_cmp c e1 e2 s a b \<Longrightarrow>
     junction d (expr_calc_value K e1) (expr_calc_value K e2) =
     junction d (expr_calc_value K (CmpE c s a)) (expr_calc_value K (CmpE c s b))"
  by (auto simp: both_cmp_def junction_commute)

lemma one_cmp_value:
  "one_cmp c e1 e2 s a \<Longrightarrow>
     junction d (expr_calc_value K e1) (expr_calc_value K e2) =
     junction d (tri K s) (expr_calc_value K (CmpE c s a))"
  by (auto simp: one_cmp_def junction_commute)

lemma join_or_cases:
  assumes "expr_join_or K e1 e2 = Some t"
  obtains "expr_eq e1 e2" "t = e1"
  | s where "boolish K s" "both_cmp Eq e1 e2 s symbol_yes symbol_mod" "t = CmpE Neq s symbol_no"
  | s where "boolish K s" "both_cmp Eq e1 e2 s symbol_yes symbol_no" "t = CmpE Neq s symbol_mod"
  | s where "boolish K s" "both_cmp Eq e1 e2 s symbol_mod symbol_no" "t = CmpE Neq s symbol_yes"
  | s where "s_type (symbols K s) = S_BOOLEAN" "t = SymE symbol_yes"
      "e1 = NotE (SymE s) \<and> e2 = SymE s \<or> e2 = NotE (SymE s) \<and> e1 = SymE s"
  using assms
  by (auto simp: expr_join_or_def Let_def boolish_def split: if_splits option.splits)

lemma join_or_value:
  assumes K: "calculated K" and j: "expr_join_or K e1 e2 = Some t"
  shows "expr_calc_value K t = junction Disj (expr_calc_value K e1) (expr_calc_value K e2)"
  using j
proof (cases rule: join_or_cases)
  case 1
  then show ?thesis using eq_value(1) [OF _ 1(1)] K by simp
next
  case (2 s)
  then show ?thesis using junction_cmp [OF 2(1) K] unfolding both_cmp_value [OF 2(2)] by (cases "tri K s") simp_all
next
  case (3 s)
  then show ?thesis using junction_cmp [OF 3(1) K] unfolding both_cmp_value [OF 3(2)] by (cases "tri K s") simp_all
next
  case (4 s)
  then show ?thesis using junction_cmp [OF 4(1) K] unfolding both_cmp_value [OF 4(2)] by (cases "tri K s") simp_all
next
  case (5 s)
  then show ?thesis using calculatedD(1) [OF K 5(1)] K by (cases "tri K s") (auto simp: max_def)
qed

lemma join_eq_neq_value:
  assumes K: "calculated K" and j: "join_eq_neq K a b c = Some t"
  shows "expr_calc_value K t = min (expr_calc_value K (CmpE Eq a b)) (expr_calc_value K (CmpE Neq a c))"
  using j calculatedD(3) [OF K, of b c] K by (auto simp: join_eq_neq_def value_cmp split: if_splits)

lemma join_and_tristate_value:
  assumes K: "calculated K" and s: "boolish K s" "join_sym1 e1 = Some s" "join_sym2 e2 = Some s"
    and j: "join_and_tristate K s e1 e2 = Some t"
  shows "expr_calc_value K t = junction Conj (expr_calc_value K e1) (expr_calc_value K e2)"
proof -
  consider b c where "e1 = CmpE Eq s b" "e2 = CmpE Neq s c" "join_eq_neq K s b c = Some t"
    | b c where "e2 = CmpE Eq s b" "e1 = CmpE Neq s c" "join_eq_neq K s b c = Some t"
    | "both_cmp Neq e1 e2 s symbol_yes symbol_no" "t = CmpE Eq s symbol_mod"
    | "both_cmp Neq e1 e2 s symbol_yes symbol_mod" "t = CmpE Eq s symbol_no"
    | "both_cmp Neq e1 e2 s symbol_mod symbol_no" "t = CmpE Eq s symbol_yes"
    using j s(2,3) unfolding join_and_tristate_def by (auto split: expr.splits comp.splits if_splits)
  then show ?thesis
  proof cases
    case 1
    then show ?thesis using join_eq_neq_value [OF K 1(3)] by simp
  next
    case 2
    then show ?thesis using join_eq_neq_value [OF K 2(3)] by (simp add: min.commute)
  next
    case 3
    then show ?thesis using junction_cmp [OF s(1) K] unfolding both_cmp_value [OF 3(1)] by (cases "tri K s") simp_all
  next
    case 4
    then show ?thesis using junction_cmp [OF s(1) K] unfolding both_cmp_value [OF 4(1)] by (cases "tri K s") simp_all
  next
    case 5
    then show ?thesis using junction_cmp [OF s(1) K] unfolding both_cmp_value [OF 5(1)] by (cases "tri K s") simp_all
  qed
qed

lemma join_and_value:
  assumes K: "calculated K" and j: "expr_join_and K e1 e2 = Some t"
  shows "expr_calc_value K t = junction Conj (expr_calc_value K e1) (expr_calc_value K e2)"
proof (cases "expr_eq e1 e2")
  case True
  then have "t = e1" using j by (simp add: expr_join_and_def)
  then show ?thesis using eq_value(1) [OF _ True] K by simp
next
  case False
  then obtain s where s: "boolish K s" "join_sym1 e1 = Some s" "join_sym2 e2 = Some s"
    using j by (auto simp: expr_join_and_def boolish_def Let_def split: option.splits if_splits)
  note j' = j [unfolded expr_join_and_def, simplified False s option.case prod.case if_False Let_def]
  show ?thesis
  proof (cases "one_cmp Eq e1 e2 s symbol_yes")
    case 1: True
    then have "t = CmpE Eq s symbol_yes" using j' by (simp split: if_splits)
    then show ?thesis using junction_cmp [OF s(1) K] unfolding one_cmp_value [OF 1] by (cases "tri K s") simp_all
  next
    case n1: False
    show ?thesis
    proof (cases "one_cmp Neq e1 e2 s symbol_no")
      case 2: True
      then have "t = SymE s" using j' n1 by (simp split: if_splits)
      then show ?thesis using junction_cmp [OF s(1) K] unfolding one_cmp_value [OF 2] by (cases "tri K s") simp_all
    next
      case n2: False
      show ?thesis
      proof (cases "one_cmp Neq e1 e2 s symbol_mod")
        case 3: True
        then have "t = CmpE Eq s symbol_yes" using j' n1 n2 by (simp split: if_splits)
        then show ?thesis using junction_cmp [OF s(1) K] unfolding one_cmp_value [OF 3]
          by (cases "tri K s") (simp_all add: min_def tri_order)
      next
        case False
        then have "join_and_tristate K s e1 e2 = Some t" using j' n1 n2 by (simp split: if_splits)
        then show ?thesis by (rule join_and_tristate_value [OF K s])
      qed
    qed
  qed
qed

lemma join_value:
  assumes "calculated K" and "expr_join K c e1 e2 = Some t"
  shows "expr_calc_value K t = junction c (expr_calc_value K e1) (expr_calc_value K e2)"
  using assms join_or_value join_and_value by (cases c) auto

text \<open>A join is its first operand, or has one node.\<close>

lemma join_small:
  assumes "expr_join K c e1 e2 = Some t"
  obtains "t = e1" | s where "t = SymE s" "s = symbol_yes \<or> s = symbol_no \<or> e1 = SymE s \<or> e2 = SymE s"
  | c' s s' where "t = CmpE c' s s'"
proof (cases c)
  case Disj
  with assms have "expr_join_or K e1 e2 = Some t" by simp
  then show thesis by (cases rule: join_or_cases) (use that in auto)
next
  case Conj
  with assms have j: "expr_join_and K e1 e2 = Some t" by simp
  show thesis
  proof (cases "expr_eq e1 e2")
    case True
    then have "t = e1" using j by (simp add: expr_join_and_def)
    then show thesis by (rule that(1))
  next
    case False
    have "join_eq_neq K s b d = Some t \<Longrightarrow> t = SymE symbol_no \<or> t = CmpE Eq s b" for s b d
      by (simp add: join_eq_neq_def split: if_splits)
    then have "join_and_tristate K s e1 e2 = Some t \<Longrightarrow> t = SymE symbol_no \<or> (\<exists>c' s s'. t = CmpE c' s s')" for s
      unfolding join_and_tristate_def by (auto split: expr.splits comp.splits if_splits)
    then have "(\<exists>s. t = SymE s \<and> (s = symbol_no \<or> e1 = SymE s \<or> e2 = SymE s)) \<or> (\<exists>c' s s'. t = CmpE c' s s')"
      using j False
      by (auto simp: expr_join_and_def one_cmp_def Let_def split: option.splits if_splits)
    then show thesis using that(2,3) by blast
  qed
qed

lemma join_shape:
  assumes "expr_join K c e1 e2 = Some t" and "\<not> is_bin c e1"
  shows "\<not> is_bin c t" "size_e t + 1 \<le> size_e e1 + size_e e2"
    "calculated K \<Longrightarrow> two_valued K e1 \<Longrightarrow> two_valued K e2 \<Longrightarrow> two_valued K t"
proof -
  show "\<not> is_bin c t" using assms(1) by (rule join_small) (use assms(2) in auto)
  have "Suc (size_e t) \<le> size_e e1 + size_e e2"
    using assms(1)
  proof (rule join_small)
    assume "t = e1"
    then show ?thesis using size_e_pos(1) [of e2] by simp
  next
    fix s assume "t = SymE s"
    then show ?thesis using add_mono [OF size_e_pos(3) [of e1] size_e_pos(3) [of e2]] by simp
  next
    fix c' s s' assume "t = CmpE c' s s'"
    then show ?thesis using add_mono [OF size_e_pos(3) [of e1] size_e_pos(3) [of e2]] by simp
  qed
  then show "size_e t + 1 \<le> size_e e1 + size_e e2" by simp
  assume *: "calculated K" "two_valued K e1" "two_valued K e2"
  from assms(1) show "two_valued K t" by (rule join_small) (use * in auto)
qed

section \<open>Positions on a spine\<close>

text \<open>The positions that can be reached through nodes of type \<open>c\<close> only.\<close>

fun spine :: "conn \<Rightarrow> expr \<Rightarrow> pos \<Rightarrow> bool" where
  "spine c e [] \<longleftrightarrow> True"
| "spine c (BinE c' a b) (Lft # p) \<longleftrightarrow> c' = c \<and> spine c a p"
| "spine c (BinE c' a b) (Rgt # p) \<longleftrightarrow> c' = c \<and> spine c b p"
| "spine c e (_ # p) \<longleftrightarrow> False"

text \<open>The nodes of type \<open>c\<close> at the top of a tree, without what hangs below them.\<close>

fun spine_of :: "conn \<Rightarrow> expr \<Rightarrow> expr" where
  "spine_of c (BinE c' a b) = (if c' = c then BinE c (spine_of c a) (spine_of c b) else SymE symbol_empty)"
| "spine_of c e = SymE symbol_empty"

text \<open>The positions of the tree.\<close>

fun position :: "expr \<Rightarrow> pos \<Rightarrow> bool" where
  "position e [] \<longleftrightarrow> True"
| "position (BinE c a b) (Lft # p) \<longleftrightarrow> position a p"
| "position (BinE c a b) (Rgt # p) \<longleftrightarrow> position b p"
| "position e (_ # p) \<longleftrightarrow> False"

lemma spine_position: "spine c e p \<Longrightarrow> position e p"
  by (induction c e p rule: spine.induct) auto

lemma at_append: "position e p \<Longrightarrow> at e (p @ q) = at (at e p) q"
  by (induction e p rule: position.induct) auto

lemma put_append: "position e p \<Longrightarrow> put e (p @ q) x = put e p (put (at e p) q x)"
  by (induction e p rule: position.induct) auto

lemma at_put [simp]: "position e p \<Longrightarrow> at (put e p x) p = x"
  by (induction e p rule: position.induct) auto

lemma put_at [simp]: "position e p \<Longrightarrow> put e p (at e p) = e"
  by (induction e p rule: position.induct) auto

lemma put_put [simp]: "position e p \<Longrightarrow> put (put e p x) p y = put e p y"
  by (induction e p rule: position.induct) auto

lemma position_put: "position e p \<Longrightarrow> position (put e p x) p"
  by (induction e p rule: position.induct) auto

lemma position_append: "position e (p @ q) \<longleftrightarrow> position e p \<and> position (at e p) q"
  by (induction e p rule: position.induct) auto

lemma spine_append: "spine c e p \<Longrightarrow> spine c e (p @ q) \<longleftrightarrow> spine c (at e p) q"
  by (induction c e p rule: spine.induct) auto

lemma size_put: "position e p \<Longrightarrow> size_e (put e p x) + size_e (at e p) = size_e e + size_e x"
  by (induction e p rule: position.induct) auto

lemma size_at: "position e p \<Longrightarrow> size_e (at e p) \<le> size_e e"
  by (induction e p rule: position.induct) auto

lemma size_at_less: "position e p \<Longrightarrow> p \<noteq> [] \<Longrightarrow> size_e (at e p) < size_e e"
  using size_at by (cases "(e, p)" rule: position.cases) (auto simp: less_Suc_eq_le trans_le_add1 trans_le_add2)

lemma two_valued_put: "position e p \<Longrightarrow> two_valued K e \<Longrightarrow> two_valued K x \<Longrightarrow> two_valued K (put e p x)"
  by (induction e p rule: position.induct) auto

lemma two_valued_at: "position e p \<Longrightarrow> two_valued K e \<Longrightarrow> two_valued K (at e p)"
  by (induction e p rule: position.induct) auto

lemma spine_skeleton: "spine c (spine_of c e) p \<longleftrightarrow> spine c e p"
  by (induction c e p rule: spine.induct) auto

lemma at_skeleton: "spine c e p \<Longrightarrow> at (spine_of c e) p = spine_of c (at e p)"
  by (induction c e p rule: spine.induct) auto

lemma skeleton_put:
  "spine c e p \<Longrightarrow> spine_of c x = spine_of c (at e p) \<Longrightarrow> spine_of c (put e p x) = spine_of c e"
  by (induction c e p rule: spine.induct) auto

lemma skeleton_leaf: "\<not> is_bin c e \<Longrightarrow> spine_of c e = SymE symbol_empty"
  by (cases e) auto

lemma is_bin_skeleton: "is_bin c (spine_of c e) \<longleftrightarrow> is_bin c e"
  by (cases e) auto

lemma size_skeleton: "size_e (spine_of c e) \<le> size_e e"
  by (induction e) auto

lemma spine_value: "spine c e p \<Longrightarrow> \<exists>k. \<forall>x. expr_calc_value K (put e p x) = junction c (expr_calc_value K x) k"
proof (induction c e p rule: spine.induct)
  case (1 c e)
  then show ?case by (intro exI [of _ "unit_of c"]) simp
next
  case (2 c c' a b p)
  then obtain k where "\<forall>x. expr_calc_value K (put a p x) = junction c (expr_calc_value K x) k" by auto
  then show ?case using 2 by (intro exI [of _ "junction c k (expr_calc_value K b)"]) (simp add: junction_ac)
next
  case (3 c c' a b p)
  then obtain k where "\<forall>x. expr_calc_value K (put b p x) = junction c (expr_calc_value K x) k" by auto
  then show ?case using 3 by (intro exI [of _ "junction c k (expr_calc_value K a)"]) (simp add: junction_ac)
qed auto

text \<open>Two leaves of a spine.\<close>

definition leaf :: "conn \<Rightarrow> expr \<Rightarrow> pos \<Rightarrow> bool" where
  "leaf c e p \<longleftrightarrow> spine c e p \<and> \<not> is_bin c (at e p)"

lemma leaf_simps [simp]:
  "leaf c e [] \<longleftrightarrow> \<not> is_bin c e"
  "leaf c (BinE c' a b) (Lft # p) \<longleftrightarrow> c' = c \<and> leaf c a p"
  "leaf c (BinE c' a b) (Rgt # p) \<longleftrightarrow> c' = c \<and> leaf c b p"
  by (auto simp: leaf_def)

lemma leaf_position: "leaf c e p \<Longrightarrow> position e p"
  by (auto simp: leaf_def dest: spine_position)

lemma leaf_value:
  "leaf c e p \<Longrightarrow> \<exists>k. \<forall>x. expr_calc_value K (put e p x) = junction c (expr_calc_value K x) k"
  by (simp add: leaf_def spine_value)

lemma leaf_Cons:
  assumes "leaf c e (d # p)"
  obtains a b where "e = BinE c a b" "d = Lft \<Longrightarrow> leaf c a p" "d = Rgt \<Longrightarrow> leaf c b p"
  using assms by (cases e; cases d) (auto simp: leaf_def)

lemma two_leaves:
  "leaf c e p \<Longrightarrow> leaf c e q \<Longrightarrow> p \<noteq> q \<Longrightarrow>
     position (put e p x) q \<and> at (put e p x) q = at e q \<and>
     (\<exists>k. \<forall>x y. expr_calc_value K (put (put e p x) q y) =
        junction c (junction c (expr_calc_value K x) (expr_calc_value K y)) k)"
proof (induction p arbitrary: e q)
  case Nil
  then show ?case by (cases q) (auto elim!: leaf_Cons)
next
  case (Cons d p)
  obtain a b where e: "e = BinE c a b" "d = Lft \<Longrightarrow> leaf c a p" "d = Rgt \<Longrightarrow> leaf c b p"
    using leaf_Cons [OF Cons(2)] by metis
  obtain d' q' where q': "q = d' # q'" using Cons(3) e by (cases q) auto
  then have q: "q = d' # q'" "d' = Lft \<Longrightarrow> leaf c a q'" "d' = Rgt \<Longrightarrow> leaf c b q'"
    using Cons(3) e by auto
  show ?case
  proof (cases "d = d'")
    case True
    then have "p \<noteq> q'" using Cons(4) q by simp
    show ?thesis
    proof (cases d)
      case Lft
      from Cons(1) [OF e(2) [OF Lft], of q'] q True Lft \<open>p \<noteq> q'\<close> obtain k where
        "position (put a p x) q'" "at (put a p x) q' = at a q'"
        "\<And>x y. expr_calc_value K (put (put a p x) q' y) =
          junction c (junction c (expr_calc_value K x) (expr_calc_value K y)) k" by auto
      then show ?thesis using e q True Lft
        by (auto simp: junction_ac intro!: exI [of _ "junction c k (expr_calc_value K b)"])
    next
      case Rgt
      from Cons(1) [OF e(3) [OF Rgt], of q'] q True Rgt \<open>p \<noteq> q'\<close> obtain k where
        "position (put b p x) q'" "at (put b p x) q' = at b q'"
        "\<And>x y. expr_calc_value K (put (put b p x) q' y) =
          junction c (junction c (expr_calc_value K x) (expr_calc_value K y)) k" by auto
      then show ?thesis using e q True Rgt
        by (auto simp: junction_ac intro!: exI [of _ "junction c k (expr_calc_value K a)"])
    qed
  next
    case False
    show ?thesis
    proof (cases d)
      case Lft
      then have d': "d' = Rgt" using False by (cases d') auto
      obtain k l where "\<And>x. expr_calc_value K (put a p x) = junction c (expr_calc_value K x) k"
        "\<And>x. expr_calc_value K (put b q' x) = junction c (expr_calc_value K x) l"
        using leaf_value e(2) [OF Lft] q(3) [OF d'] by metis
      then show ?thesis using e q Lft d' leaf_position
        by (auto simp: junction_ac intro!: exI [of _ "junction c k l"])
    next
      case Rgt
      then have d': "d' = Lft" using False by (cases d') auto
      obtain k l where "\<And>x. expr_calc_value K (put b p x) = junction c (expr_calc_value K x) k"
        "\<And>x. expr_calc_value K (put a q' x) = junction c (expr_calc_value K x) l"
        using leaf_value e(3) [OF Rgt] q(2) [OF d'] by metis
      then show ?thesis using e q Rgt d' leaf_position
        by (auto simp: junction_ac intro!: exI [of _ "junction c k l"])
    qed
  qed
qed

lemma put_commute:
  "leaf c e p \<Longrightarrow> leaf c e q \<Longrightarrow> p \<noteq> q \<Longrightarrow> put (put e p x) q y = put (put e q y) p x"
proof (induction e arbitrary: p q)
  case (BinE c' a b)
  obtain d p' d' q' where "p = d # p'" "q = d' # q'"
    using BinE(3-5) by (cases p; cases q) (auto elim: leaf_Cons)
  then show ?case using BinE by (cases d; cases d') auto
qed (metis expr.distinct list.exhaust leaf_Cons)+

section \<open>A step on a tree\<close>

fun has_yn :: "expr \<Rightarrow> bool" where
  "has_yn (SymE s) \<longleftrightarrow> s = symbol_yes \<or> s = symbol_no"
| "has_yn (BinE c a b) \<longleftrightarrow> has_yn a \<or> has_yn b"
| "has_yn e \<longleftrightarrow> False"

lemma eliminate_yn_smaller: "has_yn e \<Longrightarrow> e = BinE c a b \<Longrightarrow> size_e (expr_eliminate_yn e) < size_e e"
proof (induction e arbitrary: c a b)
  case (BinE c' l r)
  have "size_e (expr_eliminate_yn l) < size_e l \<or> size_e (expr_eliminate_yn r) < size_e r \<or>
      l = SymE symbol_yes \<or> l = SymE symbol_no \<or> r = SymE symbol_yes \<or> r = SymE symbol_no"
    using BinE by (cases l; cases r) auto
  then show ?case
    using expr_eliminate_yn_size [of l] expr_eliminate_yn_size [of r]
    by (cases c') (auto simp: Let_def)
qed auto

lemma has_yn_put: "position e p \<Longrightarrow> has_yn x \<Longrightarrow> has_yn (put e p x)"
  by (induction e p rule: position.induct) auto

text \<open>
  What a piece of the two functions may do to the tree \<open>e\<close> below a node: the spine stays, the tree
  does not grow, the value stays (for \<open>g\<close> false, only without \<open>m\<close>), and when the
  counter moves there is a constant to be removed.
\<close>

definition dstep :: "bool \<Rightarrow> kconf \<Rightarrow> conn \<Rightarrow> expr \<Rightarrow> nat \<Rightarrow> expr \<Rightarrow> nat \<Rightarrow> bool" where
  "dstep g K c e n e' n' \<longleftrightarrow>
     spine_of c e' = spine_of c e \<and> size_e e' \<le> size_e e \<and>
     (two_valued K e \<longrightarrow> two_valued K e') \<and>
     (g \<or> two_valued K e \<longrightarrow> expr_calc_value K e' = expr_calc_value K e) \<and>
     (n' = n \<and> e' = e \<or> n < n' \<and> has_yn e')"

lemma dstep_refl [simp]: "dstep g K c e n e n"
  by (simp add: dstep_def)

lemma dstep_trans: "dstep g K c e n e' n' \<Longrightarrow> dstep g K c e' n' e'' n'' \<Longrightarrow> dstep g K c e n e'' n''"
  unfolding dstep_def by auto

lemma dstep_put:
  assumes p: "leaf c e p" and d: "dstep g K c' (at e p) n x n'" and x: "\<not> is_bin c x"
  shows "dstep g K c e n (put e p x) n'"
proof -
  note sp = p [unfolded leaf_def]
  have pos: "position e p" using sp spine_position by blast
  obtain k where k: "\<And>y. expr_calc_value K (put e p y) = junction c (expr_calc_value K y) k"
    using spine_value sp by metis
  have v: "expr_calc_value K x = expr_calc_value K (at e p) \<Longrightarrow> expr_calc_value K (put e p x) = expr_calc_value K e"
    using k [of x] k [of "at e p"] pos by simp
  have "spine_of c (put e p x) = spine_of c e"
    by (rule skeleton_put) (use sp x in \<open>auto simp: skeleton_leaf\<close>)
  moreover have "size_e (put e p x) \<le> size_e e" using size_put [OF pos, of x] d by (auto simp: dstep_def)
  ultimately show ?thesis using d pos v two_valued_put [OF pos] two_valued_at [OF pos] has_yn_put [OF pos]
    unfolding dstep_def by auto
qed

lemma put_leaf:
  assumes "leaf c e p" and "\<not> is_bin c x"
  shows "spine_of c (put e p x) = spine_of c e"
  by (rule skeleton_put) (use assms in \<open>auto simp: leaf_def skeleton_leaf\<close>)

lemma leaf_skeleton: "spine_of c e' = spine_of c e \<Longrightarrow> leaf c e' p \<longleftrightarrow> leaf c e p"
proof -
  assume eq: "spine_of c e' = spine_of c e"
  have "spine c e' p \<longleftrightarrow> spine c e p" using eq spine_skeleton by metis
  moreover have "is_bin c (at e' p) \<longleftrightarrow> is_bin c (at e p)" if "spine c e' p" "spine c e p"
    using at_skeleton [OF that(1)] at_skeleton [OF that(2)] eq is_bin_skeleton by metis
  ultimately show ?thesis unfolding leaf_def by blast
qed

lemma join_step:
  assumes K: "calculated K" and p: "leaf c e p" and q: "leaf c e q" and neq: "p \<noteq> q"
    and j: "expr_join K c (at e p) (at e q) = Some t"
  shows "dstep True K c e n (put (put e p (SymE (neutral c))) q t) (n + 1)"
proof -
  let ?N = "SymE (neutral c)" and ?e = "put (put e p (SymE (neutral c))) q t"
  note pos = leaf_position [OF p] leaf_position [OF q]
  have lp: "\<not> is_bin c (at e p)" using p by (simp add: leaf_def)
  note sh = join_shape [OF j lp]
  from two_leaves [OF p q neq, of ?N K] obtain k where t: "position (put e p ?N) q" "at (put e p ?N) q = at e q"
    "\<And>x y. expr_calc_value K (put (put e p x) q y) = junction c (junction c (expr_calc_value K x) (expr_calc_value K y)) k"
    using two_leaves [OF p q neq, of _ K] by metis
  have sk: "spine_of c (put e p ?N) = spine_of c e" by (rule put_leaf [OF p]) simp
  have "leaf c (put e p ?N) q" using leaf_skeleton [OF sk] q by simp
  then have "spine_of c ?e = spine_of c e" using put_leaf [OF _ sh(1)] sk by metis
  moreover have "size_e ?e \<le> size_e e"
    using size_put [OF pos(1), of ?N] size_put [OF t(1), of t] t(2) sh(2) by simp
  moreover have "two_valued K e \<longrightarrow> two_valued K ?e"
    using two_valued_put [OF t(1)] two_valued_put [OF pos(1)] two_valued_at [OF pos(1)] two_valued_at [OF pos(2)] sh(3) K
    by (cases c) auto
  moreover have "expr_calc_value K ?e = expr_calc_value K e"
  proof -
    have "put (put e p (at e p)) q (at e q) = e" using pos by simp
    then have "expr_calc_value K e = junction c (junction c (expr_calc_value K (at e p)) (expr_calc_value K (at e q))) k"
      using t(3) by metis
    also have "\<dots> = expr_calc_value K ?e" using t(3) join_value [OF K j] K by simp
    finally show ?thesis by simp
  qed
  moreover have "has_yn ?e"
  proof -
    have "position (put e q t) p" using two_leaves [OF q p, of t] neq by simp
    then show ?thesis unfolding put_commute [OF p q neq] by (rule has_yn_put) (cases c; simp)
  qed
  ultimately show ?thesis by (simp add: dstep_def)
qed

section \<open>The walk of \<open>expr_eliminate_dups1\<close>\<close>

text \<open>
  The height of the spine below a position, and the depth of recursion that is enough for a call
  on a tree of size \<open>m\<close> below a spine with heights \<open>h1\<close> and \<open>h2\<close>.
\<close>

definition height :: "conn \<Rightarrow> expr \<Rightarrow> pos \<Rightarrow> nat" where
  "height c e p = size_e (spine_of c (at e p))"

definition enough :: "nat \<Rightarrow> nat \<Rightarrow> nat \<Rightarrow> nat \<Rightarrow> bool" where
  "enough k h1 h2 m \<longleftrightarrow> h1 + h2 + m * m \<le> k"

lemma height_skeleton:
  assumes "spine_of c e' = spine_of c e" and "spine c e p"
  shows "height c e' p = height c e p" and "spine c e' p"
proof -
  show sp: "spine c e' p" using assms spine_skeleton by metis
  show "height c e' p = height c e p"
    using at_skeleton [OF assms(2)] at_skeleton [OF sp] assms(1) by (simp add: height_def)
qed

lemma height_child:
  assumes "spine c e p" and "is_bin c (at e p)"
  shows "spine c e (p @ [d])" "height c e (p @ [d]) < height c e p"
proof -
  obtain a b where ab: "at e p = BinE c a b" using assms(2) by (rule is_binE)
  show "spine c e (p @ [d])" using ab assms(1) by (cases d) (simp_all add: spine_append)
  show "height c e (p @ [d]) < height c e p"
    using ab at_append [OF spine_position [OF assms(1)], of "[d]"] by (cases d) (simp_all add: height_def)
qed

lemma spine_is_bin: "spine_of c e' = spine_of c e \<Longrightarrow> spine c e p \<Longrightarrow> is_bin c (at e' p) \<longleftrightarrow> is_bin c (at e p)"
  using height_skeleton(2) [of c e' e p] at_skeleton is_bin_skeleton by metis

lemma enough_inner:
  assumes "enough (Suc k) h1 h2 (size_e e)" and "position e p" and "p \<noteq> []" "0 < h1" "0 < h2"
  shows "enough k (height c (at e p) []) (height c (at e p) []) (size_e (at e p))"
proof -
  let ?m = "size_e (at e p)"
  have "height c (at e p) [] \<le> ?m" by (simp add: height_def size_skeleton)
  moreover have "Suc ?m \<le> size_e e" using size_at_less [OF assms(2,3)] by (rule Suc_leI)
  then have "Suc ?m * Suc ?m \<le> size_e e * size_e e" using mult_le_mono by blast
  ultimately show ?thesis using assms(1,4,5) by (simp add: enough_def)
qed

lemma enough_less:
  assumes "enough (Suc k) h1 h2 m" and "h1' + h2' < h1 + h2" and "m' \<le> m"
  shows "enough k h1' h2' m'"
  using assms mult_le_mono [of m' m m' m] by (simp add: enough_def)

definition walk :: "(pos \<Rightarrow> pos \<Rightarrow> expr \<times> nat \<Rightarrow> (expr \<times> nat) option) \<Rightarrow> bool \<Rightarrow> kconf \<Rightarrow> conn \<Rightarrow>
    expr \<Rightarrow> pos \<Rightarrow> pos \<Rightarrow> pos \<Rightarrow> nat \<Rightarrow> bool" where
  "walk f g K c E r q1 q2 n \<longleftrightarrow>
     (\<exists>x' n'. f (r @ q1) (r @ q2) (E, n) = Some (put E r x', n') \<and> dstep g K c (at E r) n x' n')"

lemma walk_then:
  assumes r: "position E r" and f: "walk f g K c E r p1 p2 n"
    and h: "\<And>x n'. dstep g K c (at E r) n x n' \<Longrightarrow> walk h g K c (put E r x) r q1 q2 n'"
  shows "\<exists>x' n'. Option.bind (f (r @ p1) (r @ p2) (E, n)) (h (r @ q1) (r @ q2)) = Some (put E r x', n') \<and>
    dstep g K c (at E r) n x' n'"
proof -
  from f obtain x n1 where x: "f (r @ p1) (r @ p2) (E, n) = Some (put E r x, n1)" "dstep g K c (at E r) n x n1"
    unfolding walk_def by (elim exE conjE) (rule that)
  from h [OF x(2)] r obtain y n2 where "h (r @ q1) (r @ q2) (put E r x, n1) = Some (put E r y, n2)"
    "dstep g K c x n1 y n2" by (auto simp: walk_def)
  with x show ?thesis by (auto intro: dstep_trans)
qed

lemma inner_walk:
  assumes r: "position E r" and q: "leaf c (at E r) q"
    and f: "\<And>c' a b. at (at E r) q = BinE c' a b \<Longrightarrow> walk (f c') g K c' E (r @ q) [] [] n"
  shows "\<exists>x n'. (case at E (r @ q) of BinE c' _ _ \<Rightarrow> f c' (r @ q) (r @ q) (E, n) | _ \<Rightarrow> Some (E, n)) =
      Some (put E r x, n') \<and> dstep g K c (at E r) n x n'"
proof (cases "\<exists>c' a b. at (at E r) q = BinE c' a b")
  case True
  then obtain c' a b where l: "at (at E r) q = BinE c' a b" by auto
  have l': "at E (r @ q) = BinE c' a b" using l at_append [OF r] by simp
  from f [OF l] l' obtain y n' where y: "f c' (r @ q) (r @ q) (E, n) = Some (put E (r @ q) y, n')"
    "dstep g K c' (at (at E r) q) n y n'" using l by (auto simp: walk_def)
  have "c' \<noteq> c" using q l by (auto simp: leaf_def)
  moreover have "is_bin c' y" using y(2) l is_bin_skeleton [of c' y] by (simp add: dstep_def)
  ultimately have "\<not> is_bin c y" by (auto elim: is_binE)
  then have "dstep g K c (at E r) n (put (at E r) q y) n'" by (rule dstep_put [OF q y(2)])
  then show ?thesis using y(1) l' put_append [OF r] by auto
next
  case False
  then show ?thesis using at_append [OF r] r
    by (intro exI [of _ "at E r"] exI [of _ n]) (cases "at (at E r) q"; simp)
qed

lemma leaf_nonempty: "leaf c e p \<Longrightarrow> leaf c e q \<Longrightarrow> p \<noteq> q \<Longrightarrow> p \<noteq> []"
  by (cases q) (auto elim: leaf_Cons)

lemma join_at_step:
  assumes K: "calculated K" and r: "position E r" and q: "leaf c (at E r) q1" "leaf c (at E r) q2" "q1 \<noteq> q2"
  shows "\<exists>x n'. join_at K c (r @ q1) (r @ q2) (E, n) = (put E r x, n') \<and> dstep True K c (at E r) n x n'"
proof (cases "expr_join K c (at (at E r) q1) (at (at E r) q2)")
  case None
  then show ?thesis using r by (intro exI [of _ "at E r"] exI [of _ n]) (simp add: join_at_def at_append)
next
  case (Some t)
  then show ?thesis using join_step [OF K q Some] r position_put [OF r]
    by (auto simp: join_at_def at_append put_append)
qed

lemma dups1_walk:
  assumes K: "calculated K"
  shows "position E r \<Longrightarrow> spine c (at E r) q1 \<Longrightarrow> spine c (at E r) q2 \<Longrightarrow>
    enough k (height c (at E r) q1) (height c (at E r) q2) (size_e (at E r)) \<Longrightarrow>
    walk (expr_eliminate_dups1 k K c) True K c E r q1 q2 n"
proof (induction k arbitrary: c E r q1 q2 n)
  case 0
  then show ?case using size_e_pos by (simp add: enough_def height_def)
next
  case (Suc k c E r q1 q2 n)
  let ?x = "at E r" and ?f = "expr_eliminate_dups1 k K c"
  note at = at_append [OF Suc(2)]
  consider "is_bin c (at ?x q1)" | "\<not> is_bin c (at ?x q1)" "is_bin c (at ?x q2)"
    | "\<not> is_bin c (at ?x q1)" "\<not> is_bin c (at ?x q2)" "q1 = q2"
    | "leaf c ?x q1" "leaf c ?x q2" "q1 \<noteq> q2"
    using Suc(3,4) by (auto simp: leaf_def)
  then show ?case
  proof cases
    case 1
    note ch = height_child [OF Suc(3) 1]
    have "walk ?f True K c E r (q1 @ [Lft]) q2 n"
      by (rule Suc(1)) (use Suc(2,4) ch [of Lft] enough_less [OF Suc(5)] in auto)
    moreover have "walk ?f True K c (put E r x) r (q1 @ [Rgt]) q2 n'" if "dstep True K c ?x n x n'" for x n'
    proof -
      have sk: "spine_of c x = spine_of c ?x" "size_e x \<le> size_e ?x" using that by (auto simp: dstep_def)
      show ?thesis
        by (rule Suc(1)) (use Suc(2) position_put height_skeleton [OF sk(1)] Suc(4) ch [of Rgt] sk(2) enough_less [OF Suc(5)]
            in \<open>auto\<close>)
    qed
    ultimately show ?thesis using walk_then [OF Suc(2)] 1 by (simp add: walk_def [of "expr_eliminate_dups1 (Suc k) K c"] at)
  next
    case 2
    note ch = height_child [OF Suc(4) 2(2)]
    have "walk ?f True K c E r q1 (q2 @ [Lft]) n"
      by (rule Suc(1)) (use Suc(2,3) ch [of Lft] enough_less [OF Suc(5)] in auto)
    moreover have "walk ?f True K c (put E r x) r q1 (q2 @ [Rgt]) n'" if "dstep True K c ?x n x n'" for x n'
    proof -
      have sk: "spine_of c x = spine_of c ?x" "size_e x \<le> size_e ?x" using that by (auto simp: dstep_def)
      show ?thesis
        by (rule Suc(1)) (use Suc(2) position_put height_skeleton [OF sk(1)] Suc(3) ch [of Rgt] sk(2) enough_less [OF Suc(5)]
            in \<open>auto\<close>)
    qed
    ultimately show ?thesis using walk_then [OF Suc(2)] 2 by (simp add: walk_def [of "expr_eliminate_dups1 (Suc k) K c"] at)
  next
    case 3
    then show ?thesis unfolding walk_def using Suc(2) by (intro exI [of _ ?x] exI [of _ n]) (simp add: at)
  next
    case 4
    have ne: "q1 \<noteq> []" using leaf_nonempty 4 by blast
    note pos = leaf_position [OF 4(1)]
    have inner: "walk (expr_eliminate_dups1 k K c') True K c' E (r @ q1) [] [] n" for c'
    proof (rule Suc(1))
      have eq: "at E (r @ q1) = at ?x q1" by (simp add: at)
      show "enough k (height c' (at E (r @ q1)) []) (height c' (at E (r @ q1)) []) (size_e (at E (r @ q1)))"
        unfolding eq by (rule enough_inner [OF Suc(5) pos ne, where c = c']) (simp_all add: height_def)
    qed (use Suc(2) pos in \<open>simp_all add: position_append\<close>)
    from inner_walk [OF Suc(2) 4(1), of "expr_eliminate_dups1 k K" True K n] inner obtain x n1 where
      x: "(case at E (r @ q1) of BinE c' _ _ \<Rightarrow> expr_eliminate_dups1 k K c' (r @ q1) (r @ q1) (E, n) | _ \<Rightarrow> Some (E, n)) =
          Some (put E r x, n1)" "dstep True K c ?x n x n1" by blast
    have sk: "spine_of c x = spine_of c ?x" using x(2) by (simp add: dstep_def)
    have "position (put E r x) r" "at (put E r x) r = x" using Suc(2) position_put by simp_all
    with join_at_step [OF K this(1), of c q1 q2 n1] 4 leaf_skeleton [OF sk] obtain y n2 where
      y: "join_at K c (r @ q1) (r @ q2) (put E r x, n1) = (put E r y, n2)" "dstep True K c x n1 y n2"
      using Suc(2) by auto
    have "expr_eliminate_dups1 (Suc k) K c (r @ q1) (r @ q2) (E, n) = Some (put E r y, n2)"
      using 4 x(1) y(1) by (simp add: at leaf_def)
    then show ?thesis unfolding walk_def using dstep_trans [OF x(2) y(2)] by blast
  qed
qed

end
