(* ===== verification/ExprCancel.thy ===== *)
theory ExprCancel
  imports ExprDups
begin

text \<open>
  The second half of \<open>expr_eliminate_dups\<close>: what \<open>expr_extract_eq\<close> removes, the contradiction test of
  \<open>expr_eliminate_dups2\<close>, the walk of that function, and the loop around both. The rewriting of
  \<open>expr_eliminate_dups2\<close> is sound only where no symbol is \<open>m\<close>.
\<close>

section \<open>Extraction\<close>

lemma extract_eq_shares:
  assumes "static_ok K"
  shows "expr_extract_eq c ep e1 e2 = (ep', f1, f2) \<Longrightarrow> shares K c e1 e2 f1 f2"
proof (induction c ep e1 e2 arbitrary: ep' f1 f2 rule: expr_extract_eq.induct)
  case (1 c ep e1 e2)
  note res = 1(5) [unfolded expr_extract_eq.simps [of c ep e1 e2]]
  consider l r where "e1 = BinE c l r"
    | l r where "\<not> is_bin c e1" "e2 = BinE c l r"
    | "\<not> is_bin c e1" "\<not> is_bin c e2"
    by (metis is_binE)
  then show ?case
  proof cases
    case L: 1
    then obtain ep1 l' e2' ep2 r' e2'' where
      a: "expr_extract_eq c ep l e2 = (ep1, l', e2')" "expr_extract_eq c ep1 r e2' = (ep2, r', e2'')"
      and f: "f1 = BinE c l' r'" "f2 = e2''"
      using res by (auto split: prod.splits)
    show ?thesis unfolding L f by (rule shares_left) (use 1(1,2) L a in auto)
  next
    case R: 2
    then obtain ep1 l' e1' ep2 r' e1'' where
      a: "expr_extract_eq c ep e1 l = (ep1, e1', l')" "expr_extract_eq c ep1 e1' r = (ep2, e1'', r')"
      and f: "f1 = e1''" "f2 = BinE c l' r'"
      using res by (auto split: prod.splits)
    show ?thesis unfolding R f by (rule shares_right) (use 1(3,4) R a in auto)
  next
    case N: 3
    then show ?thesis using res assms eq_value(1) [OF assms] by (auto split: if_splits intro: shares_neutral)
  qed
qed

lemma contradicts_value:
  assumes K: "calculated K" and c: "contradicts K e1 e2"
  shows "expr_calc_value K e2 \<le> EXPR_NOT (expr_calc_value K e1)"
proof -
  let ?t = "expr_transform K (NotE (expr_copy e1))"
  obtain tmp f1 f2 where x: "expr_extract_eq Conj None ?t (expr_copy e2) = (tmp, f1, f2)" by (metis prod.exhaust)
  have s: "static_ok K" using K by simp
  from extract_eq_shares [OF s x] obtain v where
    v: "expr_calc_value K ?t = min (expr_calc_value K f1) v" "expr_calc_value K (expr_copy e2) = min (expr_calc_value K f2) v"
    by (auto simp: shares_def)
  have "(if tmp \<noteq> None then expr_eliminate_yn f1 else f1) = SymE symbol_yes"
    using c x by (cases tmp) (simp_all add: contradicts_def expr_extract_eq_and_def expr_is_yes_def Let_def)
  then have "expr_calc_value K (if tmp \<noteq> None then expr_eliminate_yn f1 else f1) = yes" using s by simp
  then have "expr_calc_value K f1 = yes" using s by (simp split: if_splits)
  then have "expr_calc_value K ?t = v" using v(1) by (simp add: min_def)
  moreover have "expr_calc_value K ?t = EXPR_NOT (expr_calc_value K e1)"
    by (simp only: transform_value [OF K]) simp
  ultimately show ?thesis using v(2) by simp
qed

lemma exhausts_value:
  assumes K: "calculated K" and c: "exhausts K e1 e2"
  shows "EXPR_NOT (expr_calc_value K e1) \<le> expr_calc_value K e2"
proof -
  let ?t = "expr_transform K (NotE (expr_copy e1))"
  obtain tmp f1 f2 where x: "expr_extract_eq Disj None ?t (expr_copy e2) = (tmp, f1, f2)" by (metis prod.exhaust)
  have s: "static_ok K" using K by simp
  from extract_eq_shares [OF s x] obtain v where
    v: "expr_calc_value K ?t = max (expr_calc_value K f1) v" "expr_calc_value K (expr_copy e2) = max (expr_calc_value K f2) v"
    by (auto simp: shares_def)
  have "(if tmp \<noteq> None then expr_eliminate_yn f1 else f1) = SymE symbol_no"
    using c x by (cases tmp) (simp_all add: exhausts_def expr_extract_eq_or_def expr_is_no_def Let_def)
  then have "expr_calc_value K (if tmp \<noteq> None then expr_eliminate_yn f1 else f1) = no" using s by simp
  then have "expr_calc_value K f1 = no" using s by (simp split: if_splits)
  then have "expr_calc_value K ?t = v" using v(1) by (simp add: max_def)
  moreover have "expr_calc_value K ?t = EXPR_NOT (expr_calc_value K e1)"
    by (simp only: transform_value [OF K]) simp
  ultimately show ?thesis using v(2) by simp
qed

section \<open>One cancellation\<close>

text \<open>The value that makes the other operands of a node irrelevant.\<close>

fun zero_of :: "conn \<Rightarrow> tristate" where
  "zero_of Conj = no"
| "zero_of Disj = yes"

fun absorber :: "conn \<Rightarrow> sym" where
  "absorber Conj = symbol_no"
| "absorber Disj = symbol_yes"

lemma junction_zero [simp]: "junction c (zero_of c) a = zero_of c" "junction c a (zero_of c) = zero_of c"
  by (cases c; cases a; simp add: min_def max_def)+

lemma cancel_zero:
  assumes "calculated K" "two_valued K e1"
  shows "contradicts K e1 e2 \<Longrightarrow> junction Conj (expr_calc_value K e1) (expr_calc_value K e2) = no"
    and "exhausts K e1 e2 \<Longrightarrow> junction Disj (expr_calc_value K e1) (expr_calc_value K e2) = yes"
  using contradicts_value [OF assms(1), of e1 e2] exhausts_value [OF assms(1), of e1 e2] two_valued_value [OF assms(2)]
  by (cases "expr_calc_value K e1"; cases "expr_calc_value K e2"; simp add: min_def max_def)+

lemma two_spines_value:
  assumes p: "spine c e p" and q: "spine c e q"
    and z: "junction c (expr_calc_value K (at e p)) (expr_calc_value K (at e q)) = zero_of c"
  shows "expr_calc_value K e = zero_of c"
proof -
  obtain k l where "\<forall>x. expr_calc_value K (put e p x) = junction c (expr_calc_value K x) k"
    "\<forall>x. expr_calc_value K (put e q x) = junction c (expr_calc_value K x) l"
    using spine_value [OF p] spine_value [OF q] by meson
  then have "expr_calc_value K e = junction c (expr_calc_value K (at e p)) k"
    "expr_calc_value K e = junction c (expr_calc_value K (at e q)) l"
    using spine_position [OF p] spine_position [OF q] put_at by metis+
  with z show ?thesis
    by (cases c; cases "expr_calc_value K (at e p)"; cases "expr_calc_value K (at e q)"; cases k; cases l)
      (simp_all add: min_def max_def)
qed

lemma cancel_step:
  assumes K: "calculated K" and p: "leaf c e p" and q: "spine c e q" and b: "at e p = BinE c' a b"
    and t: "if c' = Disj then contradicts K (at e p) (at e q) else exhausts K (at e p) (at e q)"
  shows "dstep False K c e n (put e p (SymE (absorber c))) (n + 1)" and "c \<noteq> c'"
proof -
  show cc: "c \<noteq> c'" using p b by (auto simp: leaf_def)
  note pos = leaf_position [OF p]
  have v: "expr_calc_value K (put e p (SymE (absorber c))) = expr_calc_value K e" if tv: "two_valued K e"
  proof -
    have "junction c (expr_calc_value K (at e p)) (expr_calc_value K (at e q)) = zero_of c"
      using cancel_zero [OF K two_valued_at [OF pos tv], of "at e q"] t cc by (cases c; cases c') auto
    from two_spines_value [OF _ q this] p have "expr_calc_value K e = zero_of c" by (simp add: leaf_def)
    moreover obtain k where "\<forall>x. expr_calc_value K (put e p x) = junction c (expr_calc_value K x) k"
      using leaf_value [OF p] by blast
    moreover have "expr_calc_value K (SymE (absorber c)) = zero_of c" using K by (cases c) simp_all
    ultimately show ?thesis by simp
  qed
  have "spine_of c (put e p (SymE (absorber c))) = spine_of c e" by (rule put_leaf [OF p]) simp
  moreover have "size_e (put e p (SymE (absorber c))) \<le> size_e e"
    using size_put [OF pos, of "SymE (absorber c)"] size_e_pos [of "at e p"] by (simp del: size_e_pos)
  moreover have "two_valued K e \<longrightarrow> two_valued K (put e p (SymE (absorber c)))"
    using two_valued_put [OF pos] K by (cases c) auto
  moreover have "has_yn (put e p (SymE (absorber c)))" by (rule has_yn_put [OF pos]) (cases c; simp)
  ultimately show "dstep False K c e n (put e p (SymE (absorber c))) (n + 1)" using v by (simp add: dstep_def)
qed

lemma cancel_at_step:
  assumes K: "calculated K" and r: "position E r" and p: "leaf c (at E r) q1" and q: "spine c (at E r) q2"
  shows "\<exists>x n'. cancel_at K (r @ q1) (r @ q2) (E, n) = (put E r x, n') \<and> dstep False K c (at E r) n x n'"
proof -
  let ?x = "at E r"
  show ?thesis
  proof (cases "\<exists>c' a b. at ?x q1 = BinE c' a b \<and>
      (if c' = Disj then contradicts K (at ?x q1) (at ?x q2) else exhausts K (at ?x q1) (at ?x q2))")
    case True
    then obtain c' a b where b: "at ?x q1 = BinE c' a b"
      and t: "if c' = Disj then contradicts K (at ?x q1) (at ?x q2) else exhausts K (at ?x q1) (at ?x q2)" by blast
    note s = cancel_step(1) [OF K p q b t, of n] cancel_step(2) [OF K p q b t]
    have "cancel_at K (r @ q1) (r @ q2) (E, n) = (put E (r @ q1) (SymE (absorber c)), n + 1)"
      using t b s(2) r by (cases c; cases c') (simp_all add: cancel_at_def at_append)
    then show ?thesis using s(1) put_append [OF r] by auto
  next
    case False
    have "cancel_at K (r @ q1) (r @ q2) (E, n) = (E, n)"
      unfolding cancel_at_def using False r by (auto simp: at_append split: expr.split conn.split)
    then show ?thesis using r by (intro exI [of _ ?x] exI [of _ n]) simp
  qed
qed

section \<open>The walk of \<open>expr_eliminate_dups2\<close>\<close>

text \<open>What follows the recursion into the second operand.\<close>

lemma dups2_tail:
  assumes K: "calculated K" and r: "position E r" and p: "leaf c (at E r) q1" and q: "spine c (at E r) q2"
    and inner: "\<And>c'. q1 \<noteq> [] \<Longrightarrow> walk (f c') False K c' E (r @ q1) [] [] n"
  shows "\<exists>x n'. (if r @ q1 = r @ q2 then Some (E, n)
      else Option.bind (case at E (r @ q1) of BinE c' _ _ \<Rightarrow> f c' (r @ q1) (r @ q1) (E, n) | _ \<Rightarrow> Some (E, n))
        (\<lambda>s. Some (cancel_at K (r @ q1) (r @ q2) s))) = Some (put E r x, n') \<and> dstep False K c (at E r) n x n'"
proof (cases "q1 = q2")
  case True
  then show ?thesis using r by (intro exI [of _ "at E r"] exI [of _ n]) simp
next
  case False
  have ne: "q1 \<noteq> []"
  proof
    assume "q1 = []"
    then have "\<not> is_bin c (at E r)" using p by simp
    with q have "q2 = []" by (cases "(c, at E r, q2)" rule: spine.cases) auto
    with \<open>q1 = []\<close> False show False by simp
  qed
  from inner_walk [OF r p, of f False K n] inner [OF ne] obtain x n1 where
    x: "(case at E (r @ q1) of BinE c' _ _ \<Rightarrow> f c' (r @ q1) (r @ q1) (E, n) | _ \<Rightarrow> Some (E, n)) = Some (put E r x, n1)"
      "dstep False K c (at E r) n x n1" by blast
  have sk: "spine_of c x = spine_of c (at E r)" using x(2) by (simp add: dstep_def)
  have "position (put E r x) r" "at (put E r x) r = x" using r position_put by simp_all
  with cancel_at_step [OF K this(1), of c q1 q2 n1] p leaf_skeleton [OF sk] q height_skeleton(2) [OF sk] obtain y n2 where
    y: "cancel_at K (r @ q1) (r @ q2) (put E r x, n1) = (put E r y, n2)" "dstep False K c x n1 y n2"
    using r by auto
  have "Option.bind (Some (put E r x, n1)) (\<lambda>s. Some (cancel_at K (r @ q1) (r @ q2) s)) = Some (put E r y, n2)"
    using y(1) by simp
  then show ?thesis unfolding x(1) using False dstep_trans [OF x(2) y(2)] by auto
qed

lemma dups2_walk:
  assumes K: "calculated K"
  shows "position E r \<Longrightarrow> spine c (at E r) q1 \<Longrightarrow> spine c (at E r) q2 \<Longrightarrow>
    enough k (height c (at E r) q1) (height c (at E r) q2) (size_e (at E r)) \<Longrightarrow>
    walk (expr_eliminate_dups2 k K c) False K c E r q1 q2 n"
proof (induction k arbitrary: c E r q1 q2 n)
  case 0
  then show ?case using size_e_pos by (simp add: enough_def height_def)
next
  case (Suc k c E r q1 q2 n)
  let ?x = "at E r" and ?f = "expr_eliminate_dups2 k K c"
  note at = at_append [OF Suc(2)]
  show ?case
  proof (cases "is_bin c (at ?x q1)")
    case 1: True
    note ch = height_child [OF Suc(3) 1]
    have "walk ?f False K c E r (q1 @ [Lft]) q2 n"
      by (rule Suc(1)) (use Suc(2,4) ch [of Lft] enough_less [OF Suc(5)] in auto)
    moreover have "walk ?f False K c (put E r x) r (q1 @ [Rgt]) q2 n'" if "dstep False K c ?x n x n'" for x n'
    proof -
      have sk: "spine_of c x = spine_of c ?x" "size_e x \<le> size_e ?x" using that by (auto simp: dstep_def)
      show ?thesis
        by (rule Suc(1)) (use Suc(2) position_put height_skeleton [OF sk(1)] Suc(4) ch [of Rgt] sk(2) enough_less [OF Suc(5)]
            in \<open>auto\<close>)
    qed
    ultimately show ?thesis using walk_then [OF Suc(2)] 1 by (simp add: walk_def [of "expr_eliminate_dups2 (Suc k) K c"] at)
  next
    case 2: False
    then have p: "leaf c ?x q1" using Suc(3) by (simp add: leaf_def)
    have tail: "\<exists>x' n'. (if r @ q1 = r @ q2 then Some (put E r x, m)
        else Option.bind (case at (put E r x) (r @ q1) of BinE c' _ _ \<Rightarrow> expr_eliminate_dups2 k K c' (r @ q1) (r @ q1) (put E r x, m) | _ \<Rightarrow> Some (put E r x, m))
          (\<lambda>s. Some (cancel_at K (r @ q1) (r @ q2) s))) = Some (put E r x', n') \<and> dstep False K c x m x' n'"
      if d: "dstep False K c ?x n x m" for x m
    proof -
      have sk: "spine_of c x = spine_of c ?x" "size_e x \<le> size_e ?x" using d by (auto simp: dstep_def)
      have pos: "position (put E r x) r" "at (put E r x) r = x" using Suc(2) position_put by simp_all
      have p': "leaf c x q1" using p leaf_skeleton [OF sk(1)] by simp
      have q': "spine c x q2" using height_skeleton(2) [OF sk(1) Suc(4)] .
      have inner: "walk (expr_eliminate_dups2 k K c') False K c' (put E r x) (r @ q1) [] [] m" if ne: "q1 \<noteq> []" for c'
      proof (rule Suc(1))
        have eq: "at (put E r x) (r @ q1) = at x q1" using at_append [OF pos(1)] pos(2) by simp
        have "enough (Suc k) (height c ?x q1) (height c ?x q2) (size_e x)"
          using Suc(5) sk(2) mult_le_mono [OF sk(2) sk(2)] by (simp add: enough_def)
        from enough_inner [OF this leaf_position [OF p'] ne]
        show "enough k (height c' (at (put E r x) (r @ q1)) []) (height c' (at (put E r x) (r @ q1)) []) (size_e (at (put E r x) (r @ q1)))"
          unfolding eq by (simp add: height_def)
      qed (use pos leaf_position [OF p'] in \<open>simp_all add: position_append\<close>)
      from dups2_tail [OF K pos(1), of c q1 q2 "expr_eliminate_dups2 k K" m] inner p' q' pos(2) Suc(2) show ?thesis by auto
    qed
    show ?thesis
    proof (cases "is_bin c (at ?x q2)")
      case 3: True
      note ch = height_child [OF Suc(4) 3]
      have "walk ?f False K c E r q1 (q2 @ [Lft]) n"
        by (rule Suc(1)) (use Suc(2,3) ch [of Lft] enough_less [OF Suc(5)] in auto)
      moreover have "walk ?f False K c (put E r x) r q1 (q2 @ [Rgt]) n'" if "dstep False K c ?x n x n'" for x n'
      proof -
        have sk: "spine_of c x = spine_of c ?x" "size_e x \<le> size_e ?x" using that by (auto simp: dstep_def)
        show ?thesis
          by (rule Suc(1)) (use Suc(2) position_put height_skeleton [OF sk(1)] Suc(3) ch [of Rgt] sk(2) enough_less [OF Suc(5)]
              in \<open>auto\<close>)
      qed
      ultimately obtain x m where x: "Option.bind (?f (r @ q1) (r @ q2 @ [Lft]) (E, n)) (?f (r @ q1) (r @ q2 @ [Rgt])) = Some (put E r x, m)"
        "dstep False K c ?x n x m" using walk_then [OF Suc(2)] by blast
      from tail [OF x(2)] obtain x' n' where "expr_eliminate_dups2 (Suc k) K c (r @ q1) (r @ q2) (E, n) = Some (put E r x', n')"
        "dstep False K c x m x' n'" using x(1) 2 3 by (auto simp: at)
      then show ?thesis unfolding walk_def using dstep_trans [OF x(2)] by blast
    next
      case 3: False
      have eq: "put E r ?x = E" using Suc(2) by simp
      from tail [of ?x n, unfolded eq, OF dstep_refl] obtain x' n' where "expr_eliminate_dups2 (Suc k) K c (r @ q1) (r @ q2) (E, n) = Some (put E r x', n')"
        "dstep False K c ?x n x' n'" using 2 3 by (auto simp: at)
      then show ?thesis unfolding walk_def by blast
    qed
  qed
qed

section \<open>The loop\<close>

lemma dups_fuel_enough:
  assumes "size_e e' \<le> size_e e" and "spine_of c e' = spine_of c e"
  shows "enough (dups_fuel e) (height c (at e' []) []) (height c (at e' []) []) (size_e (at e' []))"
proof -
  have "height c e' [] \<le> size_e e" using size_skeleton [of c e] assms(2) by (simp add: height_def)
  moreover have "size_e e' * size_e e' \<le> size_e e * size_e e" using assms(1) mult_le_mono by blast
  ultimately show ?thesis by (simp add: enough_def dups_fuel_def height_def algebra_simps)
qed

lemma dups_round_spec:
  assumes K: "calculated K"
  shows "\<exists>e' n. dups_round K e = Some (e', n) \<and> size_e e' \<le> size_e e \<and>
    (two_valued K e \<longrightarrow> two_valued K e' \<and> expr_calc_value K e' = expr_calc_value K e) \<and>
    (n = 0 \<longrightarrow> e' = e) \<and> (n \<noteq> 0 \<longrightarrow> has_yn e' \<and> (\<exists>c a b. e' = BinE c a b))"
proof (cases "\<exists>c a b. e = BinE c a b")
  case False
  then show ?thesis by (cases e) (auto simp: dups_round_def)
next
  case True
  then obtain c a b where e: "e = BinE c a b" by auto
  have "walk (expr_eliminate_dups1 (dups_fuel e) K c) True K c e [] [] [] 0"
    by (rule dups1_walk [OF K]) (use dups_fuel_enough [of e e c] in simp_all)
  then obtain e1 n1 where 1: "expr_eliminate_dups1 (dups_fuel e) K c [] [] (e, 0) = Some (e1, n1)"
    "dstep True K c e 0 e1 n1" by (auto simp: walk_def)
  have "walk (expr_eliminate_dups2 (dups_fuel e1) K c) False K c e1 [] [] [] n1"
    by (rule dups2_walk [OF K]) (use dups_fuel_enough [of e1 e1 c] in simp_all)
  then obtain e2 n2 where 2: "expr_eliminate_dups2 (dups_fuel e1) K c [] [] (e1, n1) = Some (e2, n2)"
    "dstep False K c e1 n1 e2 n2" by (auto simp: walk_def)
  have "is_bin c e2" using 1(2) 2(2) is_bin_skeleton [of c e2] is_bin_skeleton [of c e] e by (simp add: dstep_def)
  then obtain a' b' where "e2 = BinE c a' b'" by (rule is_binE)
  moreover have "dups_round K e = Some (e2, n2)" using 1(1) 2(1) by (simp add: dups_round_def e)
  ultimately show ?thesis using 1(2) 2(2) by (auto simp: dstep_def)
qed

lemma two_valued_eliminate_yn: "two_valued K e \<Longrightarrow> two_valued K (expr_eliminate_yn e)"
proof (induction e)
  case (BinE c a b)
  then show ?case by (cases c) (auto simp: Let_def)
qed auto

lemma eliminate_dups_returns:
  assumes K: "calculated K"
  shows "\<exists>e'. expr_eliminate_dups K e = Some e' \<and> size_e e' \<le> size_e e \<and>
    (two_valued K e \<longrightarrow> expr_calc_value K e' = expr_calc_value K e)"
proof (induction "size_e e" arbitrary: e rule: less_induct)
  case less
  from dups_round_spec [OF K, of e] obtain e1 n where
    r: "dups_round K e = Some (e1, n)" "size_e e1 \<le> size_e e"
      "two_valued K e \<longrightarrow> two_valued K e1 \<and> expr_calc_value K e1 = expr_calc_value K e"
      "n \<noteq> 0 \<longrightarrow> has_yn e1 \<and> (\<exists>c a b. e1 = BinE c a b)" by blast
  show ?case
  proof (cases "n = 0")
    case True
    then show ?thesis using r by (subst expr_eliminate_dups.simps) simp
  next
    case False
    then have "size_e (expr_eliminate_yn e1) < size_e e" using r(2,4) eliminate_yn_smaller by fastforce
    from less [OF this] obtain e' where
      e': "expr_eliminate_dups K (expr_eliminate_yn e1) = Some e'" "size_e e' \<le> size_e (expr_eliminate_yn e1)"
        "two_valued K (expr_eliminate_yn e1) \<longrightarrow> expr_calc_value K e' = expr_calc_value K (expr_eliminate_yn e1)" by blast
    have "expr_eliminate_dups K e = Some e'" using r(1) False e'(1) by (subst expr_eliminate_dups.simps) simp
    then show ?thesis using e' r(2,3) two_valued_eliminate_yn expr_eliminate_yn_size [of e1] K by fastforce
  qed
qed

end
