(* ===== verification/ExprProps.thy ===== *)
theory ExprProps
  imports ExprCancel
begin

text \<open>
  The properties of \<open>kconfig/expr.c\<close>, stated on the values of expressions, with the places where the code
  changes a value: it treats three-valued operands as if they had two values.
\<close>

section \<open>A table\<close>

text \<open>Symbol 0 is \<open>MODULES\<close>, a boolean that is \<open>y\<close>; every other symbol is a tristate with the value given.\<close>

definition table_symbol :: "symbol_type \<Rightarrow> tristate \<Rightarrow> symbol" where
  "table_symbol ty v =
     \<lparr>s_name = Some ''FOO'', s_type = ty, s_curr = \<lparr>sv_val = NullVal, sv_tri = v\<rparr>,
      s_def = (\<lambda>_. \<lparr>sv_val = NullVal, sv_tri = no\<rparr>), s_visible = no, s_flags = 0, s_prop = [],
      s_dir_dep = no_expr_value, s_rev_dep = no_expr_value\<rparr>"

fun table_entries :: "(nat \<Rightarrow> tristate) \<Rightarrow> sym \<Rightarrow> symbol" where
  "table_entries v symbol_yes = symbol_yes_init"
| "table_entries v symbol_mod = symbol_mod_init"
| "table_entries v symbol_no = symbol_no_init"
| "table_entries v symbol_empty = symbol_empty_init"
| "table_entries v (config_symbol n) =
     (if n = 0 then table_symbol S_BOOLEAN yes else table_symbol S_TRISTATE (v n))"

definition tristate_table :: "(nat \<Rightarrow> tristate) \<Rightarrow> kconf" where
  "tristate_table v = \<lparr>symbols = table_entries v, modules_sym = config_symbol 0, modules_val = yes\<rparr>"

lemma table_static: "static_ok (tristate_table v)"
  by (simp add: static_ok_def tristate_table_def)

lemma table_tri [simp]:
  "tri (tristate_table v) (config_symbol n) = (if n = 0 then yes else v n)"
  "s_type (symbols (tristate_table v) (config_symbol n)) = (if n = 0 then S_BOOLEAN else S_TRISTATE)"
  by (simp_all add: tri_def tristate_table_def table_symbol_def)

lemma table_calculated: "calculated (tristate_table v)"
proof -
  let ?K = "tristate_table v"
  note s = table_static [of v]
  have b: "s_type (symbols ?K s) = S_BOOLEAN \<Longrightarrow> tri ?K s \<noteq> tri_mod" for s
    using static_type [OF s, of s] s
    by (cases s) (auto simp: static_ok_def tristate_table_def symbol_empty_init_def static_symbol_def tri_def table_symbol_def split: if_splits)
  have m: "tri ?K (modules_sym ?K) \<noteq> no" by (simp add: tristate_table_def tri_def table_symbol_def)
  have c: "s \<in> {symbol_yes, symbol_mod, symbol_no}" if "is_const ?K s" for s
    using that by (cases s) (auto simp: is_const_def tristate_table_def table_symbol_def symbol_empty_init_def
        static_symbol_def has_flag_def SYMBOL_CONST_def SYMBOL_VALID_def split: if_splits)
  have e: "s = t" if "is_const ?K s" "is_const ?K t" "sym_get_string_value ?K s = sym_get_string_value ?K t" for s t
    using c [OF that(1)] c [OF that(2)] that(3) static_string [OF s] by auto
  show ?thesis unfolding calculated_def using s b m e by auto
qed

abbreviation foo :: expr where "foo \<equiv> SymE (config_symbol 1)"
abbreviation bar :: expr where "bar \<equiv> SymE (config_symbol 2)"

section \<open>Properties\<close>

text \<open>C22: Two expressions that \<open>expr_eq\<close> calls equal have the same value whatever the values of their
  symbols are: the reduction of both to their difference loses nothing.\<close>

theorem expr_eq_sound:
  assumes "static_ok K" and "expr_eq e1 e2"
  shows "expr_calc_value K e1 = expr_calc_value K e2"
  using eq_value(1) [OF assms] .

lemma expr_eq_reorders: "expr_eq (BinE Conj foo bar) (BinE Conj bar foo)"
  by code_simp

lemma expr_eq_sound_witness:
  "expr_calc_value (tristate_table (\<lambda>_. tri_mod)) (BinE Conj foo bar) = expr_calc_value (tristate_table (\<lambda>_. tri_mod)) (BinE Conj bar foo)"
  by (rule expr_eq_sound [OF table_static expr_eq_reorders])

text \<open>C23: \<open>expr_transform\<close> keeps the value of an expression for every calculated table and brings it to
  negation normal form, in which a negation is left only on a symbol that is no constant and no boolean
  symbol is compared with \<open>y\<close>, \<open>m\<close> or \<open>n\<close>; applied again it changes nothing.\<close>

theorem expr_transform_normalises:
  assumes "calculated K"
  shows "expr_calc_value K (expr_transform K e) = expr_calc_value K e \<and> normal K (expr_transform K e) \<and>
    expr_transform K (expr_transform K e) = expr_transform K e"
  using transform_value [OF assms] transform_normal [of K e] transform_id assms by auto

lemma expr_transform_normalises_witness:
  "expr_calc_value (tristate_table (\<lambda>_. tri_mod)) (expr_transform (tristate_table (\<lambda>_. tri_mod)) (NotE (BinE Disj foo (NotE bar)))) =
     expr_calc_value (tristate_table (\<lambda>_. tri_mod)) (NotE (BinE Disj foo (NotE bar)))"
  using expr_transform_normalises [OF table_calculated] by blast

text \<open>C24: The loop of \<open>expr_eliminate_dups\<close> ends for every expression, the result is not larger than the
  expression, and it has the same value in every table in which no symbol of the expression is \<open>m\<close>.\<close>

theorem eliminate_dups_ends:
  assumes "calculated K"
  shows "\<exists>e'. expr_eliminate_dups K e = Some e' \<and> size_e e' \<le> size_e e \<and>
    (two_valued K e \<longrightarrow> expr_calc_value K e' = expr_calc_value K e)"
  by (rule eliminate_dups_returns [OF assms])

definition contradiction :: expr where
  "contradiction = BinE Conj (BinE Disj foo bar) (BinE Conj (NotE foo) (NotE bar))"

lemma eliminate_dups_ends_witness:
  "\<exists>e'. expr_eliminate_dups (tristate_table (\<lambda>_. yes)) contradiction = Some e' \<and>
     expr_calc_value (tristate_table (\<lambda>_. yes)) e' = no"
proof -
  have "two_valued (tristate_table (\<lambda>_. yes)) contradiction" by (simp add: contradiction_def)
  moreover have "expr_calc_value (tristate_table (\<lambda>_. yes)) contradiction = no"
    by (simp add: contradiction_def min_def)
  ultimately show ?thesis using eliminate_dups_ends [OF table_calculated, of "\<lambda>_. yes" contradiction] by auto
qed



definition truth :: "bool \<Rightarrow> tristate" where
  "truth b = (if b then yes else no)"

lemma truth_simps [simp]:
  "EXPR_NOT (truth b) = truth (\<not> b)" "junction Conj (truth a) (truth b) = truth (a \<and> b)"
  "junction Disj (truth a) (truth b) = truth (a \<or> b)" "truth b = yes \<longleftrightarrow> b" "truth b = no \<longleftrightarrow> \<not> b"
  "truth True = yes" "truth False = no"
  by (auto simp: truth_def min_def max_def)





text \<open>
  With \<open>m\<close> as the constant a conjunction or disjunction is returned as it is, not as a comparison.
\<close>

lemma trans_compare_m_is_no_comparison:
  "expr_trans_compare (Some (BinE Conj foo bar)) Eq symbol_mod = Some (BinE Conj foo bar)"
  by (simp add: expr_trans_compare_def negate_if_def)

text \<open>C27: When \<open>expr_depends_symbol\<close> says that an expression depends on a boolean or tristate symbol, the
  expression is \<open>n\<close> in every calculated table in which the symbol is \<open>n\<close>.\<close>

theorem depends_symbol_sound:
  assumes "calculated K" and "boolish K s" and "expr_depends_symbol e s" and "tri K s = no"
  shows "expr_calc_value K e = no"
proof -
  have st: "sym_get_string_value K s = ''n''" using boolish_string [OF assms(1,2)] assms(4) by simp
  show ?thesis using assms(3)
  proof (induction e)
    case (BinE c a b)
    then show ?case by (cases c) (auto simp: min_def)
  next
    case (CmpE c x y)
    then show ?case using st assms(1) by (cases c) (auto simp: value_cmp)
  qed (use assms(4) in auto)
qed

lemma depends_symbol_sound_witness:
  "expr_calc_value (tristate_table (\<lambda>n. if n = 1 then no else tri_mod)) (BinE Conj bar (BinE Conj foo bar)) = no"
  using depends_symbol_sound [OF table_calculated, of "\<lambda>n. if n = 1 then no else tri_mod" "config_symbol 1"
    "BinE Conj bar (BinE Conj foo bar)"]
  by (simp add: boolish_def)



text \<open>
  \<open>expr_trans_bool\<close> replaces \<open>FOO != n\<close> by \<open>FOO\<close> for a tristate; the comment above it speaks of a boolean.
  With \<open>FOO = m\<close> the value changes from \<open>y\<close> to \<open>m\<close>.
\<close>

lemma trans_bool_changes_m:
  "\<exists>K e. calculated K \<and> expr_calc_value K e = yes \<and> expr_calc_value K (expr_trans_bool K e) = tri_mod"
proof -
  define K where "K = tristate_table (\<lambda>_. tri_mod)"
  have K: "calculated K" unfolding K_def by (rule table_calculated)
  have "boolish K (config_symbol 1)" by (simp add: K_def boolish_def)
  from boolish_string [OF K this] have "sym_get_string_value K (config_symbol 1) = ''m''" by (simp add: K_def)
  then have "expr_calc_value K (CmpE Neq (config_symbol 1) symbol_no) = yes" using K by (simp add: value_cmp)
  moreover have "expr_calc_value K (expr_trans_bool K (CmpE Neq (config_symbol 1) symbol_no)) = tri_mod"
    by (simp add: K_def)
  ultimately show ?thesis using K by blast
qed

text \<open>\<open>expr_free\<close> does not free the node of a negation, and the leftmost symbol of a comparison is read as an expression.\<close>

lemma expr_free_leaks: "NotE a \<notin> set (expr_free (NotE a))"
proof -
  have "x \<in> set (expr_free a) \<Longrightarrow> size_e x \<le> size_e a" for x by (induction a) auto
  then show ?thesis by fastforce
qed

lemma leftmost_of_comparison_faults: "expr_get_leftmost_symbol (Some (BinE Conj (CmpE c s t) e)) = Inl BadCast"
  by (simp add: expr_get_leftmost_symbol_def)

end
