(* ===== verification/Symbol.thy ===== *)
theory Symbol
  imports Expr "HOL-Library.List_Lexorder" "HOL-Library.Char_ord"
begin

text \<open>
  \<open>kconfig/symbol.c\<close>: the hash table of symbols, the properties of a symbol, and the functions on
  strings. A C string is the list of its characters without the terminator. The list through
  \<open>symbol->next\<close> that starts in \<open>symbol_hash[i]\<close> is the list \<open>symbol_hash i\<close>. The symbols that
  \<open>xmalloc\<close> hands out are numbered; what \<open>memset\<close> clears is the record \<open>blank_symbol\<close>. Messages on
  the error output are values of \<open>message\<close>, in the order they are printed; a call of the function that a
  graphical front end may have registered is the message \<open>ConfChanged\<close>. Of the menus the model has the
  flags and the position in the file. The field \<open>moved\<close> is a parameter of the model that \<open>sym_calc_value\<close> uses.
\<close>

section \<open>The state of the configuration tool\<close>

datatype message =
    UnmetDependency "expr option" "string option" "expr option"
  | ConfWarning string int string
  | ErrorLine string
  | MenuWarning string
  | ConfMessage string
  | ConfChanged

record kconfig =
  conf :: kconf
  symbol_hash :: "nat \<Rightarrow> sym list"
  allocated :: nat
  menu_flags :: "nat \<Rightarrow> 32 word"
  messages :: "message list"
  sym_change_count :: int
  conf_changed_callback :: bool
  sym_env_list :: "sym list"
  sym_defconfig_list :: "sym option"
  menu_pos :: "nat \<Rightarrow> string \<times> int"
  conf_filename :: string
  conf_lineno :: int
  conf_warnings :: int
  conf_unsaved :: int
  moved :: "sym \<Rightarrow> bool"

abbreviation sym_at :: "kconfig \<Rightarrow> sym \<Rightarrow> symbol" where
  "sym_at K s \<equiv> symbols (conf K) s"

definition upd_symbol :: "sym \<Rightarrow> (symbol \<Rightarrow> symbol) \<Rightarrow> kconfig \<Rightarrow> kconfig" where
  "upd_symbol s f K = K\<lparr>conf := (conf K)\<lparr>symbols := (symbols (conf K))(s := f (sym_at K s))\<rparr>\<rparr>"

lemma upd_symbol_simps [simp]:
  "symbols (conf (upd_symbol s f K)) = (symbols (conf K))(s := f (sym_at K s))"
  "modules_sym (conf (upd_symbol s f K)) = modules_sym (conf K)"
  "modules_val (conf (upd_symbol s f K)) = modules_val (conf K)"
  "symbol_hash (upd_symbol s f K) = symbol_hash K"
  "allocated (upd_symbol s f K) = allocated K"
  "menu_flags (upd_symbol s f K) = menu_flags K"
  "messages (upd_symbol s f K) = messages K"
  "sym_change_count (upd_symbol s f K) = sym_change_count K"
  "moved (upd_symbol s f K) = moved K"
  by (simp_all add: upd_symbol_def)

definition set_flag :: "32 word \<Rightarrow> symbol \<Rightarrow> symbol" where
  "set_flag f y = y\<lparr>s_flags := s_flags y OR f\<rparr>"

definition clear_flag :: "32 word \<Rightarrow> symbol \<Rightarrow> symbol" where
  "clear_flag f y = y\<lparr>s_flags := s_flags y AND NOT f\<rparr>"

definition SYMBOL_HASHSIZE :: "32 word" where "SYMBOL_HASHSIZE = 9973"
definition SYMBOL_MAXLENGTH :: nat where "SYMBOL_MAXLENGTH = 256"

section \<open>Finding symbols by name\<close>

text \<open>\<open>*s\<close> is a \<open>char\<close>, signed on the machine, so a byte from 128 up is sign-extended.\<close>

definition char_bits :: "char \<Rightarrow> 32 word" where
  "char_bits c = scast (of_char c :: 8 word)"

fun strhash_loop :: "32 word \<Rightarrow> string \<Rightarrow> 32 word" where
  "strhash_loop hash [] = hash"
| "strhash_loop hash (c # s) = strhash_loop ((hash XOR char_bits c) * 0x01000193) s"

definition strhash :: "string \<Rightarrow> 32 word" where
  "strhash s = strhash_loop 2166136261 s"

definition bucket :: "string \<Rightarrow> nat" where
  "bucket name = unat (strhash name mod SYMBOL_HASHSIZE)"

text \<open>The three names that stand for the constant symbols.\<close>

fun static_name :: "string \<Rightarrow> sym option" where
  "static_name [c] = (if c = CHR ''y'' then Some symbol_yes else if c = CHR ''m'' then Some symbol_mod
     else if c = CHR ''n'' then Some symbol_no else None)"
| "static_name _ = None"

definition lookup_match :: "string \<Rightarrow> 32 word \<Rightarrow> symbol \<Rightarrow> bool" where
  "lookup_match name flags y \<longleftrightarrow> s_name y = Some name \<and>
     (if flags \<noteq> 0 then s_flags y AND flags \<noteq> 0
      else s_flags y AND (SYMBOL_CONST OR SYMBOL_CHOICE) = 0)"

definition blank_symbol :: symbol where
  "blank_symbol = \<lparr>s_name = None, s_type = S_UNKNOWN, s_curr = \<lparr>sv_val = NullVal, sv_tri = no\<rparr>,
     s_def = (\<lambda>_. \<lparr>sv_val = NullVal, sv_tri = no\<rparr>), s_visible = no, s_flags = 0, s_prop = [],
     s_dir_dep = no_expr_value, s_rev_dep = no_expr_value\<rparr>"

definition new_symbol :: "string option \<Rightarrow> 32 word \<Rightarrow> nat \<Rightarrow> kconfig \<Rightarrow> sym \<times> kconfig" where
  "new_symbol name flags hash K =
     (let s = config_symbol (allocated K);
          K = upd_symbol s (\<lambda>_. blank_symbol\<lparr>s_name := name, s_flags := 0 OR flags\<rparr>) K
      in (s, K\<lparr>allocated := allocated K + 1,
               symbol_hash := (symbol_hash K)(hash := s # symbol_hash K hash)\<rparr>))"

definition sym_lookup :: "string option \<Rightarrow> 32 word \<Rightarrow> kconfig \<Rightarrow> sym \<times> kconfig" where
  "sym_lookup name flags K =
     (case name of
        None \<Rightarrow> new_symbol None flags 0 K
      | Some nm \<Rightarrow>
          (case static_name nm of
             Some s \<Rightarrow> (s, K)
           | None \<Rightarrow>
               (case find (\<lambda>s. lookup_match nm flags (sym_at K s)) (symbol_hash K (bucket nm)) of
                  Some s \<Rightarrow> (s, K)
                | None \<Rightarrow> new_symbol (Some nm) flags (bucket nm) K)))"

definition sym_find :: "string option \<Rightarrow> kconfig \<Rightarrow> sym option" where
  "sym_find name K =
     (case name of
        None \<Rightarrow> None
      | Some nm \<Rightarrow>
          (case static_name nm of
             Some s \<Rightarrow> Some s
           | None \<Rightarrow> find (\<lambda>s. s_name (sym_at K s) = Some nm \<and> s_flags (sym_at K s) AND SYMBOL_CONST = 0)
                       (symbol_hash K (bucket nm))))"

text \<open>\<open>for_all_symbols\<close> visits the chains in the order of the table and skips \<open>S_OTHER\<close>.\<close>

definition chained :: "kconfig \<Rightarrow> sym list" where
  "chained K = concat (map (symbol_hash K) [0..<unat SYMBOL_HASHSIZE])"

definition all_symbols :: "kconfig \<Rightarrow> sym list" where
  "all_symbols K = filter (\<lambda>s. s_type (sym_at K s) \<noteq> S_OTHER) (chained K)"

section \<open>Types and properties\<close>

definition sym_get_type :: "kconfig \<Rightarrow> sym \<Rightarrow> symbol_type" where
  "sym_get_type K s =
     (let y = sym_at K s in
      if s_type y = S_TRISTATE then
        (if sym_is_choice_value y \<and> s_visible y = yes then S_BOOLEAN
         else if modules_val (conf K) = no then S_BOOLEAN else S_TRISTATE)
      else s_type y)"

fun sym_type_name :: "symbol_type \<Rightarrow> string" where
  "sym_type_name S_BOOLEAN = ''boolean''"
| "sym_type_name S_TRISTATE = ''tristate''"
| "sym_type_name S_INT = ''integer''"
| "sym_type_name S_HEX = ''hex''"
| "sym_type_name S_STRING = ''string''"
| "sym_type_name S_UNKNOWN = ''unknown''"
| "sym_type_name S_OTHER = ''???''"

fun prop_get_type_name :: "prop_type \<Rightarrow> string" where
  "prop_get_type_name P_PROMPT = ''prompt''"
| "prop_get_type_name P_ENV = ''env''"
| "prop_get_type_name P_COMMENT = ''comment''"
| "prop_get_type_name P_MENU = ''menu''"
| "prop_get_type_name P_DEFAULT = ''default''"
| "prop_get_type_name P_CHOICE = ''choice''"
| "prop_get_type_name P_SELECT = ''select''"
| "prop_get_type_name P_RANGE = ''range''"
| "prop_get_type_name P_SYMBOL = ''symbol''"
| "prop_get_type_name P_UNKNOWN = ''unknown''"

definition sym_get_choice_prop :: "symbol \<Rightarrow> property option" where
  "sym_get_choice_prop y = find (\<lambda>p. p_type p = P_CHOICE) (s_prop y)"

definition sym_get_env_prop :: "symbol \<Rightarrow> property option" where
  "sym_get_env_prop y = find (\<lambda>p. p_type p = P_ENV) (s_prop y)"

text \<open>\<open>file\<close> and \<open>lineno\<close> are the current ones of the parser.\<close>

definition new_property :: "prop_type \<Rightarrow> sym option \<Rightarrow> string \<Rightarrow> int \<Rightarrow> property" where
  "new_property type s file lineno =
     \<lparr>p_sym = s, p_type = type, p_text = None, p_visible = no_expr_value, p_expr = None, p_menu = None,
      p_file = file, p_lineno = lineno\<rparr>"

text \<open>The caller fills in the fresh property through the pointer it gets; \<open>fill\<close> does that here.\<close>

definition prop_alloc ::
    "prop_type \<Rightarrow> sym option \<Rightarrow> string \<Rightarrow> int \<Rightarrow> (property \<Rightarrow> property) \<Rightarrow> kconfig \<Rightarrow> property \<times> kconfig" where
  "prop_alloc type s file lineno fill K =
     (let p = fill (new_property type s file lineno)
      in (p, case s of None \<Rightarrow> K | Some x \<Rightarrow> upd_symbol x (\<lambda>y. y\<lparr>s_prop := s_prop y @ [p]\<rparr>) K))"

text \<open>
  The left operand of an \<open>E_LIST\<close> node is the rest of the list, so for a list of two or more the code
  returns a pointer to an expression as if it were a symbol.
\<close>

definition prop_get_symbol :: "property \<Rightarrow> sym option result" where
  "prop_get_symbol p =
     (case p_expr p of
        Some (DepE (SymE s)) \<Rightarrow> Inr (Some s)
      | Some (ListE ss) \<Rightarrow> (if length ss \<le> 1 then Inr None else Inl BadCast)
      | _ \<Rightarrow> Inr None)"

definition MENU_CHANGED :: "32 word" where "MENU_CHANGED = 0x0001"

definition sym_set_changed :: "sym \<Rightarrow> kconfig \<Rightarrow> kconfig" where
  "sym_set_changed s K =
     (let K = upd_symbol s (set_flag SYMBOL_CHANGED) K
      in fold (\<lambda>p K. case p_menu p of None \<Rightarrow> K
                     | Some m \<Rightarrow> K\<lparr>menu_flags := (menu_flags K)(m := menu_flags K m OR MENU_CHANGED)\<rparr>)
           (s_prop (sym_at K s)) K)"

definition sym_set_all_changed :: "kconfig \<Rightarrow> kconfig" where
  "sym_set_all_changed K = fold sym_set_changed (all_symbols K) K"

definition sym_is_changable :: "symbol \<Rightarrow> bool" where
  "sym_is_changable y \<longleftrightarrow> s_visible y > ev_tri (s_rev_dep y)"

definition sym_tristate_within_range :: "sym \<Rightarrow> tristate \<Rightarrow> kconfig \<Rightarrow> bool" where
  "sym_tristate_within_range s val K =
     (let y = sym_at K s; type = sym_get_type K s in
      if s_visible y = no then False
      else if type \<noteq> S_BOOLEAN \<and> type \<noteq> S_TRISTATE then False
      else if type = S_BOOLEAN \<and> val = tri_mod then False
      else if s_visible y \<le> ev_tri (s_rev_dep y) then False
      else if sym_is_choice_value y \<and> s_visible y = yes then val = yes
      else ev_tri (s_rev_dep y) \<le> val \<and> val \<le> s_visible y)"

section \<open>Strings\<close>

definition isdigit :: "char \<Rightarrow> bool" where
  "isdigit c \<longleftrightarrow> (48 :: nat) \<le> of_char c \<and> of_char c \<le> (57 :: nat)"

definition isxdigit :: "char \<Rightarrow> bool" where
  "isxdigit c \<longleftrightarrow> isdigit c \<or> (65 :: nat) \<le> of_char c \<and> of_char c \<le> (70 :: nat) \<or>
     (97 :: nat) \<le> of_char c \<and> of_char c \<le> (102 :: nat)"

definition isalnum :: "char \<Rightarrow> bool" where
  "isalnum c \<longleftrightarrow> isdigit c \<or> (65 :: nat) \<le> of_char c \<and> of_char c \<le> (90 :: nat) \<or>
     (97 :: nat) \<le> of_char c \<and> of_char c \<le> (122 :: nat)"

definition isspace :: "char \<Rightarrow> bool" where
  "isspace c \<longleftrightarrow> c = CHR '' '' \<or> (9 :: nat) \<le> of_char c \<and> of_char c \<le> (13 :: nat)"

definition has_hex_prefix :: "string \<Rightarrow> bool" where
  "has_hex_prefix s \<longleftrightarrow>
     (case s of c # d # _ \<Rightarrow> c = CHR ''0'' \<and> (d = CHR ''x'' \<or> d = CHR ''X'') | _ \<Rightarrow> False)"

fun sym_string_valid :: "symbol_type \<Rightarrow> string \<Rightarrow> bool" where
  "sym_string_valid S_STRING str \<longleftrightarrow> True"
| "sym_string_valid S_INT str \<longleftrightarrow>
     (let str = (case str of [] \<Rightarrow> [] | c # r \<Rightarrow> if c = CHR ''-'' then r else str) in
      case str of [] \<Rightarrow> False
      | ch # rest \<Rightarrow> isdigit ch \<and> \<not> (ch = CHR ''0'' \<and> rest \<noteq> []) \<and> list_all isdigit rest)"
| "sym_string_valid S_HEX str \<longleftrightarrow>
     (let str = (if has_hex_prefix str then drop 2 str else str) in
      str \<noteq> [] \<and> list_all isxdigit str)"
| "sym_string_valid S_BOOLEAN str \<longleftrightarrow> str \<noteq> [] \<and> hd str \<in> set ''yYmMnN''"
| "sym_string_valid S_TRISTATE str \<longleftrightarrow> str \<noteq> [] \<and> hd str \<in> set ''yYmMnN''"
| "sym_string_valid S_UNKNOWN str \<longleftrightarrow> False"
| "sym_string_valid S_OTHER str \<longleftrightarrow> False"

text \<open>\<open>"\<close> and \<open>\\<close>, before which the escaped form of a string has a backslash.\<close>

definition escaped_char :: "char \<Rightarrow> bool" where
  "escaped_char c \<longleftrightarrow> c = CHR 0x22 \<or> c = CHR 0x5C"

definition strcspn_escaped :: "string \<Rightarrow> nat" where
  "strcspn_escaped p = length (takeWhile (\<lambda>c. \<not> escaped_char c) p)"

text \<open>The first pass measures the result, the second writes it.\<close>

function escape_length :: "string \<Rightarrow> nat \<Rightarrow> nat" where
  "escape_length p reslen =
     (case drop (strcspn_escaped p) p of [] \<Rightarrow> reslen | _ # rest \<Rightarrow> escape_length rest (reslen + 1))"
  by pat_completeness auto

lemma drop_Cons_length: "drop n xs = y # ys \<Longrightarrow> length ys < length xs"
  by (metis drop_eq_Nil2 length_Cons length_drop lessI less_le_trans linorder_not_le list.distinct(1) diff_le_self)

termination escape_length
  by (relation "measure (length \<circ> fst)") (auto dest: drop_Cons_length)

function escape_loop :: "string \<Rightarrow> string \<Rightarrow> string" where
  "escape_loop p res =
     (let l = strcspn_escaped p; res = res @ take l p in
      case drop l p of [] \<Rightarrow> res | c # rest \<Rightarrow> escape_loop rest (res @ [CHR 0x5C] @ [c]))"
  by pat_completeness auto

termination escape_loop
  by (relation "measure (length \<circ> fst)") (auto dest: drop_Cons_length)

definition escape_reslen :: "string \<Rightarrow> nat" where
  "escape_reslen inp = escape_length inp (length inp + 2 + 1)"

definition sym_escape_string_value :: "string \<Rightarrow> string" where
  "sym_escape_string_value inp = escape_loop inp [CHR 0x22] @ [CHR 0x22]"

section \<open>Search results\<close>

text \<open>\<open>strcmp\<close> compares bytes as unsigned; only the sign of its result is specified.\<close>

definition strcmp_sign :: "string \<Rightarrow> string \<Rightarrow> int" where
  "strcmp_sign a b = (if a < b then -1 else if b < a then 1 else 0)"

record sym_match =
  m_name :: string
  m_so :: int
  m_eo :: int

definition sym_rel_comp :: "sym_match \<Rightarrow> sym_match \<Rightarrow> int" where
  "sym_rel_comp s1 s2 =
     (let exact1 = (m_eo s1 - m_so s1 = int (length (m_name s1)));
          exact2 = (m_eo s2 - m_so s2 = int (length (m_name s2)))
      in if exact1 \<and> \<not> exact2 then -1
         else if \<not> exact1 \<and> exact2 then 1
         else strcmp_sign (m_name s1) (m_name s2))"

end
