(* ===== verification/SymTable.thy ===== *)
theory SymTable
  imports Symbol
begin

text \<open>
  What the symbol table and the string functions of \<open>kconfig/symbol.c\<close> promise: looking a name up twice
  gives the same symbol, and different names have different symbols.
\<close>

section \<open>Interning\<close>

text \<open>
  The contract of a table that hands out one value per key and never takes it back.
\<close>

locale intern_table =
  fixes intern :: "'k \<Rightarrow> 's \<Rightarrow> 'v \<times> 's"
    and present :: "'k \<Rightarrow> 's \<Rightarrow> 'v option"
    and key :: "'k \<Rightarrow> bool"
    and inv :: "'s \<Rightarrow> bool"
  assumes intern_inv: "inv s \<Longrightarrow> key k \<Longrightarrow> intern k s = (v, s') \<Longrightarrow> inv s'"
    and intern_present: "inv s \<Longrightarrow> key k \<Longrightarrow> intern k s = (v, s') \<Longrightarrow> present k s' = Some v"
    and intern_hit: "inv s \<Longrightarrow> key k \<Longrightarrow> present k s = Some v \<Longrightarrow> intern k s = (v, s)"
    and intern_other: "inv s \<Longrightarrow> key k \<Longrightarrow> key k' \<Longrightarrow> intern k s = (v, s') \<Longrightarrow> k' \<noteq> k \<Longrightarrow>
      present k' s' = present k' s"
    and present_inject: "inv s \<Longrightarrow> key k \<Longrightarrow> key k' \<Longrightarrow> present k s = Some v \<Longrightarrow> present k' s = Some v \<Longrightarrow> k = k'"
begin

fun intern_all :: "'k list \<Rightarrow> 's \<Rightarrow> 'v list \<times> 's" where
  "intern_all [] s = ([], s)"
| "intern_all (k # ks) s = (let (v, s) = intern k s; (vs, s) = intern_all ks s in (v # vs, s))"

lemma present_stays:
  assumes "inv s" and "key k" and "key k'" and "intern k s = (v, s')" and "present k' s = Some w"
  shows "present k' s' = Some w"
proof (cases "k' = k")
  case True
  with intern_hit [OF assms(1,3,5)] assms show ?thesis by simp
next
  case False
  with intern_other [OF assms(1-4) False] assms(5) show ?thesis by simp
qed

lemma intern_all_spec:
  "inv s \<Longrightarrow> list_all key ks \<Longrightarrow> intern_all ks s = (vs, s') \<Longrightarrow>
     inv s' \<and> length vs = length ks \<and> (\<forall>i < length ks. present (ks ! i) s' = Some (vs ! i)) \<and>
     (\<forall>k w. key k \<and> present k s = Some w \<longrightarrow> present k s' = Some w)"
proof (induction ks arbitrary: s vs s')
  case (Cons k ks)
  obtain v s1 where v: "intern k s = (v, s1)" by (cases "intern k s")
  obtain ws s2 where w: "intern_all ks s1 = (ws, s2)" by (cases "intern_all ks s1")
  from Cons.prems(2,3) v w have e: "vs = v # ws" "s' = s2" and k: "key k" "list_all key ks" by simp_all
  note i = intern_inv [OF Cons.prems(1) k(1) v] and p = intern_present [OF Cons.prems(1) k(1) v]
  note st = present_stays [OF Cons.prems(1) k(1) _ v]
  from Cons.IH [OF i k(2) w] p k(1) st show ?case
    unfolding e by (auto simp: nth_Cons split: nat.splits)
qed simp

lemma intern_all_injective:
  assumes "inv s" and "list_all key ks" and "intern_all ks s = (vs, s')" and "i < length ks" and "j < length ks"
  shows "vs ! i = vs ! j \<longleftrightarrow> ks ! i = ks ! j"
proof -
  from intern_all_spec [OF assms(1-3)] assms(4,5) have
    p: "inv s'" "present (ks ! i) s' = Some (vs ! i)" "present (ks ! j) s' = Some (vs ! j)" by auto
  have k: "key (ks ! i)" "key (ks ! j)" using assms(2,4,5) by (simp_all add: list_all_length)
  from p present_inject [OF p(1) k] show ?thesis by (metis option.inject)
qed

end

section \<open>The invariant of the table\<close>

definition chain_name :: "symbol \<Rightarrow> nat" where
  "chain_name y = (case s_name y of None \<Rightarrow> 0 | Some nm \<Rightarrow> bucket nm)"

definition table_ok :: "kconfig \<Rightarrow> bool" where
  "table_ok K \<longleftrightarrow>
     (\<forall>h. \<forall>s \<in> set (symbol_hash K h). \<exists>n < allocated K. s = config_symbol n \<and> chain_name (sym_at K s) = h) \<and>
     (\<forall>h. distinct (symbol_hash K h)) \<and>
     (\<forall>n < allocated K. config_symbol n \<in> set (symbol_hash K (chain_name (sym_at K (config_symbol n)))))"

lemma table_okD:
  assumes "table_ok K" and "s \<in> set (symbol_hash K h)"
  obtains n where "n < allocated K" and "s = config_symbol n" and "chain_name (sym_at K s) = h"
  using assms unfolding table_ok_def by blast

lemma new_symbol_ok:
  assumes ok: "table_ok K" and "new_symbol name flags h K = (s, K')"
    and h: "h = (case name of None \<Rightarrow> 0 | Some nm \<Rightarrow> bucket nm)"
  shows "table_ok K' \<and> s = config_symbol (allocated K) \<and> s_name (sym_at K' s) = name \<and> s_flags (sym_at K' s) = flags \<and>
    (\<forall>t. t \<noteq> s \<longrightarrow> sym_at K' t = sym_at K t) \<and> symbol_hash K' h = s # symbol_hash K h \<and>
    (\<forall>g. g \<noteq> h \<longrightarrow> symbol_hash K' g = symbol_hash K g) \<and> (\<forall>g. s \<notin> set (symbol_hash K g))"
proof -
  let ?s = "config_symbol (allocated K)"
  have s: "s = ?s" "symbol_hash K' = (symbol_hash K)(h := ?s # symbol_hash K h)" "allocated K' = allocated K + 1"
    "symbols (conf K') = (symbols (conf K))(?s := blank_symbol\<lparr>s_name := name, s_flags := flags\<rparr>)"
    using assms(2) by (auto simp: new_symbol_def Let_def)
  have fresh: "?s \<notin> set (symbol_hash K g)" for g
  proof
    assume "?s \<in> set (symbol_hash K g)"
    from table_okD [OF ok this] show False by auto
  qed
  have cn: "chain_name (sym_at K' ?s) = h" using s(4) h by (simp add: chain_name_def)
  have "table_ok K'" unfolding table_ok_def
  proof (intro conjI allI ballI impI)
    fix g t
    assume "t \<in> set (symbol_hash K' g)"
    then consider "t = ?s" "g = h" | "t \<in> set (symbol_hash K g)" using s(2) by (auto split: if_splits)
    then show "\<exists>n < allocated K'. t = config_symbol n \<and> chain_name (sym_at K' t) = g"
    proof cases
      case 1
      then show ?thesis using cn s(3) by auto
    next
      case 2
      from table_okD [OF ok 2] obtain n where "n < allocated K" "t = config_symbol n" "chain_name (sym_at K t) = g" .
      then show ?thesis using s(3,4) by auto
    qed
  next
    fix g
    show "distinct (symbol_hash K' g)" using ok fresh s(2) by (auto simp: table_ok_def)
  next
    fix n
    assume "n < allocated K'"
    then consider "n = allocated K" | "n < allocated K" using s(3) by linarith
    then show "config_symbol n \<in> set (symbol_hash K' (chain_name (sym_at K' (config_symbol n))))"
    proof cases
      case 1
      then show ?thesis using cn s(2) by simp
    next
      case 2
      then show ?thesis using ok s(2,4) by (auto simp: table_ok_def)
    qed
  qed
  then show ?thesis using s fresh by auto
qed

lemma new_name_ok:
  assumes "table_ok K" and "new_symbol (Some nm) flags (bucket nm) K = (s, K')"
  shows "table_ok K'" and "s_name (sym_at K' s) = Some nm" and "s_flags (sym_at K' s) = flags"
    and "t \<noteq> s \<Longrightarrow> sym_at K' t = sym_at K t" and "symbol_hash K' (bucket nm) = s # symbol_hash K (bucket nm)"
    and "g \<noteq> bucket nm \<Longrightarrow> symbol_hash K' g = symbol_hash K g" and "s \<notin> set (symbol_hash K g)"
  using new_symbol_ok [OF assms] by auto

section \<open>The two name spaces\<close>

text \<open>
  The parser looks names up with the flags 0, for configuration symbols, and with \<open>SYMBOL_CONST\<close>, for
  constants such as the text of a default. A key is a name with the name space it is looked up in.
\<close>

definition key_flags :: "bool \<Rightarrow> 32 word" where
  "key_flags const = (if const then SYMBOL_CONST else 0)"

definition find_key :: "string \<times> bool \<Rightarrow> kconfig \<Rightarrow> sym option" where
  "find_key k K = (case static_name (fst k) of
     Some s \<Rightarrow> Some s
   | None \<Rightarrow> find (\<lambda>s. lookup_match (fst k) (key_flags (snd k)) (sym_at K s)) (symbol_hash K (bucket (fst k))))"

definition proper_key :: "string \<times> bool \<Rightarrow> bool" where
  "proper_key k \<longleftrightarrow> static_name (fst k) = None \<or> \<not> snd k"

definition intern_key :: "string \<times> bool \<Rightarrow> kconfig \<Rightarrow> sym \<times> kconfig" where
  "intern_key k K = sym_lookup (Some (fst k)) (key_flags (snd k)) K"

lemma intern_key_cases:
  assumes "table_ok K" and "intern_key k K = (s, K')"
  obtains "find_key k K = Some s" "K' = K"
  | "find_key k K = None" "static_name (fst k) = None"
    "new_symbol (Some (fst k)) (key_flags (snd k)) (bucket (fst k)) K = (s, K')"
  using assms(2) by (auto simp: intern_key_def sym_lookup_def find_key_def split: option.splits)

lemma and_or_zero: "w AND (a OR b) = 0 \<Longrightarrow> w AND a = (0 :: 32 word)"
  by (simp add: bit.conj_disj_distrib or_eq_0_iff)

lemma SYMBOL_CONST_nonzero [simp]: "SYMBOL_CONST \<noteq> 0"
  by (simp add: SYMBOL_CONST_def)

lemma key_match:
  "lookup_match nm (key_flags b) y \<Longrightarrow> s_name y = Some nm \<and> (s_flags y AND SYMBOL_CONST \<noteq> 0 \<longleftrightarrow> b)"
  by (cases b) (auto simp: lookup_match_def key_flags_def dest: and_or_zero)

lemma new_key_match:
  "s_name y = Some nm \<Longrightarrow> s_flags y = key_flags b \<Longrightarrow> lookup_match nm (key_flags b) y"
  by (cases b) (auto simp: lookup_match_def key_flags_def SYMBOL_CONST_def)

lemma find_key_static_not_chain:
  assumes "table_ok K" and "static_name (fst k) = None" and "find_key k K = Some s"
  shows "lookup_match (fst k) (key_flags (snd k)) (sym_at K s) \<and> (\<exists>n. s = config_symbol n)"
proof -
  from assms(2,3) obtain i where i: "i < length (symbol_hash K (bucket (fst k)))" "s = symbol_hash K (bucket (fst k)) ! i"
    "lookup_match (fst k) (key_flags (snd k)) (sym_at K s)" by (auto simp: find_key_def find_Some_iff)
  then have "s \<in> set (symbol_hash K (bucket (fst k)))" by simp
  from table_okD [OF assms(1) this] i(3) show ?thesis by blast
qed

lemma static_name_inject: "static_name a = Some s \<Longrightarrow> static_name b = Some s \<Longrightarrow> a = b"
  by (induction a rule: static_name.induct; induction b rule: static_name.induct) (auto split: if_splits)

lemma static_name_range: "static_name a \<noteq> Some (config_symbol n)"
  by (induction a rule: static_name.induct) auto

interpretation names: intern_table intern_key find_key proper_key table_ok
proof
  fix K K' :: kconfig and k k' s
  assume ok: "table_ok K"
  show "proper_key k \<Longrightarrow> intern_key k K = (s, K') \<Longrightarrow> table_ok K'"
    by (erule intern_key_cases [OF ok]) (auto simp: ok dest: new_name_ok [OF ok])
  show "proper_key k \<Longrightarrow> find_key k K = Some s \<Longrightarrow> intern_key k K = (s, K)"
    by (auto simp: intern_key_def find_key_def sym_lookup_def split: option.splits)
  show "find_key k K' = Some s" if "proper_key k" "intern_key k K = (s, K')"
  proof (rule intern_key_cases [OF ok that(2)])
    assume 2: "find_key k K = None" "static_name (fst k) = None"
      "new_symbol (Some (fst k)) (key_flags (snd k)) (bucket (fst k)) K = (s, K')"
    note n = new_name_ok [OF ok 2(3)]
    from new_key_match [OF n(2,3)] n(5) 2(2) show ?thesis by (simp add: find_key_def)
  qed simp
  show "find_key k' K' = find_key k' K"
    if "proper_key k" "proper_key k'" "intern_key k K = (s, K')" "k' \<noteq> k"
  proof (rule intern_key_cases [OF ok that(3)])
    assume 2: "find_key k K = None" "static_name (fst k) = None"
      "new_symbol (Some (fst k)) (key_flags (snd k)) (bucket (fst k)) K = (s, K')"
    note n = new_name_ok [OF ok 2(3)]
    have "\<not> lookup_match (fst k') (key_flags (snd k')) (sym_at K' s)"
    proof
      assume "lookup_match (fst k') (key_flags (snd k')) (sym_at K' s)"
      moreover have "lookup_match (fst k) (key_flags (snd k)) (sym_at K' s)" by (rule new_key_match [OF n(2,3)])
      ultimately have "fst k' = fst k \<and> snd k' = snd k" by (auto dest!: key_match)
      with that(4) show False by (simp add: prod_eq_iff)
    qed
    moreover have "find (\<lambda>t. lookup_match nm f (sym_at K' t)) (symbol_hash K h) =
        find (\<lambda>t. lookup_match nm f (sym_at K t)) (symbol_hash K h)" for nm f h
      by (rule find_cong) (use n(4,7) in metis)+
    ultimately show ?thesis using n(5,6)
      by (cases "bucket (fst k') = bucket (fst k)") (auto simp: find_key_def split: option.splits)
  qed simp
  show "k = k'" if "proper_key k" "proper_key k'" "find_key k K = Some s" "find_key k' K = Some s"
  proof (cases "static_name (fst k)"; cases "static_name (fst k')")
    assume n: "static_name (fst k) = None" "static_name (fst k') = None"
    from find_key_static_not_chain [OF ok n(1) that(3)] find_key_static_not_chain [OF ok n(2) that(4)]
    show ?thesis by (auto dest!: key_match simp: prod_eq_iff)
  next
    fix a b
    assume n: "static_name (fst k) = Some a" "static_name (fst k') = Some b"
    with that(3,4) have "a = b" by (simp add: find_key_def)
    with static_name_inject n have "fst k = fst k'" by blast
    with that(1,2) n show ?thesis by (simp add: proper_key_def prod_eq_iff)
  next
    fix a
    assume n: "static_name (fst k) = Some a" "static_name (fst k') = None"
    with find_key_static_not_chain [OF ok n(2) that(4)] that(3) static_name_range show ?thesis
      by (auto simp: find_key_def)
  next
    fix a
    assume n: "static_name (fst k) = None" "static_name (fst k') = Some a"
    with find_key_static_not_chain [OF ok n(1) that(3)] that(4) static_name_range show ?thesis
      by (auto simp: find_key_def)
  qed
qed

section \<open>Properties of the table\<close>


definition empty_table :: kconfig where
  "empty_table = \<lparr>conf = \<lparr>symbols = case_sym symbol_yes_init symbol_mod_init symbol_no_init symbol_empty_init
       (\<lambda>_. blank_symbol), modules_sym = config_symbol 0, modules_val = no\<rparr>,
     symbol_hash = (\<lambda>_. []), allocated = 0, menu_flags = (\<lambda>_. 0), messages = [], sym_change_count = 0,
     conf_changed_callback = False, sym_env_list = [], sym_defconfig_list = None, menu_pos = (\<lambda>_. ('''', 0)),
     conf_filename = '''', conf_lineno = 0, conf_warnings = 0, conf_unsaved = 0, moved = (\<lambda>_. False)\<rparr>"

lemma empty_table_ok: "table_ok empty_table"
  by (simp add: table_ok_def empty_table_def)


text \<open>C0: In a well-formed table \<open>sym_find\<close> of a name that is none of the constants finds a symbol exactly
  when the table has one of that name that is no constant; after \<open>sym_lookup\<close> of the name it finds one.\<close>

theorem find_is_complete:
  assumes "table_ok K" and "static_name nm = None"
  shows "(sym_find (Some nm) K \<noteq> None) =
      (\<exists>n < allocated K. s_name (sym_at K (config_symbol n)) = Some nm \<and>
         s_flags (sym_at K (config_symbol n)) AND SYMBOL_CONST = 0) \<and>
    sym_find (Some nm) (snd (sym_lookup (Some nm) 0 K)) \<noteq> None"
proof -
  let ?P = "\<lambda>K s. s_name (sym_at K s) = Some nm \<and> s_flags (sym_at K s) AND SYMBOL_CONST = 0"
  have f: "sym_find (Some nm) K = find (?P K) (symbol_hash K (bucket nm))" for K
    using assms(2) by (simp add: sym_find_def)
  have "(\<exists>s \<in> set (symbol_hash K (bucket nm)). ?P K s) \<longleftrightarrow> (\<exists>n < allocated K. ?P K (config_symbol n))"
  proof
    assume "\<exists>s \<in> set (symbol_hash K (bucket nm)). ?P K s"
    then show "\<exists>n < allocated K. ?P K (config_symbol n)" using table_okD [OF assms(1)] by metis
  next
    assume "\<exists>n < allocated K. ?P K (config_symbol n)"
    then obtain n where n: "n < allocated K" "?P K (config_symbol n)" by blast
    then have "chain_name (sym_at K (config_symbol n)) = bucket nm" by (simp add: chain_name_def)
    with assms(1) n show "\<exists>s \<in> set (symbol_hash K (bucket nm)). ?P K s" unfolding table_ok_def by metis
  qed
  then have 1: "sym_find (Some nm) K \<noteq> None \<longleftrightarrow> (\<exists>n < allocated K. ?P K (config_symbol n))"
    unfolding f [of K] by (auto simp: find_None_iff)
  obtain s K' where l: "intern_key (nm, False) K = (s, K')" by (cases "intern_key (nm, False) K")
  have pk: "proper_key (nm, False)" by (simp add: proper_key_def)
  from names.intern_present [OF assms(1) pk l] names.intern_inv [OF assms(1) pk l] assms(2)
    find_key_static_not_chain [of K' "(nm, False)" s]
  have "lookup_match nm 0 (sym_at K' s)" "s \<in> set (symbol_hash K' (bucket nm))"
    by (auto simp: key_flags_def find_key_def find_Some_iff)
  then have "sym_find (Some nm) K' \<noteq> None" using f [of K'] and_or_zero
    by (auto simp: find_None_iff lookup_match_def)
  with 1 l show ?thesis by (simp add: intern_key_def key_flags_def)
qed

lemma find_is_complete_witness: "sym_find (Some ''SMP'') (snd (sym_lookup (Some ''SMP'') 0 empty_table)) \<noteq> None"
  using find_is_complete [OF empty_table_ok, of "''SMP''"] by simp

end
