(* ===== verification/SymCalc.thy ===== *)
theory SymCalc
  imports Symbol ExprJoin Format
begin

text \<open>
  \<open>sym_calc_value\<close> of \<open>kconfig/symbol.c\<close> with what it calls: visibility, choices, defaults, ranges,
  and \<open>expr_calc_value\<close> of \<open>expr.c\<close>, which calls it back for the symbols of an expression. The
  recursion goes through the graph of symbols; it is cut by the flag \<open>SYMBOL_VALID\<close>. The operations take
  the function \<open>calc\<close> that stands for the recursive call, and \<open>sym_calc_value\<close> ties the knot with a
  bound on the depth; when it is used up the result is the fault \<open>Diverges\<close>.

  The code compares the old value of a symbol with the new one byte by byte, so a string that was copied
  counts as changed. Addresses of strings are not modelled: \<open>moved s\<close> says whether the string of \<open>s\<close> has
  moved although its text is the same. Only the flags \<open>SYMBOL_CHANGED\<close> and \<open>MENU_CHANGED\<close> and the
  moment \<open>modules_val\<close> is refreshed depend on it.
\<close>

section \<open>Numbers\<close>

text \<open>\<open>strtoll\<close> for the bases 10 and 16: white space, a sign, for base 16 a prefix, digits; the result is clamped.\<close>

definition LLONG_MIN :: int where "LLONG_MIN = - (2 ^ 63)"
definition LLONG_MAX :: int where "LLONG_MAX = 2 ^ 63 - 1"

definition digit_in :: "nat \<Rightarrow> char \<Rightarrow> bool" where
  "digit_in base c \<longleftrightarrow> isxdigit c \<and> (base = 16 \<or> isdigit c)"

fun hex_digit :: "char \<Rightarrow> nat" where
  "hex_digit c = (let n = of_char c :: nat in if isdigit c then n - 48 else if n < 97 then n - 55 else n - 87)"

definition digits_value :: "nat \<Rightarrow> string \<Rightarrow> nat" where
  "digits_value base ds = foldl (\<lambda>v c. v * base + hex_digit c) 0 ds"

definition clamp :: "int \<Rightarrow> int" where
  "clamp v = max LLONG_MIN (min LLONG_MAX v)"

definition strtoll :: "nat \<Rightarrow> string \<Rightarrow> int" where
  "strtoll base str =
     (let str = dropWhile isspace str;
          neg = (str \<noteq> [] \<and> hd str = CHR ''-'');
          str = (if str \<noteq> [] \<and> (hd str = CHR ''-'' \<or> hd str = CHR ''+'') then tl str else str);
          str = (if base = 16 \<and> has_hex_prefix str \<and> drop 2 str \<noteq> [] \<and> isxdigit (hd (drop 2 str)) then drop 2 str else str);
          v = int (digits_value base (takeWhile (digit_in base) str))
      in clamp (if neg then - v else v))"

text \<open>\<open>sprintf(str, "%lld", v)\<close> and \<open>sprintf(str, "0x%llx", v)\<close>\<close>

definition lld :: "int \<Rightarrow> string" where
  "lld v = (if v < 0 then CHR ''-'' # positional hextable 10 (nat (- v)) else positional hextable 10 (nat v))"

definition llx :: "int \<Rightarrow> string" where
  "llx v = ''0x'' @ positional hextable 16 (unat (word_of_int v :: 64 word))"

section \<open>The values of expressions\<close>

type_synonym calc = "sym \<Rightarrow> kconfig \<Rightarrow> kconfig result"

text \<open>A value used as a string: \<open>strcmp\<close> and \<open>strtoll\<close> read through the pointer.\<close>

definition c_string :: "symval \<Rightarrow> string result" where
  "c_string v = (case v of NullVal \<Rightarrow> Inl NullDeref | StrVal s \<Rightarrow> Inr s | SymVal _ \<Rightarrow> Inl BadCast)"

definition get_string_value :: "calc \<Rightarrow> sym \<Rightarrow> kconfig \<Rightarrow> (symval \<times> kconfig) result" where
  "get_string_value calc s K =
     (let y = sym_at K s in
      if s_type y = S_BOOLEAN \<or> s_type y = S_TRISTATE then
        (case sym_get_tristate_value y of
           no \<Rightarrow> Inr (StrVal ''n'', K)
         | tri_mod \<Rightarrow> bindE (calc (modules_sym (conf K)) K) (\<lambda>K.
             Inr (StrVal (if sv_tri (s_curr (sym_at K (modules_sym (conf K)))) = no then ''n'' else ''m''), K))
         | yes \<Rightarrow> Inr (StrVal ''y'', K))
      else Inr (sv_val (s_curr y), K))"

definition same_string :: "calc \<Rightarrow> sym \<Rightarrow> sym \<Rightarrow> kconfig \<Rightarrow> (bool \<times> kconfig) result" where
  "same_string calc s1 s2 K =
     bindE (calc s1 K) (\<lambda>K. bindE (calc s2 K) (\<lambda>K.
     bindE (get_string_value calc s1 K) (\<lambda>(v1, K).
     bindE (get_string_value calc s2 K) (\<lambda>(v2, K).
     bindE (c_string v1) (\<lambda>str1. bindE (c_string v2) (\<lambda>str2. Inr (str1 = str2, K)))))))"

fun calc_expr :: "calc \<Rightarrow> expr \<Rightarrow> kconfig \<Rightarrow> (tristate \<times> kconfig) result" where
  "calc_expr calc (SymE s) K = bindE (calc s K) (\<lambda>K. Inr (sv_tri (s_curr (sym_at K s)), K))"
| "calc_expr calc (BinE Conj a b) K =
     bindE (calc_expr calc a K) (\<lambda>(v1, K). bindE (calc_expr calc b K) (\<lambda>(v2, K). Inr (EXPR_AND v1 v2, K)))"
| "calc_expr calc (BinE Disj a b) K =
     bindE (calc_expr calc a K) (\<lambda>(v1, K). bindE (calc_expr calc b K) (\<lambda>(v2, K). Inr (EXPR_OR v1 v2, K)))"
| "calc_expr calc (NotE a) K = bindE (calc_expr calc a K) (\<lambda>(v1, K). Inr (EXPR_NOT v1, K))"
| "calc_expr calc (CmpE Eq s1 s2) K = bindE (same_string calc s1 s2 K) (\<lambda>(b, K). Inr (if b then yes else no, K))"
| "calc_expr calc (CmpE Neq s1 s2) K = bindE (same_string calc s1 s2 K) (\<lambda>(b, K). Inr (if b then no else yes, K))"

definition calc_opt :: "calc \<Rightarrow> expr option \<Rightarrow> kconfig \<Rightarrow> (tristate \<times> kconfig) result" where
  "calc_opt calc e K = (case e of None \<Rightarrow> Inr (yes, K) | Some a \<Rightarrow> calc_expr calc a K)"

text \<open>The expression of a property; a list or a range is printed as an error and is worth \<open>no\<close>.\<close>

definition calc_prop_expr :: "calc \<Rightarrow> prop_expr option \<Rightarrow> kconfig \<Rightarrow> (tristate \<times> kconfig) result" where
  "calc_prop_expr calc e K =
     (case e of None \<Rightarrow> Inr (yes, K) | Some (DepE a) \<Rightarrow> calc_expr calc a K | Some _ \<Rightarrow> Inr (no, K))"

section \<open>Properties of a symbol that apply\<close>

definition upd_prop :: "sym \<Rightarrow> nat \<Rightarrow> (property \<Rightarrow> property) \<Rightarrow> kconfig \<Rightarrow> kconfig" where
  "upd_prop s i f = upd_symbol s (\<lambda>y. y\<lparr>s_prop := (s_prop y)[i := f (s_prop y ! i)]\<rparr>)"

definition set_visible :: "tristate \<Rightarrow> property \<Rightarrow> property" where
  "set_visible t p = p\<lparr>p_visible := (p_visible p)\<lparr>ev_tri := t\<rparr>\<rparr>"

abbreviation prop_at :: "kconfig \<Rightarrow> sym \<Rightarrow> nat \<Rightarrow> property" where
  "prop_at K s i \<equiv> s_prop (sym_at K s) ! i"

text \<open>\<open>prop->visible.tri = expr_calc_value(prop->visible.expr)\<close>\<close>

definition calc_prop_visible :: "calc \<Rightarrow> sym \<Rightarrow> nat \<Rightarrow> kconfig \<Rightarrow> (tristate \<times> kconfig) result" where
  "calc_prop_visible calc s i K =
     bindE (calc_opt calc (ev_expr (p_visible (prop_at K s i))) K) (\<lambda>(t, K).
     Inr (t, upd_prop s i (set_visible t) K))"

text \<open>The first property of a type, from the positions given, that is visible.\<close>

fun visible_prop :: "calc \<Rightarrow> sym \<Rightarrow> prop_type \<Rightarrow> nat list \<Rightarrow> kconfig \<Rightarrow> (nat option \<times> kconfig) result" where
  "visible_prop calc s type [] K = Inr (None, K)"
| "visible_prop calc s type (i # js) K =
     (if p_type (prop_at K s i) = type then
        bindE (calc_prop_visible calc s i K) (\<lambda>(t, K).
        if t \<noteq> no then Inr (Some i, K) else visible_prop calc s type js K)
      else visible_prop calc s type js K)"

definition prop_positions :: "kconfig \<Rightarrow> sym \<Rightarrow> nat list" where
  "prop_positions K s = [0..<length (s_prop (sym_at K s))]"

definition sym_get_default_prop :: "calc \<Rightarrow> sym \<Rightarrow> kconfig \<Rightarrow> (nat option \<times> kconfig) result" where
  "sym_get_default_prop calc s K = visible_prop calc s P_DEFAULT (prop_positions K s) K"

definition sym_get_range_prop :: "calc \<Rightarrow> sym \<Rightarrow> kconfig \<Rightarrow> (nat option \<times> kconfig) result" where
  "sym_get_range_prop calc s K = visible_prop calc s P_RANGE (prop_positions K s) K"

section \<open>Ranges\<close>

definition number_base :: "symbol_type \<Rightarrow> nat \<Rightarrow> nat" where
  "number_base type base = (if type = S_INT then 10 else if type = S_HEX then 16 else base)"

definition sym_get_range_val :: "calc \<Rightarrow> sym \<Rightarrow> nat \<Rightarrow> kconfig \<Rightarrow> (int \<times> kconfig) result" where
  "sym_get_range_val calc s base K =
     bindE (calc s K) (\<lambda>K.
     bindE (c_string (sv_val (s_curr (sym_at K s)))) (\<lambda>str.
     Inr (strtoll (number_base (s_type (sym_at K s)) base) str, K)))"

definition range_ends :: "property \<Rightarrow> (sym \<times> sym) result" where
  "range_ends p = (case p_expr p of Some (RangeE l r) \<Rightarrow> Inr (l, r) | None \<Rightarrow> Inl NullDeref | Some _ \<Rightarrow> Inl BadCast)"

definition set_curr_val :: "sym \<Rightarrow> symval \<Rightarrow> kconfig \<Rightarrow> kconfig" where
  "set_curr_val s v = upd_symbol s (\<lambda>y. y\<lparr>s_curr := (s_curr y)\<lparr>sv_val := v\<rparr>\<rparr>)"

definition set_curr_tri :: "sym \<Rightarrow> tristate \<Rightarrow> kconfig \<Rightarrow> kconfig" where
  "set_curr_tri s t = upd_symbol s (\<lambda>y. y\<lparr>s_curr := (s_curr y)\<lparr>sv_tri := t\<rparr>\<rparr>)"

definition store_number :: "sym \<Rightarrow> int \<Rightarrow> kconfig \<Rightarrow> kconfig" where
  "store_number s v K =
     set_curr_val s (StrVal (if s_type (sym_at K s) = S_INT then lld v else llx v)) K"

definition sym_validate_range :: "calc \<Rightarrow> sym \<Rightarrow> kconfig \<Rightarrow> kconfig result" where
  "sym_validate_range calc s K =
     (if s_type (sym_at K s) \<noteq> S_INT \<and> s_type (sym_at K s) \<noteq> S_HEX then Inr K
      else
        let base = number_base (s_type (sym_at K s)) 10 in
        bindE (sym_get_range_prop calc s K) (\<lambda>(prop, K).
        case prop of
          None \<Rightarrow> Inr K
        | Some i \<Rightarrow>
            bindE (c_string (sv_val (s_curr (sym_at K s)))) (\<lambda>str.
            let val = strtoll base str in
            bindE (range_ends (prop_at K s i)) (\<lambda>(l, r).
            bindE (sym_get_range_val calc l base K) (\<lambda>(low, K).
            if val \<ge> low then
              bindE (sym_get_range_val calc r base K) (\<lambda>(high, K).
              if val \<le> high then Inr K else Inr (store_number s high K))
            else Inr (store_number s low K))))))"

section \<open>Visibility\<close>

fun prompts_visible :: "calc \<Rightarrow> sym \<Rightarrow> nat list \<Rightarrow> tristate \<Rightarrow> kconfig \<Rightarrow> (tristate \<times> kconfig) result" where
  "prompts_visible calc s [] tri K = Inr (tri, K)"
| "prompts_visible calc s (i # js) tri K =
     (if p_text (prop_at K s i) \<noteq> None then
        bindE (calc_prop_visible calc s i K) (\<lambda>(t, K). prompts_visible calc s js (EXPR_OR tri t) K)
      else prompts_visible calc s js tri K)"

definition store_visible :: "sym \<Rightarrow> tristate \<Rightarrow> kconfig \<Rightarrow> kconfig" where
  "store_visible s tri K =
     (if s_visible (sym_at K s) \<noteq> tri then sym_set_changed s (upd_symbol s (\<lambda>y. y\<lparr>s_visible := tri\<rparr>) K) else K)"

definition store_dir_dep :: "sym \<Rightarrow> tristate \<Rightarrow> kconfig \<Rightarrow> kconfig" where
  "store_dir_dep s tri K =
     (if ev_tri (s_dir_dep (sym_at K s)) \<noteq> tri
      then sym_set_changed s (upd_symbol s (\<lambda>y. y\<lparr>s_dir_dep := (s_dir_dep y)\<lparr>ev_tri := tri\<rparr>\<rparr>) K) else K)"

definition store_rev_dep :: "sym \<Rightarrow> tristate \<Rightarrow> kconfig \<Rightarrow> kconfig" where
  "store_rev_dep s tri K =
     (if ev_tri (s_rev_dep (sym_at K s)) \<noteq> tri
      then sym_set_changed s (upd_symbol s (\<lambda>y. y\<lparr>s_rev_dep := (s_rev_dep y)\<lparr>ev_tri := tri\<rparr>\<rparr>) K) else K)"

definition calc_or :: "calc \<Rightarrow> tristate \<Rightarrow> expr option \<Rightarrow> kconfig \<Rightarrow> (tristate \<times> kconfig) result" where
  "calc_or calc t e K = (case e of None \<Rightarrow> Inr (t, K) | Some a \<Rightarrow> calc_expr calc a K)"

definition sym_calc_visibility :: "calc \<Rightarrow> sym \<Rightarrow> kconfig \<Rightarrow> kconfig result" where
  "sym_calc_visibility calc s K =
     bindE (prompts_visible calc s (prop_positions K s) no K) (\<lambda>(tri, K).
     let tri = (if tri = tri_mod \<and> (s_type (sym_at K s) \<noteq> S_TRISTATE \<or> modules_val (conf K) = no) then yes else tri);
         K = store_visible s tri K
     in if sym_is_choice_value (sym_at K s) then Inr K
        else
          bindE (calc_or calc yes (ev_expr (s_dir_dep (sym_at K s))) K) (\<lambda>(tri, K).
          let tri = (if tri = tri_mod then yes else tri);
              K = store_dir_dep s tri K
          in bindE (calc_or calc no (ev_expr (s_rev_dep (sym_at K s))) K) (\<lambda>(tri, K).
             let tri = (if tri = tri_mod \<and> sym_get_type K s = S_BOOLEAN then yes else tri)
             in Inr (store_rev_dep s tri K))))"

section \<open>Choices\<close>

text \<open>The symbols \<open>expr_list_for_each_sym\<close> visits; a symbol expression has no right operand.\<close>

definition list_symbols :: "prop_expr option \<Rightarrow> sym list result" where
  "list_symbols e =
     (case e of None \<Rightarrow> Inr [] | Some (ListE ss) \<Rightarrow> Inr ss | Some (DepE (SymE _)) \<Rightarrow> Inr [] | Some _ \<Rightarrow> Inl BadCast)"

definition choice_symbols :: "kconfig \<Rightarrow> sym \<Rightarrow> sym list result" where
  "choice_symbols K s = bindE (deref (sym_get_choice_prop (sym_at K s))) (\<lambda>p. list_symbols (p_expr p))"

text \<open>\<open>prop_get_symbol(sym_get_choice_prop(sym))\<close>, used as a pointer: the choice of a choice value.\<close>

definition choice_of :: "kconfig \<Rightarrow> sym \<Rightarrow> sym result" where
  "choice_of K s =
     bindE (deref (sym_get_choice_prop (sym_at K s))) (\<lambda>p. bindE (prop_get_symbol p) deref)"

fun choice_defaults :: "calc \<Rightarrow> sym \<Rightarrow> nat list \<Rightarrow> kconfig \<Rightarrow> (sym option \<times> kconfig) result" where
  "choice_defaults calc s [] K = Inr (None, K)"
| "choice_defaults calc s (i # js) K =
     (if p_type (prop_at K s i) = P_DEFAULT then
        bindE (calc_prop_visible calc s i K) (\<lambda>(t, K).
        if t = no then choice_defaults calc s js K
        else
          bindE (prop_get_symbol (prop_at K s i)) (\<lambda>d.
          bindE (deref d) (\<lambda>d.
          if s_visible (sym_at K d) \<noteq> no then Inr (Some d, K) else choice_defaults calc s js K)))
      else choice_defaults calc s js K)"

definition sym_choice_default :: "calc \<Rightarrow> sym \<Rightarrow> kconfig \<Rightarrow> (sym option \<times> kconfig) result" where
  "sym_choice_default calc s K =
     bindE (choice_defaults calc s (prop_positions K s) K) (\<lambda>(d, K).
     case d of
       Some d \<Rightarrow> Inr (Some d, K)
     | None \<Rightarrow> bindE (choice_symbols K s) (\<lambda>ss. Inr (find (\<lambda>d. s_visible (sym_at K d) \<noteq> no) ss, K)))"

fun choice_visibilities :: "calc \<Rightarrow> sym list \<Rightarrow> 32 word \<Rightarrow> kconfig \<Rightarrow> (32 word \<times> kconfig) result" where
  "choice_visibilities calc [] flags K = Inr (flags, K)"
| "choice_visibilities calc (d # ds) flags K =
     bindE (sym_calc_visibility calc d K) (\<lambda>K.
     choice_visibilities calc ds
       (if s_visible (sym_at K d) \<noteq> no then flags AND s_flags (sym_at K d) else flags) K)"

text \<open>\<open>sym->def[S_DEF_USER].val\<close> of a choice is a symbol or \<open>NULL\<close>.\<close>

definition user_choice :: "symbol \<Rightarrow> sym option result" where
  "user_choice y = (case sv_val (s_def y S_DEF_USER) of
     NullVal \<Rightarrow> Inr None | SymVal d \<Rightarrow> Inr (Some d) | StrVal _ \<Rightarrow> Inl BadCast)"

definition sym_calc_choice :: "calc \<Rightarrow> sym \<Rightarrow> kconfig \<Rightarrow> (sym option \<times> kconfig) result" where
  "sym_calc_choice calc s K =
     (let flags = s_flags (sym_at K s) in
      bindE (choice_symbols K s) (\<lambda>ss.
      bindE (choice_visibilities calc ss flags K) (\<lambda>(flags, K).
      let K = upd_symbol s (\<lambda>y. y\<lparr>s_flags := s_flags y AND (flags OR NOT SYMBOL_DEF_USER)\<rparr>) K
      in bindE (user_choice (sym_at K s)) (\<lambda>u.
         case u of
           Some d \<Rightarrow>
             if s_visible (sym_at K d) \<noteq> no then Inr (Some d, K)
             else bindE (sym_choice_default calc s K) (\<lambda>(d, K).
                  Inr (d, if d = None then set_curr_tri s no K else K))
         | None \<Rightarrow> bindE (sym_choice_default calc s K) (\<lambda>(d, K).
                  Inr (d, if d = None then set_curr_tri s no K else K))))))"

text \<open>\<open>set_all_choice_values\<close> of \<open>confdata.c\<close>\<close>

definition set_user_tri :: "tristate \<Rightarrow> symbol \<Rightarrow> symbol" where
  "set_user_tri t y = y\<lparr>s_def := (s_def y)(S_DEF_USER := (s_def y S_DEF_USER)\<lparr>sv_tri := t\<rparr>)\<rparr>"

definition set_user_val :: "symval \<Rightarrow> symbol \<Rightarrow> symbol" where
  "set_user_val v y = y\<lparr>s_def := (s_def y)(S_DEF_USER := (s_def y S_DEF_USER)\<lparr>sv_val := v\<rparr>)\<rparr>"

definition set_all_choice_values :: "sym \<Rightarrow> kconfig \<Rightarrow> kconfig result" where
  "set_all_choice_values c K =
     bindE (choice_symbols K c) (\<lambda>ss.
     let K = fold (\<lambda>s K. if \<not> sym_has_value (sym_at K s) then upd_symbol s (set_user_tri no) K else K) ss K
     in Inr (upd_symbol c (clear_flag (SYMBOL_VALID OR SYMBOL_NEED_SET_CHOICE_VALUES))
               (upd_symbol c (set_flag SYMBOL_DEF_USER) K)))"

section \<open>The value of a symbol\<close>

text \<open>\<open>EXPR_AND\<close> is a macro that evaluates the smaller operand a second time.\<close>

definition expr_and_macro :: "calc \<Rightarrow> prop_expr option \<Rightarrow> sym \<Rightarrow> nat \<Rightarrow> kconfig \<Rightarrow> (tristate \<times> kconfig) result" where
  "expr_and_macro calc e s i K =
     bindE (calc_prop_expr calc e K) (\<lambda>(v, K).
     if v < ev_tri (p_visible (prop_at K s i)) then calc_prop_expr calc e K
     else Inr (ev_tri (p_visible (prop_at K s i)), K))"

definition warn_unmet :: "sym \<Rightarrow> kconfig \<Rightarrow> kconfig result" where
  "warn_unmet s K =
     (let y = sym_at K s in
      if ev_tri (s_dir_dep y) = no \<and> ev_tri (s_rev_dep y) \<noteq> no then
        (case ev_expr (s_rev_dep y) of
           None \<Rightarrow> Inl NullDeref
         | Some r \<Rightarrow>
             bindE (expr_simplify_unmet_dep (conf K) r (ev_expr (s_dir_dep y))) (\<lambda>e.
             Inr (K\<lparr>messages := messages K @ [UnmetDependency e (s_name y) (ev_expr (s_dir_dep y))]\<rparr>)))
      else Inr K)"

definition tristate_default :: "calc \<Rightarrow> sym \<Rightarrow> tristate \<Rightarrow> kconfig \<Rightarrow> (tristate \<times> kconfig) result" where
  "tristate_default calc s newtri K =
     (let K = (if ev_tri (s_rev_dep (sym_at K s)) \<noteq> no then upd_symbol s (set_flag SYMBOL_WRITE) K else K) in
      if \<not> sym_is_choice (sym_at K s) then
        bindE (sym_get_default_prop calc s K) (\<lambda>(prop, K).
        case prop of
          None \<Rightarrow> Inr (newtri, K)
        | Some i \<Rightarrow> expr_and_macro calc (p_expr (prop_at K s i)) s i (upd_symbol s (set_flag SYMBOL_WRITE) K))
      else Inr (newtri, K))"

definition tristate_value :: "calc \<Rightarrow> sym \<Rightarrow> tristate \<Rightarrow> kconfig \<Rightarrow> (tristate \<times> kconfig) result" where
  "tristate_value calc s newtri K =
     bindE
       (let y = sym_at K s in
        if sym_is_choice_value y \<and> s_visible y = yes then
          bindE (choice_of K s) (\<lambda>c. Inr (if sv_val (s_curr (sym_at K c)) = SymVal s then yes else no, K))
        else
          let K = (if s_visible y \<noteq> no then upd_symbol s (set_flag SYMBOL_WRITE) K else K) in
          bindE
            (if s_visible y \<noteq> no \<and> sym_has_value (sym_at K s)
             then Inr (EXPR_AND (sv_tri (s_def (sym_at K s) S_DEF_USER)) (s_visible (sym_at K s)), K)
             else tristate_default calc s newtri K) (\<lambda>(t, K).
          bindE (warn_unmet s K) (\<lambda>K. Inr (EXPR_OR t (ev_tri (s_rev_dep (sym_at K s))), K))))
       (\<lambda>(t, K). Inr (if t = tri_mod \<and> sym_get_type K s = S_BOOLEAN then yes else t, K))"

definition string_value :: "calc \<Rightarrow> sym \<Rightarrow> symval \<Rightarrow> kconfig \<Rightarrow> (symval \<times> kconfig) result" where
  "string_value calc s newval K =
     (let K = (if s_visible (sym_at K s) \<noteq> no then upd_symbol s (set_flag SYMBOL_WRITE) K else K) in
      if s_visible (sym_at K s) \<noteq> no \<and> sym_has_value (sym_at K s)
      then Inr (sv_val (s_def (sym_at K s) S_DEF_USER), K)
      else
        bindE (sym_get_default_prop calc s K) (\<lambda>(prop, K).
        case prop of
          None \<Rightarrow> Inr (newval, K)
        | Some i \<Rightarrow>
            bindE (prop_get_symbol (prop_at K s i)) (\<lambda>d.
            case d of
              None \<Rightarrow> Inr (newval, K)
            | Some ds \<Rightarrow>
                bindE (calc ds (upd_symbol s (set_flag SYMBOL_WRITE) K)) (\<lambda>K.
                Inr (sv_val (s_curr (sym_at K ds)), K)))))"

definition new_value :: "calc \<Rightarrow> sym \<Rightarrow> symbol_value \<Rightarrow> kconfig \<Rightarrow> (symbol_value \<times> kconfig) result" where
  "new_value calc s newval K =
     (if sym_get_type K s = S_BOOLEAN \<or> sym_get_type K s = S_TRISTATE then
        bindE (tristate_value calc s (sv_tri newval) K) (\<lambda>(t, K). Inr (newval\<lparr>sv_tri := t\<rparr>, K))
      else bindE (string_value calc s (sv_val newval) K) (\<lambda>(v, K). Inr (newval\<lparr>sv_val := v\<rparr>, K)))"

definition set_curr :: "sym \<Rightarrow> symbol_value \<Rightarrow> kconfig \<Rightarrow> kconfig" where
  "set_curr s v = upd_symbol s (\<lambda>y. y\<lparr>s_curr := v\<rparr>)"

text \<open>After the new value is stored: the symbol of a choice, the range, and who has to know of a change.\<close>

definition note_change :: "sym \<Rightarrow> symbol_value \<Rightarrow> kconfig \<Rightarrow> kconfig" where
  "note_change s oldval K =
     (if oldval \<noteq> s_curr (sym_at K s) \<or> moved K s then
        let K = sym_set_changed s K in
        if modules_sym (conf K) = s then
          let K = sym_set_all_changed K
          in K\<lparr>conf := (conf K)\<lparr>modules_val := sv_tri (s_curr (sym_at K s))\<rparr>\<rparr>
        else K
      else K)"

definition mark_choice_value :: "sym \<Rightarrow> sym \<Rightarrow> kconfig \<Rightarrow> kconfig" where
  "mark_choice_value s d K =
     (let K = (if has_flag SYMBOL_WRITE (sym_at K s) \<and> s_visible (sym_at K d) \<noteq> no
               then upd_symbol d (set_flag SYMBOL_WRITE) K else K)
      in if has_flag SYMBOL_CHANGED (sym_at K s) then sym_set_changed d K else K)"

definition mark_choice_values :: "sym \<Rightarrow> kconfig \<Rightarrow> kconfig result" where
  "mark_choice_values s K =
     (if sym_is_choice (sym_at K s) then
        bindE (choice_symbols K s) (\<lambda>ss. Inr (fold (mark_choice_value s) ss K))
      else Inr K)"

definition finish_value :: "calc \<Rightarrow> sym \<Rightarrow> symbol_value \<Rightarrow> symbol_value \<Rightarrow> kconfig \<Rightarrow> kconfig result" where
  "finish_value calc s oldval newval K =
     (let K = set_curr s newval K in
      bindE (if sym_is_choice (sym_at K s) \<and> sv_tri newval = yes
             then bindE (sym_calc_choice calc s K) (\<lambda>(d, K).
                  Inr (set_curr_val s (case d of None \<Rightarrow> NullVal | Some d \<Rightarrow> SymVal d) K))
             else Inr K) (\<lambda>K.
      bindE (sym_validate_range calc s K) (\<lambda>K.
      bindE (mark_choice_values s (note_change s oldval K)) (\<lambda>K.
      let K = (if has_flag SYMBOL_AUTO (sym_at K s) then upd_symbol s (clear_flag SYMBOL_WRITE) K else K)
      in if has_flag SYMBOL_NEED_SET_CHOICE_VALUES (sym_at K s) then set_all_choice_values s K else Inr K))))"

definition calc_body :: "calc \<Rightarrow> sym \<Rightarrow> kconfig \<Rightarrow> kconfig result" where
  "calc_body calc s K =
     (if has_flag SYMBOL_VALID (sym_at K s) then Inr K
      else
        bindE (if sym_is_choice_value (sym_at K s) \<and> has_flag SYMBOL_NEED_SET_CHOICE_VALUES (sym_at K s)
               then let K = upd_symbol s (clear_flag SYMBOL_NEED_SET_CHOICE_VALUES) K
                    in bindE (deref (sym_get_choice_prop (sym_at K s))) (\<lambda>p. bindE (prop_get_symbol p) (\<lambda>c.
                       case c of None \<Rightarrow> Inr K | Some c \<Rightarrow> calc c K))
               else Inr K) (\<lambda>K.
        let K = upd_symbol s (set_flag SYMBOL_VALID) K;
            oldval = s_curr (sym_at K s);
            type = s_type (sym_at K s)
        in if type = S_UNKNOWN \<or> type = S_OTHER then
             Inr (set_curr s \<lparr>sv_val = (case s_name (sym_at K s) of None \<Rightarrow> NullVal | Some nm \<Rightarrow> StrVal nm), sv_tri = no\<rparr> K)
           else
             let newval = s_curr (sym_at K (if type = S_BOOLEAN \<or> type = S_TRISTATE then symbol_no else symbol_empty));
                 K = (if \<not> sym_is_choice_value (sym_at K s) then upd_symbol s (clear_flag SYMBOL_WRITE) K else K)
             in bindE (sym_calc_visibility calc s K) (\<lambda>K.
                bindE (new_value calc s newval (set_curr s newval K)) (\<lambda>(newval, K).
                finish_value calc s oldval newval K))))"

fun sym_calc_value :: "nat \<Rightarrow> sym \<Rightarrow> kconfig \<Rightarrow> kconfig result" where
  "sym_calc_value 0 s K = Inl Diverges"
| "sym_calc_value (Suc depth) s K = calc_body (sym_calc_value depth) s K"

end
