(* ===== verification/SymStep.thy ===== *)
theory SymStep
  imports SymCalc SymTable
begin

text \<open>
  What every step of the calculation of \<open>symbol.c\<close> leaves alone. \<open>grows X K K'\<close> says that \<open>K'\<close> comes
  from \<open>K\<close> by such steps, where only the symbols in \<open>X\<close> may be in the middle of their own calculation:
  names, types, properties and dependencies stay, a symbol once calculated stays calculated and keeps
  its value, and the amount of work left, \<open>points\<close>, does not grow.
\<close>

section \<open>Flags as bits\<close>

lemma flag_bits:
  "has_flag SYMBOL_CONST y \<longleftrightarrow> bit (s_flags y) 0" "has_flag SYMBOL_CHOICE y \<longleftrightarrow> bit (s_flags y) 4"
  "has_flag SYMBOL_CHOICEVAL y \<longleftrightarrow> bit (s_flags y) 5" "has_flag SYMBOL_VALID y \<longleftrightarrow> bit (s_flags y) 7"
  "has_flag SYMBOL_WRITE y \<longleftrightarrow> bit (s_flags y) 9" "has_flag SYMBOL_CHANGED y \<longleftrightarrow> bit (s_flags y) 10"
  "has_flag SYMBOL_AUTO y \<longleftrightarrow> bit (s_flags y) 12" "has_flag SYMBOL_DEF_USER y \<longleftrightarrow> bit (s_flags y) 16"
  "has_flag SYMBOL_NEED_SET_CHOICE_VALUES y \<longleftrightarrow> bit (s_flags y) 20"
  using and_shifted_one [of "s_flags y" 0] and_shifted_one [of "s_flags y" 4] and_shifted_one [of "s_flags y" 5]
    and_shifted_one [of "s_flags y" 7] and_shifted_one [of "s_flags y" 9] and_shifted_one [of "s_flags y" 10]
    and_shifted_one [of "s_flags y" 12] and_shifted_one [of "s_flags y" 16] and_shifted_one [of "s_flags y" 20]
  by (simp_all add: has_flag_def SYMBOL_CONST_def SYMBOL_CHOICE_def SYMBOL_CHOICEVAL_def SYMBOL_VALID_def
      SYMBOL_WRITE_def SYMBOL_CHANGED_def SYMBOL_AUTO_def SYMBOL_DEF_USER_def SYMBOL_NEED_SET_CHOICE_VALUES_def)

lemma bit_set:
  "f = 2 ^ k \<Longrightarrow> k < 32 \<Longrightarrow> bit (s_flags (set_flag f y)) n \<longleftrightarrow> bit (s_flags y) n \<or> n = k"
  by (auto simp: set_flag_def bit_or_iff bit_exp_iff)

lemma bit_clear:
  "f = 2 ^ k \<Longrightarrow> bit (s_flags (clear_flag f y)) n \<longleftrightarrow> bit (s_flags y) n \<and> n \<noteq> k"
  by (auto simp: clear_flag_def bit_and_iff bit_not_iff bit_exp_iff dest: bit_imp_le_length)

lemma flag_updates:
  "bit (s_flags (set_flag SYMBOL_VALID y)) n \<longleftrightarrow> bit (s_flags y) n \<or> n = 7"
  "bit (s_flags (set_flag SYMBOL_WRITE y)) n \<longleftrightarrow> bit (s_flags y) n \<or> n = 9"
  "bit (s_flags (set_flag SYMBOL_CHANGED y)) n \<longleftrightarrow> bit (s_flags y) n \<or> n = 10"
  "bit (s_flags (set_flag SYMBOL_DEF_USER y)) n \<longleftrightarrow> bit (s_flags y) n \<or> n = 16"
  "bit (s_flags (clear_flag SYMBOL_WRITE y)) n \<longleftrightarrow> bit (s_flags y) n \<and> n \<noteq> 9"
  "bit (s_flags (clear_flag SYMBOL_VALID y)) n \<longleftrightarrow> bit (s_flags y) n \<and> n \<noteq> 7"
  "bit (s_flags (clear_flag SYMBOL_NEED_SET_CHOICE_VALUES y)) n \<longleftrightarrow> bit (s_flags y) n \<and> n \<noteq> 20"
  by (rule bit_set bit_clear; simp add: SYMBOL_VALID_def SYMBOL_WRITE_def SYMBOL_CHANGED_def SYMBOL_DEF_USER_def
      SYMBOL_NEED_SET_CHOICE_VALUES_def)+

lemma flag_update_two:
  "bit (s_flags (clear_flag (SYMBOL_VALID OR SYMBOL_NEED_SET_CHOICE_VALUES) y)) n \<longleftrightarrow> bit (s_flags y) n \<and> n \<noteq> 7 \<and> n \<noteq> 20"
proof -
  have "clear_flag (SYMBOL_VALID OR SYMBOL_NEED_SET_CHOICE_VALUES) y =
      clear_flag SYMBOL_VALID (clear_flag SYMBOL_NEED_SET_CHOICE_VALUES y)"
    by (simp add: clear_flag_def bit.de_Morgan_disj ac_simps)
  then show ?thesis by (auto simp: flag_updates)
qed

lemma flag_fields [simp]:
  "s_name (set_flag f y) = s_name y" "s_type (set_flag f y) = s_type y" "s_curr (set_flag f y) = s_curr y"
  "s_def (set_flag f y) = s_def y" "s_visible (set_flag f y) = s_visible y" "s_prop (set_flag f y) = s_prop y"
  "s_dir_dep (set_flag f y) = s_dir_dep y" "s_rev_dep (set_flag f y) = s_rev_dep y"
  "s_name (clear_flag f y) = s_name y" "s_type (clear_flag f y) = s_type y" "s_curr (clear_flag f y) = s_curr y"
  "s_def (clear_flag f y) = s_def y" "s_visible (clear_flag f y) = s_visible y" "s_prop (clear_flag f y) = s_prop y"
  "s_dir_dep (clear_flag f y) = s_dir_dep y" "s_rev_dep (clear_flag f y) = s_rev_dep y"
  by (simp_all add: set_flag_def clear_flag_def)

section \<open>What a step preserves\<close>

definition valid :: "symbol \<Rightarrow> bool" where "valid y \<longleftrightarrow> has_flag SYMBOL_VALID y"
definition need :: "symbol \<Rightarrow> bool" where "need y \<longleftrightarrow> has_flag SYMBOL_NEED_SET_CHOICE_VALUES y"
definition choicey :: "symbol \<Rightarrow> bool" where "choicey y \<longleftrightarrow> sym_is_choice y \<or> sym_is_choice_value y"
definition is_string :: "symval \<Rightarrow> bool" where "is_string v \<longleftrightarrow> (case v of StrVal _ \<Rightarrow> True | _ \<Rightarrow> False)"

lemma is_string_simps [simp]: "is_string (StrVal s)" "\<not> is_string NullVal" "\<not> is_string (SymVal x)"
  by (simp_all add: is_string_def)

lemma is_stringE: "is_string v \<Longrightarrow> (\<And>s. v = StrVal s \<Longrightarrow> P) \<Longrightarrow> P"
  by (cases v) simp_all

definition shape ::
    "symbol \<Rightarrow> string option \<times> symbol_type \<times> property list \<times> expr option \<times> expr option \<times> bool \<times> bool \<times> bool" where
  "shape y = (s_name y, s_type y, map (set_visible no) (s_prop y), ev_expr (s_dir_dep y), ev_expr (s_rev_dep y),
     sym_is_choice y, sym_is_choice_value y, has_flag SYMBOL_CONST y)"

definition frozen :: "symbol \<Rightarrow> symbol \<Rightarrow> bool" where
  "frozen y y' \<longleftrightarrow> s_curr y' = s_curr y \<and> s_visible y' = s_visible y \<and> ev_tri (s_dir_dep y') = ev_tri (s_dir_dep y) \<and>
     ev_tri (s_rev_dep y') = ev_tri (s_rev_dep y) \<and> s_def y' = s_def y \<and> sym_has_value y' = sym_has_value y"

text \<open>A calculated symbol outside choices has a string; \<open>bad\<close> ones are still waiting for theirs.\<close>

definition bad :: "symbol \<Rightarrow> bool" where
  "bad y \<longleftrightarrow> valid y \<and> \<not> choicey y \<and> \<not> is_string (sv_val (s_curr y))"

definition dyn :: "symbol \<Rightarrow> bool" where
  "dyn y \<longleftrightarrow> (need y \<longrightarrow> choicey y) \<and> (ev_expr (s_rev_dep y) = None \<longrightarrow> ev_tri (s_rev_dep y) = no) \<and>
     (\<not> choicey y \<and> s_type y \<in> {S_INT, S_HEX, S_STRING} \<and> sym_has_value y \<longrightarrow> is_string (sv_val (s_def y S_DEF_USER))) \<and>
     (\<not> choicey y \<longrightarrow> (\<forall>d. sv_val (s_def y S_DEF_USER) \<noteq> SymVal d)) \<and>
     (sym_is_choice y \<longrightarrow> \<not> is_string (sv_val (s_def y S_DEF_USER)))"

definition sym_step :: "bool \<Rightarrow> symbol \<Rightarrow> symbol \<Rightarrow> bool" where
  "sym_step own y y' \<longleftrightarrow> shape y' = shape y \<and> (dyn y \<longrightarrow> dyn y') \<and> (need y' \<longrightarrow> need y) \<and>
     (valid y \<longrightarrow> valid y' \<or> choicey y \<and> need y \<and> \<not> need y') \<and>
     (\<not> choicey y \<longrightarrow> s_def y' = s_def y \<and> sym_has_value y' = sym_has_value y) \<and>
     (own \<or> (bad y' \<longrightarrow> bad y) \<and> (valid y \<and> \<not> choicey y \<longrightarrow> frozen y y'))"

definition grows :: "sym set \<Rightarrow> kconfig \<Rightarrow> kconfig \<Rightarrow> bool" where
  "grows X K K' \<longleftrightarrow> allocated K' = allocated K \<and> symbol_hash K' = symbol_hash K \<and> moved K' = moved K \<and>
     modules_sym (conf K') = modules_sym (conf K) \<and> (\<forall>s. sym_step (s \<in> X) (sym_at K s) (sym_at K' s))"

definition points :: "symbol \<Rightarrow> nat" where
  "points y = (if valid y then 0 else 1) + (if need y then 2 else 0)"

lemma shape_choicey: "shape y' = shape y \<Longrightarrow> choicey y' = choicey y"
  by (simp add: shape_def choicey_def)

lemma frozen_trans: "frozen a b \<Longrightarrow> frozen b c \<Longrightarrow> frozen a c"
  by (simp add: frozen_def)

lemma sym_step_refl [simp]: "sym_step own y y"
  by (simp add: sym_step_def frozen_def)

lemma sym_step_trans:
  assumes "sym_step own a b" and "sym_step own b c"
  shows "sym_step own a c"
  using assms shape_choicey [of b a] frozen_trans [of a b c] unfolding sym_step_def by metis

lemma sym_step_mono: "sym_step a y y' \<Longrightarrow> (a \<longrightarrow> b) \<Longrightarrow> sym_step b y y'"
  unfolding sym_step_def by blast

lemma sym_step_points: "sym_step own y y' \<Longrightarrow> points y' \<le> points y"
  unfolding sym_step_def points_def by auto

lemma grows_refl [simp]: "grows X K K"
  by (simp add: grows_def)

lemma grows_trans: "grows X K K' \<Longrightarrow> grows X K' K'' \<Longrightarrow> grows X K K''"
  unfolding grows_def by (auto intro: sym_step_trans)

lemma grows_mono: "grows X K K' \<Longrightarrow> X \<subseteq> Y \<Longrightarrow> grows Y K K'"
  unfolding grows_def using sym_step_mono by blast

lemma growsD:
  assumes "grows X K K'"
  shows "allocated K' = allocated K" "symbol_hash K' = symbol_hash K" "modules_sym (conf K') = modules_sym (conf K)"
    "shape (sym_at K' s) = shape (sym_at K s)" "sym_step (s \<in> X) (sym_at K s) (sym_at K' s)" "moved K' = moved K"
  using assms by (auto simp: grows_def sym_step_def)

lemma grows_upd:
  "sym_step (s \<in> X) (sym_at K s) (f (sym_at K s)) \<Longrightarrow> grows X K (upd_symbol s f K)"
  by (simp add: grows_def)

section \<open>Steps\<close>

lemmas step_defs = sym_step_def dyn_def need_def valid_def bad_def choicey_def sym_is_choice_def shape_def
  sym_is_choice_value_def frozen_def sym_has_value_def flag_bits flag_updates

lemma step_marks:
  "sym_step own y (set_flag SYMBOL_CHANGED y)" "sym_step own y (set_flag SYMBOL_WRITE y)"
  "sym_step own y (clear_flag SYMBOL_WRITE y)"
  by (simp_all add: step_defs)

lemma step_choicey: "sym_step True y y' \<Longrightarrow> choicey y \<Longrightarrow> sym_step own y y'"
  using shape_choicey [of y' y] unfolding sym_step_def bad_def by auto

lemma grows_own:
  assumes "s \<in> X \<or> choicey (sym_at K s)" and "sym_step True (sym_at K s) (f (sym_at K s))"
  shows "grows X K (upd_symbol s f K)"
  using assms step_choicey by (auto intro!: grows_upd)

lemma grows_marks [simp]:
  "grows X K (upd_symbol s (set_flag SYMBOL_CHANGED) K)" "grows X K (upd_symbol s (set_flag SYMBOL_WRITE) K)"
  "grows X K (upd_symbol s (clear_flag SYMBOL_WRITE) K)"
  by (rule grows_upd step_marks)+

lemma grows_fields:
  assumes "conf K'' = conf K'" "allocated K'' = allocated K'" "symbol_hash K'' = symbol_hash K'" "moved K'' = moved K'"
  shows "grows X K K'' = grows X K K'"
  using assms by (simp add: grows_def)

lemma grows_menu_flags [simp]: "grows X K (K'\<lparr>menu_flags := m\<rparr>) = grows X K K'"
  by (rule grows_fields) simp_all

lemma grows_messages [simp]: "grows X K (K'\<lparr>messages := m\<rparr>) = grows X K K'"
  by (rule grows_fields) simp_all

lemma grows_fold: "(\<And>x K. grows X K (f x K)) \<Longrightarrow> grows X K (fold f xs K)"
  by (induction xs arbitrary: K) (auto intro: grows_trans)

lemma grows_set_changed [simp]: "grows X K (sym_set_changed s K)"
  unfolding sym_set_changed_def Let_def
  by (rule grows_trans [OF grows_marks(1)], rule grows_fold) (simp split: option.split)

lemma grows_set_all_changed [simp]: "grows X K (sym_set_all_changed K)"
  unfolding sym_set_all_changed_def by (rule grows_fold) simp

lemma set_visible_twice [simp]: "set_visible a (set_visible b p) = set_visible a p"
  by (simp add: set_visible_def)

lemma grows_upd_prop [simp]: "grows X K (upd_prop s i (set_visible t) K)"
proof -
  have "map (set_visible no) (ps[i := set_visible t (ps ! i)]) = map (set_visible no) ps" for ps
  proof (rule nth_equalityI)
    show "map (set_visible no) (ps[i := set_visible t (ps ! i)]) ! j = map (set_visible no) ps ! j"
      if "j < length (map (set_visible no) (ps[i := set_visible t (ps ! i)]))" for j
      using that by (cases "j = i") simp_all
  qed simp
  then show ?thesis unfolding upd_prop_def by (intro grows_upd) (simp add: step_defs)
qed

lemma same_fields_after [simp]:
  "s_curr (sym_at (sym_set_changed s K) u) = s_curr (sym_at K u)"
  "s_visible (sym_at (sym_set_changed s K) u) = s_visible (sym_at K u)"
  "s_rev_dep (sym_at (sym_set_changed s K) u) = s_rev_dep (sym_at K u)"
  "s_dir_dep (sym_at (sym_set_changed s K) u) = s_dir_dep (sym_at K u)"
  "s_def (sym_at (sym_set_changed s K) u) = s_def (sym_at K u)"
  "s_prop (sym_at (sym_set_changed s K) u) = s_prop (sym_at K u)"
  "s_type (sym_at (sym_set_changed s K) u) = s_type (sym_at K u)"
  "modules_val (conf (sym_set_changed s K)) = modules_val (conf K)"
proof -
  have *: "conf (fold (\<lambda>p K. case p_menu p of None \<Rightarrow> K
      | Some m \<Rightarrow> K\<lparr>menu_flags := (menu_flags K)(m := menu_flags K m OR MENU_CHANGED)\<rparr>) ps K') = conf K'" for ps K'
    by (induction ps arbitrary: K') (auto split: option.split)
  show "s_curr (sym_at (sym_set_changed s K) u) = s_curr (sym_at K u)"
    "s_visible (sym_at (sym_set_changed s K) u) = s_visible (sym_at K u)"
    "s_rev_dep (sym_at (sym_set_changed s K) u) = s_rev_dep (sym_at K u)"
    "s_dir_dep (sym_at (sym_set_changed s K) u) = s_dir_dep (sym_at K u)"
    "s_def (sym_at (sym_set_changed s K) u) = s_def (sym_at K u)"
    "s_prop (sym_at (sym_set_changed s K) u) = s_prop (sym_at K u)"
    "s_type (sym_at (sym_set_changed s K) u) = s_type (sym_at K u)"
    "modules_val (conf (sym_set_changed s K)) = modules_val (conf K)"
    by (simp_all add: sym_set_changed_def Let_def *)
qed

lemma grows_store_visible: "s \<in> X \<or> choicey (sym_at K s) \<Longrightarrow> grows X K (store_visible s t K)"
  unfolding store_visible_def
  by (auto intro!: grows_trans [OF grows_own grows_set_changed] simp: step_defs)

lemma grows_store_dir_dep: "s \<in> X \<or> choicey (sym_at K s) \<Longrightarrow> grows X K (store_dir_dep s t K)"
  unfolding store_dir_dep_def
  by (auto intro!: grows_trans [OF grows_own grows_set_changed] simp: step_defs)

lemma grows_store_rev_dep:
  "s \<in> X \<or> choicey (sym_at K s) \<Longrightarrow> (ev_expr (s_rev_dep (sym_at K s)) = None \<Longrightarrow> t = no) \<Longrightarrow>
    grows X K (store_rev_dep s t K)"
  unfolding store_rev_dep_def
  by (auto intro!: grows_trans [OF grows_own grows_set_changed] simp: step_defs)

lemma grows_set_curr: "s \<in> X \<or> choicey (sym_at K s) \<Longrightarrow> grows X K (set_curr s v K)"
  unfolding set_curr_def by (auto intro!: grows_own simp: step_defs)

lemma grows_set_curr_val: "s \<in> X \<or> choicey (sym_at K s) \<Longrightarrow> grows X K (set_curr_val s v K)"
  unfolding set_curr_val_def by (auto intro!: grows_own simp: step_defs)

lemma grows_set_curr_tri: "s \<in> X \<or> choicey (sym_at K s) \<Longrightarrow> grows X K (set_curr_tri s v K)"
  unfolding set_curr_tri_def by (auto intro!: grows_own simp: step_defs)

lemma grows_set_valid: "s \<in> X \<or> choicey (sym_at K s) \<Longrightarrow> grows X K (upd_symbol s (set_flag SYMBOL_VALID) K)"
  by (auto intro!: grows_own simp: step_defs)

lemma grows_clear_need:
  "s \<in> X \<or> choicey (sym_at K s) \<Longrightarrow> grows X K (upd_symbol s (clear_flag SYMBOL_NEED_SET_CHOICE_VALUES) K)"
  by (auto intro!: grows_own simp: step_defs)

lemma bit_mask_def_user:
  "bit (f AND (g OR NOT SYMBOL_DEF_USER)) n \<longleftrightarrow> bit f n \<and> (bit g n \<or> n \<noteq> 16)" for f g :: "32 word"
proof -
  have "bit SYMBOL_DEF_USER n \<longleftrightarrow> n = 16"
    using bit_set [of SYMBOL_DEF_USER 16 "blank_symbol" n] by (simp add: SYMBOL_DEF_USER_def set_flag_def blank_symbol_def)
  then show ?thesis by (auto simp: bit_and_iff bit_or_iff bit_not_iff dest: bit_imp_le_length)
qed

lemma grows_mask_def_user:
  "choicey (sym_at K s) \<Longrightarrow>
    grows X K (upd_symbol s (\<lambda>y. y\<lparr>s_flags := s_flags y AND (f OR NOT SYMBOL_DEF_USER)\<rparr>) K)"
  by (auto intro!: grows_own simp: step_defs bit_mask_def_user)

lemma grows_user_tri: "choicey (sym_at K s) \<Longrightarrow> grows X K (upd_symbol s (set_user_tri t) K)"
  by (auto intro!: grows_own simp: step_defs set_user_tri_def)

lemma grows_reset_choice:
  assumes "choicey (sym_at K s)" and "need (sym_at K s)"
  shows "grows X K (upd_symbol s (clear_flag (SYMBOL_VALID OR SYMBOL_NEED_SET_CHOICE_VALUES)) (upd_symbol s (set_flag SYMBOL_DEF_USER) K))"
proof -
  have twice: "upd_symbol s f (upd_symbol s g K) = upd_symbol s (\<lambda>y. f (g y)) K" for f g
    by (simp add: upd_symbol_def)
  have "sym_step True (sym_at K s)
      (clear_flag (SYMBOL_VALID OR SYMBOL_NEED_SET_CHOICE_VALUES) (set_flag SYMBOL_DEF_USER (sym_at K s)))"
    using assms by (auto simp: step_defs flag_update_two)
  then show ?thesis unfolding twice
    using grows_own [of s X K "\<lambda>y. clear_flag (SYMBOL_VALID OR SYMBOL_NEED_SET_CHOICE_VALUES) (set_flag SYMBOL_DEF_USER y)"]
      assms(1) by simp
qed

end
