(* ===== verification/SymWarn.thy ===== *)
theory SymWarn
  imports ExprCancel
begin

text \<open>
  The rewriting of \<open>expr.c\<close> looks at the types of symbols and at which of them are constants, not at
  their values. So the loop of \<open>expr_eliminate_dups\<close> ends in every table whose static symbols are the
  constants they should be, also in the middle of a calculation.
\<close>

text \<open>Every operand of \<open>||\<close> has a leftmost symbol.\<close>

fun leftmost_ok :: "expr \<Rightarrow> bool" where
  "leftmost_ok (BinE Disj a b) \<longleftrightarrow> leftmost_ok a \<and> leftmost_ok b"
| "leftmost_ok e \<longleftrightarrow> (\<exists>s. leftmost_symbol e = Inr s)"

definition alike :: "kconf \<Rightarrow> kconf \<Rightarrow> bool" where
  "alike K L \<longleftrightarrow> (\<forall>s. s_type (symbols K s) = s_type (symbols L s) \<and> is_const K s = is_const L s)"

lemma alikeD: "alike K L \<Longrightarrow> s_type (symbols K s) = s_type (symbols L s)" "alike K L \<Longrightarrow> is_const K s = is_const L s"
  by (simp_all add: alike_def)

lemma transform_alike: "alike K L \<Longrightarrow> expr_transform K e = expr_transform L e"
proof (induction K e rule: expr_transform.induct)
  case (5 K a)
  then show ?case by (auto split: expr.split)
qed (simp_all add: alikeD(1))

lemma join_alike:
  assumes "alike K L"
  shows "expr_join K c e1 e2 = expr_join L c e1 e2"
proof -
  have eq: "join_eq_neq K = join_eq_neq L" by (intro ext) (simp add: join_eq_neq_def alikeD(2) [OF assms])
  have "join_and_tristate K = join_and_tristate L" by (intro ext) (simp only: join_and_tristate_def eq)
  note tris = this
  show ?thesis
  proof (cases c)
    case Disj
    show ?thesis unfolding Disj expr_join.simps expr_join_or_def alikeD(1) [OF assms] by (rule refl)
  next
    case Conj
    show ?thesis unfolding Conj expr_join.simps expr_join_and_def alikeD(1) [OF assms] tris by (rule refl)
  qed
qed

lemma cancel_alike:
  assumes "alike K L"
  shows "cancel_at K = cancel_at L" "join_at K = join_at L"
proof -
  have "contradicts K e1 e2 = contradicts L e1 e2" "exhausts K e1 e2 = exhausts L e1 e2" for e1 e2
    unfolding contradicts_def exhausts_def transform_alike [OF assms] by (rule refl)+
  note eqs = this
  show "cancel_at K = cancel_at L" unfolding cancel_at_def fun_eq_iff eqs by simp
  show "join_at K = join_at L" unfolding join_at_def fun_eq_iff join_alike [OF assms] by simp
qed

lemma dups1_alike:
  assumes "alike K L"
  shows "expr_eliminate_dups1 k K c p q s = expr_eliminate_dups1 k L c p q s"
proof (induction k arbitrary: c p q s)
  case 0
  then show ?case by (cases s) simp
next
  case (Suc k)
  obtain e n where s: "s = (e, n)" by (cases s)
  have eq: "expr_eliminate_dups1 k K = expr_eliminate_dups1 k L" by (intro ext) (rule Suc)
  show ?case unfolding s expr_eliminate_dups1.simps cancel_alike(2) [OF assms] eq by (rule refl)
qed

lemma dups2_alike:
  assumes "alike K L"
  shows "expr_eliminate_dups2 k K c p q s = expr_eliminate_dups2 k L c p q s"
proof (induction k arbitrary: c p q s)
  case 0
  then show ?case by (cases s) simp
next
  case (Suc k)
  have eq: "expr_eliminate_dups2 k K = expr_eliminate_dups2 k L" by (intro ext) (rule Suc)
  obtain e n where s: "s = (e, n)" by (cases s)
  show ?case unfolding s expr_eliminate_dups2.simps cancel_alike(1) [OF assms] eq by (rule refl)
qed

lemma round_alike:
  assumes "alike K L"
  shows "dups_round K e = dups_round L e"
  using dups1_alike [OF assms] dups2_alike [OF assms] by (simp add: dups_round_def split: expr.split)

text \<open>A table with the same types and constants whose values are calculated.\<close>

definition consts_untyped :: "kconf \<Rightarrow> bool" where
  "consts_untyped K \<longleftrightarrow> (\<forall>s. is_const K s \<longrightarrow> s_type (symbols K s) \<noteq> S_BOOLEAN \<and> s_type (symbols K s) \<noteq> S_TRISTATE) \<and>
     (\<forall>s \<in> {symbol_yes, symbol_mod, symbol_no, symbol_empty}.
        s_type (symbols K s) = S_UNKNOWN \<and> (is_const K s \<longleftrightarrow> s \<noteq> symbol_empty))"

definition sample_table :: "kconf \<Rightarrow> kconf" where
  "sample_table K = \<lparr>symbols = (\<lambda>s. case s of
       symbol_yes \<Rightarrow> symbol_yes_init | symbol_mod \<Rightarrow> symbol_mod_init
     | symbol_no \<Rightarrow> symbol_no_init | symbol_empty \<Rightarrow> symbol_empty_init
     | config_symbol n \<Rightarrow> (symbols K s)\<lparr>s_curr := \<lparr>sv_val = StrVal (replicate (n + 2) CHR ''x''), sv_tri = no\<rparr>\<rparr>),
     modules_sym = modules_sym K, modules_val = modules_val K\<rparr>"

lemma sample_static: "static_ok (sample_table K)"
  by (simp add: static_ok_def sample_table_def)

lemma sample_config:
  "s_type (symbols (sample_table K) (config_symbol n)) = s_type (symbols K (config_symbol n))"
  "is_const (sample_table K) (config_symbol n) = is_const K (config_symbol n)"
  "tri (sample_table K) (config_symbol n) = no"
  by (simp_all add: sample_table_def is_const_def has_flag_def tri_def)

lemma sample_alike:
  assumes "consts_untyped K"
  shows "alike K (sample_table K)"
proof -
  have "s_type (symbols K s) = s_type (symbols (sample_table K) s) \<and> is_const K s = is_const (sample_table K) s" for s
    using assms sample_config [of K]
    by (cases s) (simp_all add: consts_untyped_def sample_table_def symbol_yes_init_def symbol_mod_init_def
        symbol_no_init_def symbol_empty_init_def static_symbol_def is_const_def has_flag_def SYMBOL_CONST_def SYMBOL_VALID_def)
  then show ?thesis by (simp add: alike_def)
qed

lemma sample_calculated:
  assumes c: "consts_untyped K"
  shows "calculated (sample_table K)"
proof -
  let ?S = "sample_table K"
  note al = alikeD [OF sample_alike [OF c]]
  have ty: "s_type (symbols ?S s) = S_UNKNOWN" if "\<forall>n. s \<noteq> config_symbol n" for s
    using c al(1) [of s] that by (cases s) (auto simp: consts_untyped_def)
  have t: "tri ?S s \<noteq> tri_mod" if "s_type (symbols ?S s) = S_BOOLEAN \<or> s_type (symbols ?S s) = S_TRISTATE" for s
    using ty [of s] that sample_config(3) [of K] by (cases s) auto
  have str: "sym_get_string_value ?S (config_symbol n) = replicate (n + 2) CHR ''x''" if "is_const K (config_symbol n)" for n
    using c that by (simp add: consts_untyped_def sym_get_string_value_def sample_table_def Let_def)
  have "s = t" if "is_const ?S s" "is_const ?S t" "sym_get_string_value ?S s = sym_get_string_value ?S t" for s t
  proof -
    have "is_const K s" "is_const K t" using al(2) that by simp_all
    moreover have "\<not> is_const K symbol_empty" using c by (simp add: consts_untyped_def)
    ultimately show ?thesis using that(3) str static_string [OF sample_static, of K]
      by (cases s; cases t; simp; metis length_replicate length_Cons)
  qed
  with t sample_static show ?thesis unfolding calculated_def by blast
qed

lemma eliminate_dups_alike:
  assumes a: "alike K L" and L: "calculated L"
  shows "expr_eliminate_dups K e = expr_eliminate_dups L e"
proof (induction "size_e e" arbitrary: e rule: less_induct)
  case less
  from dups_round_spec [OF L, of e] obtain e1 n where
    r: "dups_round L e = Some (e1, n)" "size_e e1 \<le> size_e e" "n \<noteq> 0 \<longrightarrow> has_yn e1 \<and> (\<exists>c a b. e1 = BinE c a b)" by blast
  have "expr_eliminate_dups K (expr_eliminate_yn e1) = expr_eliminate_dups L (expr_eliminate_yn e1)" if "n \<noteq> 0"
    by (rule less) (use that r eliminate_yn_smaller in fastforce)
  then show ?case using r(1) round_alike [OF a, of e]
    by (simp add: expr_eliminate_dups.simps [of K e] expr_eliminate_dups.simps [of L e])
qed

lemma simplify_unmet_dep_returns:
  assumes c: "consts_untyped K"
  shows "leftmost_ok r \<Longrightarrow> \<exists>t. expr_simplify_unmet_dep K r d = Inr t"
proof (induction r)
  case (BinE c a b)
  show ?case
  proof (cases c)
    case Disj
    with BinE show ?thesis by auto
  next
    case Conj
    obtain x where x: "expr_alloc_and (Some (expr_copy (BinE Conj a b))) (map_option expr_copy d) = Some x"
      by (cases d) (simp_all add: expr_alloc_and_def)
    from eliminate_dups_returns [OF sample_calculated [OF c], of x]
      eliminate_dups_alike [OF sample_alike [OF c] sample_calculated [OF c], of x]
    obtain e' where "expr_eliminate_dups K x = Some e'" by auto
    moreover obtain s where "leftmost_symbol (BinE Conj a b) = Inr s" using BinE.prems Conj by auto
    ultimately show ?thesis using x Conj by (auto simp: expr_get_leftmost_symbol_def Let_def)
  qed
qed (auto simp: expr_get_leftmost_symbol_def)

end
