(* ===== verification/SymRun.thy ===== *)
theory SymRun
  imports SymStep SymWarn
begin

text \<open>
  Well-formed symbol tables, and the contract between the calculation of one symbol and the
  recursive calls it makes. The rank \<open>r\<close> orders the symbols along their dependencies: a symbol
  outside choices depends on symbols of lower rank only, and the members of a choice may share a rank.
  \<open>sym_check_deps\<close> looks for the cycles such a rank excludes; the theory \<open>SymCheck\<close> says what it accepts.
\<close>

section \<open>Dependencies\<close>

text \<open>A comparison may ask for the value of the modules symbol \<open>m\<close>.\<close>

fun expr_deps :: "sym \<Rightarrow> expr \<Rightarrow> sym list" where
  "expr_deps m (SymE s) = [s]"
| "expr_deps m (CmpE c a b) = [a, b, m]"
| "expr_deps m (NotE a) = expr_deps m a"
| "expr_deps m (BinE c a b) = expr_deps m a @ expr_deps m b"

definition opt_deps :: "sym \<Rightarrow> expr option \<Rightarrow> sym list" where
  "opt_deps m e = (case e of None \<Rightarrow> [] | Some a \<Rightarrow> expr_deps m a)"

definition evaluated :: "property \<Rightarrow> bool" where
  "evaluated p \<longleftrightarrow> p_text p \<noteq> None \<or> p_type p = P_DEFAULT \<or> p_type p = P_RANGE"

definition operand_deps :: "sym \<Rightarrow> property \<Rightarrow> sym list" where
  "operand_deps m p =
     (if p_type p \<in> {P_DEFAULT, P_RANGE, P_CHOICE} then
        (case p_expr p of None \<Rightarrow> [] | Some (DepE e) \<Rightarrow> expr_deps m e | Some (ListE ss) \<Rightarrow> ss | Some (RangeE a b) \<Rightarrow> [a, b])
      else [])"

definition prop_deps :: "sym \<Rightarrow> property \<Rightarrow> sym list" where
  "prop_deps m p = (if evaluated p then opt_deps m (ev_expr (p_visible p)) else []) @ operand_deps m p"

definition symbol_deps :: "sym \<Rightarrow> symbol \<Rightarrow> sym list" where
  "symbol_deps m y = concat (map (prop_deps m) (s_prop y)) @ opt_deps m (ev_expr (s_dir_dep y)) @ opt_deps m (ev_expr (s_rev_dep y))"

section \<open>Well-formed tables\<close>

definition in_table :: "kconfig \<Rightarrow> sym \<Rightarrow> bool" where
  "in_table K s \<longleftrightarrow> (case s of config_symbol n \<Rightarrow> n < allocated K | _ \<Rightarrow> True)"

definition table_symbols :: "kconfig \<Rightarrow> sym list" where
  "table_symbols K = [symbol_yes, symbol_mod, symbol_no, symbol_empty] @ map config_symbol [0..<allocated K]"

lemma in_table_iff: "in_table K s \<longleftrightarrow> s \<in> set (table_symbols K)"
  by (cases s) (auto simp: in_table_def table_symbols_def)

text \<open>A symbol whose string is there once it is calculated.\<close>

definition comparable :: "symbol \<Rightarrow> bool" where
  "comparable y \<longleftrightarrow> \<not> choicey y \<or> s_type y = S_BOOLEAN \<or> s_type y = S_TRISTATE"

fun cmp_ok :: "kconfig \<Rightarrow> expr \<Rightarrow> bool" where
  "cmp_ok K (SymE s) \<longleftrightarrow> True"
| "cmp_ok K (CmpE c a b) \<longleftrightarrow> comparable (sym_at K a) \<and> comparable (sym_at K b)"
| "cmp_ok K (NotE a) \<longleftrightarrow> cmp_ok K a"
| "cmp_ok K (BinE c a b) \<longleftrightarrow> cmp_ok K a \<and> cmp_ok K b"

definition opt_cmp_ok :: "kconfig \<Rightarrow> expr option \<Rightarrow> bool" where
  "opt_cmp_ok K e \<longleftrightarrow> (case e of None \<Rightarrow> True | Some a \<Rightarrow> cmp_ok K a)"

definition prop_ok :: "kconfig \<Rightarrow> symbol \<Rightarrow> property \<Rightarrow> bool" where
  "prop_ok K y p \<longleftrightarrow> opt_cmp_ok K (ev_expr (p_visible p)) \<and>
     (p_type p = P_RANGE \<longrightarrow>
        (case p_expr p of Some (RangeE a b) \<Rightarrow> \<not> choicey (sym_at K a) \<and> \<not> choicey (sym_at K b) | _ \<Rightarrow> False)) \<and>
     (p_type p = P_DEFAULT \<longrightarrow>
        (case p_expr p of
           None \<Rightarrow> \<not> sym_is_choice y
         | Some (DepE e) \<Rightarrow> cmp_ok K e \<and> (sym_is_choice y \<longrightarrow> (\<exists>d. e = SymE d)) \<and>
             (s_type y \<in> {S_INT, S_HEX, S_STRING} \<longrightarrow> (\<forall>d. e = SymE d \<longrightarrow> \<not> choicey (sym_at K d)))
         | _ \<Rightarrow> False))"

definition symbol_ok :: "kconfig \<Rightarrow> sym \<Rightarrow> bool" where
  "symbol_ok K s \<longleftrightarrow>
     (let y = sym_at K s in
      dyn y \<and> (\<forall>p \<in> set (s_prop y). prop_ok K y p) \<and>
      opt_cmp_ok K (ev_expr (s_dir_dep y)) \<and> opt_cmp_ok K (ev_expr (s_rev_dep y)) \<and>
      (case ev_expr (s_rev_dep y) of None \<Rightarrow> True | Some e \<Rightarrow> leftmost_ok e) \<and>
      (\<not> choicey y \<longrightarrow> s_name y \<noteq> None) \<and>
      (choicey y \<longrightarrow> s_type y \<notin> {S_INT, S_HEX, S_STRING}) \<and>
      (sym_is_choice y \<longrightarrow> (\<exists>ss. choice_symbols K s = Inr ss \<and> (\<forall>d \<in> set ss. sym_is_choice_value (sym_at K d)))) \<and>
      (sym_is_choice_value y \<longrightarrow> (\<exists>c. choice_of K s = Inr c)))"

definition ranked :: "(sym \<Rightarrow> nat) \<Rightarrow> kconfig \<Rightarrow> sym \<Rightarrow> bool" where
  "ranked r K s \<longleftrightarrow> (\<forall>t \<in> set (symbol_deps (modules_sym (conf K)) (sym_at K s)).
     in_table K t \<and> (if choicey (sym_at K s) then r t \<le> r s else r t < r s))"

definition statics_calculated :: "kconfig \<Rightarrow> bool" where
  "statics_calculated K \<longleftrightarrow> (\<forall>s \<in> {symbol_yes, symbol_mod, symbol_no, symbol_empty}.
     valid (sym_at K s) \<and> \<not> choicey (sym_at K s)) \<and>
   s_curr (sym_at K symbol_no) = s_curr symbol_no_init \<and> s_curr (sym_at K symbol_empty) = s_curr symbol_empty_init"

definition wf_table :: "(sym \<Rightarrow> nat) \<Rightarrow> kconfig \<Rightarrow> bool" where
  "wf_table r K \<longleftrightarrow> statics_calculated K \<and> consts_untyped (conf K) \<and> (\<forall>s \<in> set (table_symbols K). symbol_ok K s \<and> ranked r K s)"

definition work :: "kconfig \<Rightarrow> nat" where
  "work K = sum_list (map (\<lambda>s. points (sym_at K s)) (table_symbols K))"

section \<open>What survives a step\<close>

text \<open>
  Table, declarations and the invariant of each symbol stay; the calculation only moves forward along
  \<open>grows\<close>, but a change of the user's values takes it back.
\<close>

definition keeps :: "kconfig \<Rightarrow> kconfig \<Rightarrow> bool" where
  "keeps K K' \<longleftrightarrow> allocated K' = allocated K \<and> modules_sym (conf K') = modules_sym (conf K) \<and>
     (\<forall>s. shape (sym_at K' s) = shape (sym_at K s) \<and> (dyn (sym_at K s) \<longrightarrow> dyn (sym_at K' s)))"

lemma keepsD:
  assumes "keeps K K'"
  shows "allocated K' = allocated K" "modules_sym (conf K') = modules_sym (conf K)" "shape (sym_at K' s) = shape (sym_at K s)"
    "dyn (sym_at K s) \<Longrightarrow> dyn (sym_at K' s)"
  using assms by (auto simp: keeps_def)

lemma keeps_refl [simp]: "keeps K K"
  by (simp add: keeps_def)

lemma keeps_trans: "keeps K K' \<Longrightarrow> keeps K' K'' \<Longrightarrow> keeps K K''"
  by (simp add: keeps_def)

lemma grows_keeps: "grows X K K' \<Longrightarrow> keeps K K'"
  by (simp add: grows_def keeps_def sym_step_def)

lemma in_table_keeps: "keeps K K' \<Longrightarrow> in_table K' s = in_table K s"
  by (simp add: in_table_def keepsD(1) split: sym.split)

lemma table_symbols_keeps: "keeps K K' \<Longrightarrow> table_symbols K' = table_symbols K"
  by (simp add: table_symbols_def keepsD(1))

lemmas in_table_grows = in_table_keeps [OF grows_keeps] and table_symbols_grows = table_symbols_keeps [OF grows_keeps]

lemma work_grows: "grows X K K' \<Longrightarrow> work K' \<le> work K"
  unfolding work_def table_symbols_grows [of X K K']
  by (rule sum_list_mono) (blast intro: sym_step_points growsD(5))

lemma shapeD:
  assumes "shape y' = shape y"
  shows "s_name y' = s_name y" "s_type y' = s_type y" "sym_is_choice y' = sym_is_choice y"
    "sym_is_choice_value y' = sym_is_choice_value y" "ev_expr (s_dir_dep y') = ev_expr (s_dir_dep y)"
    "ev_expr (s_rev_dep y') = ev_expr (s_rev_dep y)" "choicey y' = choicey y" "length (s_prop y') = length (s_prop y)"
    "map (set_visible no) (s_prop y') = map (set_visible no) (s_prop y)"
    "has_flag SYMBOL_CONST y' = has_flag SYMBOL_CONST y"
  using assms by (auto simp: shape_def choicey_def dest: map_eq_imp_length_eq)

lemma shape_prop:
  assumes "shape y' = shape y" and "i < length (s_prop y)"
  shows "set_visible no (s_prop y' ! i) = set_visible no (s_prop y ! i)"
proof -
  have "map (set_visible no) (s_prop y') ! i = map (set_visible no) (s_prop y) ! i" using shapeD(9) [OF assms(1)] by simp
  then show ?thesis using assms(2) shapeD(8) [OF assms(1)] by simp
qed

lemma set_visible_fields [simp]:
  "p_type (set_visible t p) = p_type p" "p_text (set_visible t p) = p_text p" "p_expr (set_visible t p) = p_expr p"
  "ev_expr (p_visible (set_visible t p)) = ev_expr (p_visible p)" "p_sym (set_visible t p) = p_sym p"
  "p_menu (set_visible t p) = p_menu p"
  by (simp_all add: set_visible_def)

lemma shape_prop_fields:
  assumes "set_visible no q = set_visible no p"
  shows "p_type q = p_type p" "p_text q = p_text p" "p_expr q = p_expr p" "ev_expr (p_visible q) = ev_expr (p_visible p)"
  using arg_cong [OF assms, of p_type] arg_cong [OF assms, of p_text] arg_cong [OF assms, of p_expr]
    arg_cong [OF assms, of "\<lambda>p. ev_expr (p_visible p)"] by simp_all

lemma prop_deps_hide: "prop_deps m (set_visible t p) = prop_deps m p"
  by (simp add: prop_deps_def evaluated_def operand_deps_def)

lemma symbol_deps_shape:
  assumes "shape y' = shape y"
  shows "symbol_deps m y' = symbol_deps m y"
proof -
  have "map (prop_deps m) (map (set_visible no) (s_prop y')) = map (prop_deps m) (map (set_visible no) (s_prop y))"
    by (simp add: shapeD(9) [OF assms])
  then have "map (prop_deps m) (s_prop y') = map (prop_deps m) (s_prop y)" by (simp add: o_def prop_deps_hide)
  then show ?thesis using shapeD [OF assms] by (simp add: symbol_deps_def)
qed

lemma choice_prop_shape:
  assumes "shape y' = shape y"
  shows "map_option (set_visible no) (sym_get_choice_prop y') = map_option (set_visible no) (sym_get_choice_prop y)"
proof -
  have "map_option (set_visible no) (find (\<lambda>p. p_type p = P_CHOICE) ps) = find (\<lambda>p. p_type p = P_CHOICE) (map (set_visible no) ps)" for ps
    by (induction ps) simp_all
  then show ?thesis by (simp add: sym_get_choice_prop_def shapeD(9) [OF assms])
qed

lemma choice_of_shape:
  assumes "shape (sym_at K' s) = shape (sym_at K s)"
  shows "choice_of K' s = choice_of K s" "choice_symbols K' s = choice_symbols K s"
  using choice_prop_shape [OF assms]
  by (cases "sym_get_choice_prop (sym_at K s)"; cases "sym_get_choice_prop (sym_at K' s)";
      auto simp: choice_of_def choice_symbols_def prop_get_symbol_def dest: shape_prop_fields(3))+

lemma comparable_keeps: "keeps K K' \<Longrightarrow> comparable (sym_at K' s) = comparable (sym_at K s)"
  using shapeD(2,7) [OF keepsD(3)] by (simp add: comparable_def)

lemma cmp_ok_keeps: "keeps K K' \<Longrightarrow> cmp_ok K' e = cmp_ok K e"
  by (induction e) (simp_all add: comparable_keeps)

lemma opt_cmp_ok_keeps: "keeps K K' \<Longrightarrow> opt_cmp_ok K' e = opt_cmp_ok K e"
  by (simp add: opt_cmp_ok_def cmp_ok_keeps split: option.split)

lemma prop_ok_keeps:
  assumes g: "keeps K K'" and "set_visible no q = set_visible no p"
  shows "prop_ok K' (sym_at K' s) q = prop_ok K (sym_at K s) p"
  using shape_prop_fields [OF assms(2)] shapeD(2,3) [OF keepsD(3) [OF g, of s]] shapeD(7) [OF keepsD(3) [OF g]]
  by (simp add: prop_ok_def opt_cmp_ok_keeps [OF g] cmp_ok_keeps [OF g] split: option.split prop_expr.split)

lemma symbol_ok_keeps:
  assumes g: "keeps K K'" and ok: "symbol_ok K s"
  shows "symbol_ok K' s"
proof -
  note sh = keepsD(3) [OF g, of s] and f = shapeD [OF keepsD(3) [OF g, of s]]
  have "dyn (sym_at K' s)" using keepsD(4) [OF g, of s] ok by (simp add: symbol_ok_def Let_def)
  moreover have "\<forall>p \<in> set (s_prop (sym_at K' s)). prop_ok K' (sym_at K' s) p"
  proof
    fix q
    assume "q \<in> set (s_prop (sym_at K' s))"
    then obtain i where i: "i < length (s_prop (sym_at K' s))" "q = s_prop (sym_at K' s) ! i" by (auto simp: in_set_conv_nth)
    with shape_prop [OF sh, of i] f(8) have "set_visible no q = set_visible no (s_prop (sym_at K s) ! i)" by simp
    moreover have "prop_ok K (sym_at K s) (s_prop (sym_at K s) ! i)"
      using ok i(1) f(8) by (simp add: symbol_ok_def Let_def)
    ultimately show "prop_ok K' (sym_at K' s) q" using prop_ok_keeps [OF g] by simp
  qed
  moreover have "sym_is_choice_value (sym_at K' d) = sym_is_choice_value (sym_at K d)" for d
    using shapeD(4) [OF keepsD(3) [OF g, of d]] .
  ultimately show ?thesis using ok
    unfolding symbol_ok_def Let_def f(1-7) opt_cmp_ok_keeps [OF g] choice_of_shape [OF sh] by auto
qed

lemma ranked_keeps: "keeps K K' \<Longrightarrow> ranked r K s \<Longrightarrow> ranked r K' s"
  using symbol_deps_shape [OF keepsD(3)] shapeD(7) [OF keepsD(3)]
  by (simp add: ranked_def in_table_keeps keepsD(2))

lemmas comparable_grows = comparable_keeps [OF grows_keeps] and cmp_ok_grows = cmp_ok_keeps [OF grows_keeps]
  and opt_cmp_ok_grows = opt_cmp_ok_keeps [OF grows_keeps] and symbol_ok_grows = symbol_ok_keeps [OF grows_keeps]
  and ranked_grows = ranked_keeps [OF grows_keeps]

lemma statics_grows:
  assumes g: "grows X K K'" and "statics_calculated K" and x: "X \<subseteq> range config_symbol"
  shows "statics_calculated K'"
proof -
  have "s \<notin> X" if "s \<in> {symbol_yes, symbol_mod, symbol_no, symbol_empty}" for s using x that by auto
  then have "valid (sym_at K' s) \<and> s_curr (sym_at K' s) = s_curr (sym_at K s)"
    if "s \<in> {symbol_yes, symbol_mod, symbol_no, symbol_empty}" for s
    using growsD(5) [OF g, of s] assms(2) that by (auto simp: sym_step_def statics_calculated_def frozen_def)
  then show ?thesis using assms(2) shapeD(2,7,10) [OF growsD(4) [OF g]] by (simp add: statics_calculated_def)
qed

lemma consts_keeps: "keeps K K' \<Longrightarrow> consts_untyped (conf K) \<Longrightarrow> consts_untyped (conf K')"
  using shapeD(2,10) [OF keepsD(3)] by (simp add: consts_untyped_def is_const_def)

lemma wf_table_keeps:
  assumes "keeps K K'" and "wf_table r K" and "statics_calculated K'"
  shows "wf_table r K'"
  unfolding wf_table_def table_symbols_keeps [OF assms(1)]
  using assms(2,3) consts_keeps [OF assms(1)] symbol_ok_keeps [OF assms(1)] ranked_keeps [OF assms(1)]
  by (simp add: wf_table_def)

lemma wf_table_grows:
  assumes "grows X K K'" and "wf_table r K" and "X \<subseteq> range config_symbol"
  shows "wf_table r K'"
  using wf_table_keeps [OF grows_keeps [OF assms(1)] assms(2)] statics_grows [OF assms(1) _ assms(3)] assms(2)
  by (simp add: wf_table_def)

section \<open>When a symbol may be calculated\<close>

text \<open>
  \<open>ready r m l K\<close>: the table is well formed, at most \<open>m\<close> points of work are left, and the symbols that
  are still waiting for their string have rank \<open>l\<close> or more, so those below \<open>l\<close> may be calculated.
\<close>

definition ready :: "(sym \<Rightarrow> nat) \<Rightarrow> nat \<Rightarrow> nat \<Rightarrow> kconfig \<Rightarrow> bool" where
  "ready r m l K \<longleftrightarrow> wf_table r K \<and> work K \<le> m \<and> (\<forall>s \<in> set (table_symbols K). bad (sym_at K s) \<longrightarrow> l \<le> r s)"

definition room :: "(sym \<Rightarrow> nat) \<Rightarrow> nat \<Rightarrow> sym set \<Rightarrow> bool" where
  "room r l X \<longleftrightarrow> X \<subseteq> range config_symbol \<and> (\<forall>x \<in> X. l \<le> r x)"

lemma room_empty [simp]: "room r l {}"
  by (simp add: room_def)

lemma ready_grows:
  assumes g: "grows X K K'" and k: "ready r m l K" and x: "room r l X"
  shows "ready r m l K'"
proof -
  have "l \<le> r s" if "s \<in> set (table_symbols K)" "bad (sym_at K' s)" for s
    using that growsD(5) [OF g, of s] k x unfolding ready_def room_def sym_step_def by blast
  moreover have "wf_table r K'" using wf_table_grows [OF g] k x by (simp add: ready_def room_def)
  ultimately show ?thesis using k work_grows [OF g] unfolding ready_def table_symbols_grows [OF g] by auto
qed

definition settled_value :: "symbol \<Rightarrow> bool" where
  "settled_value y \<longleftrightarrow> \<not> choicey y \<longrightarrow> valid y \<and> is_string (sv_val (s_curr y))"

lemma settled_value_grows:
  assumes "grows {} K K'" and "settled_value (sym_at K s)"
  shows "settled_value (sym_at K' s)"
  using assms growsD(5) [OF assms(1), of s] shapeD(7) [OF growsD(4) [OF assms(1), of s]]
  by (auto simp: settled_value_def sym_step_def frozen_def)

section \<open>Running a step\<close>

definition runs :: "sym set \<Rightarrow> kconfig \<Rightarrow> kconfig result \<Rightarrow> (kconfig \<Rightarrow> bool) \<Rightarrow> bool" where
  "runs X K m Q \<longleftrightarrow> (\<exists>K'. m = Inr K' \<and> grows X K K' \<and> Q K')"

definition gives :: "sym set \<Rightarrow> kconfig \<Rightarrow> ('a \<times> kconfig) result \<Rightarrow> ('a \<Rightarrow> kconfig \<Rightarrow> bool) \<Rightarrow> bool" where
  "gives X K m Q \<longleftrightarrow> (\<exists>a K'. m = Inr (a, K') \<and> grows X K K' \<and> Q a K')"

lemma runs_return: "grows X K K' \<Longrightarrow> Q K' \<Longrightarrow> runs X K (Inr K') Q"
  by (simp add: runs_def)

lemma gives_return: "grows X K K' \<Longrightarrow> Q a K' \<Longrightarrow> gives X K (Inr (a, K')) Q"
  by (simp add: gives_def)

lemma runs_mono: "runs X K m P \<Longrightarrow> X \<subseteq> Y \<Longrightarrow> (\<And>K'. grows X K K' \<Longrightarrow> P K' \<Longrightarrow> Q K') \<Longrightarrow> runs Y K m Q"
  unfolding runs_def using grows_mono by blast

lemma gives_mono:
  "gives X K m P \<Longrightarrow> X \<subseteq> Y \<Longrightarrow> (\<And>a K'. grows X K K' \<Longrightarrow> P a K' \<Longrightarrow> Q a K') \<Longrightarrow> gives Y K m Q"
  unfolding gives_def using grows_mono by blast

lemma bind_runs_runs:
  "runs X K m P \<Longrightarrow> (\<And>K'. grows X K K' \<Longrightarrow> P K' \<Longrightarrow> runs X K' (f K') Q) \<Longrightarrow> runs X K (bindE m f) Q"
  unfolding runs_def using grows_trans by fastforce

lemma bind_runs_gives:
  "runs X K m P \<Longrightarrow> (\<And>K'. grows X K K' \<Longrightarrow> P K' \<Longrightarrow> gives X K' (f K') Q) \<Longrightarrow> gives X K (bindE m f) Q"
  unfolding runs_def gives_def using grows_trans by fastforce

lemma bind_gives_runs:
  "gives X K m P \<Longrightarrow> (\<And>a K'. grows X K K' \<Longrightarrow> P a K' \<Longrightarrow> runs X K' (f (a, K')) Q) \<Longrightarrow> runs X K (bindE m f) Q"
  unfolding runs_def gives_def using grows_trans by fastforce

lemma bind_gives_gives:
  "gives X K m P \<Longrightarrow> (\<And>a K'. grows X K K' \<Longrightarrow> P a K' \<Longrightarrow> gives X K' (f (a, K')) Q) \<Longrightarrow> gives X K (bindE m f) Q"
  unfolding gives_def using grows_trans by fastforce

lemma runs_from: "grows X K K1 \<Longrightarrow> runs X K1 m Q \<Longrightarrow> runs X K m Q"
  unfolding runs_def using grows_trans by blast

lemma gives_from: "grows X K K1 \<Longrightarrow> gives X K1 m Q \<Longrightarrow> gives X K m Q"
  unfolding gives_def using grows_trans by blast

end
