(* ===== verification/SymEval.thy ===== *)
theory SymEval
  imports SymRun
begin

text \<open>
  Evaluating an expression calculates the symbols in it first. The value is then the one the pure
  \<open>expr_calc_value\<close> of \<open>Expr\<close> gives in the final table, and it stays that whatever is calculated later.
\<close>

section \<open>Values that no longer change\<close>

definition known :: "kconfig \<Rightarrow> sym \<Rightarrow> bool" where
  "known K s \<longleftrightarrow> \<not> choicey (sym_at K s) \<and> valid (sym_at K s)"

definition known_string :: "kconfig \<Rightarrow> sym \<Rightarrow> bool" where
  "known_string K s \<longleftrightarrow> known K s \<and>
     ((s_type (sym_at K s) = S_BOOLEAN \<or> s_type (sym_at K s) = S_TRISTATE) \<and> sv_tri (s_curr (sym_at K s)) = tri_mod \<longrightarrow>
      known K (modules_sym (conf K)))"

fun known_expr :: "kconfig \<Rightarrow> expr \<Rightarrow> bool" where
  "known_expr K (SymE s) \<longleftrightarrow> known K s"
| "known_expr K (CmpE c a b) \<longleftrightarrow> known_string K a \<and> known_string K b"
| "known_expr K (NotE a) \<longleftrightarrow> known_expr K a"
| "known_expr K (BinE c a b) \<longleftrightarrow> known_expr K a \<and> known_expr K b"

lemma known_grows_other:
  assumes "grows X K K'" and "known K s" and "s \<notin> X"
  shows "known K' s" "s_curr (sym_at K' s) = s_curr (sym_at K s)"
  using assms growsD(5) [OF assms(1), of s] shapeD(7) [OF growsD(4) [OF assms(1), of s]]
  by (auto simp: known_def sym_step_def frozen_def)

lemma known_string_other:
  assumes g: "grows X K K'" and "known_string K s" and x: "s \<notin> X" "modules_sym (conf K) \<notin> X"
  shows "known_string K' s" "sym_get_string_value (conf K') s = sym_get_string_value (conf K) s"
proof -
  have k: "known K s" using assms(2) by (simp add: known_string_def)
  note c = known_grows_other [OF g k x(1)] and t = shapeD(2) [OF growsD(4) [OF g, of s]]
    and m = growsD(3) [OF g] and d = known_grows_other [OF g _ x(2)]
  show "known_string K' s" using assms(2) c t m d by (auto simp: known_string_def)
  show "sym_get_string_value (conf K') s = sym_get_string_value (conf K) s"
    using assms(2) c t m d
    by (auto simp: known_string_def sym_get_string_value_def sym_get_tristate_value_def Let_def split: tristate.split)
qed

lemma known_expr_other:
  assumes "grows X K K'"
  shows "known_expr K e \<Longrightarrow> set (expr_deps (modules_sym (conf K)) e) \<inter> X = {} \<Longrightarrow>
    known_expr K' e \<and> expr_calc_value (conf K') e = expr_calc_value (conf K) e"
proof (induction e)
  case (CmpE c a b)
  then have "a \<notin> X" "b \<notin> X" "modules_sym (conf K) \<notin> X" by auto
  then show ?case using CmpE known_string_other [OF assms] by (cases c) simp_all
next
  case (BinE c a b)
  then have "set (expr_deps (modules_sym (conf K)) a) \<inter> X = {}" "set (expr_deps (modules_sym (conf K)) b) \<inter> X = {}"
    by auto
  with BinE show ?case by (cases c) simp_all
qed (use known_grows_other [OF assms] in auto)

lemma known_grows:
  assumes "grows {} K K'" and "known K s"
  shows "known K' s" "s_curr (sym_at K' s) = s_curr (sym_at K s)"
  using known_grows_other [OF assms] by simp_all

lemma known_string_grows:
  assumes g: "grows {} K K'" and "known_string K s"
  shows "known_string K' s" "sym_get_string_value (conf K') s = sym_get_string_value (conf K) s"
  using known_string_other [OF assms] by simp_all

lemma known_expr_grows:
  assumes "grows {} K K'" and "known_expr K e"
  shows "known_expr K' e \<and> expr_calc_value (conf K') e = expr_calc_value (conf K) e"
  using known_expr_other [OF assms] by simp

definition plain_syms :: "kconfig \<Rightarrow> sym list \<Rightarrow> bool" where
  "plain_syms K ts \<longleftrightarrow> (\<forall>t \<in> set ts. \<not> choicey (sym_at K t))"

lemma plain_syms_grows: "grows X K K' \<Longrightarrow> plain_syms K' ts = plain_syms K ts"
  using shapeD(7) [OF growsD(4)] by (simp add: plain_syms_def)

lemma choicey_grows: "grows X K K' \<Longrightarrow> choicey (sym_at K' s) = choicey (sym_at K s)"
  by (rule shapeD(7) [OF growsD(4)])

lemma settled_known: "settled_value (sym_at K s) \<Longrightarrow> \<not> choicey (sym_at K s) \<Longrightarrow> known K s"
  by (simp add: settled_value_def known_def)

section \<open>The contract of the recursive call\<close>

definition within :: "(sym \<Rightarrow> nat) \<Rightarrow> nat \<Rightarrow> kconfig \<Rightarrow> sym list \<Rightarrow> bool" where
  "within r l K ts \<longleftrightarrow> (\<forall>t \<in> set ts. in_table K t \<and> r t < l)"

lemma within_grows: "grows X K K' \<Longrightarrow> within r l K' ts = within r l K ts"
  by (simp add: within_def in_table_grows)

lemma within_append [simp]: "within r l K (xs @ ys) \<longleftrightarrow> within r l K xs \<and> within r l K ys"
  by (auto simp: within_def)

lemma within_Cons [simp]: "within r l K (x # xs) \<longleftrightarrow> in_table K x \<and> r x < l \<and> within r l K xs"
  by (auto simp: within_def)

lemma within_Nil [simp]: "within r l K []"
  by (simp add: within_def)

locale calc_contract =
  fixes calc :: calc
    and r :: "sym \<Rightarrow> nat"
    and m :: nat
  assumes calc_runs: "ready r m l K \<Longrightarrow> in_table K s \<Longrightarrow> r s < l \<Longrightarrow>
    runs {} K (calc s K) (\<lambda>K'. settled_value (sym_at K' s))"
begin

lemma get_string_value_gives:
  assumes k: "ready r m l K" and w: "within r l K [modules_sym (conf K)]"
    and s: "comparable (sym_at K s)" "settled_value (sym_at K s)"
  shows "gives {} K (get_string_value calc s K) (\<lambda>v K'. \<exists>str. v = StrVal str \<and>
    (plain_syms K [s, modules_sym (conf K)] \<longrightarrow> known_string K' s \<and> str = sym_get_string_value (conf K') s))"
proof (cases "s_type (sym_at K s) = S_BOOLEAN \<or> s_type (sym_at K s) = S_TRISTATE")
  case False
  then have "\<not> choicey (sym_at K s)" using s(1) by (simp add: comparable_def)
  then have "known K s" "is_string (sv_val (s_curr (sym_at K s)))" using s(2) by (simp_all add: settled_value_def known_def)
  with False show ?thesis
    by (auto simp: get_string_value_def gives_def known_string_def sym_get_string_value_def Let_def elim!: is_stringE)
next
  case True
  show ?thesis
  proof (cases "sv_tri (s_curr (sym_at K s)) = tri_mod")
    case False
    have "known K s" if "plain_syms K [s, modules_sym (conf K)]"
      using that s(2) by (simp add: settled_known plain_syms_def)
    then show ?thesis using True False
      by (cases "sv_tri (s_curr (sym_at K s))")
        (auto simp: get_string_value_def gives_def known_string_def sym_get_string_value_def sym_get_tristate_value_def Let_def)
  next
    case mod: True
    from w have m: "in_table K (modules_sym (conf K))" "r (modules_sym (conf K)) < l" by simp_all
    from calc_runs [OF k m] obtain K' where K': "calc (modules_sym (conf K)) K = Inr K'" "grows {} K K'"
      "settled_value (sym_at K' (modules_sym (conf K)))" by (auto simp: runs_def)
    have n: "known K' (modules_sym (conf K))" "known K' s" "s_curr (sym_at K' s) = s_curr (sym_at K s)"
      if "plain_syms K [s, modules_sym (conf K)]"
      using that s(2) K'(3) choicey_grows [OF K'(2)] known_grows [OF K'(2)] settled_known [of K s]
        settled_known [of K' "modules_sym (conf K)"] by (auto simp: plain_syms_def)
    have t: "s_type (sym_at K' s) = s_type (sym_at K s)" by (rule shapeD(2) [OF growsD(4) [OF K'(2)]])
    show ?thesis using True mod K'(1,2) n t growsD(3) [OF K'(2)]
      by (auto simp: get_string_value_def gives_def known_string_def sym_get_string_value_def sym_get_tristate_value_def Let_def)
  qed
qed

lemma same_string_gives:
  assumes k: "ready r m l K" and w: "within r l K [a, b, modules_sym (conf K)]"
    and c: "comparable (sym_at K a)" "comparable (sym_at K b)"
  shows "gives {} K (same_string calc a b K) (\<lambda>eq K'. plain_syms K [a, b, modules_sym (conf K)] \<longrightarrow>
    known_string K' a \<and> known_string K' b \<and> eq = (sym_get_string_value (conf K') a = sym_get_string_value (conf K') b))"
proof -
  from w have ab: "in_table K a" "r a < l" "in_table K b" "r b < l" by simp_all
  from calc_runs [OF k ab(1,2)] obtain K1 where 1: "calc a K = Inr K1" "grows {} K K1" "settled_value (sym_at K1 a)"
    by (auto simp: runs_def)
  note k1 = ready_grows [OF 1(2) k room_empty]
  from calc_runs [OF k1 _ ab(4)] ab(3) in_table_grows [OF 1(2)] obtain K2 where
    2: "calc b K1 = Inr K2" "grows {} K1 K2" "settled_value (sym_at K2 b)" by (auto simp: runs_def)
  note k2 = ready_grows [OF 2(2) k1 room_empty] and g2 = grows_trans [OF 1(2) 2(2)]
  have a2: "settled_value (sym_at K2 a)" by (rule settled_value_grows [OF 2(2) 1(3)])
  have w2: "within r l K2 [modules_sym (conf K2)]" using w in_table_grows [OF g2] growsD(3) [OF g2] by simp
  from get_string_value_gives [OF k2 w2 _ a2] c(1) comparable_grows [OF g2] obtain K3 u where
    3: "get_string_value calc a K2 = Inr (StrVal u, K3)" "grows {} K2 K3"
    "plain_syms K2 [a, modules_sym (conf K2)] \<longrightarrow> known_string K3 a \<and> u = sym_get_string_value (conf K3) a"
    by (auto simp: gives_def)
  note k3 = ready_grows [OF 3(2) k2 room_empty] and g3 = grows_trans [OF g2 3(2)]
  have w3: "within r l K3 [modules_sym (conf K3)]" using w in_table_grows [OF g3] growsD(3) [OF g3] by simp
  from get_string_value_gives [OF k3 w3 _ settled_value_grows [OF 3(2) 2(3)]] c(2) comparable_grows [OF g3] obtain K4 v where
    4: "get_string_value calc b K3 = Inr (StrVal v, K4)" "grows {} K3 K4"
    "plain_syms K3 [b, modules_sym (conf K3)] \<longrightarrow> known_string K4 b \<and> v = sym_get_string_value (conf K4) b"
    by (auto simp: gives_def)
  have "known_string K4 a \<and> known_string K4 b \<and> (u = v) = (sym_get_string_value (conf K4) a = sym_get_string_value (conf K4) b)"
    if p: "plain_syms K [a, b, modules_sym (conf K)]"
  proof -
    have "plain_syms K2 [a, modules_sym (conf K2)]" "plain_syms K3 [b, modules_sym (conf K3)]"
      using p choicey_grows [OF g2] choicey_grows [OF g3] growsD(3) [OF g2] growsD(3) [OF g3]
      by (simp_all add: plain_syms_def)
    with 3(3) 4(3) known_string_grows [OF 4(2), of a] show ?thesis by auto
  qed
  moreover have "same_string calc a b K = Inr (u = v, K4)"
    by (simp add: same_string_def 1(1) 2(1) 3(1) 4(1) c_string_def)
  ultimately show ?thesis using grows_trans [OF g3 4(2)] by (simp add: gives_def)
qed

lemma calc_expr_gives:
  "ready r m l K \<Longrightarrow> within r l K (expr_deps (modules_sym (conf K)) e) \<Longrightarrow> cmp_ok K e \<Longrightarrow>
    gives {} K (calc_expr calc e K) (\<lambda>v K'. plain_syms K (expr_deps (modules_sym (conf K)) e) \<longrightarrow>
      known_expr K' e \<and> v = expr_calc_value (conf K') e)"
proof (induction e arbitrary: K)
  case (SymE s)
  then have "in_table K s" "r s < l" by simp_all
  from calc_runs [OF SymE.prems(1) this] obtain K1 where
    1: "calc s K = Inr K1" "grows {} K K1" "settled_value (sym_at K1 s)" by (auto simp: runs_def)
  have "known K1 s" if "plain_syms K [s]"
    using that 1(3) choicey_grows [OF 1(2)] settled_known by (simp add: plain_syms_def)
  with 1 show ?case by (simp add: gives_def)
next
  case (NotE a)
  from NotE.IH [of K] NotE.prems show ?case by (auto simp: gives_def)
next
  case (CmpE c a b)
  from CmpE.prems(2,3) have "within r l K [a, b, modules_sym (conf K)]" "comparable (sym_at K a)" "comparable (sym_at K b)"
    by simp_all
  from same_string_gives [OF CmpE.prems(1) this] obtain eq K1 where
    1: "same_string calc a b K = Inr (eq, K1)" "grows {} K K1"
    "plain_syms K [a, b, modules_sym (conf K)] \<longrightarrow>
       known_string K1 a \<and> known_string K1 b \<and> eq = (sym_get_string_value (conf K1) a = sym_get_string_value (conf K1) b)"
    by (auto simp: gives_def)
  then show ?case by (cases c) (auto simp: gives_def)
next
  case (BinE c a b)
  from BinE.IH(1) [OF BinE.prems(1)] BinE.prems(2,3) obtain va K1 where
    1: "calc_expr calc a K = Inr (va, K1)" "grows {} K K1"
    "plain_syms K (expr_deps (modules_sym (conf K)) a) \<longrightarrow> known_expr K1 a \<and> va = expr_calc_value (conf K1) a"
    by (auto simp: gives_def)
  from BinE.IH(2) [OF ready_grows [OF 1(2) BinE.prems(1) room_empty]] BinE.prems(2,3) obtain vb K2 where
    2: "calc_expr calc b K1 = Inr (vb, K2)" "grows {} K1 K2"
    "plain_syms K (expr_deps (modules_sym (conf K)) b) \<longrightarrow> known_expr K2 b \<and> vb = expr_calc_value (conf K2) b"
    by (auto simp: gives_def within_grows [OF 1(2)] growsD(3) [OF 1(2)] cmp_ok_grows [OF 1(2)] plain_syms_grows [OF 1(2)])
  show ?case
    using 1 2 grows_trans [OF 1(2) 2(2)] known_expr_grows [OF 2(2), of a]
    by (cases c) (auto simp: gives_def plain_syms_def EXPR_OR_max EXPR_AND_min)
qed

end

end
