(* ===== verification/SymTotal.thy ===== *)
theory SymTotal
  imports SymEval
begin

text \<open>
  No operation of the calculation faults or runs forever as long as the recursive calls keep their
  contract. Each lemma also says which symbol may change in the middle of its own calculation.
\<close>

definition reach :: "(sym \<Rightarrow> nat) \<Rightarrow> nat \<Rightarrow> kconfig \<Rightarrow> sym \<Rightarrow> bool" where
  "reach r l K s \<longleftrightarrow> in_table K s \<and> within r l K (symbol_deps (modules_sym (conf K)) (sym_at K s))"

lemma reach_grows: "grows X K K' \<Longrightarrow> reach r l K' s = reach r l K s"
  using symbol_deps_shape [OF growsD(4)] by (simp add: reach_def in_table_grows within_grows growsD(3))

lemma reach_prop:
  assumes "reach r l K s" and "i < length (s_prop (sym_at K s))"
  shows "within r l K (prop_deps (modules_sym (conf K)) (prop_at K s i))"
proof -
  have "set (prop_deps (modules_sym (conf K)) (prop_at K s i)) \<subseteq> set (symbol_deps (modules_sym (conf K)) (sym_at K s))"
    using assms(2) by (auto simp: symbol_deps_def)
  then show ?thesis using assms(1) by (auto simp: reach_def within_def)
qed

lemma wf_symbol: "wf_table r K \<Longrightarrow> in_table K s \<Longrightarrow> symbol_ok K s \<and> ranked r K s"
  by (simp add: wf_table_def in_table_iff)

lemma wf_prop:
  assumes "wf_table r K" and "in_table K s" and "i < length (s_prop (sym_at K s))"
  shows "prop_ok K (sym_at K s) (prop_at K s i)"
  using wf_symbol [OF assms(1,2)] assms(3) by (simp add: symbol_ok_def Let_def)

lemma positions_grows:
  assumes "grows X K K'"
  shows "length (s_prop (sym_at K' s)) = length (s_prop (sym_at K s))"
  by (rule shapeD(8) [OF growsD(4) [OF assms]])

lemma ready_wf: "ready r m l K \<Longrightarrow> wf_table r K"
  by (simp add: ready_def)

text \<open>What a symbol in its own calculation keeps once it is visible.\<close>

definition close :: "symbol \<Rightarrow> symbol \<Rightarrow> bool" where
  "close y y' \<longleftrightarrow> s_visible y' = s_visible y \<and> ev_tri (s_dir_dep y') = ev_tri (s_dir_dep y) \<and>
     ev_tri (s_rev_dep y') = ev_tri (s_rev_dep y) \<and> s_def y' = s_def y \<and> sym_has_value y' = sym_has_value y"

lemma close_trans: "close a b \<Longrightarrow> close b c \<Longrightarrow> close a c"
  by (simp add: close_def)

lemma frozen_close: "frozen a b \<Longrightarrow> close a b \<and> s_curr b = s_curr a"
  by (simp add: close_def frozen_def)

lemma frozen_grows:
  assumes "grows {} K K'" and "known K s"
  shows "frozen (sym_at K s) (sym_at K' s)"
  using growsD(5) [OF assms(1), of s] assms(2) by (auto simp: known_def sym_step_def)

context calc_contract
begin

lemma calc_opt_gives:
  assumes "ready r m l K" and "within r l K (opt_deps (modules_sym (conf K)) e)" and "opt_cmp_ok K e"
  shows "gives {} K (calc_opt calc e K) (\<lambda>v K'. plain_syms K (opt_deps (modules_sym (conf K)) e) \<longrightarrow>
    (case e of None \<Rightarrow> v = yes | Some a \<Rightarrow> known_expr K' a \<and> v = expr_calc_value (conf K') a))"
  using assms calc_expr_gives [OF assms(1)]
  by (cases e) (auto simp: calc_opt_def opt_deps_def opt_cmp_ok_def gives_def)

lemma calc_or_gives:
  assumes "ready r m l K" and "within r l K (opt_deps (modules_sym (conf K)) e)" and "opt_cmp_ok K e"
  shows "gives {} K (calc_or calc t e K) (\<lambda>v K'. (e = None \<longrightarrow> v = t) \<and> (plain_syms K (opt_deps (modules_sym (conf K)) e) \<longrightarrow>
    (case e of None \<Rightarrow> True | Some a \<Rightarrow> known_expr K' a \<and> v = expr_calc_value (conf K') a)))"
  using assms calc_expr_gives [OF assms(1)]
  by (cases e) (auto simp: calc_or_def opt_deps_def opt_cmp_ok_def gives_def)

lemma calc_prop_visible_gives:
  assumes k: "ready r m l K" and s: "reach r l K s" and i: "i < length (s_prop (sym_at K s))"
    and ev: "evaluated (prop_at K s i)"
  shows "gives {} K (calc_prop_visible calc s i K) (\<lambda>_ _. True)"
proof -
  have "within r l K (opt_deps (modules_sym (conf K)) (ev_expr (p_visible (prop_at K s i))))"
    using reach_prop [OF s i] ev by (simp add: prop_deps_def)
  moreover have "opt_cmp_ok K (ev_expr (p_visible (prop_at K s i)))"
    using wf_prop [OF ready_wf [OF k] _ i] s by (simp add: prop_ok_def reach_def)
  ultimately obtain t K1 where 1: "calc_opt calc (ev_expr (p_visible (prop_at K s i))) K = Inr (t, K1)" "grows {} K K1"
    using calc_opt_gives [OF k] by (fastforce simp: gives_def)
  then show ?thesis using grows_trans [OF 1(2) grows_upd_prop] by (simp add: calc_prop_visible_def gives_def)
qed

lemma visible_prop_gives:
  assumes "type = P_DEFAULT \<or> type = P_RANGE"
  shows "ready r m l K \<Longrightarrow> reach r l K s \<Longrightarrow> \<forall>i \<in> set js. i < length (s_prop (sym_at K s)) \<Longrightarrow>
    gives {} K (visible_prop calc s type js K) (\<lambda>p K'. \<forall>i. p = Some i \<longrightarrow>
      i \<in> set js \<and> p_type (prop_at K' s i) = type)"
proof (induction js arbitrary: K)
  case Nil
  then show ?case by (simp add: gives_def)
next
  case (Cons i js)
  show ?case
  proof (cases "p_type (prop_at K s i) = type")
    case False
    with Cons.IH [OF Cons.prems(1,2)] Cons.prems(3) show ?thesis by (auto simp: gives_def)
  next
    case True
    then have "evaluated (prop_at K s i)" using assms by (auto simp: evaluated_def)
    with calc_prop_visible_gives [OF Cons.prems(1,2)] Cons.prems(3) obtain t K1 where
      1: "calc_prop_visible calc s i K = Inr (t, K1)" "grows {} K K1" by (fastforce simp: gives_def)
    have ty: "p_type (prop_at K1 s i) = type"
      using shape_prop_fields(1) [OF shape_prop [OF growsD(4) [OF 1(2)], of i s]] Cons.prems(3) True by simp
    show ?thesis
    proof (cases "t = no")
      case False
      with True 1 ty show ?thesis by (simp add: gives_def)
    next
      case t: True
      have "\<forall>i \<in> set js. i < length (s_prop (sym_at K1 s))" using Cons.prems(3) positions_grows [OF 1(2)] by simp
      from Cons.IH [OF ready_grows [OF 1(2) Cons.prems(1) room_empty] _ this] Cons.prems(2) reach_grows [OF 1(2)]
      have "gives {} K1 (visible_prop calc s type js K1) (\<lambda>p K'. \<forall>i. p = Some i \<longrightarrow> i \<in> set js \<and> p_type (prop_at K' s i) = type)"
        by simp
      then show ?thesis using True 1 t grows_trans [OF 1(2)] by (fastforce simp: gives_def)
    qed
  qed
qed

lemma positions_in_range: "\<forall>i \<in> set (prop_positions K s). i < length (s_prop (sym_at K s))"
  by (simp add: prop_positions_def)

lemma default_prop_gives:
  assumes "ready r m l K" and "reach r l K s"
  shows "gives {} K (sym_get_default_prop calc s K) (\<lambda>p K'. \<forall>i. p = Some i \<longrightarrow>
    i < length (s_prop (sym_at K' s)) \<and> p_type (prop_at K' s i) = P_DEFAULT)"
  unfolding sym_get_default_prop_def
  by (rule gives_mono [OF visible_prop_gives [OF _ assms positions_in_range]])
    (use positions_grows in \<open>auto simp: prop_positions_def\<close>)

lemma range_prop_gives:
  assumes "ready r m l K" and "reach r l K s"
  shows "gives {} K (sym_get_range_prop calc s K) (\<lambda>p K'. \<forall>i. p = Some i \<longrightarrow>
    i < length (s_prop (sym_at K' s)) \<and> p_type (prop_at K' s i) = P_RANGE)"
  unfolding sym_get_range_prop_def
  by (rule gives_mono [OF visible_prop_gives [OF _ assms positions_in_range]])
    (use positions_grows in \<open>auto simp: prop_positions_def\<close>)

lemma range_operands:
  assumes k: "ready r m l K" and s: "reach r l K s" and i: "i < length (s_prop (sym_at K s))" "p_type (prop_at K s i) = P_RANGE"
  obtains a b where "range_ends (prop_at K s i) = Inr (a, b)" "in_table K a" "r a < l" "\<not> choicey (sym_at K a)"
    "in_table K b" "r b < l" "\<not> choicey (sym_at K b)"
proof -
  from s have "in_table K s" by (simp add: reach_def)
  from wf_prop [OF ready_wf [OF k] this i(1)] i(2) obtain a b where
    ab: "p_expr (prop_at K s i) = Some (RangeE a b)" "\<not> choicey (sym_at K a)" "\<not> choicey (sym_at K b)"
    by (auto simp: prop_ok_def split: option.splits prop_expr.splits)
  have "within r l K [a, b]" using reach_prop [OF s i(1)] i(2) ab(1) by (simp add: prop_deps_def operand_deps_def)
  with ab show ?thesis using that by (simp add: range_ends_def)
qed

lemma range_val_gives:
  assumes "ready r m l K" and "in_table K s" and "r s < l" and "\<not> choicey (sym_at K s)"
  shows "gives {} K (sym_get_range_val calc s base K) (\<lambda>_ _. True)"
proof -
  from calc_runs [OF assms(1-3)] obtain K1 where 1: "calc s K = Inr K1" "grows {} K K1" "settled_value (sym_at K1 s)"
    by (auto simp: runs_def)
  then have "is_string (sv_val (s_curr (sym_at K1 s)))"
    using assms(4) choicey_grows [OF 1(2)] by (simp add: settled_value_def)
  then show ?thesis using 1 by (auto simp: sym_get_range_val_def gives_def c_string_def elim!: is_stringE)
qed

lemma validate_range_runs:
  assumes k: "ready r m l K" and s: "reach r l K s" and x: "room r l X" "s \<in> X"
    and v: "s_type (sym_at K s) \<in> {S_INT, S_HEX} \<longrightarrow> is_string (sv_val (s_curr (sym_at K s)))"
    and val: "\<not> choicey (sym_at K s)" "valid (sym_at K s)"
  shows "runs X K (sym_validate_range calc s K) (\<lambda>K'. (is_string (sv_val (s_curr (sym_at K s))) \<longrightarrow> is_string (sv_val (s_curr (sym_at K' s)))) \<and>
    close (sym_at K s) (sym_at K' s) \<and> sv_tri (s_curr (sym_at K' s)) = sv_tri (s_curr (sym_at K s)))"
proof (cases "s_type (sym_at K s) \<in> {S_INT, S_HEX}")
  case False
  then show ?thesis by (auto simp: sym_validate_range_def runs_def close_def)
next
  case ty: True
  have keep: "s_curr (sym_at K' s) = s_curr (sym_at K s)" "close (sym_at K s) (sym_at K' s)" if "grows {} K K'" for K'
    using frozen_close [OF frozen_grows [OF that, of s]] val by (simp_all add: known_def)
  define base where "base = number_base (s_type (sym_at K s)) 10"
  from range_prop_gives [OF k s] obtain p K1 where
    1: "sym_get_range_prop calc s K = Inr (p, K1)" "grows {} K K1"
    "\<forall>i. p = Some i \<longrightarrow> i < length (s_prop (sym_at K1 s)) \<and> p_type (prop_at K1 s i) = P_RANGE" by (auto simp: gives_def)
  show ?thesis
  proof (cases p)
    case None
    then show ?thesis using ty 1 grows_mono [OF 1(2)] keep [OF 1(2)] by (auto simp: sym_validate_range_def runs_def)
  next
    case (Some i)
    with 1(3) have i: "i < length (s_prop (sym_at K1 s))" "p_type (prop_at K1 s i) = P_RANGE" by simp_all
    note k1 = ready_grows [OF 1(2) k room_empty]
    have s1: "reach r l K1 s" using s reach_grows [OF 1(2)] by simp
    obtain a b where ab: "range_ends (prop_at K1 s i) = Inr (a, b)" "in_table K1 a" "r a < l"
      "\<not> choicey (sym_at K1 a)" "in_table K1 b" "r b < l" "\<not> choicey (sym_at K1 b)" by (rule range_operands [OF k1 s1 i])
    from range_val_gives [OF k1 ab(2-4), of base] obtain low K2 where
      2: "sym_get_range_val calc a base K1 = Inr (low, K2)" "grows {} K1 K2" by (auto simp: gives_def)
    note k2 = ready_grows [OF 2(2) k1 room_empty] and g2 = grows_trans [OF 1(2) 2(2)]
    have b2: "in_table K2 b" "\<not> choicey (sym_at K2 b)" using ab(5,7) in_table_grows [OF 2(2)] choicey_grows [OF 2(2)] by simp_all
    from range_val_gives [OF k2 b2(1) ab(6) b2(2), of base] obtain high K3 where
      3: "sym_get_range_val calc b base K2 = Inr (high, K3)" "grows {} K2 K3" by (auto simp: gives_def)
    note g3 = grows_trans [OF g2 3(2)]
    obtain str where str: "sv_val (s_curr (sym_at K s)) = StrVal str" using v ty by (auto elim!: is_stringE)
    have st: "grows X K' (store_number s n K')" "is_string (sv_val (s_curr (sym_at (store_number s n K') s)))"
      "close (sym_at K' s) (sym_at (store_number s n K') s)"
      "sv_tri (s_curr (sym_at (store_number s n K') s)) = sv_tri (s_curr (sym_at K' s))" for n K'
      using x(2) by (simp_all add: store_number_def grows_set_curr_val)
        (simp_all add: set_curr_val_def close_def sym_has_value_def has_flag_def)
    have e: "sym_validate_range calc s K =
        (if strtoll base str \<ge> low then if strtoll base str \<le> high then Inr K3 else Inr (store_number s high K3)
         else Inr (store_number s low K2))"
      using ty 1(1) Some 2(1) 3(1) ab(1) keep [OF 1(2)] str
      by (auto simp: sym_validate_range_def base_def c_string_def Let_def)
    have "grows X K K2" "grows X K K3" using grows_mono g2 g3 by blast+
    then show ?thesis unfolding e using st grows_trans keep [OF g3] keep [OF g2] close_trans by (fastforce simp: runs_def)
  qed
qed

end

end
