(* ===== verification/SymVisible.thy ===== *)
theory SymVisible
  imports SymTotal
begin

text \<open>
  The visibility of a symbol: no fault, and the values stored are those of the expressions in the final
  table.
\<close>

definition known_opt :: "kconfig \<Rightarrow> expr option \<Rightarrow> bool" where
  "known_opt K e \<longleftrightarrow> (case e of None \<Rightarrow> True | Some a \<Rightarrow> known_expr K a)"

lemma known_opt_grows:
  assumes "grows {} K K'" and "known_opt K e"
  shows "known_opt K' e" "expr_value_of (conf K') e = expr_value_of (conf K) e"
  using assms known_expr_grows [OF assms(1)] by (cases e; simp add: known_opt_def expr_value_of_def)+

text \<open>The visibility expressions of the prompts at some positions.\<close>

definition prompt_exprs :: "kconfig \<Rightarrow> sym \<Rightarrow> nat list \<Rightarrow> expr option list" where
  "prompt_exprs K s js = map (\<lambda>i. ev_expr (p_visible (prop_at K s i))) (filter (\<lambda>i. p_text (prop_at K s i) \<noteq> None) js)"

lemma prompt_exprs_grows:
  assumes "grows X K K'" and "\<forall>i \<in> set js. i < length (s_prop (sym_at K s))"
  shows "prompt_exprs K' s js = prompt_exprs K s js"
proof -
  have "p_text (prop_at K' s i) = p_text (prop_at K s i) \<and> ev_expr (p_visible (prop_at K' s i)) = ev_expr (p_visible (prop_at K s i))"
    if "i \<in> set js" for i
    using shape_prop_fields [OF shape_prop [OF growsD(4) [OF assms(1)]]] assms(2) that by blast
  then show ?thesis by (simp add: prompt_exprs_def cong: filter_cong map_cong)
qed

definition max_value :: "kconf \<Rightarrow> tristate \<Rightarrow> expr option list \<Rightarrow> tristate" where
  "max_value K t es = foldl (\<lambda>t e. EXPR_OR t (expr_value_of K e)) t es"

lemma max_value_simps [simp]:
  "max_value K t [] = t" "max_value K t (e # es) = max_value K (EXPR_OR t (expr_value_of K e)) es"
  by (simp_all add: max_value_def)

lemma max_value_grows:
  assumes "grows {} K K'" and "\<forall>e \<in> set es. known_opt K e"
  shows "max_value (conf K') t es = max_value (conf K) t es"
  using assms(2) by (induction es arbitrary: t) (simp_all add: known_opt_grows(2) [OF assms(1)])

definition all_plain :: "kconfig \<Rightarrow> sym \<Rightarrow> bool" where
  "all_plain K s \<longleftrightarrow> plain_syms K (symbol_deps (modules_sym (conf K)) (sym_at K s))"

lemma all_plain_grows: "grows X K K' \<Longrightarrow> all_plain K' s = all_plain K s"
  using symbol_deps_shape [OF growsD(4)] by (simp add: all_plain_def plain_syms_grows growsD(3))

lemma all_plain_prop:
  assumes "all_plain K s" and "i < length (s_prop (sym_at K s))" and "evaluated (prop_at K s i)"
  shows "plain_syms K (opt_deps (modules_sym (conf K)) (ev_expr (p_visible (prop_at K s i))))"
proof -
  have "set (opt_deps (modules_sym (conf K)) (ev_expr (p_visible (prop_at K s i))))
      \<subseteq> set (symbol_deps (modules_sym (conf K)) (sym_at K s))"
    using assms(2,3) nth_mem [OF assms(2)] by (fastforce simp: symbol_deps_def prop_deps_def)
  then show ?thesis using assms(1) by (auto simp: all_plain_def plain_syms_def)
qed

section \<open>Steps that change no value\<close>

text \<open>Outside \<open>S\<close>, types, choices, calculated symbols and their values are the same.\<close>

definition same_values :: "sym set \<Rightarrow> kconfig \<Rightarrow> kconfig \<Rightarrow> bool" where
  "same_values S K K' \<longleftrightarrow> modules_sym (conf K') = modules_sym (conf K) \<and>
     (\<forall>s. s \<notin> S \<longrightarrow> s_curr (sym_at K' s) = s_curr (sym_at K s) \<and> s_type (sym_at K' s) = s_type (sym_at K s) \<and>
       valid (sym_at K' s) = valid (sym_at K s) \<and> choicey (sym_at K' s) = choicey (sym_at K s))"

lemma same_values_known:
  assumes "same_values S K K'" and "s \<notin> S"
  shows "known K' s = known K s" "s_curr (sym_at K' s) = s_curr (sym_at K s)" "s_type (sym_at K' s) = s_type (sym_at K s)"
  using assms by (simp_all add: same_values_def known_def)

lemma same_values_string:
  assumes v: "same_values S K K'" and s: "s \<notin> S" and m: "modules_sym (conf K) \<notin> S"
  shows "known_string K' s = known_string K s" "sym_get_string_value (conf K') s = sym_get_string_value (conf K) s"
proof -
  have "modules_sym (conf K') = modules_sym (conf K)" using v by (simp add: same_values_def)
  then show "known_string K' s = known_string K s" "sym_get_string_value (conf K') s = sym_get_string_value (conf K) s"
    by (simp_all add: known_string_def sym_get_string_value_def sym_get_tristate_value_def Let_def
        same_values_known [OF v s] same_values_known [OF v m])
qed

lemma same_values_expr:
  assumes "same_values S K K'"
  shows "set (expr_deps (modules_sym (conf K)) e) \<inter> S = {} \<Longrightarrow>
    known_expr K' e = known_expr K e \<and> expr_calc_value (conf K') e = expr_calc_value (conf K) e"
proof (induction e)
  case (CmpE c a b)
  then have "a \<notin> S" "b \<notin> S" "modules_sym (conf K) \<notin> S" by auto
  then show ?case using same_values_string [OF assms] by (cases c) simp_all
next
  case (BinE c a b)
  then have "set (expr_deps (modules_sym (conf K)) a) \<inter> S = {}" "set (expr_deps (modules_sym (conf K)) b) \<inter> S = {}"
    by auto
  with BinE.IH show ?case by (cases c) simp_all
qed (use assms in \<open>auto simp: same_values_def known_def\<close>)

lemma same_values_opt:
  assumes "same_values S K K'" and "set (opt_deps (modules_sym (conf K)) e) \<inter> S = {}"
  shows "known_opt K' e = known_opt K e" "expr_value_of (conf K') e = expr_value_of (conf K) e"
  using same_values_expr [OF assms(1)] assms(2)
  by (auto simp: known_opt_def expr_value_of_def opt_deps_def split: option.splits)

lemma same_values_max:
  assumes "same_values S K K'" and "\<forall>e \<in> set es. set (opt_deps (modules_sym (conf K)) e) \<inter> S = {}"
  shows "max_value (conf K') t es = max_value (conf K) t es"
  using assms(2) by (induction es arbitrary: t) (simp_all add: same_values_opt(2) [OF assms(1)])

lemma same_values_refl [simp]: "same_values S K K"
  by (simp add: same_values_def)

lemma same_values_trans: "same_values S K K' \<Longrightarrow> same_values S K' K'' \<Longrightarrow> same_values S K K''"
  by (auto simp: same_values_def)

lemma valid_marks [simp]:
  "valid (set_flag SYMBOL_CHANGED y) = valid y" "choicey (set_flag SYMBOL_CHANGED y) = choicey y"
  "valid (set_flag SYMBOL_WRITE y) = valid y" "choicey (set_flag SYMBOL_WRITE y) = choicey y"
  "valid (clear_flag SYMBOL_WRITE y) = valid y" "choicey (clear_flag SYMBOL_WRITE y) = choicey y"
  by (simp_all add: step_defs)

lemma flags_only_after [simp]:
  "valid (sym_at (sym_set_changed s K) u) = valid (sym_at K u)"
  "choicey (sym_at (sym_set_changed s K) u) = choicey (sym_at K u)"
  "modules_sym (conf (sym_set_changed s K)) = modules_sym (conf K)"
proof -
  have *: "conf (fold (\<lambda>p K. case p_menu p of None \<Rightarrow> K
      | Some m \<Rightarrow> K\<lparr>menu_flags := (menu_flags K)(m := menu_flags K m OR MENU_CHANGED)\<rparr>) ps K') = conf K'" for ps K'
    by (induction ps arbitrary: K') (auto split: option.split)
  show "valid (sym_at (sym_set_changed s K) u) = valid (sym_at K u)"
    "choicey (sym_at (sym_set_changed s K) u) = choicey (sym_at K u)"
    "modules_sym (conf (sym_set_changed s K)) = modules_sym (conf K)"
    by (simp_all add: sym_set_changed_def Let_def *)
qed

lemma same_values_set_changed [simp]: "same_values S K (sym_set_changed s K)"
  by (simp add: same_values_def)

lemma valid_fields [simp]:
  "valid (y\<lparr>s_visible := a\<rparr>) = valid y" "valid (y\<lparr>s_dir_dep := b\<rparr>) = valid y" "valid (y\<lparr>s_rev_dep := b\<rparr>) = valid y"
  "valid (y\<lparr>s_curr := c\<rparr>) = valid y" "valid (y\<lparr>s_prop := ps\<rparr>) = valid y" "valid (y\<lparr>s_def := d\<rparr>) = valid y"
  "choicey (y\<lparr>s_visible := a\<rparr>) = choicey y" "choicey (y\<lparr>s_dir_dep := b\<rparr>) = choicey y"
  "choicey (y\<lparr>s_rev_dep := b\<rparr>) = choicey y" "choicey (y\<lparr>s_curr := c\<rparr>) = choicey y"
  "choicey (y\<lparr>s_prop := ps\<rparr>) = choicey y" "choicey (y\<lparr>s_def := d\<rparr>) = choicey y"
  by (simp_all add: step_defs has_flag_def)

lemma same_values_store [simp]:
  "same_values S K (store_visible s t K)" "same_values S K (store_dir_dep s t K)" "same_values S K (store_rev_dep s t K)"
  by (auto simp: same_values_def store_visible_def store_dir_dep_def store_rev_dep_def)

lemma store_fields [simp]:
  "s_visible (sym_at (store_visible s t K) s) = t" "s_visible (sym_at (store_dir_dep s t K) u) = s_visible (sym_at K u)"
  "s_visible (sym_at (store_rev_dep s t K) u) = s_visible (sym_at K u)"
  "ev_tri (s_dir_dep (sym_at (store_dir_dep s t K) s)) = t" "ev_tri (s_rev_dep (sym_at (store_rev_dep s t K) s)) = t"
  "ev_tri (s_dir_dep (sym_at (store_rev_dep s t K) u)) = ev_tri (s_dir_dep (sym_at K u))"
  "s_curr (sym_at (store_visible s t K) u) = s_curr (sym_at K u)"
  "s_curr (sym_at (store_dir_dep s t K) u) = s_curr (sym_at K u)"
  "s_curr (sym_at (store_rev_dep s t K) u) = s_curr (sym_at K u)"
  by (auto simp: store_visible_def store_dir_dep_def store_rev_dep_def)

section \<open>What the visibility should be\<close>

text \<open>\<open>m\<close> may become \<open>y\<close>: for every type but tristate, and for all when modules are off.\<close>

definition raised :: "symbol_type \<Rightarrow> tristate \<Rightarrow> tristate \<Rightarrow> bool" where
  "raised ty t v \<longleftrightarrow> v = t \<and> (ty \<noteq> S_TRISTATE \<longrightarrow> t \<noteq> tri_mod) \<or> t = tri_mod \<and> v = yes"

definition visibility_spec :: "kconfig \<Rightarrow> sym \<Rightarrow> bool" where
  "visibility_spec K s \<longleftrightarrow>
     (let y = sym_at K s; prompts = prompt_exprs K s (prop_positions K s) in
      (\<forall>e \<in> set prompts. known_opt K e) \<and> known_opt K (ev_expr (s_dir_dep y)) \<and> known_opt K (ev_expr (s_rev_dep y)) \<and>
      raised (s_type y) (max_value (conf K) no prompts) (s_visible y) \<and>
      ev_tri (s_dir_dep y) = (if expr_value_of (conf K) (ev_expr (s_dir_dep y)) = no then no else yes) \<and>
      raised (if s_type y = S_BOOLEAN then S_BOOLEAN else S_TRISTATE)
        (case ev_expr (s_rev_dep y) of None \<Rightarrow> no | Some e \<Rightarrow> expr_calc_value (conf K) e) (ev_tri (s_rev_dep y)))"

context calc_contract
begin

lemma calc_prop_visible_value:
  assumes k: "ready r m l K" and s: "reach r l K s" and i: "i < length (s_prop (sym_at K s))"
    and ev: "evaluated (prop_at K s i)"
  shows "gives {} K (calc_prop_visible calc s i K) (\<lambda>t K'. all_plain K s \<longrightarrow>
    known_opt K' (ev_expr (p_visible (prop_at K s i))) \<and> t = expr_value_of (conf K') (ev_expr (p_visible (prop_at K s i))))"
proof -
  let ?e = "ev_expr (p_visible (prop_at K s i))"
  have "within r l K (opt_deps (modules_sym (conf K)) ?e)" using reach_prop [OF s i] ev by (simp add: prop_deps_def)
  moreover have "opt_cmp_ok K ?e" using wf_prop [OF ready_wf [OF k] _ i] s by (simp add: prop_ok_def reach_def)
  ultimately obtain t K1 where 1: "calc_opt calc ?e K = Inr (t, K1)" "grows {} K K1"
    "plain_syms K (opt_deps (modules_sym (conf K)) ?e) \<longrightarrow>
       (case ?e of None \<Rightarrow> t = yes | Some a \<Rightarrow> known_expr K1 a \<and> t = expr_calc_value (conf K1) a)"
    using calc_opt_gives [OF k] by (fastforce simp: gives_def)
  note g = grows_upd_prop [of "{}" K1 s i t]
  have "known_opt K1 ?e \<and> t = expr_value_of (conf K1) ?e" if "all_plain K s"
    using 1(3) all_plain_prop [OF that i ev] by (auto simp: known_opt_def expr_value_of_def split: option.splits)
  then show ?thesis using 1(1,2) g grows_trans [OF 1(2) g] known_opt_grows [OF g, of ?e]
    by (auto simp: calc_prop_visible_def gives_def)
qed

lemma prompts_visible_gives:
  "ready r m l K \<Longrightarrow> reach r l K s \<Longrightarrow> \<forall>i \<in> set js. i < length (s_prop (sym_at K s)) \<Longrightarrow>
    gives {} K (prompts_visible calc s js t K) (\<lambda>v K'. all_plain K s \<longrightarrow>
      (\<forall>e \<in> set (prompt_exprs K s js). known_opt K' e) \<and> v = max_value (conf K') t (prompt_exprs K s js))"
proof (induction js arbitrary: t K)
  case Nil
  then show ?case by (simp add: gives_def prompt_exprs_def)
next
  case (Cons i js)
  show ?case
  proof (cases "p_text (prop_at K s i) = None")
    case True
    then show ?thesis using Cons.IH [OF Cons.prems(1,2), of t] Cons.prems(3) by (simp add: prompt_exprs_def)
  next
    case False
    let ?e = "ev_expr (p_visible (prop_at K s i))"
    from False have "evaluated (prop_at K s i)" by (simp add: evaluated_def)
    with Cons.prems(3) have "gives {} K (calc_prop_visible calc s i K) (\<lambda>t K'. all_plain K s \<longrightarrow>
        known_opt K' ?e \<and> t = expr_value_of (conf K') ?e)" by (intro calc_prop_visible_value [OF Cons.prems(1,2)]) simp_all
    then obtain u K1 where 1: "calc_prop_visible calc s i K = Inr (u, K1)" "grows {} K K1"
        "all_plain K s \<longrightarrow> known_opt K1 ?e \<and> u = expr_value_of (conf K1) ?e" unfolding gives_def by blast
    have js: "\<forall>i \<in> set js. i < length (s_prop (sym_at K1 s))" using Cons.prems(3) positions_grows [OF 1(2)] by simp
    from Cons.IH [OF ready_grows [OF 1(2) Cons.prems(1) room_empty] _ js, of "EXPR_OR t u"] Cons.prems(2) reach_grows [OF 1(2)]
    obtain v K2 where 2: "prompts_visible calc s js (EXPR_OR t u) K1 = Inr (v, K2)" "grows {} K1 K2"
      "all_plain K1 s \<longrightarrow> (\<forall>e \<in> set (prompt_exprs K1 s js). known_opt K2 e) \<and>
         v = max_value (conf K2) (EXPR_OR t u) (prompt_exprs K1 s js)" by (auto simp: gives_def)
    have "prompt_exprs K1 s js = prompt_exprs K s js" by (rule prompt_exprs_grows [OF 1(2)]) (use Cons.prems(3) in simp)
    note P = this
    have Pi: "prompt_exprs K s (i # js) = ?e # prompt_exprs K s js" using False by (simp add: prompt_exprs_def)
    have "prompts_visible calc s (i # js) t K = Inr (v, K2)" using False 1(1) 2(1) by simp
    moreover have "(\<forall>e \<in> set (prompt_exprs K s (i # js)). known_opt K2 e) \<and> v = max_value (conf K2) t (prompt_exprs K s (i # js))"
      if pl: "all_plain K s"
    proof -
      from pl 1(3) have e: "known_opt K1 ?e" "u = expr_value_of (conf K1) ?e" by blast+
      from pl 2(3) all_plain_grows [OF 1(2)] P have "\<forall>e \<in> set (prompt_exprs K s js). known_opt K2 e"
        "v = max_value (conf K2) (EXPR_OR t u) (prompt_exprs K s js)" by simp_all
      then show ?thesis unfolding Pi using known_opt_grows [OF 2(2) e(1)] e(2) by simp
    qed
    ultimately show ?thesis unfolding gives_def using grows_trans [OF 1(2) 2(2)] by blast
  qed
qed

lemma visibility_runs:
  assumes k: "ready r m l K" and s: "reach r l K s" and x: "room r l X" "s \<in> X \<or> choicey (sym_at K s)"
  shows "runs X K (sym_calc_visibility calc s K) (\<lambda>K'. known K s \<longrightarrow>
    s_curr (sym_at K' s) = s_curr (sym_at K s) \<and> (all_plain K s \<longrightarrow> visibility_spec K' s))"
proof -
  let ?P = "prompt_exprs K s (prop_positions K s)"
  let ?D = "ev_expr (s_dir_dep (sym_at K s))" and ?R = "ev_expr (s_rev_dep (sym_at K s))"
  let ?m = "modules_sym (conf K)"
  have ok: "s \<in> X \<or> choicey (sym_at K' s)" if "grows X K K'" for K' using x(2) choicey_grows [OF that] by blast
  have up: "grows X A B" if "grows {} A B" for A B using grows_mono [OF that] by simp
  from prompts_visible_gives [OF k s positions_in_range, of no] obtain t K1 where
    1: "prompts_visible calc s (prop_positions K s) no K = Inr (t, K1)" "grows {} K K1"
      "all_plain K s \<longrightarrow> (\<forall>e \<in> set ?P. known_opt K1 e) \<and> t = max_value (conf K1) no ?P" by (auto simp: gives_def)
  define v where "v = (if t = tri_mod \<and> (s_type (sym_at K1 s) \<noteq> S_TRISTATE \<or> modules_val (conf K1) = no) then yes else t)"
  define K2 where "K2 = store_visible s v K1"
  have g2: "grows X K K2" unfolding K2_def by (rule grows_trans [OF up [OF 1(2)] grows_store_visible [OF ok [OF up [OF 1(2)]]]])
  note k2 = ready_grows [OF g2 k x(1)]
  have s2: "reach r l K2 s" using s reach_grows [OF g2] by simp
  have so: "symbol_ok K2 s" using wf_symbol [OF ready_wf [OF k2]] s2 by (simp add: reach_def)
  note sh2 = shapeD(5,6) [OF growsD(4) [OF g2, of s]]
  have w: "within r l K2 (opt_deps (modules_sym (conf K2)) ?D)" "within r l K2 (opt_deps (modules_sym (conf K2)) ?R)"
    "opt_cmp_ok K2 ?D" "opt_cmp_ok K2 ?R"
    using s2 so sh2 by (simp_all add: reach_def symbol_deps_def symbol_ok_def Let_def)
  from calc_or_gives [OF k2 w(1,3), of yes] obtain t3 K3 where
    3: "calc_or calc yes ?D K2 = Inr (t3, K3)" "grows {} K2 K3" "?D = None \<longrightarrow> t3 = yes"
      "plain_syms K2 (opt_deps (modules_sym (conf K2)) ?D) \<longrightarrow> known_opt K3 ?D \<and> t3 = expr_value_of (conf K3) ?D"
    by (auto simp: gives_def known_opt_def expr_value_of_def split: option.splits)
  note g3 = grows_trans [OF g2 up [OF 3(2)]]
  define v3 where "v3 = (if t3 = tri_mod then yes else t3)"
  define K4 where "K4 = store_dir_dep s v3 K3"
  have g34: "grows X K3 K4" unfolding K4_def by (rule grows_store_dir_dep [OF ok [OF g3]])
  note g4 = grows_trans [OF g3 g34]
  note k4 = ready_grows [OF g4 k x(1)]
  have g24: "grows X K2 K4" by (rule grows_trans [OF up [OF 3(2)] g34])
  have w4: "within r l K4 (opt_deps (modules_sym (conf K4)) ?R)" "opt_cmp_ok K4 ?R"
    using w(2,4) within_grows [OF g24] opt_cmp_ok_grows [OF g24] growsD(3) [OF g24] by simp_all
  from calc_or_gives [OF k4 w4, of no] obtain t5 K5 where
    5: "calc_or calc no ?R K4 = Inr (t5, K5)" "grows {} K4 K5" "?R = None \<longrightarrow> t5 = no"
      "plain_syms K4 (opt_deps (modules_sym (conf K4)) ?R) \<longrightarrow>
         known_opt K5 ?R \<and> t5 = (case ?R of None \<Rightarrow> no | Some e \<Rightarrow> expr_calc_value (conf K5) e)"
    by (auto simp: gives_def known_opt_def split: option.splits)
  note g5 = grows_trans [OF g4 up [OF 5(2)]]
  define v5 where "v5 = (if t5 = tri_mod \<and> sym_get_type K5 s = S_BOOLEAN then yes else t5)"
  define K6 where "K6 = store_rev_dep s v5 K5"
  have g6: "grows X K K6" unfolding K6_def
    by (rule grows_trans [OF g5 grows_store_rev_dep [OF ok [OF g5]]])
      (use 5(3) shapeD(6) [OF growsD(4) [OF g5, of s]] in \<open>simp add: v5_def\<close>)
  have sh4: "ev_expr (s_rev_dep (sym_at K4 s)) = ?R" by (rule shapeD(6) [OF growsD(4) [OF g4]])
  have cv: "sym_is_choice_value (sym_at K2 s) = sym_is_choice_value (sym_at K s)" by (rule shapeD(4) [OF growsD(4) [OF g2]])
  have e: "sym_calc_visibility calc s K = (if sym_is_choice_value (sym_at K s) then Inr K2 else Inr K6)"
    by (cases "sym_is_choice_value (sym_at K s)")
      (simp_all only: sym_calc_visibility_def 1(1) bindE_Inr prod.case Let_def v_def [symmetric] K2_def [symmetric] cv
        if_True if_False sh2 3(1) v3_def [symmetric] K4_def [symmetric] sh4 5(1) v5_def [symmetric] K6_def [symmetric] simp_thms)
  show ?thesis
  proof (cases "known K s")
    case False
    then show ?thesis unfolding e using g2 g6 by (auto simp: runs_def)
  next
    case kn: True
    have kn': "known K' s" if "grows X K K'" for K'
      using growsD(5) [OF that, of s] choicey_grows [OF that, of s] kn by (auto simp: known_def sym_step_def)
    have fr: "frozen (sym_at A s) (sym_at B s)" if "grows {} A B" "known A s" for A B
      using growsD(5) [OF that(1), of s] that(2) by (auto simp: known_def sym_step_def)
    note f1 = fr [OF 1(2) kn] and f3 = fr [OF 3(2) kn' [OF g2]] and f5 = fr [OF 5(2) kn' [OF g4]]
    have c: "s_curr (sym_at K6 s) = s_curr (sym_at K s)"
      using f1 f3 f5 by (simp add: frozen_def K6_def K4_def K2_def)
    have "visibility_spec K6 s" if pl: "all_plain K s"
    proof -
      have p: "plain_syms K2 (opt_deps (modules_sym (conf K2)) ?D)" "plain_syms K4 (opt_deps (modules_sym (conf K4)) ?R)"
        using pl plain_syms_grows [OF g2] plain_syms_grows [OF g4] growsD(3) [OF g2] growsD(3) [OF g4]
        by (simp_all add: all_plain_def symbol_deps_def plain_syms_def)
      have P6: "prompt_exprs K6 s (prop_positions K6 s) = ?P"
        using prompt_exprs_grows [OF g6 positions_in_range] positions_grows [OF g6] by (simp add: prop_positions_def)
      have ty: "s_type (sym_at K' s) = s_type (sym_at K s)" if "grows X K K'" for K' by (rule shapeD(2) [OF growsD(4) [OF that]])
      have s12: "same_values {} K1 K2" and s34: "same_values {} K3 K4" and s56: "same_values {} K5 K6"
        by (simp_all add: K2_def K4_def K6_def)
      have tr: "known_opt B ex \<and> expr_value_of (conf B) ex = expr_value_of (conf A) ex"
        if "known_opt A ex" "A = K3 \<and> B = K6 \<or> A = K1 \<and> B = K6 \<or> A = K5 \<and> B = K6" for ex A B
      proof -
        have a36: "known_opt K6 ex \<and> expr_value_of (conf K6) ex = expr_value_of (conf K3) ex" if "known_opt K3 ex"
          using that same_values_opt [OF s34] same_values_opt [OF s56] known_opt_grows [OF 5(2)] by simp
        have "known_opt K3 ex \<and> expr_value_of (conf K3) ex = expr_value_of (conf K1) ex" if "known_opt K1 ex"
          using that same_values_opt [OF s12] known_opt_grows [OF 3(2)] by simp
        with a36 that same_values_opt [OF s56] show ?thesis by auto
      qed
      have kP: "\<forall>e \<in> set ?P. known_opt K1 e" "t = max_value (conf K1) no ?P" using 1(3) pl by simp_all
      have mx: "max_value (conf K6) u es = max_value (conf K1) u es" if "\<forall>e \<in> set es. known_opt K1 e" for es u
        using that
      proof (induction es arbitrary: u)
        case (Cons ex es)
        with tr [of K1 ex K6] show ?case by simp
      qed simp
      have v6: "s_visible (sym_at K6 s) = v" "ev_tri (s_dir_dep (sym_at K6 s)) = v3" "ev_tri (s_rev_dep (sym_at K6 s)) = v5"
        using f3 f5 by (simp_all add: frozen_def K6_def K4_def K2_def)
      have D: "known_opt K6 ?D" "t3 = expr_value_of (conf K6) ?D" using 3(4) p(1) tr by auto
      have R: "known_opt K6 ?R" "t5 = (case ?R of None \<Rightarrow> no | Some e \<Rightarrow> expr_calc_value (conf K6) e)"
        using 5(4) p(2) tr [of K5 ?R K6] by (auto simp: expr_value_of_def split: option.splits)
      have "raised (s_type (sym_at K s)) t v" using ty [OF up [OF 1(2)]] by (auto simp: raised_def v_def)
      moreover have "\<forall>e \<in> set ?P. known_opt K6 e" using kP(1) tr by blast
      moreover have "v3 = (if t3 = no then no else yes)" by (cases t3) (simp_all add: v3_def)
      moreover have "raised (if s_type (sym_at K s) = S_BOOLEAN then S_BOOLEAN else S_TRISTATE) t5 v5"
        using ty [OF g5] by (auto simp: raised_def v5_def sym_get_type_def Let_def)
      ultimately show ?thesis using v6 D R kP mx [OF kP(1)] tr shapeD(5,6) [OF growsD(4) [OF g6, of s]] ty [OF g6]
        by (simp add: visibility_spec_def Let_def P6)
    qed
    moreover have "\<not> sym_is_choice_value (sym_at K s)" using kn by (simp add: known_def choicey_def)
    ultimately show ?thesis unfolding e using g6 c by (simp add: runs_def)
  qed
qed

end

end
