(* ===== verification/SymChoice.thy ===== *)
theory SymChoice
  imports SymVisible
begin

text \<open>Choices: the visibility of their members, the default, the symbol that is chosen.\<close>

lemma reach_choicey:
  assumes "wf_table r K" and "in_table K d" and "choicey (sym_at K d)" and "r d < l"
  shows "reach r l K d"
  using wf_symbol [OF assms(1,2)] assms(2-4) by (fastforce simp: reach_def within_def ranked_def)

lemma operand_in_deps:
  assumes "p \<in> set (s_prop (sym_at K s))"
  shows "set (operand_deps m p) \<subseteq> set (symbol_deps m (sym_at K s))"
  using assms by (fastforce simp: symbol_deps_def prop_deps_def)

lemma choice_members:
  assumes "choice_symbols K s = Inr ss"
  shows "set ss \<subseteq> set (symbol_deps m (sym_at K s))"
proof -
  from assms obtain p where p: "sym_get_choice_prop (sym_at K s) = Some p" "list_symbols (p_expr p) = Inr ss"
    by (auto simp: choice_symbols_def)
  then have "p \<in> set (s_prop (sym_at K s))" "p_type p = P_CHOICE"
    by (auto simp: sym_get_choice_prop_def find_Some_iff)
  moreover have "set ss \<subseteq> set (operand_deps m p)"
    using p(2) \<open>p_type p = P_CHOICE\<close> by (auto simp: list_symbols_def operand_deps_def split: option.splits prop_expr.splits expr.splits)
  ultimately show ?thesis using operand_in_deps by blast
qed

lemma choice_in_deps:
  assumes "choice_of K s = Inr c"
  shows "c \<in> set (symbol_deps m (sym_at K s))"
proof -
  from assms obtain p where p: "sym_get_choice_prop (sym_at K s) = Some p" "prop_get_symbol p = Inr (Some c)"
    by (auto simp: choice_of_def)
  then have q: "p \<in> set (s_prop (sym_at K s))" "p_type p = P_CHOICE"
    by (auto simp: sym_get_choice_prop_def find_Some_iff)
  have "p_expr p = Some (DepE (SymE c))" using p(2)
    by (auto simp: prop_get_symbol_def split: option.splits prop_expr.splits expr.splits if_splits)
  with q operand_in_deps [OF q(1)] show ?thesis by (auto simp: operand_deps_def)
qed

lemma choice_symbols_wf:
  assumes "wf_table r K" and "in_table K s" and "sym_is_choice (sym_at K s)"
  shows "\<exists>ss. choice_symbols K s = Inr ss \<and> (\<forall>d \<in> set ss. choicey (sym_at K d) \<and> in_table K d \<and> r d \<le> r s)"
proof -
  from wf_symbol [OF assms(1,2)] assms(3) obtain ss where
    ss: "choice_symbols K s = Inr ss" "\<forall>d \<in> set ss. sym_is_choice_value (sym_at K d)" and rk: "ranked r K s"
    by (auto simp: symbol_ok_def Let_def)
  have "choicey (sym_at K s)" using assms(3) by (simp add: choicey_def)
  with rk choice_members [OF ss(1), of "modules_sym (conf K)"] have "in_table K d \<and> r d \<le> r s" if "d \<in> set ss" for d
    using that by (auto simp: ranked_def)
  with ss show ?thesis by (auto simp: choicey_def)
qed

context calc_contract
begin

lemma choice_defaults_gives:
  "ready r m l K \<Longrightarrow> reach r l K s \<Longrightarrow> sym_is_choice (sym_at K s) \<Longrightarrow> \<forall>i \<in> set js. i < length (s_prop (sym_at K s)) \<Longrightarrow>
    gives {} K (choice_defaults calc s js K) (\<lambda>_ _. True)"
proof (induction js arbitrary: K)
  case Nil
  then show ?case by (simp add: gives_def)
next
  case (Cons i js)
  show ?case
  proof (cases "p_type (prop_at K s i) = P_DEFAULT")
    case False
    with Cons show ?thesis by simp
  next
    case True
    then have "evaluated (prop_at K s i)" by (simp add: evaluated_def)
    with calc_prop_visible_gives [OF Cons.prems(1,2)] Cons.prems(4) obtain t K1 where
      1: "calc_prop_visible calc s i K = Inr (t, K1)" "grows {} K K1" by (fastforce simp: gives_def)
    note k1 = ready_grows [OF 1(2) Cons.prems(1) room_empty]
    have s1: "reach r l K1 s" using Cons.prems(2) reach_grows [OF 1(2)] by simp
    have ch: "sym_is_choice (sym_at K1 s)" using Cons.prems(3) shapeD(3) [OF growsD(4) [OF 1(2), of s]] by simp
    have i: "i < length (s_prop (sym_at K1 s))" and js: "\<forall>i \<in> set js. i < length (s_prop (sym_at K1 s))"
      using Cons.prems(4) positions_grows [OF 1(2)] by simp_all
    have ty: "p_type (prop_at K1 s i) = P_DEFAULT"
      using shape_prop_fields(1) [OF shape_prop [OF growsD(4) [OF 1(2)], of i s]] Cons.prems(4) True by simp
    from s1 have "in_table K1 s" by (simp add: reach_def)
    from wf_prop [OF ready_wf [OF k1] this i] ty ch obtain d where "p_expr (prop_at K1 s i) = Some (DepE (SymE d))"
      by (auto simp: prop_ok_def split: option.splits prop_expr.splits)
    then have d: "prop_get_symbol (prop_at K1 s i) = Inr (Some d)" by (simp add: prop_get_symbol_def)
    from Cons.IH [OF k1 s1 ch js] obtain a K2 where
      "choice_defaults calc s js K1 = Inr (a, K2)" "grows {} K1 K2" by (auto simp: gives_def)
    with True 1 d grows_trans [OF 1(2)] show ?thesis by (auto simp: gives_def)
  qed
qed

lemma choice_default_gives:
  assumes k: "ready r m l K" and s: "reach r l K s" and ch: "sym_is_choice (sym_at K s)"
  shows "gives {} K (sym_choice_default calc s K) (\<lambda>_ _. True)"
proof -
  from choice_defaults_gives [OF k s ch positions_in_range] obtain d K1 where
    1: "choice_defaults calc s (prop_positions K s) K = Inr (d, K1)" "grows {} K K1" by (auto simp: gives_def)
  from s have "in_table K s" by (simp add: reach_def)
  from choice_symbols_wf [OF ready_wf [OF k] this ch] obtain ss where "choice_symbols K s = Inr ss" by blast
  then have "choice_symbols K1 s = Inr ss" using choice_of_shape [OF growsD(4) [OF 1(2)]] by simp
  with 1 show ?thesis by (auto simp: sym_choice_default_def gives_def split: option.split)
qed

lemma choice_visibilities_gives:
  "ready r m l K \<Longrightarrow> \<forall>d \<in> set ds. choicey (sym_at K d) \<and> reach r l K d \<Longrightarrow>
    gives {} K (choice_visibilities calc ds f K) (\<lambda>_ _. True)"
proof (induction ds arbitrary: K f)
  case Nil
  then show ?case by (simp add: gives_def)
next
  case (Cons d ds)
  from visibility_runs [OF Cons.prems(1), of d "{}"] Cons.prems(2) obtain K1 where
    1: "sym_calc_visibility calc d K = Inr K1" "grows {} K K1" by (auto simp: runs_def)
  have "\<forall>d \<in> set ds. choicey (sym_at K1 d) \<and> reach r l K1 d"
    using Cons.prems(2) choicey_grows [OF 1(2)] reach_grows [OF 1(2)] by simp
  from Cons.IH [OF ready_grows [OF 1(2) Cons.prems(1) room_empty] this] obtain a K2 where
    "choice_visibilities calc ds (if s_visible (sym_at K1 d) \<noteq> no then f AND s_flags (sym_at K1 d) else f) K1 = Inr (a, K2)"
    "grows {} K1 K2" by (fastforce simp: gives_def)
  with 1 grows_trans [OF 1(2)] show ?case by (auto simp: gives_def)
qed

lemma calc_choice_gives:
  assumes k: "ready r m l K" and s: "reach r l K s" "r s < l" and ch: "sym_is_choice (sym_at K s)"
  shows "gives {} K (sym_calc_choice calc s K) (\<lambda>_ _. True)"
proof -
  have c: "choicey (sym_at K s)" using ch by (simp add: choicey_def)
  have t: "in_table K s" using s by (simp add: reach_def)
  obtain ss where
    ss: "choice_symbols K s = Inr ss" "\<And>d. d \<in> set ss \<Longrightarrow> choicey (sym_at K d) \<and> in_table K d \<and> r d \<le> r s"
    using choice_symbols_wf [OF ready_wf [OF k] t ch] by blast
  have "\<forall>d \<in> set ss. choicey (sym_at K d) \<and> reach r l K d"
    using ss(2) s(2) reach_choicey [OF ready_wf [OF k]] by fastforce
  from choice_visibilities_gives [OF k this] obtain f K1 where
    1: "choice_visibilities calc ss (s_flags (sym_at K s)) K = Inr (f, K1)" "grows {} K K1" by (fastforce simp: gives_def)
  define K2 where "K2 = upd_symbol s (\<lambda>y. y\<lparr>s_flags := s_flags y AND (f OR NOT SYMBOL_DEF_USER)\<rparr>) K1"
  have g12: "grows {} K1 K2" unfolding K2_def by (rule grows_mask_def_user) (use c choicey_grows [OF 1(2)] in simp)
  note g2 = grows_trans [OF 1(2) g12]
  note k2 = ready_grows [OF g2 k room_empty]
  have s2: "reach r l K2 s" using s reach_grows [OF g2] by simp
  have ch2: "sym_is_choice (sym_at K2 s)" using ch shapeD(3) [OF growsD(4) [OF g2, of s]] by simp
  have "dyn (sym_at K2 s)" using wf_symbol [OF ready_wf [OF k2]] s2 by (simp add: reach_def symbol_ok_def Let_def)
  with ch2 obtain u where u: "user_choice (sym_at K2 s) = Inr u"
    by (cases "sv_val (s_def (sym_at K2 s) S_DEF_USER)") (auto simp: dyn_def user_choice_def)
  from choice_default_gives [OF k2 s2 ch2] obtain d K3 where
    3: "sym_choice_default calc s K2 = Inr (d, K3)" "grows {} K2 K3" by (auto simp: gives_def)
  have g3: "grows {} K2 (if d = None then set_curr_tri s no K3 else K3)"
    using grows_trans [OF 3(2) grows_set_curr_tri] 3(2) c choicey_grows [OF 3(2)] choicey_grows [OF g2] by auto
  have e: "sym_calc_choice calc s K =
      (case u of Some x \<Rightarrow> if s_visible (sym_at K2 x) \<noteq> no then Inr (Some x, K2) else Inr (d, if d = None then set_curr_tri s no K3 else K3)
       | None \<Rightarrow> Inr (d, if d = None then set_curr_tri s no K3 else K3))"
    unfolding sym_calc_choice_def Let_def ss(1) 1(1) bindE_Inr prod.case K2_def [symmetric] u 3(1) by (rule refl)
  note user = gives_return [OF g2, of "\<lambda>_ _. True", OF TrueI] and other = gives_return [OF grows_trans [OF g2 g3], of "\<lambda>_ _. True", OF TrueI]
  show ?thesis
  proof (cases u)
    case None
    show ?thesis unfolding e None option.case by (rule other)
  next
    case (Some x)
    show ?thesis
    proof (cases "s_visible (sym_at K2 x) \<noteq> no")
      case True
      show ?thesis unfolding e Some option.case if_P [OF True] by (rule user)
    next
      case False
      show ?thesis unfolding e Some option.case if_not_P [OF False] by (rule other)
    qed
  qed
qed

end

lemma fold_grows:
  assumes "\<And>x K'. x \<in> set xs \<Longrightarrow> grows X K K' \<Longrightarrow> grows X K' (f x K')"
  shows "grows X K (fold f xs K)"
proof -
  have "grows X K K' \<Longrightarrow> set ys \<subseteq> set xs \<Longrightarrow> grows X K (fold f ys K')" for ys K'
  proof (induction ys arbitrary: K')
    case (Cons y ys)
    then have "grows X K (f y K')" by (intro grows_trans [OF Cons.prems(1) assms]) simp_all
    with Cons show ?case by simp
  qed simp
  then show ?thesis by simp
qed

lemma set_all_choice_values_runs:
  assumes wf: "wf_table r K" and s: "in_table K s" and ch: "sym_is_choice (sym_at K s)" and n: "need (sym_at K s)"
  shows "runs X K (set_all_choice_values s K) (\<lambda>_. True)"
proof -
  obtain ss where
    ss: "choice_symbols K s = Inr ss" "\<And>d. d \<in> set ss \<Longrightarrow> choicey (sym_at K d) \<and> in_table K d \<and> r d \<le> r s"
    using choice_symbols_wf [OF wf s ch] by blast
  define K1 where "K1 = fold (\<lambda>d K. if \<not> sym_has_value (sym_at K d) then upd_symbol d (set_user_tri no) K else K) ss K"
  have g1: "grows X K K1" unfolding K1_def
    by (rule fold_grows) (use ss(2) choicey_grows in \<open>auto intro!: grows_user_tri\<close>)
  have nd: "need (sym_at K1 s)"
  proof -
    have "need (sym_at (fold (\<lambda>d K. if \<not> sym_has_value (sym_at K d) then upd_symbol d (set_user_tri no) K else K) ds K') s) = need (sym_at K' s)" for ds K'
      by (induction ds arbitrary: K') (auto simp: need_def set_user_tri_def has_flag_def)
    then show ?thesis using n by (simp add: K1_def)
  qed
  have "choicey (sym_at K1 s)" using ch choicey_grows [OF g1] by (simp add: choicey_def)
  from grows_trans [OF g1 grows_reset_choice [OF this nd]] show ?thesis
    using ss(1) by (simp add: set_all_choice_values_def runs_def K1_def Let_def)
qed

end
