(* ===== verification/SymBody.thy ===== *)
theory SymBody
  imports SymChoice
begin

text \<open>
  The value of a symbol from its user value, its default and what selects it, and the last step of
  \<open>sym_calc_value\<close>. For a symbol outside choices the lemmas also say which value comes out.
\<close>

text \<open>The value of a symbol the user has set, as far as its visibility allows.\<close>

definition tristate_bounds :: "kconfig \<Rightarrow> sym \<Rightarrow> tristate \<Rightarrow> bool" where
  "tristate_bounds K s v \<longleftrightarrow>
     (let y = sym_at K s in
      ev_tri (s_rev_dep y) \<le> v \<and> (s_type y = S_BOOLEAN \<longrightarrow> v \<noteq> tri_mod) \<and>
      (s_visible y \<noteq> no \<and> sym_has_value y \<longrightarrow>
         raised (if s_type y = S_BOOLEAN then S_BOOLEAN else S_TRISTATE) (max (min (sv_tri (s_def y S_DEF_USER)) (s_visible y)) (ev_tri (s_rev_dep y))) v))"

lemma tristate_bounds_close:
  assumes "close (sym_at K s) (sym_at K' s)" and "s_type (sym_at K' s) = s_type (sym_at K s)"
  shows "tristate_bounds K' s v = tristate_bounds K s v"
  using assms by (simp add: tristate_bounds_def close_def Let_def)

lemma default_target:
  assumes "prop_ok K y p" and "p_type p = P_DEFAULT" and "s_type y \<in> {S_INT, S_HEX, S_STRING}"
  shows "prop_get_symbol p = Inr None \<or> (\<exists>d. p_expr p = Some (DepE (SymE d)) \<and> \<not> choicey (sym_at K d))"
proof (cases "p_expr p")
  case None
  then show ?thesis by (simp add: prop_get_symbol_def)
next
  case (Some x)
  with assms obtain e where e: "x = DepE e" "\<forall>d. e = SymE d \<longrightarrow> \<not> choicey (sym_at K d)"
    by (auto simp: prop_ok_def split: prop_expr.splits)
  then show ?thesis using Some by (cases e) (simp_all add: prop_get_symbol_def)
qed

context calc_contract
begin

lemma default_expr_gives:
  assumes k: "ready r m l K" and s: "reach r l K s" and i: "i < length (s_prop (sym_at K s))"
    and ty: "p_type (prop_at K s i) = P_DEFAULT"
  shows "gives {} K (expr_and_macro calc (p_expr (prop_at K s i)) s i K) (\<lambda>_ _. True)"
proof -
  from s have t: "in_table K s" by (simp add: reach_def)
  have "gives {} K' (calc_prop_expr calc (p_expr (prop_at K s i)) K') (\<lambda>_ _. True)" if g: "grows {} K K'" for K'
  proof -
    note k' = ready_grows [OF g k room_empty]
    from wf_prop [OF ready_wf [OF k] t i] ty consider "p_expr (prop_at K s i) = None"
      | e where "p_expr (prop_at K s i) = Some (DepE e)" "cmp_ok K e"
      by (auto simp: prop_ok_def split: option.splits prop_expr.splits)
    then show ?thesis
    proof cases
      case 1
      then show ?thesis by (simp add: calc_prop_expr_def gives_def)
    next
      case 2
      have "within r l K (expr_deps (modules_sym (conf K)) e)"
        using reach_prop [OF s i] 2(1) ty by (simp add: prop_deps_def operand_deps_def)
      then have "within r l K' (expr_deps (modules_sym (conf K')) e)" using within_grows [OF g] growsD(3) [OF g] by simp
      moreover have "cmp_ok K' e" using 2(2) cmp_ok_grows [OF g] by simp
      ultimately show ?thesis using calc_expr_gives [OF k'] 2(1) by (fastforce simp: calc_prop_expr_def gives_def)
    qed
  qed
  note ev = this
  from ev [OF grows_refl] obtain v K1 where
    1: "calc_prop_expr calc (p_expr (prop_at K s i)) K = Inr (v, K1)" "grows {} K K1" by (auto simp: gives_def)
  from ev [OF 1(2)] obtain u K2 where
    2: "calc_prop_expr calc (p_expr (prop_at K s i)) K1 = Inr (u, K2)" "grows {} K1 K2" by (auto simp: gives_def)
  show ?thesis using 1 2 grows_trans [OF 1(2) 2(2)] by (auto simp: expr_and_macro_def gives_def)
qed

lemma tristate_default_gives:
  assumes k: "ready r m l K" and s: "reach r l K s"
  shows "gives {} K (tristate_default calc s t K) (\<lambda>_ _. True)"
proof -
  define K0 where "K0 = (if ev_tri (s_rev_dep (sym_at K s)) \<noteq> no then upd_symbol s (set_flag SYMBOL_WRITE) K else K)"
  have g0: "grows {} K K0" by (simp add: K0_def)
  note k0 = ready_grows [OF g0 k room_empty]
  have s0: "reach r l K0 s" using s reach_grows [OF g0] by simp
  from default_prop_gives [OF k0 s0] obtain p K1 where 1: "sym_get_default_prop calc s K0 = Inr (p, K1)" "grows {} K0 K1"
    "\<forall>i. p = Some i \<longrightarrow> i < length (s_prop (sym_at K1 s)) \<and> p_type (prop_at K1 s i) = P_DEFAULT" by (auto simp: gives_def)
  define K2 where "K2 = upd_symbol s (set_flag SYMBOL_WRITE) K1"
  have g12: "grows {} K1 K2" by (simp add: K2_def)
  note g2 = grows_trans [OF 1(2) g12]
  have p: "s_prop (sym_at K2 s) = s_prop (sym_at K1 s)" by (simp add: K2_def)
  show ?thesis
  proof (cases p)
    case None
    then show ?thesis using 1 g0 grows_trans [OF g0 1(2)]
      by (auto simp: tristate_default_def Let_def gives_def K0_def [symmetric])
  next
    case (Some i)
    have "reach r l K2 s" using s0 reach_grows [OF g2] by simp
    from default_expr_gives [OF ready_grows [OF g2 k0 room_empty] this, of i] Some 1(3) p obtain v K3 where
      3: "expr_and_macro calc (p_expr (prop_at K1 s i)) s i K2 = Inr (v, K3)" "grows {} K2 K3" by (auto simp: gives_def)
    show ?thesis using Some 1(1) 3 g0 grows_trans [OF g0 grows_trans [OF g2 3(2)]]
      by (auto simp: tristate_default_def Let_def gives_def K0_def [symmetric] K2_def [symmetric])
  qed
qed

lemma warn_unmet_runs:
  assumes "wf_table r K" and "in_table K s"
  shows "\<exists>ms. warn_unmet s K = Inr (K\<lparr>messages := ms\<rparr>)"
proof -
  from wf_symbol [OF assms] have ok: "symbol_ok K s" by simp
  have c: "consts_untyped (conf K)" using assms(1) by (simp add: wf_table_def)
  show ?thesis
  proof (cases "ev_tri (s_dir_dep (sym_at K s)) = no \<and> ev_tri (s_rev_dep (sym_at K s)) \<noteq> no")
    case True
    then obtain e where e: "ev_expr (s_rev_dep (sym_at K s)) = Some e" using ok by (auto simp: symbol_ok_def Let_def dyn_def)
    with ok have "leftmost_ok e" by (simp add: symbol_ok_def Let_def)
    from simplify_unmet_dep_returns [OF c this] obtain x where
      "expr_simplify_unmet_dep (conf K) e (ev_expr (s_dir_dep (sym_at K s))) = Inr x" by blast
    with True e show ?thesis by (auto simp: warn_unmet_def Let_def)
  next
    case False
    then have "warn_unmet s K = Inr (K\<lparr>messages := messages K\<rparr>)" by (auto simp: warn_unmet_def Let_def)
    then show ?thesis by blast
  qed
qed

lemma tristate_value_gives:
  assumes k: "ready r m l K" and s: "reach r l K s"
  shows "gives {} K (tristate_value calc s t K) (\<lambda>v K'. known K s \<longrightarrow> tristate_bounds K' s v)"
proof (cases "sym_is_choice_value (sym_at K s) \<and> s_visible (sym_at K s) = yes")
  case True
  from s have "in_table K s" by (simp add: reach_def)
  from wf_symbol [OF ready_wf [OF k] this] True obtain c where "choice_of K s = Inr c" by (auto simp: symbol_ok_def Let_def)
  moreover have "\<not> known K s" using True by (simp add: known_def choicey_def)
  ultimately show ?thesis using True by (simp add: tristate_value_def gives_def Let_def)
next
  case False
  define K0 where "K0 = (if s_visible (sym_at K s) \<noteq> no then upd_symbol s (set_flag SYMBOL_WRITE) K else K)"
  have g0: "grows {} K K0" by (simp add: K0_def)
  note k0 = ready_grows [OF g0 k room_empty]
  have s0: "reach r l K0 s" using s reach_grows [OF g0] by simp
  define user where "user \<longleftrightarrow> s_visible (sym_at K s) \<noteq> no \<and> sym_has_value (sym_at K0 s)"
  define base where "base = (if user
      then Inr (EXPR_AND (sv_tri (s_def (sym_at K0 s) S_DEF_USER)) (s_visible (sym_at K0 s)), K0) else tristate_default calc s t K0)"
  obtain v K1 where 1: "base = Inr (v, K1)" "grows {} K0 K1" "user \<longrightarrow> K1 = K0 \<and>
      v = EXPR_AND (sv_tri (s_def (sym_at K0 s) S_DEF_USER)) (s_visible (sym_at K0 s))"
    using tristate_default_gives [OF k0 s0, of t] by (cases user) (auto simp: base_def gives_def)
  note g1 = grows_trans [OF g0 1(2)]
  have "in_table K1 s" using s in_table_grows [OF g1] by (simp add: reach_def)
  from warn_unmet_runs [OF ready_wf [OF ready_grows [OF g1 k room_empty]] this] obtain ms where
    2: "warn_unmet s K1 = Inr (K1\<lparr>messages := ms\<rparr>)" by auto
  define K2 where "K2 = K1\<lparr>messages := ms\<rparr>"
  have g2: "grows {} K K2" using g1 by (simp add: K2_def)
  define w where "w = EXPR_OR v (ev_tri (s_rev_dep (sym_at K2 s)))"
  define u where "u = (if w = tri_mod \<and> sym_get_type K2 s = S_BOOLEAN then yes else w)"
  have b: "base = (if s_visible (sym_at K s) \<noteq> no \<and> sym_has_value (sym_at K0 s)
      then Inr (EXPR_AND (sv_tri (s_def (sym_at K0 s) S_DEF_USER)) (s_visible (sym_at K0 s)), K0) else tristate_default calc s t K0)"
    by (simp add: base_def user_def)
  have e: "tristate_value calc s t K = Inr (u, K2)"
    unfolding tristate_value_def Let_def if_not_P [OF False] K0_def [symmetric] b [symmetric] 1(1) bindE_Inr prod.case 2 K2_def [symmetric]
      w_def [symmetric] u_def [symmetric] by (rule refl)
  have "tristate_bounds K2 s u" if kn: "known K s"
  proof -
    have kn0: "known K0 s" using known_grows [OF g0 kn] by simp
    note f = frozen_grows [OF g0 kn] and f2 = frozen_grows [OF g2 kn]
    have "user \<longleftrightarrow> s_visible (sym_at K2 s) \<noteq> no \<and> sym_has_value (sym_at K2 s)"
      using f f2 by (simp add: user_def frozen_def)
    moreover have "user \<longrightarrow> v = min (sv_tri (s_def (sym_at K2 s) S_DEF_USER)) (s_visible (sym_at K2 s))"
      using 1(3) f f2 by (simp add: frozen_def EXPR_AND_min)
    moreover have "sym_get_type K2 s = S_BOOLEAN" if "s_type (sym_at K2 s) = S_BOOLEAN"
      using that by (simp add: sym_get_type_def Let_def)
    ultimately show ?thesis
      by (auto simp: tristate_bounds_def Let_def u_def w_def EXPR_OR_max raised_def sym_get_type_def split: if_splits)
  qed
  then show ?thesis using e g2 by (simp add: gives_def)
qed

lemma string_value_gives:
  assumes k: "ready r m l K" and s: "reach r l K s" and c: "\<not> choicey (sym_at K s)"
    and ty: "s_type (sym_at K s) \<in> {S_INT, S_HEX, S_STRING}" and v: "is_string v"
  shows "gives {} K (string_value calc s v K) (\<lambda>v K'. is_string v)"
proof -
  define K0 where "K0 = (if s_visible (sym_at K s) \<noteq> no then upd_symbol s (set_flag SYMBOL_WRITE) K else K)"
  have g0: "grows {} K K0" by (simp add: K0_def)
  note k0 = ready_grows [OF g0 k room_empty]
  have s0: "reach r l K0 s" using s reach_grows [OF g0] by simp
  have t0: "s_type (sym_at K0 s) \<in> {S_INT, S_HEX, S_STRING}" "\<not> choicey (sym_at K0 s)"
    using ty c shapeD(2) [OF growsD(4) [OF g0]] choicey_grows [OF g0] by simp_all
  from s0 have it: "in_table K0 s" by (simp add: reach_def)
  show ?thesis
  proof (cases "s_visible (sym_at K0 s) \<noteq> no \<and> sym_has_value (sym_at K0 s)")
    case True
    have "dyn (sym_at K0 s)" using wf_symbol [OF ready_wf [OF k0] it] by (simp add: symbol_ok_def Let_def)
    with t0 True have "is_string (sv_val (s_def (sym_at K0 s) S_DEF_USER))" by (simp add: dyn_def)
    then show ?thesis unfolding string_value_def K0_def [symmetric] Let_def if_P [OF True] using g0 by (simp add: gives_def)
  next
    case False
    from default_prop_gives [OF k0 s0] obtain p K1 where 1: "sym_get_default_prop calc s K0 = Inr (p, K1)" "grows {} K0 K1"
      "\<forall>i. p = Some i \<longrightarrow> i < length (s_prop (sym_at K1 s)) \<and> p_type (prop_at K1 s i) = P_DEFAULT" by (auto simp: gives_def)
    note g1 = grows_trans [OF g0 1(2)]
    note k1 = ready_grows [OF 1(2) k0 room_empty]
    show ?thesis
    proof (cases p)
      case None
      then show ?thesis unfolding string_value_def K0_def [symmetric] Let_def if_not_P [OF False]
        using 1(1) g1 v by (simp add: gives_def)
    next
      case (Some i)
      with 1(3) have i: "i < length (s_prop (sym_at K1 s))" "p_type (prop_at K1 s i) = P_DEFAULT" by simp_all
      have s1: "reach r l K1 s" using s0 reach_grows [OF 1(2)] by simp
      have t1: "s_type (sym_at K1 s) \<in> {S_INT, S_HEX, S_STRING}" using t0(1) shapeD(2) [OF growsD(4) [OF 1(2)]] by simp
      have "in_table K1 s" using s1 by (simp add: reach_def)
      from default_target [OF wf_prop [OF ready_wf [OF k1] this i(1)] i(2) t1] consider "prop_get_symbol (prop_at K1 s i) = Inr None"
        | d where "p_expr (prop_at K1 s i) = Some (DepE (SymE d))" "\<not> choicey (sym_at K1 d)"
        by blast
      then show ?thesis
      proof cases
        case 1: 1
        show ?thesis unfolding string_value_def K0_def [symmetric] Let_def if_not_P [OF False]
          using \<open>sym_get_default_prop calc s K0 = Inr (p, K1)\<close> Some 1 g1 v by (simp add: gives_def)
      next
        case 2
        then have d: "prop_get_symbol (prop_at K1 s i) = Inr (Some d)" by (simp add: prop_get_symbol_def)
        define K2 where "K2 = upd_symbol s (set_flag SYMBOL_WRITE) K1"
        have g2: "grows {} K1 K2" by (simp add: K2_def)
        have w: "in_table K1 d" "r d < l" using reach_prop [OF s1 i(1)] 2(1) i(2) by (simp_all add: prop_deps_def operand_deps_def)
        from calc_runs [OF ready_grows [OF g2 k1 room_empty] _ w(2)] w(1) in_table_grows [OF g2] obtain K3 where
          3: "calc d K2 = Inr K3" "grows {} K2 K3" "settled_value (sym_at K3 d)" by (auto simp: runs_def)
        have "is_string (sv_val (s_curr (sym_at K3 d)))"
          using 3(3) 2(2) choicey_grows [OF grows_trans [OF g2 3(2)]] by (simp add: settled_value_def)
        then show ?thesis unfolding string_value_def K0_def [symmetric] Let_def if_not_P [OF False]
          using 1(1) Some d 3(1) grows_trans [OF g1 grows_trans [OF g2 3(2)]] by (simp add: gives_def K2_def)
      qed
    qed
  qed
qed

lemma sym_get_type_bool:
  "sym_get_type K s = S_BOOLEAN \<or> sym_get_type K s = S_TRISTATE \<longleftrightarrow>
     s_type (sym_at K s) = S_BOOLEAN \<or> s_type (sym_at K s) = S_TRISTATE"
  by (auto simp: sym_get_type_def Let_def)

lemma new_value_gives:
  assumes k: "ready r m l K" and s: "reach r l K s" and ty: "s_type (sym_at K s) \<notin> {S_UNKNOWN, S_OTHER}"
    and v: "is_string (sv_val v)"
  shows "gives {} K (new_value calc s v K) (\<lambda>v K'. is_string (sv_val v) \<and>
    (known K s \<and> s_type (sym_at K s) \<in> {S_BOOLEAN, S_TRISTATE} \<longrightarrow> tristate_bounds K' s (sv_tri v)))"
proof (cases "s_type (sym_at K s) = S_BOOLEAN \<or> s_type (sym_at K s) = S_TRISTATE")
  case True
  from tristate_value_gives [OF k s, of "sv_tri v"] obtain u K1 where
    "tristate_value calc s (sv_tri v) K = Inr (u, K1)" "grows {} K K1" "known K s \<longrightarrow> tristate_bounds K1 s u"
    by (auto simp: gives_def)
  with True v sym_get_type_bool [of K s] show ?thesis by (simp add: new_value_def gives_def)
next
  case False
  with ty have t: "s_type (sym_at K s) \<in> {S_INT, S_HEX, S_STRING}" by (cases "s_type (sym_at K s)") simp_all
  have it: "in_table K s" using s by (simp add: reach_def)
  from wf_symbol [OF ready_wf [OF k] it] t have "\<not> choicey (sym_at K s)" by (auto simp: symbol_ok_def Let_def)
  from string_value_gives [OF k s this t v] obtain u K1 where
    "string_value calc s (sv_val v) K = Inr (u, K1)" "grows {} K K1" "is_string u" by (auto simp: gives_def)
  with False sym_get_type_bool [of K s] show ?thesis by (auto simp: new_value_def gives_def)
qed

end

section \<open>Marking\<close>

lemma grows_note_change: "grows X K (note_change s v K)"
proof -
  have "grows X K (sym_set_all_changed (sym_set_changed s K))"
    by (rule grows_trans [OF grows_set_changed grows_set_all_changed])
  then have "grows X K ((sym_set_all_changed (sym_set_changed s K))\<lparr>conf := (conf (sym_set_all_changed (sym_set_changed s K)))
      \<lparr>modules_val := t\<rparr>\<rparr>)" for t by (simp add: grows_def)
  then show ?thesis by (simp add: note_change_def Let_def)
qed

lemma grows_mark_choice_value: "grows X K (mark_choice_value s d K)"
  by (simp add: mark_choice_value_def Let_def grows_trans [OF grows_marks(2) grows_set_changed])

lemma mark_choice_values_runs:
  assumes "wf_table r K" and "in_table K s"
  shows "runs X K (mark_choice_values s K) (\<lambda>_. True)"
  using choice_symbols_wf [OF assms] grows_fold [of X "mark_choice_value s"] grows_mark_choice_value
  by (auto simp: mark_choice_values_def runs_def)

end
