(* ===== verification/SymCorrect.thy ===== *)
theory SymCorrect
  imports SymBody
begin

text \<open>
  \<open>sym_calc_value\<close> keeps its own contract, so the recursion ends and never faults on a well-formed table;
  and the value it stores for a symbol outside choices.
\<close>

section \<open>Finishing\<close>

lemma visibility_spec_other:
  assumes g: "grows {s} K K'" and c: "close (sym_at K s) (sym_at K' s)"
    and n: "s \<notin> set (symbol_deps (modules_sym (conf K)) (sym_at K s))" and v: "visibility_spec K s"
  shows "visibility_spec K' s"
proof -
  let ?P = "prompt_exprs K s (prop_positions K s)"
  note sh = shapeD [OF growsD(4) [OF g, of s]]
  have P: "prompt_exprs K' s (prop_positions K' s) = ?P"
    using prompt_exprs_grows [OF g] positions_grows [OF g] by (simp add: prop_positions_def)
  have o: "known_opt K' e \<and> expr_value_of (conf K') e = expr_value_of (conf K) e"
    if "known_opt K e" "set (opt_deps (modules_sym (conf K)) e) \<inter> {s} = {}" for e
    using that known_expr_other [OF g] by (cases e) (auto simp: known_opt_def expr_value_of_def opt_deps_def)
  have "set (opt_deps (modules_sym (conf K)) e) \<subseteq> set (symbol_deps (modules_sym (conf K)) (sym_at K s))" if "e \<in> set ?P" for e
  proof -
    from that obtain i where i: "i < length (s_prop (sym_at K s))" "p_text (prop_at K s i) \<noteq> None"
      "e = ev_expr (p_visible (prop_at K s i))" by (auto simp: prompt_exprs_def prop_positions_def)
    then have "set (opt_deps (modules_sym (conf K)) e) \<subseteq> set (prop_deps (modules_sym (conf K)) (prop_at K s i))"
      by (simp add: prop_deps_def evaluated_def)
    then show ?thesis using i(1) by (auto simp: symbol_deps_def)
  qed
  then have d: "set (opt_deps (modules_sym (conf K)) e) \<inter> {s} = {}"
    if "e \<in> set ?P \<or> e = ev_expr (s_dir_dep (sym_at K s)) \<or> e = ev_expr (s_rev_dep (sym_at K s))" for e
    using that n by (auto simp: symbol_deps_def)
  have kP: "\<forall>e \<in> set ?P. known_opt K e" using v by (simp add: visibility_spec_def Let_def)
  have mx: "max_value (conf K') t es = max_value (conf K) t es" if "set es \<subseteq> set ?P" for es t
    using that
  proof (induction es arbitrary: t)
    case (Cons e es)
    then have "e \<in> set ?P" by simp
    with kP o [OF _ d] Cons show ?case by simp
  qed simp
  have kP': "\<forall>e \<in> set ?P. known_opt K' e" using kP o d by blast
  have D: "known_opt K' (ev_expr (s_dir_dep (sym_at K s)))" "known_opt K' (ev_expr (s_rev_dep (sym_at K s)))"
    "expr_value_of (conf K') (ev_expr (s_dir_dep (sym_at K s))) = expr_value_of (conf K) (ev_expr (s_dir_dep (sym_at K s)))"
    "expr_value_of (conf K') (ev_expr (s_rev_dep (sym_at K s))) = expr_value_of (conf K) (ev_expr (s_rev_dep (sym_at K s)))"
    using v o [OF _ d] by (simp_all add: visibility_spec_def Let_def)
  have R: "(case ev_expr (s_rev_dep (sym_at K s)) of None \<Rightarrow> no | Some e \<Rightarrow> expr_calc_value (conf K') e) =
      (case ev_expr (s_rev_dep (sym_at K s)) of None \<Rightarrow> no | Some e \<Rightarrow> expr_calc_value (conf K) e)"
    using D(4) by (cases "ev_expr (s_rev_dep (sym_at K s))") (simp_all add: expr_value_of_def)
  from v have V: "raised (s_type (sym_at K s)) (max_value (conf K) no ?P) (s_visible (sym_at K s))"
    "ev_tri (s_dir_dep (sym_at K s)) = (if expr_value_of (conf K) (ev_expr (s_dir_dep (sym_at K s))) = no then no else yes)"
    "raised (if s_type (sym_at K s) = S_BOOLEAN then S_BOOLEAN else S_TRISTATE)
      (case ev_expr (s_rev_dep (sym_at K s)) of None \<Rightarrow> no | Some e \<Rightarrow> expr_calc_value (conf K) e) (ev_tri (s_rev_dep (sym_at K s)))"
    unfolding visibility_spec_def Let_def by blast+
  from c have C: "s_visible (sym_at K' s) = s_visible (sym_at K s)" "ev_tri (s_dir_dep (sym_at K' s)) = ev_tri (s_dir_dep (sym_at K s))"
    "ev_tri (s_rev_dep (sym_at K' s)) = ev_tri (s_rev_dep (sym_at K s))" by (simp_all add: close_def)
  show ?thesis unfolding visibility_spec_def Let_def P sh(2,5,6) R D(3) mx [OF order_refl] C
    using kP' D(1,2) V by blast
qed

context calc_contract
begin

lemma finish_plain:
  assumes k: "ready r m l K" and s: "reach r l K s" and x: "room r l {s}" and kn: "known K s" and v: "is_string (sv_val v)"
  shows "runs {s} K (finish_value calc s old v K) (\<lambda>K'. is_string (sv_val (s_curr (sym_at K' s))) \<and>
    sv_tri (s_curr (sym_at K' s)) = sv_tri v \<and> close (sym_at K s) (sym_at K' s))"
proof -
  have nc: "\<not> choicey (sym_at K s)" "\<not> sym_is_choice (sym_at K s)" using kn by (auto simp: known_def choicey_def)
  define K1 where "K1 = set_curr s v K"
  have g1: "grows {s} K K1" unfolding K1_def by (rule grows_set_curr) simp
  have f1: "close (sym_at K s) (sym_at K1 s)" "s_curr (sym_at K1 s) = v"
    by (simp_all add: K1_def set_curr_def close_def sym_has_value_def has_flag_def)
  note k1 = ready_grows [OF g1 k x]
  have s1: "reach r l K1 s" using s reach_grows [OF g1] by simp
  have n1: "\<not> choicey (sym_at K1 s)" "valid (sym_at K1 s)" "\<not> sym_is_choice (sym_at K1 s)"
    using nc choicey_grows [OF g1, of s] shapeD(3) [OF growsD(4) [OF g1, of s]] kn
    by (simp_all add: known_def K1_def set_curr_def)
  from validate_range_runs [OF k1 s1 x _ _ n1(1,2)] f1(2) v obtain K2 where
    2: "sym_validate_range calc s K1 = Inr K2" "grows {s} K1 K2" "is_string (sv_val (s_curr (sym_at K2 s)))"
      "close (sym_at K1 s) (sym_at K2 s)" "sv_tri (s_curr (sym_at K2 s)) = sv_tri v" by (auto simp: runs_def)
  note g2 = grows_trans [OF g1 2(2)]
  have n2: "\<not> choicey (sym_at K2 s)" "valid (sym_at K2 s)"
    using choicey_grows [OF 2(2)] n1 growsD(5) [OF 2(2), of s] by (auto simp: sym_step_def)
  define K3 where "K3 = note_change s old K2"
  have g3: "grows {} K2 K3" by (simp add: K3_def grows_note_change)
  have mark: "mark_choice_values s K3 = Inr K3"
    using n2(1) choicey_grows [OF g3, of s] by (simp add: mark_choice_values_def choicey_def)
  define K4 where "K4 = (if has_flag SYMBOL_AUTO (sym_at K3 s) then upd_symbol s (clear_flag SYMBOL_WRITE) K3 else K3)"
  have g4: "grows {} K2 K4" using grows_trans [OF g3 grows_marks(3)] g3 by (simp add: K4_def)
  note g24 = grows_trans [OF g2 grows_mono [OF g4, of "{s}", simplified]]
  have it: "in_table K4 s" using s in_table_grows [OF g24] by (simp add: reach_def)
  from wf_symbol [OF ready_wf [OF ready_grows [OF g24 k x]] it] have "dyn (sym_at K4 s)" by (simp add: symbol_ok_def Let_def)
  then have need: "\<not> has_flag SYMBOL_NEED_SET_CHOICE_VALUES (sym_at K4 s)"
    using n2(1) choicey_grows [OF g4] by (auto simp: dyn_def need_def)
  have e: "finish_value calc s old v K = Inr K4"
    unfolding finish_value_def Let_def K1_def [symmetric]
    using n1(3) 2(1) mark need by (simp add: K3_def [symmetric] K4_def [symmetric])
  have fr: "frozen (sym_at K2 s) (sym_at K4 s)" by (rule frozen_grows [OF g4]) (use n2 in \<open>simp add: known_def\<close>)
  have c24: "close (sym_at K2 s) (sym_at K4 s)" "s_curr (sym_at K4 s) = s_curr (sym_at K2 s)"
    using frozen_close [OF fr] by simp_all
  have "close (sym_at K s) (sym_at K4 s)" by (rule close_trans [OF close_trans [OF f1(1) 2(4)] c24(1)])
  then show ?thesis using e g24 2(3,5) c24(2) by (simp add: runs_def)
qed

lemma finish_choicey:
  assumes k: "ready r m l K" and s: "reach r l K s" "r s < l" and c: "choicey (sym_at K s)"
    and need: "need (sym_at K s) \<longrightarrow> sym_is_choice (sym_at K s)"
  shows "runs {} K (finish_value calc s old v K) (\<lambda>_. True)"
proof -
  define K1 where "K1 = set_curr s v K"
  have g1: "grows {} K K1" unfolding K1_def by (rule grows_set_curr) (use c in simp)
  note k1 = ready_grows [OF g1 k room_empty]
  have s1: "reach r l K1 s" using s reach_grows [OF g1] by simp
  define ch where "ch = (if sym_is_choice (sym_at K1 s) \<and> sv_tri v = yes
      then bindE (sym_calc_choice calc s K1) (\<lambda>(d, K). Inr (set_curr_val s (case d of None \<Rightarrow> NullVal | Some d \<Rightarrow> SymVal d) K))
      else Inr K1)"
  have "\<exists>K2. ch = Inr K2 \<and> grows {} K1 K2"
  proof (cases "sym_is_choice (sym_at K1 s) \<and> sv_tri v = yes")
    case True
    with calc_choice_gives [OF k1 s1 s(2)] obtain d K2 where 2: "sym_calc_choice calc s K1 = Inr (d, K2)" "grows {} K1 K2"
      by (auto simp: gives_def)
    have "choicey (sym_at K2 s)" using True choicey_grows [OF 2(2)] by (simp add: choicey_def)
    then show ?thesis using True 2 grows_trans [OF 2(2) grows_set_curr_val] by (simp add: ch_def)
  next
    case False
    then have "ch = Inr K1" unfolding ch_def by (rule if_not_P)
    then show ?thesis by simp
  qed
  then obtain K2 where 2: "ch = Inr K2" "grows {} K1 K2" by blast
  note g2 = grows_trans [OF g1 2(2)]
  have ty: "s_type (sym_at K2 s) \<notin> {S_INT, S_HEX}"
  proof -
    have "in_table K s" using s by (simp add: reach_def)
    from wf_symbol [OF ready_wf [OF k] this] c shapeD(2) [OF growsD(4) [OF g2, of s]] show ?thesis
      by (simp add: symbol_ok_def Let_def)
  qed
  define K3 where "K3 = note_change s old K2"
  have g3: "grows {} K K3" using grows_trans [OF g2 grows_note_change] by (simp add: K3_def)
  have it: "in_table K3 s" using s in_table_grows [OF g3] by (simp add: reach_def)
  from mark_choice_values_runs [OF ready_wf [OF ready_grows [OF g3 k room_empty]] it, of "{}"] obtain K4 where
    4: "mark_choice_values s K3 = Inr K4" "grows {} K3 K4" by (auto simp: runs_def)
  define K5 where "K5 = (if has_flag SYMBOL_AUTO (sym_at K4 s) then upd_symbol s (clear_flag SYMBOL_WRITE) K4 else K4)"
  have g5: "grows {} K K5" using grows_trans [OF grows_trans [OF g3 4(2)] grows_marks(3)] grows_trans [OF g3 4(2)]
    by (simp add: K5_def)
  have e: "finish_value calc s old v K = (if need (sym_at K5 s) then set_all_choice_values s K5 else Inr K5)"
    unfolding finish_value_def Let_def K1_def [symmetric] ch_def [symmetric] 2(1) bindE_Inr
    using ty 4(1) by (simp add: sym_validate_range_def K3_def [symmetric] K5_def [symmetric] need_def)
  show ?thesis
  proof (cases "need (sym_at K5 s)")
    case True
    then have "need (sym_at K s)" using growsD(5) [OF g5, of s] by (simp add: sym_step_def)
    then have "sym_is_choice (sym_at K5 s)" using need shapeD(3) [OF growsD(4) [OF g5, of s]] by simp
    moreover have "in_table K5 s" using s in_table_grows [OF g5] by (simp add: reach_def)
    ultimately have "runs {} K5 (set_all_choice_values s K5) (\<lambda>_. True)"
      using set_all_choice_values_runs [OF ready_wf [OF ready_grows [OF g5 k room_empty]]] True by simp
    then show ?thesis using runs_from [OF g5] True by (simp add: e)
  next
    case False
    then show ?thesis using g5 by (simp add: e runs_def)
  qed
qed

end

section \<open>The work left\<close>

lemma work_less:
  assumes "grows X K K'" and "in_table K s" and "points (sym_at K' s) + d \<le> points (sym_at K s)"
  shows "work K' + d \<le> work K"
proof -
  have le: "points (sym_at K' t) \<le> points (sym_at K t)" for t by (rule sym_step_points [OF growsD(5) [OF assms(1)]])
  have "sum_list (map (\<lambda>t. points (sym_at K' t)) ts) + d \<le> sum_list (map (\<lambda>t. points (sym_at K t)) ts)" if "s \<in> set ts" for ts
    using that
  proof (induction ts)
    case (Cons t ts)
    have "sum_list (map (\<lambda>t. points (sym_at K' t)) ts) \<le> sum_list (map (\<lambda>t. points (sym_at K t)) ts)"
      by (rule sum_list_mono) (rule le)
    with Cons assms(3) le [of t] show ?case by auto
  qed simp
  then show ?thesis using assms(2) table_symbols_grows [OF assms(1)] by (simp add: work_def in_table_iff)
qed

lemma static_values:
  "statics_calculated K \<Longrightarrow> is_string (sv_val (s_curr (sym_at K symbol_no)))"
  "statics_calculated K \<Longrightarrow> is_string (sv_val (s_curr (sym_at K symbol_empty)))"
  by (simp_all add: statics_calculated_def symbol_no_init_def symbol_empty_init_def static_symbol_def)

end
