(* ===== verification/SymMain.thy ===== *)
theory SymMain
  imports SymCorrect
begin

text \<open>
  One call of \<open>sym_calc_value\<close>, from the contract of the calls it makes, and the contract of the
  recursion: with a depth above the work that is left no call runs out of it, none faults, and the
  symbol it was called for has its value.
\<close>

section \<open>The work a call uses up\<close>

lemma ready_start:
  assumes k: "ready r (Suc m) l K" and g: "grows X K K1" and x: "room r l' X" and l: "l' \<le> l"
    and t: "in_table K s" "points (sym_at K1 s) + 1 \<le> points (sym_at K s)"
  shows "ready r m l' K1"
proof -
  have "ready r (Suc m) l' K" using k l by (auto simp: ready_def)
  from ready_grows [OF g this x] have "wf_table r K1 \<and> (\<forall>s \<in> set (table_symbols K1). bad (sym_at K1 s) \<longrightarrow> l' \<le> r s)"
    by (simp add: ready_def)
  moreover have "work K1 \<le> m" using work_less [OF g t] k by (simp add: ready_def)
  ultimately show ?thesis by (simp add: ready_def)
qed

lemma not_static: "wf_table r K \<Longrightarrow> \<not> valid (sym_at K s) \<Longrightarrow> {s} \<subseteq> range config_symbol"
  by (cases s) (auto simp: wf_table_def statics_calculated_def)

lemma settled_grows:
  assumes g: "grows {s} K K'" and "\<not> valid (sym_at K s)" and "\<not> bad (sym_at K' s)"
  shows "grows {} K K'"
  unfolding grows_def
proof (intro conjI allI)
  fix t
  show "sym_step (t \<in> {}) (sym_at K t) (sym_at K' t)"
    using growsD(5) [OF g, of t] assms(2,3) by (cases "t = s") (auto simp: sym_step_def)
qed (use g in \<open>simp_all add: grows_def\<close>)

lemma points_valid:
  "\<not> valid y \<Longrightarrow> points (set_flag SYMBOL_VALID y) + 1 \<le> points y"
  by (simp add: points_def valid_def need_def flag_bits flag_updates)

lemma points_need:
  "need y \<Longrightarrow> points (clear_flag SYMBOL_NEED_SET_CHOICE_VALUES y) + 1 \<le> points y"
  by (simp add: points_def valid_def need_def flag_bits flag_updates)

section \<open>A symbol outside choices\<close>

text \<open>What a call stores for it.\<close>

definition value_spec :: "kconfig \<Rightarrow> sym \<Rightarrow> bool" where
  "value_spec K s \<longleftrightarrow>
     (s_type (sym_at K s) \<notin> {S_UNKNOWN, S_OTHER} \<and> all_plain K s \<longrightarrow> visibility_spec K s) \<and>
     (s_type (sym_at K s) \<in> {S_BOOLEAN, S_TRISTATE} \<longrightarrow> tristate_bounds K s (sv_tri (s_curr (sym_at K s))))"

context calc_contract
begin

lemma plain_body:
  assumes k: "ready r m (r s) K" and s: "reach r (r s) K s" and x: "room r (r s) {s}" and kn: "known K s"
    and n: "s \<notin> set (symbol_deps (modules_sym (conf K)) (sym_at K s))"
    and ty: "s_type (sym_at K s) \<notin> {S_UNKNOWN, S_OTHER}" and v: "is_string (sv_val v)"
  shows "runs {s} K (bindE (sym_calc_visibility calc s K) (\<lambda>K.
      bindE (new_value calc s v (set_curr s v K)) (\<lambda>(v, K). finish_value calc s old v K)))
    (\<lambda>K'. is_string (sv_val (s_curr (sym_at K' s))) \<and> value_spec K' s)"
proof -
  have up: "grows {s} A B" if "grows {} A B" for A B using grows_mono [OF that] by simp
  obtain K1 where
    1: "sym_calc_visibility calc s K = Inr K1" "grows {s} K K1" "all_plain K s \<longrightarrow> visibility_spec K1 s"
    using visibility_runs [OF k s x(1)] kn by (auto simp: runs_def)
  have kn1: "known K1 s" using growsD(5) [OF 1(2), of s] choicey_grows [OF 1(2), of s] kn by (auto simp: known_def sym_step_def)
  define K2 where "K2 = set_curr s v K1"
  have g12: "grows {s} K1 K2" unfolding K2_def by (rule grows_set_curr) simp
  note g2 = grows_trans [OF 1(2) g12]
  note k2 = ready_grows [OF g2 k x]
  have s2: "reach r (r s) K2 s" using s reach_grows [OF g2] by simp
  have kn2: "known K2 s" using kn1 by (simp add: K2_def set_curr_def known_def)
  have c12: "close (sym_at K1 s) (sym_at K2 s)" by (simp add: K2_def set_curr_def close_def sym_has_value_def has_flag_def)
  have ty2: "s_type (sym_at K2 s) \<notin> {S_UNKNOWN, S_OTHER}" using ty shapeD(2) [OF growsD(4) [OF g2, of s]] by simp
  from new_value_gives [OF k2 s2 ty2 v] kn2 obtain w K3 where
    3: "new_value calc s v K2 = Inr (w, K3)" "grows {} K2 K3" "is_string (sv_val w)"
      "s_type (sym_at K2 s) \<in> {S_BOOLEAN, S_TRISTATE} \<longrightarrow> tristate_bounds K3 s (sv_tri w)" by (auto simp: gives_def)
  note g3 = grows_trans [OF g2 up [OF 3(2)]]
  have kn3: "known K3 s" using known_grows [OF 3(2) kn2] by simp
  have s3: "reach r (r s) K3 s" using s reach_grows [OF g3] by simp
  from finish_plain [OF ready_grows [OF g3 k x] s3 x kn3 3(3), of old] obtain K4 where
    4: "finish_value calc s old w K3 = Inr K4" "grows {s} K3 K4" "is_string (sv_val (s_curr (sym_at K4 s)))"
      "sv_tri (s_curr (sym_at K4 s)) = sv_tri w" "close (sym_at K3 s) (sym_at K4 s)" by (auto simp: runs_def)
  have g14: "grows {s} K1 K4" by (rule grows_trans [OF grows_trans [OF g12 up [OF 3(2)]] 4(2)])
  have c23: "close (sym_at K2 s) (sym_at K3 s)" using frozen_close [OF frozen_grows [OF 3(2) kn2]] by simp
  have c14: "close (sym_at K1 s) (sym_at K4 s)" by (rule close_trans [OF close_trans [OF c12 c23] 4(5)])
  have n1: "s \<notin> set (symbol_deps (modules_sym (conf K1)) (sym_at K1 s))"
    using n symbol_deps_shape [OF growsD(4) [OF 1(2)]] growsD(3) [OF 1(2)] by simp
  have "visibility_spec K4 s" if "all_plain K4 s"
    using visibility_spec_other [OF g14 c14 n1] 1(3) that all_plain_grows [OF g14] all_plain_grows [OF 1(2)] by simp
  moreover have "tristate_bounds K4 s (sv_tri (s_curr (sym_at K4 s)))" if "s_type (sym_at K4 s) \<in> {S_BOOLEAN, S_TRISTATE}"
    using that 3(4) 4(4) tristate_bounds_close [OF 4(5)] shapeD(2) [OF growsD(4) [OF 4(2), of s]]
      shapeD(2) [OF growsD(4) [OF 3(2), of s]] by simp
  ultimately have "value_spec K4 s" by (simp add: value_spec_def)
  moreover have "grows {s} K K4" by (rule grows_trans [OF g3 4(2)])
  ultimately show ?thesis using 1(1) 3(1) 4(1,3) by (simp add: runs_def K2_def)
qed


lemma call_plain:
  assumes k: "ready r (Suc m) l K" and t: "in_table K s" "r s < l" and c: "\<not> choicey (sym_at K s)"
    and nv: "\<not> valid (sym_at K s)"
  shows "runs {} K (calc_body calc s K) (\<lambda>K'. settled_value (sym_at K' s) \<and> value_spec K' s)"
proof -
  have wf: "wf_table r K" using k by (rule ready_wf)
  have x: "room r (r s) {s}" using not_static [OF wf nv] by (simp add: room_def)
  define K1 where "K1 = upd_symbol s (set_flag SYMBOL_VALID) K"
  have g1: "grows {s} K K1" unfolding K1_def by (rule grows_set_valid) simp
  have k1: "ready r m (r s) K1"
    by (rule ready_start [OF k g1 x _ t(1)]) (use t(2) points_valid [OF nv] in \<open>simp_all add: K1_def\<close>)
  have kn1: "known K1 s" using c by (simp add: K1_def known_def step_defs)
  have rk: "\<And>u. u \<in> set (symbol_deps (modules_sym (conf K)) (sym_at K s)) \<Longrightarrow> in_table K u \<and> r u < r s"
    using wf_symbol [OF wf t(1)] c by (simp add: ranked_def)
  have "reach r (r s) K s" using rk t(1) by (simp add: reach_def within_def)
  then have s1: "reach r (r s) K1 s" using reach_grows [OF g1] by simp
  have n1: "s \<notin> set (symbol_deps (modules_sym (conf K1)) (sym_at K1 s))"
    using rk symbol_deps_shape [OF growsD(4) [OF g1]] growsD(3) [OF g1] by auto
  have cv: "\<not> sym_is_choice_value (sym_at K s)" "\<not> sym_is_choice_value (sym_at K1 s)"
    using c shapeD(4) [OF growsD(4) [OF g1, of s]] by (simp_all add: choicey_def)
  have stored: "runs {} K (calc_body calc s K) (\<lambda>K'. settled_value (sym_at K' s) \<and> value_spec K' s)"
    if "calc_body calc s K = Inr K'" "grows {s} K1 K'" "is_string (sv_val (s_curr (sym_at K' s)))" "value_spec K' s" for K'
  proof -
    have "\<not> bad (sym_at K' s)" using that(3) by (simp add: bad_def)
    moreover have "known K' s" using growsD(5) [OF that(2), of s] choicey_grows [OF that(2), of s] kn1
      by (auto simp: known_def sym_step_def)
    ultimately show ?thesis using that settled_grows [OF grows_trans [OF g1 that(2)] nv]
      by (simp add: runs_def settled_value_def known_def)
  qed
  have nn: "\<not> (sym_is_choice_value (sym_at K s) \<and> has_flag SYMBOL_NEED_SET_CHOICE_VALUES (sym_at K s))" using cv(1) by simp
  define old where "old = s_curr (sym_at K1 s)"
  define v where "v = s_curr (sym_at K1 (if s_type (sym_at K1 s) = S_BOOLEAN \<or> s_type (sym_at K1 s) = S_TRISTATE then symbol_no else symbol_empty))"
  define K2 where "K2 = upd_symbol s (clear_flag SYMBOL_WRITE) K1"
  define K2' where "K2' = set_curr s \<lparr>sv_val = (case s_name (sym_at K1 s) of None \<Rightarrow> NullVal | Some nm \<Rightarrow> StrVal nm), sv_tri = no\<rparr> K1"
  have b: "calc_body calc s K = (if s_type (sym_at K1 s) = S_UNKNOWN \<or> s_type (sym_at K1 s) = S_OTHER then Inr K2'
     else bindE (sym_calc_visibility calc s K2) (\<lambda>K. bindE (new_value calc s v (set_curr s v K)) (\<lambda>(v, K). finish_value calc s old v K)))"
    unfolding calc_body_def if_not_P [OF nv [unfolded valid_def]] if_not_P [OF nn] bindE_Inr Let_def K1_def [symmetric] if_P [OF cv(2)]
      K2'_def [symmetric] K2_def [symmetric] v_def [symmetric] old_def [symmetric] by (rule refl)
  show ?thesis
  proof (cases "s_type (sym_at K1 s) = S_UNKNOWN \<or> s_type (sym_at K1 s) = S_OTHER")
    case True
    obtain nm where nm: "s_name (sym_at K1 s) = Some nm"
      using wf_symbol [OF wf t(1)] c shapeD(1) [OF growsD(4) [OF g1, of s]] by (auto simp: symbol_ok_def Let_def)
    have "calc_body calc s K = Inr K2'" unfolding b by (rule if_P [OF True])
    moreover have "grows {s} K1 K2'" unfolding K2'_def by (rule grows_set_curr) simp
    moreover have "is_string (sv_val (s_curr (sym_at K2' s)))" using nm by (simp add: K2'_def set_curr_def)
    moreover have "value_spec K2' s" using True by (auto simp: value_spec_def K2'_def set_curr_def)
    ultimately show ?thesis by (rule stored)
  next
    case False
    have v: "is_string (sv_val v)"
      using static_values ready_wf [OF k1] by (simp add: wf_table_def v_def)
    have g2: "grows {} K1 K2" by (simp add: K2_def)
    have n2: "s \<notin> set (symbol_deps (modules_sym (conf K2)) (sym_at K2 s))"
      using n1 symbol_deps_shape [OF growsD(4) [OF g2]] growsD(3) [OF g2] by simp
    have ty2: "s_type (sym_at K2 s) \<notin> {S_UNKNOWN, S_OTHER}" using False by (simp add: K2_def)
    have s2: "reach r (r s) K2 s" using s1 reach_grows [OF g2] by simp
    have kn2: "known K2 s" using known_grows [OF g2 kn1] by simp
    from plain_body [OF ready_grows [OF g2 k1 room_empty] s2 x kn2 n2 ty2 v, of old] obtain K3 where
      3: "bindE (sym_calc_visibility calc s K2) (\<lambda>K.
            bindE (new_value calc s v (set_curr s v K)) (\<lambda>(v, K). finish_value calc s old v K)) = Inr K3"
        "grows {s} K2 K3" "is_string (sv_val (s_curr (sym_at K3 s)))" "value_spec K3 s" by (auto simp: runs_def)
    have "calc_body calc s K = Inr K3" unfolding b if_not_P [OF False] by (rule 3(1))
    moreover have "grows {s} K1 K3" using grows_trans [OF grows_mono [OF g2] 3(2)] by simp
    ultimately show ?thesis using 3(3,4) by (rule stored)
  qed
qed

lemma choicey_body:
  assumes k: "ready r m l K" and t: "in_table K s" "r s < l" and c: "choicey (sym_at K s)"
    and nd: "need (sym_at K s) \<longrightarrow> sym_is_choice (sym_at K s)" and ty: "s_type (sym_at K s) \<notin> {S_UNKNOWN, S_OTHER}"
    and v: "is_string (sv_val v)"
  shows "runs {} K (bindE (sym_calc_visibility calc s K) (\<lambda>K.
      bindE (new_value calc s v (set_curr s v K)) (\<lambda>(v, K). finish_value calc s old v K))) (\<lambda>_. True)"
proof -
  have s: "reach r l K s" by (rule reach_choicey [OF ready_wf [OF k] t(1) c t(2)])
  obtain K1 where 1: "sym_calc_visibility calc s K = Inr K1" "grows {} K K1"
    using visibility_runs [OF k s room_empty] c by (auto simp: runs_def)
  define K2 where "K2 = set_curr s v K1"
  have g12: "grows {} K1 K2" unfolding K2_def by (rule grows_set_curr) (use c choicey_grows [OF 1(2)] in simp)
  note g2 = grows_trans [OF 1(2) g12]
  have s2: "reach r l K2 s" using s reach_grows [OF g2] by simp
  have ty2: "s_type (sym_at K2 s) \<notin> {S_UNKNOWN, S_OTHER}" using ty shapeD(2) [OF growsD(4) [OF g2, of s]] by simp
  from new_value_gives [OF ready_grows [OF g2 k room_empty] s2 ty2 v] obtain w K3 where
    3: "new_value calc s v K2 = Inr (w, K3)" "grows {} K2 K3" by (auto simp: gives_def)
  note g3 = grows_trans [OF g2 3(2)]
  have s3: "reach r l K3 s" using s reach_grows [OF g3] by simp
  have c3: "choicey (sym_at K3 s)" using c choicey_grows [OF g3] by simp
  have nd3: "need (sym_at K3 s) \<longrightarrow> sym_is_choice (sym_at K3 s)"
    using nd growsD(5) [OF g3, of s] shapeD(3) [OF growsD(4) [OF g3, of s]] by (simp add: sym_step_def)
  from finish_choicey [OF ready_grows [OF g3 k room_empty] s3 t(2) c3 nd3, of old w] obtain K4 where
    4: "finish_value calc s old w K3 = Inr K4" "grows {} K3 K4" by (auto simp: runs_def)
  show ?thesis using 1(1) 3(1) 4(1) grows_trans [OF g3 4(2)] by (simp add: runs_def K2_def)
qed

text \<open>A choice value first has its choice settle the user's values, when that is still to do.\<close>

lemma call_choicey:
  assumes k: "ready r (Suc m) l K" and t: "in_table K s" "r s < l" and c: "choicey (sym_at K s)"
    and nv: "\<not> valid (sym_at K s)"
  shows "runs {} K (calc_body calc s K) (\<lambda>_. True)"
proof -
  define start where "start = (if sym_is_choice_value (sym_at K s) \<and> need (sym_at K s)
     then bindE (deref (sym_get_choice_prop (sym_at (upd_symbol s (clear_flag SYMBOL_NEED_SET_CHOICE_VALUES) K) s)))
       (\<lambda>p. bindE (prop_get_symbol p) (\<lambda>c. case c of None \<Rightarrow> Inr (upd_symbol s (clear_flag SYMBOL_NEED_SET_CHOICE_VALUES) K)
          | Some c \<Rightarrow> calc c (upd_symbol s (clear_flag SYMBOL_NEED_SET_CHOICE_VALUES) K)))
     else Inr K)"
  obtain K1 where K1: "start = Inr K1" "grows {} K K1" "ready r m l (upd_symbol s (set_flag SYMBOL_VALID) K1)"
    "need (sym_at K1 s) \<longrightarrow> sym_is_choice (sym_at K1 s)"
  proof (cases "sym_is_choice_value (sym_at K s) \<and> need (sym_at K s)")
    case True
    define K0 where "K0 = upd_symbol s (clear_flag SYMBOL_NEED_SET_CHOICE_VALUES) K"
    have g0: "grows {} K K0" unfolding K0_def by (rule grows_clear_need) (simp add: c)
    have k0: "ready r m l K0"
      by (rule ready_start [OF k g0 room_empty order_refl t(1)]) (use True points_need in \<open>simp add: K0_def\<close>)
    have sh: "shape (sym_at K0 s) = shape (sym_at K s)" by (rule growsD(4) [OF g0])
    obtain d where d: "choice_of K0 s = Inr d"
      using wf_symbol [OF ready_wf [OF k] t(1)] True choice_of_shape [OF sh] by (auto simp: symbol_ok_def Let_def)
    have it: "in_table K0 s" "choicey (sym_at K0 s)" using t(1) c in_table_grows [OF g0] choicey_grows [OF g0] by simp_all
    have "in_table K0 d \<and> r d \<le> r s"
      using wf_symbol [OF ready_wf [OF k0] it(1)] it(2) choice_in_deps [OF d] by (auto simp: ranked_def)
    with t(2) have "in_table K0 d" "r d < l" by simp_all
    from calc_runs [OF k0 this] obtain K1 where 1: "calc d K0 = Inr K1" "grows {} K0 K1" by (auto simp: runs_def)
    from d obtain p where "sym_get_choice_prop (sym_at K0 s) = Some p" "prop_get_symbol p = Inr (Some d)"
      by (auto simp: choice_of_def)
    then have "start = Inr K1" using True 1(1) by (simp add: start_def K0_def [symmetric])
    moreover have "\<not> need (sym_at K1 s)" using growsD(5) [OF 1(2), of s] by (auto simp: sym_step_def K0_def need_def flag_bits flag_updates)
    moreover have "ready r m l (upd_symbol s (set_flag SYMBOL_VALID) K1)"
      using ready_grows [OF grows_trans [OF 1(2) grows_set_valid] k0 room_empty] it(2) choicey_grows [OF 1(2)] by simp
    ultimately show ?thesis using that grows_trans [OF g0 1(2)] by blast
  next
    case False
    have g1: "grows {} K (upd_symbol s (set_flag SYMBOL_VALID) K)" by (rule grows_set_valid) (simp add: c)
    have "ready r m l (upd_symbol s (set_flag SYMBOL_VALID) K)"
      by (rule ready_start [OF k g1 room_empty order_refl t(1)]) (use points_valid [OF nv] in simp)
    moreover have "need (sym_at K s) \<longrightarrow> sym_is_choice (sym_at K s)" using False c by (auto simp: choicey_def)
    moreover have "start = Inr K" unfolding start_def by (rule if_not_P [OF False])
    ultimately show ?thesis using that by simp
  qed
  define K2 where "K2 = upd_symbol s (set_flag SYMBOL_VALID) K1"
  have c1: "choicey (sym_at K1 s)" using c choicey_grows [OF K1(2)] by simp
  have g12: "grows {} K1 K2" unfolding K2_def by (rule grows_set_valid) (simp add: c1)
  note g2 = grows_trans [OF K1(2) g12]
  define old where "old = s_curr (sym_at K2 s)"
  define v where "v = s_curr (sym_at K2 (if s_type (sym_at K2 s) = S_BOOLEAN \<or> s_type (sym_at K2 s) = S_TRISTATE then symbol_no else symbol_empty))"
  define K3 where "K3 = (if \<not> sym_is_choice_value (sym_at K2 s) then upd_symbol s (clear_flag SYMBOL_WRITE) K2 else K2)"
  define K2' where "K2' = set_curr s \<lparr>sv_val = (case s_name (sym_at K2 s) of None \<Rightarrow> NullVal | Some nm \<Rightarrow> StrVal nm), sv_tri = no\<rparr> K2"
  have b: "calc_body calc s K = (if s_type (sym_at K2 s) = S_UNKNOWN \<or> s_type (sym_at K2 s) = S_OTHER then Inr K2'
     else bindE (sym_calc_visibility calc s K3) (\<lambda>K. bindE (new_value calc s v (set_curr s v K)) (\<lambda>(v, K). finish_value calc s old v K)))"
    unfolding calc_body_def if_not_P [OF nv [unfolded valid_def]] Let_def
      start_def [unfolded need_def Let_def, symmetric] K1(1) bindE_Inr K2_def [symmetric] K2'_def [symmetric] K3_def [symmetric]
      v_def [symmetric] old_def [symmetric] by (rule refl)
  show ?thesis
  proof (cases "s_type (sym_at K2 s) = S_UNKNOWN \<or> s_type (sym_at K2 s) = S_OTHER")
    case True
    have "choicey (sym_at K2 s)" using c1 choicey_grows [OF g12] by simp
    then have "grows {} K2 K2'" unfolding K2'_def by (intro grows_set_curr) simp
    then show ?thesis unfolding b if_P [OF True] using grows_trans [OF g2] by (simp add: runs_def)
  next
    case False
    have g23: "grows {} K2 K3" by (simp add: K3_def)
    note g3 = grows_trans [OF g2 g23]
    have k3: "ready r m l K3" using ready_grows [OF g23 K1(3) [folded K2_def] room_empty] .
    have 3: "in_table K3 s" "choicey (sym_at K3 s)" using t(1) c in_table_grows [OF g3] choicey_grows [OF g3] by simp_all
    have nd: "need (sym_at K3 s) \<longrightarrow> sym_is_choice (sym_at K3 s)"
      using K1(4) growsD(5) [OF grows_trans [OF g12 g23], of s] shapeD(3) [OF growsD(4) [OF grows_trans [OF g12 g23], of s]]
      by (simp add: sym_step_def)
    have ty: "s_type (sym_at K3 s) \<notin> {S_UNKNOWN, S_OTHER}" using False by (simp add: K3_def)
    have "is_string (sv_val v)" using static_values ready_wf [OF K1(3) [folded K2_def]] by (simp add: wf_table_def v_def)
    from choicey_body [OF k3 3(1) t(2) 3(2) nd ty this, of old] show ?thesis
      unfolding b if_not_P [OF False] by (rule runs_from [OF g3])
  qed
qed

end

end
