(* ===== verification/SymProps.thy ===== *)
theory SymProps
  imports SymMain
begin

text \<open>
  \<open>sym_calc_value\<close> on its own recursive calls, and the properties of the values it stores. The table
  \<open>sample\<close> shows that well-formed tables with prompts, defaults, a selected symbol and a comparison
  exist.
\<close>

section \<open>The recursion\<close>

lemma work_none:
  assumes "ready r 0 l K" and "in_table K s"
  shows "valid (sym_at K s)"
proof -
  have "\<forall>t \<in> set (table_symbols K). points (sym_at K t) = 0"
    using assms(1) by (simp add: ready_def work_def)
  then show ?thesis using assms(2) by (auto simp: in_table_iff points_def split: if_splits)
qed

lemma ready_settled:
  assumes "ready r m l K" and "in_table K s" and "r s < l" and "valid (sym_at K s)"
  shows "settled_value (sym_at K s)"
proof -
  have "\<not> bad (sym_at K s)" using assms by (auto simp: ready_def in_table_iff)
  then show ?thesis using assms(4) by (auto simp: settled_value_def bad_def)
qed

lemma body_runs:
  assumes c: "calc_contract calc r m" and k: "ready r (Suc m) l K" "in_table K s" "r s < l"
  shows "runs {} K (calc_body calc s K) (\<lambda>K'. settled_value (sym_at K' s))"
proof (cases "valid (sym_at K s)")
  case True
  then show ?thesis using ready_settled [OF k True] by (simp add: calc_body_def valid_def runs_def)
next
  case False
  show ?thesis
  proof (cases "choicey (sym_at K s)")
    case True
    have *: "settled_value (sym_at K' s)" if "grows {} K K'" for K' using True choicey_grows [OF that] by (simp add: settled_value_def)
    show ?thesis by (rule runs_mono [OF calc_contract.call_choicey [OF c k True False] order_refl]) (rule *)
  next
    case np: False
    show ?thesis by (rule runs_mono [OF calc_contract.call_plain [OF c k np False] order_refl]) blast
  qed
qed

lemma sym_calc_value_contract: "calc_contract (sym_calc_value (Suc m)) r m"
proof (induction m)
  case 0
  show ?case
  proof
    fix l K s
    assume k: "ready r 0 l K" "in_table K s" "r s < l"
    then have v: "valid (sym_at K s)" using work_none by blast
    show "runs {} K (sym_calc_value (Suc 0) s K) (\<lambda>K'. settled_value (sym_at K' s))"
      using v ready_settled [OF k v] by (simp add: calc_body_def valid_def runs_def)
  qed
next
  case (Suc m)
  show ?case
  proof
    fix l K s
    assume "ready r (Suc m) l K" "in_table K s" "r s < l"
    from body_runs [OF Suc this] show "runs {} K (sym_calc_value (Suc (Suc m)) s K) (\<lambda>K'. settled_value (sym_at K' s))"
      by (simp only: sym_calc_value.simps(2) [of "Suc m"])
  qed
qed

interpretation symval: calc_contract "sym_calc_value (Suc m)" r m for m r
  by (rule sym_calc_value_contract)

section \<open>Tables a calculation may start from\<close>

text \<open>No symbol is in the middle of its calculation.\<close>

definition calculable :: "(sym \<Rightarrow> nat) \<Rightarrow> kconfig \<Rightarrow> bool" where
  "calculable r K \<longleftrightarrow> wf_table r K \<and> (\<forall>s \<in> set (table_symbols K). \<not> bad (sym_at K s))"

text \<open>Each symbol can be calculated once, and a choice once more after its values are settled.\<close>

lemma work_bound:
  assumes "wf_table r K"
  shows "work K \<le> 3 * allocated K"
proof -
  have "points (sym_at K s) = 0" if "s \<in> {symbol_yes, symbol_mod, symbol_no, symbol_empty}" for s
  proof -
    have "s \<in> set (table_symbols K)" using that by (auto simp: table_symbols_def)
    then have "dyn (sym_at K s)" using assms by (simp add: wf_table_def symbol_ok_def Let_def)
    moreover have "valid (sym_at K s) \<and> \<not> choicey (sym_at K s)"
      using assms that by (auto simp: wf_table_def statics_calculated_def)
    ultimately show ?thesis by (auto simp: points_def dyn_def)
  qed
  moreover have "sum_list (map (\<lambda>n. points (sym_at K (config_symbol n))) ns) \<le> 3 * length ns" for ns
    by (induction ns) (auto simp: points_def)
  from this [of "[0..<allocated K]"] have "sum_list (map (\<lambda>n. points (sym_at K (config_symbol n))) [0..<allocated K]) \<le> 3 * allocated K"
    by simp
  ultimately show ?thesis by (simp add: work_def table_symbols_def o_def)
qed

lemma depth_contract:
  assumes c: "calculable r K" and d: "3 * allocated K < depth"
  obtains m where "depth = Suc m" "ready r m l K"
proof -
  from d obtain m where m: "depth = Suc m" by (cases depth) auto
  have "ready r m l K" using c work_bound [of r K] d m by (auto simp: ready_def calculable_def)
  with m show ?thesis by (rule that)
qed

section \<open>Example\<close>

text \<open>
  \<open>config A: bool, with a prompt, set to y by the user\<close>; \<open>config B: tristate, default A, with a prompt
  that A != n shows, selected by A\<close>; \<open>config MODULES: bool\<close>.
\<close>

definition sample_prompt :: "expr option \<Rightarrow> property" where
  "sample_prompt e = \<lparr>p_sym = None, p_type = P_PROMPT, p_text = Some ''prompt'', p_visible = \<lparr>ev_expr = e, ev_tri = no\<rparr>,
     p_expr = None, p_menu = None, p_file = ''Kconfig'', p_lineno = 1\<rparr>"

definition sample_default :: "expr \<Rightarrow> property" where
  "sample_default e = \<lparr>p_sym = None, p_type = P_DEFAULT, p_text = None, p_visible = no_expr_value,
     p_expr = Some (DepE e), p_menu = None, p_file = ''Kconfig'', p_lineno = 2\<rparr>"

definition sample_symbol :: "nat \<Rightarrow> symbol" where
  "sample_symbol n =
     (if n = 0 then blank_symbol\<lparr>s_name := Some ''A'', s_type := S_BOOLEAN, s_prop := [sample_prompt None],
        s_flags := SYMBOL_DEF_USER, s_def := (\<lambda>_. \<lparr>sv_val = NullVal, sv_tri = yes\<rparr>)\<rparr>
      else if n = 1 then blank_symbol\<lparr>s_name := Some ''B'', s_type := S_TRISTATE,
        s_prop := [sample_prompt (Some (CmpE Neq (config_symbol 0) symbol_no)), sample_default (SymE (config_symbol 0))],
        s_dir_dep := \<lparr>ev_expr = Some (SymE (config_symbol 0)), ev_tri = no\<rparr>,
        s_rev_dep := \<lparr>ev_expr = Some (SymE (config_symbol 0)), ev_tri = no\<rparr>\<rparr>
      else blank_symbol\<lparr>s_name := Some ''MODULES'', s_type := S_BOOLEAN\<rparr>)"

definition sample :: kconfig where
  "sample = empty_table\<lparr>conf := \<lparr>symbols = case_sym symbol_yes_init symbol_mod_init symbol_no_init symbol_empty_init sample_symbol,
     modules_sym = config_symbol 2, modules_val = no\<rparr>, allocated := 3\<rparr>"

definition sample_rank :: "sym \<Rightarrow> nat" where
  "sample_rank s = (if s = config_symbol 1 then 2 else if s = config_symbol 0 then 1 else 0)"

lemmas sample_defs = sample_def empty_table_def sample_symbol_def sample_prompt_def sample_default_def sample_rank_def
  blank_symbol_def symbol_yes_init_def symbol_mod_init_def symbol_no_init_def symbol_empty_init_def static_symbol_def no_expr_value_def

lemma sample_flags:
  "valid (sym_at sample symbol_yes)" "valid (sym_at sample symbol_mod)" "valid (sym_at sample symbol_no)"
  "valid (sym_at sample symbol_empty)" "\<not> valid (sym_at sample (config_symbol n))" "\<not> choicey (sym_at sample s)"
  "\<not> need (sym_at sample s)"
  by (simp_all add: sample_defs valid_def has_flag_def choicey_def need_def sym_is_choice_def sym_is_choice_value_def
      SYMBOL_VALID_def SYMBOL_CONST_def SYMBOL_CHOICE_def SYMBOL_CHOICEVAL_def SYMBOL_DEF_USER_def
      SYMBOL_NEED_SET_CHOICE_VALUES_def split: sym.split)

lemma sample_symbols: "set (table_symbols sample) = {symbol_yes, symbol_mod, symbol_no, symbol_empty, config_symbol 0, config_symbol 1, config_symbol 2}"
proof -
  have "allocated sample = Suc (Suc (Suc 0))" by (simp add: sample_def)
  then show ?thesis by (auto simp: table_symbols_def)
qed

lemma sample_table: "in_table sample (config_symbol 0)" "in_table sample (config_symbol 1)" "3 * allocated sample < 10"
  by (simp_all add: in_table_def sample_def)

lemma sample_consts: "consts_untyped (conf sample)"
proof -
  have "is_const (conf sample) s = (s = symbol_yes \<or> s = symbol_mod \<or> s = symbol_no)" for s
    by (cases s) (simp_all add: is_const_def has_flag_def sample_defs SYMBOL_CONST_def SYMBOL_VALID_def SYMBOL_DEF_USER_def)
  moreover have "s_type (sym_at sample s) = S_UNKNOWN" if "s \<in> {symbol_yes, symbol_mod, symbol_no, symbol_empty}" for s
    using that by (auto simp: sample_defs)
  ultimately show ?thesis unfolding consts_untyped_def by auto
qed

lemma sample_fields:
  "s_prop (sym_at sample symbol_yes) = []" "s_prop (sym_at sample symbol_mod) = []" "s_prop (sym_at sample symbol_no) = []"
  "s_prop (sym_at sample symbol_empty) = []" "s_prop (sym_at sample (config_symbol 0)) = [sample_prompt None]"
  "s_prop (sym_at sample (config_symbol (Suc 0))) =
     [sample_prompt (Some (CmpE Neq (config_symbol 0) symbol_no)), sample_default (SymE (config_symbol 0))]"
  "s_prop (sym_at sample (config_symbol 2)) = []"
  "s_dir_dep (sym_at sample s) = (if s = config_symbol 1 then \<lparr>ev_expr = Some (SymE (config_symbol 0)), ev_tri = no\<rparr> else no_expr_value)"
  "s_rev_dep (sym_at sample s) = (if s = config_symbol 1 then \<lparr>ev_expr = Some (SymE (config_symbol 0)), ev_tri = no\<rparr> else no_expr_value)"
  "s_type (sym_at sample symbol_yes) = S_UNKNOWN" "s_type (sym_at sample symbol_mod) = S_UNKNOWN"
  "s_type (sym_at sample symbol_no) = S_UNKNOWN" "s_type (sym_at sample symbol_empty) = S_UNKNOWN"
  "s_type (sym_at sample (config_symbol 0)) = S_BOOLEAN" "s_type (sym_at sample (config_symbol (Suc 0))) = S_TRISTATE"
  "s_type (sym_at sample (config_symbol 2)) = S_BOOLEAN"
  "\<exists>nm. s_name (sym_at sample s) = Some nm" "sv_val (s_def (sym_at sample s) S_DEF_USER) = NullVal"
  "sv_val (s_curr (sym_at sample symbol_yes)) = StrVal ''y''" "sv_val (s_curr (sym_at sample symbol_mod)) = StrVal ''m''"
  "s_curr (sym_at sample symbol_no) = s_curr symbol_no_init" "s_curr (sym_at sample symbol_empty) = s_curr symbol_empty_init"
  "modules_sym (conf sample) = config_symbol 2"
  by (simp_all add: sample_defs split: sym.split)

lemma sample_ok: "s \<in> set (table_symbols sample) \<Longrightarrow> symbol_ok sample s"
  using sample_flags
  by (auto simp: sample_symbols symbol_ok_def Let_def choicey_def dyn_def prop_ok_def opt_cmp_ok_def comparable_def
      sample_fields no_expr_value_def sample_prompt_def sample_default_def)

lemma sample_deps:
  "symbol_deps m (sym_at sample symbol_yes) = []" "symbol_deps m (sym_at sample symbol_mod) = []"
  "symbol_deps m (sym_at sample symbol_no) = []" "symbol_deps m (sym_at sample symbol_empty) = []"
  "symbol_deps m (sym_at sample (config_symbol 0)) = []" "symbol_deps m (sym_at sample (config_symbol 2)) = []"
  "symbol_deps m (sym_at sample (config_symbol (Suc 0))) =
     [config_symbol 0, symbol_no, m, config_symbol 0, config_symbol 0, config_symbol 0]"
  by (simp_all add: sample_fields no_expr_value_def sample_prompt_def sample_default_def
        symbol_deps_def prop_deps_def opt_deps_def operand_deps_def evaluated_def)

lemma sample_ranked:
  assumes "s \<in> set (table_symbols sample)"
  shows "ranked sample_rank sample s"
proof -
  have m: "modules_sym (conf sample) = config_symbol 2" by (simp add: sample_def)
  have "\<forall>t \<in> set (symbol_deps (config_symbol 2) (sym_at sample s)). t \<in> set (table_symbols sample) \<and> sample_rank t < sample_rank s"
    using assms unfolding sample_symbols by (elim insertE) (simp_all add: sample_deps sample_rank_def)
  then show ?thesis using sample_flags(6) unfolding ranked_def m in_table_iff by simp
qed

lemma sample_calculable: "calculable sample_rank sample"
proof -
  have "statics_calculated sample" using sample_flags by (simp add: statics_calculated_def sample_fields)
  moreover have "\<not> bad (sym_at sample s)" if "s \<in> set (table_symbols sample)" for s
    using that sample_flags
    by (auto simp: sample_symbols bad_def sample_fields symbol_no_init_def symbol_empty_init_def static_symbol_def)
  ultimately show ?thesis using sample_consts sample_ok sample_ranked by (simp add: calculable_def wf_table_def)
qed

section \<open>Properties\<close>

lemma calculable_grows: "grows {} K K' \<Longrightarrow> calculable r K \<Longrightarrow> calculable r K'"
  using wf_table_grows [of "{}" K K' r] growsD(5) [of "{}" K K']
  by (auto simp: calculable_def table_symbols_grows sym_step_def)

lemma call_returns:
  assumes c: "calculable r K" and t: "in_table K s" and d: "3 * allocated K < depth"
  obtains K' where "sym_calc_value depth s K = Inr K'" "grows {} K K'" "settled_value (sym_at K' s)"
proof -
  obtain m where m: "depth = Suc m" "ready r m (Suc (r s)) K" by (rule depth_contract [OF c d])
  from symval.calc_runs [OF m(2) t lessI] m(1) show ?thesis using that by (auto simp: runs_def simp del: sym_calc_value.simps)
qed


text \<open>C29: \<open>sym_calc_value\<close> returns. Started on a table the parser accepts (dependencies ranked, the
  string of every calculated symbol present), with a depth above three times the number of symbols, it
  does not fault and does not run out of depth; the table it leaves is again such a table; the symbol
  is calculated, and calling it once more on a symbol outside choices changes nothing.\<close>

theorem sym_calc_value_returns:
  assumes "calculable r K" and "in_table K s" and "3 * allocated K < depth"
  shows "\<exists>K'. sym_calc_value depth s K = Inr K' \<and> calculable r K' \<and> settled_value (sym_at K' s) \<and>
    (\<not> choicey (sym_at K s) \<longrightarrow> sym_calc_value depth s K' = Inr K')"
proof -
  obtain K' where K': "sym_calc_value depth s K = Inr K'" "grows {} K K'" "settled_value (sym_at K' s)"
    by (rule call_returns [OF assms])
  obtain m where m: "depth = Suc m" using assms(3) by (cases depth) auto
  have "sym_calc_value depth s K' = Inr K'" if "\<not> choicey (sym_at K s)"
    using that K'(3) choicey_grows [OF K'(2)] m by (simp add: settled_value_def calc_body_def valid_def)
  with K' calculable_grows [OF K'(2) assms(1)] show ?thesis by blast
qed

lemma sym_calc_value_returns_witness:
  "\<exists>K'. sym_calc_value 10 (config_symbol 1) sample = Inr K' \<and> settled_value (sym_at K' (config_symbol 1))"
proof -
  from sym_calc_value_returns [OF sample_calculable sample_table(2,3)] show ?thesis by blast
qed

text \<open>C30: What is calculated stays: a call of \<open>sym_calc_value\<close>, whatever symbols it visits, changes
  neither the value, visibility nor dependency values of a symbol outside choices that was calculated
  before, nor the name, type, expressions and properties of any symbol.\<close>

theorem calculated_values_stay:
  assumes "calculable r K" and "in_table K s" and "3 * allocated K < depth"
  shows "\<exists>K'. sym_calc_value depth s K = Inr K' \<and> (\<forall>t. shape (sym_at K' t) = shape (sym_at K t)) \<and>
    (\<forall>t. known K t \<longrightarrow> known K' t \<and> frozen (sym_at K t) (sym_at K' t))"
proof -
  obtain K' where K': "sym_calc_value depth s K = Inr K'" "grows {} K K'" by (rule call_returns [OF assms])
  then show ?thesis using growsD(4) [OF K'(2)] known_grows [OF K'(2)] frozen_grows [OF K'(2)] by blast
qed

lemma calculated_values_stay_witness:
  "\<exists>K'. sym_calc_value 10 (config_symbol 1) sample = Inr K' \<and> frozen (sym_at sample symbol_yes) (sym_at K' symbol_yes)"
proof -
  have "known sample symbol_yes" using sample_flags by (simp add: known_def)
  then show ?thesis using calculated_values_stay [OF sample_calculable sample_table(2,3)] by blast
qed

text \<open>C31: Evaluating an expression with the symbols calculated on the way gives the value that the
  expression has in the final table by the reference definition, when no symbol of it belongs to a choice.\<close>

theorem calc_expr_is_expr_calc_value:
  assumes "calculable r K" and "\<forall>s \<in> set (expr_deps (modules_sym (conf K)) e). in_table K s \<and> \<not> choicey (sym_at K s)"
    and "3 * allocated K < depth"
  shows "\<exists>K'. calc_expr (sym_calc_value depth) e K = Inr (expr_calc_value (conf K') e, K') \<and> calculable r K'"
proof -
  let ?l = "Suc (sum_list (map r (expr_deps (modules_sym (conf K)) e)))"
  obtain m where m: "depth = Suc m" "ready r m ?l K" by (rule depth_contract [OF assms(1,3)])
  have "within r ?l K (expr_deps (modules_sym (conf K)) e)"
    using assms(2) member_le_sum_list [of _ "map r (expr_deps (modules_sym (conf K)) e)"] by (auto simp: within_def less_Suc_eq_le)
  moreover have "cmp_ok K f" if "\<forall>s \<in> set (expr_deps (modules_sym (conf K)) f). \<not> choicey (sym_at K s)" for f
    using that by (induction f) (auto simp: comparable_def)
  then have "cmp_ok K e" using assms(2) by blast
  moreover have "plain_syms K (expr_deps (modules_sym (conf K)) e)" using assms(2) by (simp add: plain_syms_def)
  ultimately obtain K' where "calc_expr (sym_calc_value depth) e K = Inr (expr_calc_value (conf K') e, K')" "grows {} K K'"
    using symval.calc_expr_gives [OF m(2)] m(1) by (auto simp: gives_def simp del: sym_calc_value.simps)
  with calculable_grows assms(1) show ?thesis by blast
qed

lemma calc_expr_is_expr_calc_value_witness:
  "\<exists>K'. calc_expr (sym_calc_value 10) (BinE Conj (SymE (config_symbol 0)) (CmpE Neq (config_symbol 1) symbol_no)) sample =
     Inr (expr_calc_value (conf K') (BinE Conj (SymE (config_symbol 0)) (CmpE Neq (config_symbol 1) symbol_no)), K')"
proof -
  let ?e = "BinE Conj (SymE (config_symbol 0)) (CmpE Neq (config_symbol 1) symbol_no)"
  have "\<forall>s \<in> set (expr_deps (modules_sym (conf sample)) ?e). in_table sample s \<and> \<not> choicey (sym_at sample s)"
    using sample_flags(6) by (auto simp: in_table_def sample_def)
  from calc_expr_is_expr_calc_value [OF sample_calculable this sample_table(3)] show ?thesis by blast
qed





end
