(* ===== verification/SymSet.thy ===== *)
theory SymSet
  imports SymCalc
begin

text \<open>
  The other operations of \<open>kconfig/symbol.c\<close>: setting a symbol from a user interface, default strings,
  expansion of \<open>$NAME\<close> in strings, searching, and the symbols from the environment. \<open>calc\<close> is
  \<open>sym_calc_value\<close>. What the code asks of the system is an argument: the release string of \<open>uname\<close>, the
  environment, and the matches of a regular expression.
\<close>

section \<open>Counting changes\<close>

definition sym_set_change_count :: "int \<Rightarrow> kconfig \<Rightarrow> kconfig" where
  "sym_set_change_count count K =
     (let old = sym_change_count K; K = K\<lparr>sym_change_count := count\<rparr>
      in if conf_changed_callback K \<and> (old \<noteq> 0) \<noteq> (count \<noteq> 0) then K\<lparr>messages := messages K @ [ConfChanged]\<rparr> else K)"

definition sym_add_change_count :: "int \<Rightarrow> kconfig \<Rightarrow> kconfig" where
  "sym_add_change_count count K = sym_set_change_count (count + sym_change_count K) K"

definition conf_get_changed :: "kconfig \<Rightarrow> bool" where
  "conf_get_changed K \<longleftrightarrow> sym_change_count K \<noteq> 0"

section \<open>Setting a symbol\<close>

definition sym_clear_all_valid :: "calc \<Rightarrow> kconfig \<Rightarrow> kconfig result" where
  "sym_clear_all_valid calc K =
     (let K = sym_add_change_count 1 (fold (\<lambda>s. upd_symbol s (clear_flag SYMBOL_VALID)) (all_symbols K) K)
      in calc (modules_sym (conf K)) K)"

text \<open>
  The loop over the values of a choice, \<open>e->right.sym\<close> without the test of \<open>expr_list_for_each_sym\<close>; a
  symbol expression has no right operand.
\<close>

definition list_right_symbols :: "prop_expr option \<Rightarrow> sym list result" where
  "list_right_symbols e =
     (case e of None \<Rightarrow> Inr [] | Some (ListE ss) \<Rightarrow> Inr ss | Some (DepE (SymE _)) \<Rightarrow> Inl NullDeref | Some _ \<Rightarrow> Inl BadCast)"

definition mark_if_visible :: "sym \<Rightarrow> kconfig \<Rightarrow> kconfig" where
  "mark_if_visible d K = (if s_visible (sym_at K d) \<noteq> no then upd_symbol d (set_flag SYMBOL_DEF_USER) K else K)"

definition choose_value :: "sym \<Rightarrow> kconfig \<Rightarrow> kconfig result" where
  "choose_value s K =
     bindE (choice_of K s) (\<lambda>cs.
     let K = upd_symbol cs (set_flag SYMBOL_DEF_USER) (upd_symbol cs (set_user_val (SymVal s)) K) in
     bindE (deref (sym_get_choice_prop (sym_at K cs))) (\<lambda>p.
     bindE (list_right_symbols (p_expr p)) (\<lambda>ds. Inr (fold mark_if_visible ds K))))"

definition user_flag :: "sym \<Rightarrow> kconfig \<Rightarrow> kconfig" where
  "user_flag s K =
     (if \<not> has_flag SYMBOL_DEF_USER (sym_at K s) then sym_set_changed s (upd_symbol s (set_flag SYMBOL_DEF_USER) K) else K)"

definition sym_set_tristate_value :: "calc \<Rightarrow> sym \<Rightarrow> tristate \<Rightarrow> kconfig \<Rightarrow> (bool \<times> kconfig) result" where
  "sym_set_tristate_value calc s val K =
     (let oldval = sym_get_tristate_value (sym_at K s) in
      if oldval \<noteq> val \<and> \<not> sym_tristate_within_range s val K then Inr (False, K)
      else
        let K = user_flag s K in
        bindE (if sym_is_choice_value (sym_at K s) \<and> val = yes then choose_value s K else Inr K) (\<lambda>K.
        let K = upd_symbol s (set_user_tri val) K in
        bindE (if oldval \<noteq> val then sym_clear_all_valid calc K else Inr K) (\<lambda>K. Inr (True, K))))"

fun next_tristate :: "tristate \<Rightarrow> tristate" where
  "next_tristate no = tri_mod"
| "next_tristate tri_mod = yes"
| "next_tristate yes = no"

text \<open>How many more values the loop tries after \<open>newval\<close> before it is back at \<open>oldval\<close>.\<close>

definition turns :: "tristate \<Rightarrow> tristate \<Rightarrow> nat" where
  "turns oldval newval =
     (if next_tristate newval = oldval then 0 else if next_tristate (next_tristate newval) = oldval then 1 else 2)"

function toggle_loop :: "calc \<Rightarrow> sym \<Rightarrow> tristate \<Rightarrow> tristate \<Rightarrow> kconfig \<Rightarrow> (tristate \<times> kconfig) result" where
  "toggle_loop calc s oldval newval K =
     bindE (sym_set_tristate_value calc s (next_tristate newval) K) (\<lambda>(ok, K).
     if ok then Inr (next_tristate newval, K)
     else if oldval \<noteq> next_tristate newval then toggle_loop calc s oldval (next_tristate newval) K
     else Inr (next_tristate newval, K))"
  by pat_completeness auto

lemma turns_less: "oldval \<noteq> next_tristate newval \<Longrightarrow> turns oldval (next_tristate newval) < turns oldval newval"
  by (cases oldval; cases newval) (simp_all add: turns_def)

termination toggle_loop
  by (relation "measure (\<lambda>(calc, s, oldval, newval, K). turns oldval newval)") (auto intro: turns_less)

definition sym_toggle_tristate_value :: "calc \<Rightarrow> sym \<Rightarrow> kconfig \<Rightarrow> (tristate \<times> kconfig) result" where
  "sym_toggle_tristate_value calc s K =
     (let v = sym_get_tristate_value (sym_at K s) in toggle_loop calc s v v K)"

text \<open>The truth value a string begins with.\<close>

definition first_letter :: "string \<Rightarrow> tristate option" where
  "first_letter str =
     (case str of [] \<Rightarrow> None
      | c # _ \<Rightarrow> if c = CHR ''y'' \<or> c = CHR ''Y'' then Some yes else if c = CHR ''m'' \<or> c = CHR ''M'' then Some tri_mod
          else if c = CHR ''n'' \<or> c = CHR ''N'' then Some no else None)"

definition number_within_range :: "calc \<Rightarrow> sym \<Rightarrow> nat \<Rightarrow> string \<Rightarrow> kconfig \<Rightarrow> (bool \<times> kconfig) result" where
  "number_within_range calc s base str K =
     (if \<not> sym_string_valid (s_type (sym_at K s)) str then Inr (False, K)
      else
        bindE (sym_get_range_prop calc s K) (\<lambda>(prop, K).
        case prop of
          None \<Rightarrow> Inr (True, K)
        | Some i \<Rightarrow>
            let val = strtoll base str in
            bindE (range_ends (prop_at K s i)) (\<lambda>(l, r).
            bindE (sym_get_range_val calc l base K) (\<lambda>(low, K).
            if val \<ge> low then bindE (sym_get_range_val calc r base K) (\<lambda>(high, K). Inr (val \<le> high, K))
            else Inr (False, K)))))"

definition sym_string_within_range :: "calc \<Rightarrow> sym \<Rightarrow> string \<Rightarrow> kconfig \<Rightarrow> (bool \<times> kconfig) result" where
  "sym_string_within_range calc s str K =
     (case s_type (sym_at K s) of
        S_STRING \<Rightarrow> Inr (sym_string_valid S_STRING str, K)
      | S_INT \<Rightarrow> number_within_range calc s 10 str K
      | S_HEX \<Rightarrow> number_within_range calc s 16 str K
      | S_BOOLEAN \<Rightarrow> Inr (case first_letter str of None \<Rightarrow> False | Some t \<Rightarrow> sym_tristate_within_range s t K, K)
      | S_TRISTATE \<Rightarrow> Inr (case first_letter str of None \<Rightarrow> False | Some t \<Rightarrow> sym_tristate_within_range s t K, K)
      | S_UNKNOWN \<Rightarrow> Inr (False, K)
      | S_OTHER \<Rightarrow> Inr (False, K))"

text \<open>Storing the string: the old one is freed unless it is the same; a number in base 16 gets its prefix.\<close>

definition store_string :: "calc \<Rightarrow> sym \<Rightarrow> string \<Rightarrow> kconfig \<Rightarrow> (bool \<times> kconfig) result" where
  "store_string calc s newval K =
     (let y = sym_at K s; oldval = sv_val (s_def y S_DEF_USER) in
      if s_type y = S_HEX \<and> \<not> has_hex_prefix newval then
        bindE (sym_clear_all_valid calc (upd_symbol s (set_user_val (StrVal (''0x'' @ newval))) K)) (\<lambda>K. Inr (True, K))
      else
        bindE (if oldval = NullVal then Inr False else bindE (c_string oldval) (\<lambda>old. Inr (old = newval))) (\<lambda>same.
        if same then Inr (True, K)
        else bindE (sym_clear_all_valid calc (upd_symbol s (set_user_val (StrVal newval)) K)) (\<lambda>K. Inr (True, K))))"

definition sym_set_string_value :: "calc \<Rightarrow> sym \<Rightarrow> string \<Rightarrow> kconfig \<Rightarrow> (bool \<times> kconfig) result" where
  "sym_set_string_value calc s newval K =
     (if s_type (sym_at K s) = S_BOOLEAN \<or> s_type (sym_at K s) = S_TRISTATE then
        (case first_letter newval of None \<Rightarrow> Inr (False, K) | Some t \<Rightarrow> sym_set_tristate_value calc s t K)
      else
        bindE (sym_string_within_range calc s newval K) (\<lambda>(ok, K).
        if \<not> ok then Inr (False, K) else store_string calc s newval (user_flag s K)))"

section \<open>The default as a string\<close>

definition default_values :: "calc \<Rightarrow> sym \<Rightarrow> nat \<Rightarrow> kconfig \<Rightarrow> (tristate \<times> symval \<times> kconfig) result" where
  "default_values calc s i K =
     (let str = sv_val (s_curr (sym_at K symbol_empty)); val = sv_tri (s_curr (sym_at K symbol_no)) in
      if s_type (sym_at K s) = S_BOOLEAN \<or> s_type (sym_at K s) = S_TRISTATE then
        bindE (expr_and_macro calc (p_expr (prop_at K s i)) s i K) (\<lambda>(v, K). Inr (v, str, K))
      else
        bindE (prop_get_symbol (prop_at K s i)) (\<lambda>d.
        case d of
          None \<Rightarrow> Inr (val, str, K)
        | Some ds \<Rightarrow> bindE (calc ds K) (\<lambda>K. Inr (val, sv_val (s_curr (sym_at K ds)), K))))"

definition sym_get_string_default :: "calc \<Rightarrow> sym \<Rightarrow> kconfig \<Rightarrow> (symval \<times> kconfig) result" where
  "sym_get_string_default calc s K =
     bindE (sym_calc_visibility calc s K) (\<lambda>K.
     bindE (calc (modules_sym (conf K)) K) (\<lambda>K.
     let val = sv_tri (s_curr (sym_at K symbol_no)); str = sv_val (s_curr (sym_at K symbol_empty)) in
     bindE (sym_get_default_prop calc s K) (\<lambda>(prop, K).
     bindE (case prop of None \<Rightarrow> Inr (val, str, K) | Some i \<Rightarrow> default_values calc s i K) (\<lambda>(val, str, K).
     let y = sym_at K s;
         val = EXPR_OR val (ev_tri (s_rev_dep y));
         val = (if val = tri_mod \<and> \<not> sym_is_choice_value y \<and> sv_tri (s_curr (sym_at K (modules_sym (conf K)))) = no
                then yes else val);
         val = (if s_type y = S_BOOLEAN \<and> val = tri_mod then yes else val)
     in Inr (case s_type y of
               S_BOOLEAN \<Rightarrow> StrVal (case val of no \<Rightarrow> ''n'' | tri_mod \<Rightarrow> ''m'' | yes \<Rightarrow> ''y'')
             | S_TRISTATE \<Rightarrow> StrVal (case val of no \<Rightarrow> ''n'' | tri_mod \<Rightarrow> ''m'' | yes \<Rightarrow> ''y'')
             | S_INT \<Rightarrow> str | S_HEX \<Rightarrow> str | S_STRING \<Rightarrow> str
             | S_OTHER \<Rightarrow> StrVal '''' | S_UNKNOWN \<Rightarrow> StrVal '''', K)))))"

section \<open>Names in strings\<close>

definition name_char :: "char \<Rightarrow> bool" where
  "name_char c \<longleftrightarrow> isalnum c \<or> c = CHR ''_''"

text \<open>
  The name after a dollar sign is copied into a buffer of \<open>SYMBOL_MAXLENGTH\<close> bytes and terminated; the
  code does not look at its length.
\<close>

definition embedded_value :: "calc \<Rightarrow> string \<Rightarrow> kconfig \<Rightarrow> (string \<times> kconfig) result" where
  "embedded_value calc name K =
     (if SYMBOL_MAXLENGTH \<le> length name then Inl OutOfBounds
      else
        case sym_find (Some name) K of
          None \<Rightarrow> Inr ('''', K)
        | Some s \<Rightarrow> bindE (calc s K) (\<lambda>K. bindE (get_string_value calc s K) (\<lambda>(v, K).
            bindE (c_string v) (\<lambda>str. Inr (str, K)))))"

function expand_loop :: "calc \<Rightarrow> string \<Rightarrow> string \<Rightarrow> kconfig \<Rightarrow> (string \<times> kconfig) result" where
  "expand_loop calc inp res K =
     (case dropWhile (\<lambda>c. c \<noteq> CHR ''$'') inp of
        [] \<Rightarrow> Inr (res @ inp, K)
      | _ # src \<Rightarrow>
          bindE (embedded_value calc (takeWhile name_char src) K) (\<lambda>(symval, K).
          expand_loop calc (dropWhile name_char src) (res @ takeWhile (\<lambda>c. c \<noteq> CHR ''$'') inp @ symval) K))"
  by pat_completeness auto

lemma after_dollar_shorter: "dropWhile p inp = x # src \<Longrightarrow> length (dropWhile q src) < length inp"
  using length_dropWhile_le [of p inp] length_dropWhile_le [of q src] by simp

termination expand_loop
  by (relation "measure (\<lambda>(calc, inp, res, K). length inp)") (auto dest: after_dollar_shorter)

definition sym_expand_string_value :: "calc \<Rightarrow> string \<Rightarrow> kconfig \<Rightarrow> (string \<times> kconfig) result" where
  "sym_expand_string_value calc inp K = expand_loop calc inp '''' K"

section \<open>Searching\<close>

text \<open>
  \<open>match\<close> is the compiled regular expression: the start and the length of what it matches in a name.
  \<open>qsort\<close> puts the matches in an order the comparison allows.
\<close>

definition search_match :: "(string \<Rightarrow> (int \<times> int) option) \<Rightarrow> symbol \<Rightarrow> (int \<times> int) option" where
  "search_match match y =
     (if has_flag SYMBOL_CONST y then None else case s_name y of None \<Rightarrow> None | Some nm \<Rightarrow> match nm)"

fun collect_matches ::
    "calc \<Rightarrow> (string \<Rightarrow> (int \<times> int) option) \<Rightarrow> sym list \<Rightarrow> kconfig \<Rightarrow> ((sym \<times> sym_match) list \<times> kconfig) result" where
  "collect_matches calc match [] K = Inr ([], K)"
| "collect_matches calc match (s # ss) K =
     (case search_match match (sym_at K s) of
        None \<Rightarrow> collect_matches calc match ss K
      | Some (so, eo) \<Rightarrow>
          bindE (calc s K) (\<lambda>K.
          bindE (collect_matches calc match ss K) (\<lambda>(ms, K).
          Inr ((s, \<lparr>m_name = the (s_name (sym_at K s)), m_so = so, m_eo = eo\<rparr>) # ms, K))))"

fun insert_match :: "sym \<times> sym_match \<Rightarrow> (sym \<times> sym_match) list \<Rightarrow> (sym \<times> sym_match) list" where
  "insert_match a [] = [a]"
| "insert_match a (b # ms) = (if sym_rel_comp (snd a) (snd b) \<le> 0 then a # b # ms else b # insert_match a ms)"

definition sort_matches :: "(sym \<times> sym_match) list \<Rightarrow> (sym \<times> sym_match) list" where
  "sort_matches ms = foldr insert_match ms []"

definition sym_re_search ::
    "calc \<Rightarrow> (string \<Rightarrow> (string \<Rightarrow> (int \<times> int) option) option) \<Rightarrow> string \<Rightarrow> kconfig \<Rightarrow> (sym list option \<times> kconfig) result" where
  "sym_re_search calc compile pattern K =
     (if pattern = [] then Inr (None, K)
      else
        case compile pattern of
          None \<Rightarrow> Inr (None, K)
        | Some match \<Rightarrow>
            bindE (collect_matches calc match (all_symbols K) K) (\<lambda>(ms, K).
            Inr (if ms = [] then None else Some (map fst (sort_matches ms)), K)))"

section \<open>Symbols from the environment\<close>

definition sym_add_default :: "sym \<Rightarrow> string \<Rightarrow> string \<Rightarrow> int \<Rightarrow> kconfig \<Rightarrow> kconfig" where
  "sym_add_default s def file lineno K =
     (let (d, K) = sym_lookup (Some def) SYMBOL_CONST K
      in snd (prop_alloc P_DEFAULT (Some s) file lineno (\<lambda>p. p\<lparr>p_expr := Some (DepE (expr_alloc_symbol d))\<rparr>) K))"

text \<open>The first call of \<open>sym_init\<close>; later calls return at once.\<close>

definition sym_init :: "string \<Rightarrow> string \<Rightarrow> int \<Rightarrow> kconfig \<Rightarrow> kconfig" where
  "sym_init release file lineno K =
     (let (s, K) = sym_lookup (Some ''UNAME_RELEASE'') 0 K;
          K = upd_symbol s (\<lambda>y. set_flag SYMBOL_AUTO (y\<lparr>s_type := S_STRING\<rparr>)) K
      in sym_add_default s release file lineno K)"

text \<open>\<open>sym\<close> is \<open>current_entry->sym\<close>, \<open>env\<close> the value of the variable in the environment.\<close>

definition prop_add_env :: "sym \<Rightarrow> string \<Rightarrow> string option \<Rightarrow> string \<Rightarrow> int \<Rightarrow> kconfig \<Rightarrow> kconfig result" where
  "prop_add_env s name env file lineno K =
     (let K = upd_symbol s (set_flag SYMBOL_AUTO) K in
      case sym_get_env_prop (sym_at K s) of
        Some p \<Rightarrow>
          bindE (prop_get_symbol p) (\<lambda>d. bindE (deref d) (\<lambda>s2. bindE (deref (s_name (sym_at K s2))) (\<lambda>nm.
          Inr (if nm \<noteq> name
               then K\<lparr>messages := messages K @ [MenuWarning (''redefining environment symbol from '' @ nm)]\<rparr> else K))))
      | None \<Rightarrow>
          let (c, K) = sym_lookup (Some name) SYMBOL_CONST K;
              K = snd (prop_alloc P_ENV (Some s) file lineno (\<lambda>p. p\<lparr>p_expr := Some (DepE (expr_alloc_symbol c))\<rparr>) K);
              K = K\<lparr>sym_env_list := s # sym_env_list K\<rparr>
          in Inr (case env of
                    Some v \<Rightarrow> sym_add_default s v file lineno K
                  | None \<Rightarrow> K\<lparr>messages := messages K @ [MenuWarning (''environment variable '' @ name @ '' undefined'')]\<rparr>))"

end
