(* ===== verification/SymEdit.thy ===== *)
theory SymEdit
  imports SymProps SymSet
begin

text \<open>
  Setting a symbol keeps the table well formed: the values the user gives fit the types of the symbols,
  and everything is calculated anew from them.
\<close>

section \<open>Edits of the table\<close>

text \<open>
  Declarations and calculated values stay, though they may lose their mark; the invariant on the user's
  value may be open for the symbols in \<open>S\<close>.
\<close>

definition edits :: "sym set \<Rightarrow> kconfig \<Rightarrow> kconfig \<Rightarrow> bool" where
  "edits S K K' \<longleftrightarrow> allocated K' = allocated K \<and> symbol_hash K' = symbol_hash K \<and> modules_sym (conf K') = modules_sym (conf K) \<and>
     (\<forall>s. let y = sym_at K s; y' = sym_at K' s in
        shape y' = shape y \<and> s_curr y' = s_curr y \<and> s_rev_dep y' = s_rev_dep y \<and> (need y' \<longrightarrow> need y) \<and>
        (valid y' \<longrightarrow> valid y) \<and> (s \<notin> range config_symbol \<longrightarrow> valid y' = valid y) \<and> (s \<notin> S \<longrightarrow> dyn y \<longrightarrow> dyn y'))"


lemma edits_refl [simp]: "edits S K K"
  by (simp add: edits_def)


lemma edits_mono: "edits S K K' \<Longrightarrow> S \<subseteq> T \<Longrightarrow> edits T K K'"
  by (auto simp: edits_def Let_def)




lemma edits_upd:
  assumes "shape (f (sym_at K s)) = shape (sym_at K s)" and "s_curr (f (sym_at K s)) = s_curr (sym_at K s)"
    and "s_rev_dep (f (sym_at K s)) = s_rev_dep (sym_at K s)" and "need (f (sym_at K s)) \<Longrightarrow> need (sym_at K s)"
    and "valid (f (sym_at K s)) = valid (sym_at K s) \<or> s \<in> range config_symbol \<and> \<not> valid (f (sym_at K s))"
    and "s \<in> S \<or> (dyn (sym_at K s) \<longrightarrow> dyn (f (sym_at K s)))"
  shows "edits S K (upd_symbol s f K)"
  using assms by (auto simp: edits_def Let_def)



lemma edits_user_tri: "edits S K (upd_symbol s (set_user_tri t) K)"
  by (rule edits_upd) (auto simp: step_defs set_user_tri_def has_flag_def)



lemma edits_fields [simp]: "edits S K (K'\<lparr>messages := m\<rparr>) = edits S K K'" "edits S K (K'\<lparr>sym_change_count := c\<rparr>) = edits S K K'"
  by (simp_all add: edits_def)



section \<open>Calculating anew\<close>




lemma change_count_conf [simp]: "conf (sym_add_change_count n K) = conf K" "allocated (sym_add_change_count n K) = allocated K"
  by (simp_all add: sym_add_change_count_def sym_set_change_count_def Let_def)




section \<open>Ranges\<close>

context calc_contract
begin

lemma number_within_range_gives:
  assumes k: "ready r m l K" and s: "reach r l K s"
  shows "gives {} K (number_within_range calc s base str K) (\<lambda>ok K'. ok \<longrightarrow> sym_string_valid (s_type (sym_at K s)) str)"
proof (cases "sym_string_valid (s_type (sym_at K s)) str")
  case False
  then show ?thesis by (auto simp: number_within_range_def gives_def)
next
  case v: True
  from range_prop_gives [OF k s] obtain p K1 where 1: "sym_get_range_prop calc s K = Inr (p, K1)" "grows {} K K1"
    "\<forall>i. p = Some i \<longrightarrow> i < length (s_prop (sym_at K1 s)) \<and> p_type (prop_at K1 s i) = P_RANGE" by (auto simp: gives_def)
  note k1 = ready_grows [OF 1(2) k room_empty]
  have s1: "reach r l K1 s" using s reach_grows [OF 1(2)] by simp
  show ?thesis
  proof (cases p)
    case None
    then show ?thesis using v 1(1,2) by (auto simp: number_within_range_def gives_def)
  next
    case (Some i)
    with 1(3) have i: "i < length (s_prop (sym_at K1 s))" "p_type (prop_at K1 s i) = P_RANGE" by simp_all
    obtain a b where ab: "range_ends (prop_at K1 s i) = Inr (a, b)" "in_table K1 a" "r a < l"
      "\<not> choicey (sym_at K1 a)" "in_table K1 b" "r b < l" "\<not> choicey (sym_at K1 b)" by (rule range_operands [OF k1 s1 i])
    from range_val_gives [OF k1 ab(2-4), of base] obtain low K2 where
      2: "sym_get_range_val calc a base K1 = Inr (low, K2)" "grows {} K1 K2" by (auto simp: gives_def)
    note k2 = ready_grows [OF 2(2) k1 room_empty] and g2 = grows_trans [OF 1(2) 2(2)]
    have b2: "in_table K2 b" "\<not> choicey (sym_at K2 b)" using ab(5,7) in_table_grows [OF 2(2)] choicey_grows [OF 2(2)] by simp_all
    from range_val_gives [OF k2 b2(1) ab(6) b2(2), of base] obtain high K3 where
      3: "sym_get_range_val calc b base K2 = Inr (high, K3)" "grows {} K2 K3" by (auto simp: gives_def)
    show ?thesis using v 1(1) Some ab(1) 2(1) 3(1) g2 grows_trans [OF g2 3(2)]
      by (cases "low \<le> strtoll base str") (auto simp: number_within_range_def gives_def Let_def)
  qed
qed

end



section \<open>Setting a string\<close>





lemma sym_at_set_changed: "sym_at (sym_set_changed s K) = (symbols (conf K))(s := set_flag SYMBOL_CHANGED (sym_at K s))"
proof -
  have *: "conf (fold (\<lambda>p K. case p_menu p of None \<Rightarrow> K
      | Some m \<Rightarrow> K\<lparr>menu_flags := (menu_flags K)(m := menu_flags K m OR MENU_CHANGED)\<rparr>) ps K') = conf K'" for ps K'
    by (induction ps arbitrary: K') (auto split: option.split)
  show ?thesis by (simp add: sym_set_changed_def Let_def * fun_eq_iff)
qed


lemma user_flag_fields [simp]:
  "s_def (sym_at (user_flag s K) t) = s_def (sym_at K t)" "s_type (sym_at (user_flag s K) t) = s_type (sym_at K t)"
  "sym_has_value (sym_at (user_flag s K) s)"
proof -
  show "s_def (sym_at (user_flag s K) t) = s_def (sym_at K t)" "s_type (sym_at (user_flag s K) t) = s_type (sym_at K t)"
    by (simp_all add: user_flag_def)
  have "sym_has_value (sym_at (sym_set_changed s (upd_symbol s (set_flag SYMBOL_DEF_USER) K)) s)"
    by (simp add: sym_at_set_changed step_defs)
  then show "sym_has_value (sym_at (user_flag s K) s)" by (simp add: user_flag_def sym_has_value_def)
qed












end
