(* ===== verification/SymDeps.thy ===== *)
theory SymDeps
  imports SymSet
begin

text \<open>
  \<open>sym_check_deps\<close> of \<open>kconfig/symbol.c\<close>: the search for recursive dependencies. The stack \<open>check_top\<close>
  consists of variables of the active calls, each pushed and popped by its call, so here it is an argument,
  the top first. The depth bounds the recursion.
\<close>

record dep_stack =
  ds_sym :: sym
  ds_prop :: "nat option"
  ds_expr :: bool

definition dep_frame :: "sym \<Rightarrow> dep_stack" where
  "dep_frame s = \<lparr>ds_sym = s, ds_prop = None, ds_expr = False\<rparr>"

definition print_line :: "string \<Rightarrow> kconfig \<Rightarrow> kconfig" where
  "print_line l K = K\<lparr>messages := messages K @ [ErrorLine l]\<rparr>"

definition name_or_choice :: "symbol \<Rightarrow> string" where
  "name_or_choice y = (case s_name y of None \<Rightarrow> ''<choice>'' | Some nm \<Rightarrow> nm)"

definition position_text :: "string \<times> int \<Rightarrow> string" where
  "position_text p = fst p @ '':'' @ lld (snd p)"

text \<open>The property of a choice or choice value with a menu; without one the variable \<open>menu\<close> ends as \<open>NULL\<close>.\<close>

definition menu_prop :: "symbol \<Rightarrow> property option" where
  "menu_prop y = find (\<lambda>p. p_menu p \<noteq> None) (s_prop y)"

definition frame_prop :: "symbol \<Rightarrow> dep_stack \<Rightarrow> property option" where
  "frame_prop y f =
     (if sym_is_choice y \<or> sym_is_choice_value y then menu_prop y
      else case ds_prop f of Some i \<Rightarrow> Some (s_prop y ! i)
           | None \<Rightarrow> (case s_prop y of [] \<Rightarrow> None | p # _ \<Rightarrow> Some p))"

definition prop_position :: "property option \<Rightarrow> (string \<times> int) result" where
  "prop_position p = bindE (deref p) (\<lambda>p. Inr (p_file p, p_lineno p))"

definition menu_position :: "kconfig \<Rightarrow> property option \<Rightarrow> (string \<times> int) result" where
  "menu_position K p = bindE (deref p) (\<lambda>p. bindE (deref (p_menu p)) (\<lambda>m. Inr (menu_pos K m)))"

definition frame_text :: "kconfig \<Rightarrow> dep_stack \<Rightarrow> sym \<Rightarrow> string result" where
  "frame_text K f next_sym =
     (let y = sym_at K (ds_sym f); p = frame_prop y f;
          nm = name_or_choice y; next_nm = name_or_choice (sym_at K next_sym)
      in if ds_expr f then
           bindE (deref p) (\<lambda>q. Inr (position_text (p_file q, p_lineno q) @ '':	symbol '' @ nm @ '' '' @
             prop_get_type_name (p_type q) @ '' value contains '' @ next_nm))
         else if ds_prop f \<noteq> None then
           bindE (prop_position p) (\<lambda>pos. Inr (position_text pos @ '':	symbol '' @ nm @ '' depends on '' @ next_nm))
         else if sym_is_choice y then
           bindE (menu_position K p) (\<lambda>pos. Inr (position_text pos @ '':	choice '' @ nm @ '' contains symbol '' @ next_nm))
         else if sym_is_choice_value y then
           bindE (menu_position K p) (\<lambda>pos. Inr (position_text pos @ '':	symbol '' @ nm @ '' is part of choice '' @ next_nm))
         else bindE (prop_position p) (\<lambda>pos. Inr (position_text pos @ '':	symbol '' @ nm @ '' is selected by '' @ next_nm)))"

text \<open>The lines for the part of the stack above the frame of \<open>last_sym\<close>, its frame first.\<close>

fun print_frames :: "sym \<Rightarrow> dep_stack list \<Rightarrow> kconfig \<Rightarrow> kconfig result" where
  "print_frames last_sym [] K = Inr K"
| "print_frames last_sym (f # fs) K =
     bindE
       (if ds_sym f = last_sym
        then bindE (prop_position (frame_prop (sym_at K (ds_sym f)) f)) (\<lambda>pos.
             Inr (print_line (position_text pos @ '':error: recursive dependency detected!'') K))
        else Inr K) (\<lambda>K.
     bindE (frame_text K f (case fs of [] \<Rightarrow> last_sym | g # _ \<Rightarrow> ds_sym g)) (\<lambda>l.
     print_frames last_sym fs (print_line l K)))"

definition sym_check_print_recursive :: "sym \<Rightarrow> dep_stack list \<Rightarrow> kconfig \<Rightarrow> kconfig result" where
  "sym_check_print_recursive last_sym stk K =
     bindE (if sym_is_choice_value (sym_at K last_sym)
            then bindE (choice_of K last_sym) (\<lambda>c. Inr (c, dep_frame last_sym # stk))
            else Inr (last_sym, stk)) (\<lambda>(last_sym, stk).
     let above = takeWhile (\<lambda>f. ds_sym f \<noteq> last_sym) stk
     in if length above = length stk then Inr (print_line ''unexpected recursive dependency error'' K)
        else print_frames last_sym (rev (take (Suc (length above)) stk)) K)"

type_synonym check = "sym \<Rightarrow> dep_stack list \<Rightarrow> kconfig \<Rightarrow> (sym option \<times> kconfig) result"

fun check_expr_deps :: "check \<Rightarrow> dep_stack list \<Rightarrow> expr \<Rightarrow> kconfig \<Rightarrow> (sym option \<times> kconfig) result" where
  "check_expr_deps check stk (BinE c a b) K =
     bindE (check_expr_deps check stk a K) (\<lambda>(s, K). if s \<noteq> None then Inr (s, K) else check_expr_deps check stk b K)"
| "check_expr_deps check stk (NotE a) K = check_expr_deps check stk a K"
| "check_expr_deps check stk (CmpE c a b) K =
     bindE (check a stk K) (\<lambda>(s, K). if s \<noteq> None then Inr (s, K) else check b stk K)"
| "check_expr_deps check stk (SymE a) K = check a stk K"

definition check_opt_deps :: "check \<Rightarrow> dep_stack list \<Rightarrow> expr option \<Rightarrow> kconfig \<Rightarrow> (sym option \<times> kconfig) result" where
  "check_opt_deps check stk e K = (case e of None \<Rightarrow> Inr (None, K) | Some a \<Rightarrow> check_expr_deps check stk a K)"

text \<open>The expression of a property; for a list or a range a message is printed.\<close>

definition check_value_deps :: "check \<Rightarrow> dep_stack list \<Rightarrow> prop_expr option \<Rightarrow> kconfig \<Rightarrow> (sym option \<times> kconfig) result" where
  "check_value_deps check stk e K =
     (case e of None \<Rightarrow> Inr (None, K) | Some (DepE a) \<Rightarrow> check_expr_deps check stk a K
      | Some _ \<Rightarrow> Inr (None, print_line ''Oops! How to check'' K))"

fun check_props :: "check \<Rightarrow> sym \<Rightarrow> dep_stack list \<Rightarrow> nat list \<Rightarrow> kconfig \<Rightarrow> (sym option \<times> kconfig) result" where
  "check_props check s stk [] K = Inr (None, K)"
| "check_props check s stk (i # js) K =
     (let p = prop_at K s i; f = (dep_frame s)\<lparr>ds_prop := Some i\<rparr> in
      if p_type p = P_CHOICE \<or> p_type p = P_SELECT then check_props check s stk js K
      else
        bindE (check_opt_deps check (f # stk) (ev_expr (p_visible p)) K) (\<lambda>(s2, K).
        if s2 \<noteq> None then Inr (s2, K)
        else if p_type p \<noteq> P_DEFAULT \<or> sym_is_choice (sym_at K s) then check_props check s stk js K
        else
          bindE (check_value_deps check (f\<lparr>ds_expr := p_expr p \<noteq> None\<rparr> # stk) (p_expr p) K) (\<lambda>(s2, K).
          if s2 \<noteq> None then Inr (s2, K) else check_props check s stk js K)))"

definition sym_check_sym_deps :: "check \<Rightarrow> sym \<Rightarrow> dep_stack list \<Rightarrow> kconfig \<Rightarrow> (sym option \<times> kconfig) result" where
  "sym_check_sym_deps check s stk K =
     bindE (check_opt_deps check (dep_frame s # stk) (ev_expr (s_rev_dep (sym_at K s))) K) (\<lambda>(s2, K).
     if s2 \<noteq> None then Inr (s2, K) else check_props check s stk (prop_positions K s) K)"

fun check_members :: "check \<Rightarrow> sym list \<Rightarrow> dep_stack list \<Rightarrow> kconfig \<Rightarrow> (sym option \<times> kconfig) result" where
  "check_members check [] stk K = Inr (None, K)"
| "check_members check (d # ds) stk K =
     bindE (sym_check_sym_deps check d stk K) (\<lambda>(s2, K).
     if s2 \<noteq> None then Inr (s2, K) else check_members check ds stk K)"

definition sym_check_choice_deps :: "check \<Rightarrow> sym \<Rightarrow> dep_stack list \<Rightarrow> kconfig \<Rightarrow> (sym option \<times> kconfig) result" where
  "sym_check_choice_deps check c stk K =
     bindE (choice_symbols K c) (\<lambda>ds.
     let stk = dep_frame c # stk;
         K = fold (\<lambda>d. upd_symbol d (set_flag (SYMBOL_CHECK OR SYMBOL_CHECKED))) ds K;
         K = upd_symbol c (set_flag (SYMBOL_CHECK OR SYMBOL_CHECKED)) K
     in bindE (sym_check_sym_deps check c stk K) (\<lambda>(s2, K).
        let K = upd_symbol c (clear_flag SYMBOL_CHECK) K
        in bindE (if s2 \<noteq> None then Inr (s2, K) else check_members check ds stk K) (\<lambda>(s2, K).
        let K = fold (\<lambda>d. upd_symbol d (clear_flag SYMBOL_CHECK)) ds K
        in case s2 of
             None \<Rightarrow> Inr (None, K)
           | Some d \<Rightarrow>
               if sym_is_choice_value (sym_at K d) then
                 bindE (deref (sym_get_choice_prop (sym_at K d))) (\<lambda>p. bindE (prop_get_symbol p) (\<lambda>c2.
                 Inr (if c2 = Some c then Some c else Some d, K)))
               else Inr (Some d, K))))"

definition check_deps_body :: "check \<Rightarrow> check" where
  "check_deps_body check s stk K =
     (let y = sym_at K s in
      if has_flag SYMBOL_CHECK y then bindE (sym_check_print_recursive s stk K) (\<lambda>K. Inr (Some s, K))
      else if has_flag SYMBOL_CHECKED y then Inr (None, K)
      else
        bindE
          (if sym_is_choice_value y then bindE (choice_of K s) (\<lambda>c. check c (dep_frame s # stk) K)
           else if sym_is_choice y then sym_check_choice_deps check s stk K
           else
             bindE (sym_check_sym_deps check s stk (upd_symbol s (set_flag (SYMBOL_CHECK OR SYMBOL_CHECKED)) K)) (\<lambda>(s2, K).
             Inr (s2, upd_symbol s (clear_flag SYMBOL_CHECK) K)))
          (\<lambda>(s2, K). Inr (if s2 = Some s then None else s2, K)))"

fun sym_check_deps :: "nat \<Rightarrow> check" where
  "sym_check_deps 0 s stk K = Inl Diverges"
| "sym_check_deps (Suc depth) s stk K = check_deps_body (sym_check_deps depth) s stk K"

text \<open>
  The check of the whole table, as \<open>conf_parse\<close> of \<open>zconf.y\<close> makes it: the number of errors it counts.
\<close>

fun check_all :: "nat \<Rightarrow> sym list \<Rightarrow> kconfig \<Rightarrow> (nat \<times> kconfig) result" where
  "check_all depth [] K = Inr (0, K)"
| "check_all depth (s # ss) K =
     bindE (sym_check_deps depth s [] K) (\<lambda>(s2, K).
     bindE (check_all depth ss K) (\<lambda>(n, K). Inr (if s2 \<noteq> None then n + 1 else n, K)))"

end
