(* ===== verification/SymCheck.thy ===== *)
theory SymCheck
  imports SymDeps SymProps
begin

text \<open>
  The dependency check accepts a table without choices exactly when its dependencies have no cycle. A run
  without a message extends a list of the finished symbols in which every symbol comes after all it depends
  on; and on a table whose dependencies are ranked no run meets a symbol whose check has begun.
\<close>

section \<open>What the check follows\<close>

fun expr_syms :: "expr \<Rightarrow> sym list" where
  "expr_syms (SymE s) = [s]"
| "expr_syms (CmpE c a b) = [a, b]"
| "expr_syms (NotE a) = expr_syms a"
| "expr_syms (BinE c a b) = expr_syms a @ expr_syms b"

definition opt_syms :: "expr option \<Rightarrow> sym list" where
  "opt_syms e = (case e of None \<Rightarrow> [] | Some a \<Rightarrow> expr_syms a)"

definition value_syms :: "prop_expr option \<Rightarrow> sym list" where
  "value_syms e = (case e of Some (DepE a) \<Rightarrow> expr_syms a | _ \<Rightarrow> [])"

definition checked_deps :: "property \<Rightarrow> sym list" where
  "checked_deps p =
     (if p_type p = P_CHOICE \<or> p_type p = P_SELECT then []
      else opt_syms (ev_expr (p_visible p)) @ (if p_type p = P_DEFAULT then value_syms (p_expr p) else []))"

definition follows :: "symbol \<Rightarrow> sym list" where
  "follows y = opt_syms (ev_expr (s_rev_dep y)) @ concat (map checked_deps (s_prop y))"

definition grey :: "kconfig \<Rightarrow> sym set" where
  "grey K = {s. has_flag SYMBOL_CHECK (sym_at K s)}"

definition begun :: "kconfig \<Rightarrow> sym set" where
  "begun K = {s. has_flag SYMBOL_CHECKED (sym_at K s)}"

text \<open>A table without choices, and the declarations that stay during the check.\<close>

definition plain_table :: "kconfig \<Rightarrow> bool" where
  "plain_table K \<longleftrightarrow> (\<forall>s. \<not> choicey (sym_at K s)) \<and>
     (\<forall>s. \<forall>p \<in> set (s_prop (sym_at K s)). p_type p = P_DEFAULT \<longrightarrow> (\<forall>e. p_expr p = Some e \<longrightarrow> (\<exists>a. e = DepE a)))"

definition same_decls :: "kconfig \<Rightarrow> kconfig \<Rightarrow> bool" where
  "same_decls K K' \<longleftrightarrow> (\<forall>s. s_prop (sym_at K' s) = s_prop (sym_at K s) \<and> s_rev_dep (sym_at K' s) = s_rev_dep (sym_at K s) \<and>
     choicey (sym_at K' s) = choicey (sym_at K s))"

lemma same_decls_trans: "same_decls K K' \<Longrightarrow> same_decls K' K'' \<Longrightarrow> same_decls K K''"
  by (simp add: same_decls_def)

lemma same_decls_refl [simp]: "same_decls K K"
  by (simp add: same_decls_def)

lemma same_decls_follows: "same_decls K K' \<Longrightarrow> follows (sym_at K' s) = follows (sym_at K s)"
  by (simp add: same_decls_def follows_def)

lemma same_decls_plain: "same_decls K K' \<Longrightarrow> plain_table K \<Longrightarrow> plain_table K'"
  by (simp add: same_decls_def plain_table_def)

lemma check_bits:
  "has_flag SYMBOL_CHECK y \<longleftrightarrow> bit (s_flags y) 3" "has_flag SYMBOL_CHECKED y \<longleftrightarrow> bit (s_flags y) 13"
  using and_shifted_one [of "s_flags y" 3] and_shifted_one [of "s_flags y" 13]
  by (simp_all add: has_flag_def SYMBOL_CHECK_def SYMBOL_CHECKED_def)

lemma bit_check: "bit SYMBOL_CHECK n \<longleftrightarrow> n = 3" "bit SYMBOL_CHECKED n \<longleftrightarrow> n = 13"
  using bit_set [of SYMBOL_CHECK 3 blank_symbol n] bit_set [of SYMBOL_CHECKED 13 blank_symbol n]
  by (simp_all add: SYMBOL_CHECK_def SYMBOL_CHECKED_def set_flag_def blank_symbol_def)

lemma bit_begin:
  "bit (s_flags (set_flag (SYMBOL_CHECK OR SYMBOL_CHECKED) y)) n \<longleftrightarrow> bit (s_flags y) n \<or> n = 3 \<or> n = 13"
  by (auto simp: set_flag_def bit_or_iff bit_check)

lemma bit_finish: "bit (s_flags (clear_flag SYMBOL_CHECK y)) n \<longleftrightarrow> bit (s_flags y) n \<and> n \<noteq> 3"
  by (auto simp: clear_flag_def bit_and_iff bit_not_iff bit_check dest: bit_imp_le_length)

lemma begin_symbol:
  "grey (upd_symbol s (set_flag (SYMBOL_CHECK OR SYMBOL_CHECKED)) K) = insert s (grey K)"
  "begun (upd_symbol s (set_flag (SYMBOL_CHECK OR SYMBOL_CHECKED)) K) = insert s (begun K)"
  "same_decls K (upd_symbol s (set_flag (SYMBOL_CHECK OR SYMBOL_CHECKED)) K)"
  by (auto simp: grey_def begun_def same_decls_def check_bits bit_begin choicey_def sym_is_choice_def sym_is_choice_value_def flag_bits)

lemma finish_symbol:
  "grey (upd_symbol s (clear_flag SYMBOL_CHECK) K) = grey K - {s}"
  "begun (upd_symbol s (clear_flag SYMBOL_CHECK) K) = begun K"
  "same_decls K (upd_symbol s (clear_flag SYMBOL_CHECK) K)"
  by (auto simp: grey_def begun_def same_decls_def check_bits bit_finish choicey_def sym_is_choice_def sym_is_choice_value_def flag_bits)

lemma print_line_fields [simp]: "messages (print_line l K) = messages K @ [ErrorLine l]" "conf (print_line l K) = conf K"
  by (simp_all add: print_line_def)

lemma bindE_Inr_cases: "bindE m f = Inr b \<Longrightarrow> (\<And>a. m = Inr a \<Longrightarrow> f a = Inr b \<Longrightarrow> P) \<Longrightarrow> P"
  by (cases m) auto

text \<open>Every report prints at least one line.\<close>

lemma print_frames_lines:
  "print_frames l fs K = Inr K' \<Longrightarrow>
    \<exists>ms. messages K' = messages K @ ms \<and> conf K' = conf K \<and> (fs \<noteq> [] \<longrightarrow> ms \<noteq> [])"
proof (induction fs arbitrary: K)
  case (Cons f fs)
  let ?m = "if ds_sym f = l then bindE (prop_position (frame_prop (sym_at K (ds_sym f)) f)) (\<lambda>pos.
      Inr (print_line (position_text pos @ '':error: recursive dependency detected!'') K)) else Inr K"
  from Cons.prems obtain K1 where 1: "?m = Inr K1"
    "bindE (frame_text K1 f (case fs of [] \<Rightarrow> l | g # _ \<Rightarrow> ds_sym g)) (\<lambda>t. print_frames l fs (print_line t K1)) = Inr K'"
    unfolding print_frames.simps by (rule bindE_Inr_cases)
  have K1: "conf K1 = conf K" "\<exists>ns. messages K1 = messages K @ ns"
    using 1(1) by (cases "ds_sym f = l"; cases "prop_position (frame_prop (sym_at K (ds_sym f)) f)"; auto)+
  from 1(2) obtain t where "print_frames l fs (print_line t K1) = Inr K'" by (rule bindE_Inr_cases)
  from Cons.IH [OF this] K1 show ?case by auto
qed simp

lemma print_recursive_lines:
  assumes "\<not> sym_is_choice_value (sym_at K s)" and "sym_check_print_recursive s stk K = Inr K'"
  shows "\<exists>ms. ms \<noteq> [] \<and> messages K' = messages K @ ms \<and> conf K' = conf K"
proof -
  let ?above = "takeWhile (\<lambda>f. ds_sym f \<noteq> s) stk"
  have e: "sym_check_print_recursive s stk K =
      (if length ?above = length stk then Inr (print_line ''unexpected recursive dependency error'' K)
       else print_frames s (rev (take (Suc (length ?above)) stk)) K)"
    using assms(1) by (simp add: sym_check_print_recursive_def Let_def)
  show ?thesis
  proof (cases "length ?above = length stk")
    case True
    then show ?thesis using assms(2) e by auto
  next
    case False
    then have "print_frames s (rev (take (Suc (length ?above)) stk)) K = Inr K'" using assms(2) e by simp
    moreover have "rev (take (Suc (length ?above)) stk) \<noteq> []" using False by (cases stk) auto
    ultimately show ?thesis using print_frames_lines by blast
  qed
qed

section \<open>A run without messages\<close>

text \<open>Every symbol of the list comes after what it depends on.\<close>

definition ordered :: "(sym \<Rightarrow> sym list) \<Rightarrow> sym list \<Rightarrow> bool" where
  "ordered D xs \<longleftrightarrow> (\<forall>i < length xs. set (D (xs ! i)) \<subseteq> set (take i xs))"

lemma ordered_Nil [simp]: "ordered D []"
  by (simp add: ordered_def)

lemma ordered_snoc: "ordered D xs \<Longrightarrow> set (D s) \<subseteq> set xs \<Longrightarrow> ordered D (xs @ [s])"
  by (auto simp: ordered_def nth_append less_Suc_eq)


definition accepted :: "(sym \<Rightarrow> sym list) \<Rightarrow> sym list \<Rightarrow> kconfig \<Rightarrow> bool" where
  "accepted D xs K \<longleftrightarrow> ordered D xs \<and> set xs = begun K - grey K \<and> grey K \<subseteq> begun K \<and> (\<forall>s. D s = follows (sym_at K s))"

text \<open>What a run that has printed nothing has done for the symbols \<open>ts\<close>.\<close>

definition finishes :: "(sym \<Rightarrow> sym list) \<Rightarrow> sym list \<Rightarrow> sym list \<Rightarrow> kconfig \<Rightarrow> (sym option \<times> kconfig) result \<Rightarrow> bool" where
  "finishes D xs ts K m \<longleftrightarrow> (\<forall>res K'. m = Inr (res, K') \<longrightarrow> (\<exists>ms. messages K' = messages K @ ms) \<and> same_decls K K' \<and>
     (accepted D xs K \<and> messages K' = messages K \<longrightarrow>
       res = None \<and> grey K' = grey K \<and> (\<exists>ys. accepted D (xs @ ys) K' \<and> set ts \<subseteq> set (xs @ ys))))"

lemma finishesE:
  assumes "finishes D xs ts K m" and "m = Inr (res, K')" and "accepted D xs K" and "messages K' = messages K"
  obtains ys where "res = None" "grey K' = grey K" "accepted D (xs @ ys) K'" "set ts \<subseteq> set (xs @ ys)"
proof -
  have "res = None \<and> grey K' = grey K \<and> (\<exists>ys. accepted D (xs @ ys) K' \<and> set ts \<subseteq> set (xs @ ys))"
    using assms(1) [unfolded finishes_def, rule_format, OF assms(2)] assms(3,4) by blast
  then show ?thesis using that by blast
qed

lemma finishes_grow:
  assumes "finishes D xs ts K m" and "m = Inr (res, K')"
  obtains ms where "messages K' = messages K @ ms" "same_decls K K'"
  using assms(1) [unfolded finishes_def, rule_format, OF assms(2)] that by blast

locale check_contract =
  fixes check :: check
    and D :: "sym \<Rightarrow> sym list"
  assumes check_finishes: "plain_table K \<Longrightarrow> finishes D xs [s] K (check s stk K)"
begin

lemma finishes_seq:
  assumes m: "finishes D xs ts K m"
    and f: "\<And>ys K'. same_decls K K' \<Longrightarrow> finishes D ys us K' (f K')"
  shows "finishes D xs (ts @ us) K (bindE m (\<lambda>(s, K). if s \<noteq> None then Inr (s, K) else f K))"
  unfolding finishes_def
proof (intro allI impI)
  fix res K2
  assume r: "bindE m (\<lambda>(s, K). if s \<noteq> None then Inr (s, K) else f K) = Inr (res, K2)"
  then obtain s K1 where 1: "m = Inr (s, K1)" by (cases m) auto
  from m 1 obtain ms where ms: "messages K1 = messages K @ ms" "same_decls K K1"
    and a: "accepted D xs K \<and> messages K1 = messages K \<longrightarrow>
       s = None \<and> grey K1 = grey K \<and> (\<exists>ys. accepted D (xs @ ys) K1 \<and> set ts \<subseteq> set (xs @ ys))"
    unfolding finishes_def by blast
  show "(\<exists>ms. messages K2 = messages K @ ms) \<and> same_decls K K2 \<and>
     (accepted D xs K \<and> messages K2 = messages K \<longrightarrow>
       res = None \<and> grey K2 = grey K \<and> (\<exists>ys. accepted D (xs @ ys) K2 \<and> set (ts @ us) \<subseteq> set (xs @ ys)))"
  proof (cases "s = None")
    case False
    with r 1 have "res = s" "K2 = K1" by auto
    then show ?thesis using ms a False by auto
  next
    case True
    with r 1 have 2: "f K1 = Inr (res, K2)" by simp
    obtain ns where ns: "messages K2 = messages K1 @ ns" "same_decls K1 K2"
      by (rule finishes_grow [OF f [OF ms(2)] 2])
    have "res = None \<and> grey K2 = grey K \<and> (\<exists>ys. accepted D (xs @ ys) K2 \<and> set (ts @ us) \<subseteq> set (xs @ ys))"
      if acc: "accepted D xs K" and "messages K2 = messages K"
    proof -
      have e: "messages K1 = messages K" "messages K2 = messages K1" using that(2) ms(1) ns(1) by auto
      from a acc e(1) obtain ys where ys: "grey K1 = grey K" "accepted D (xs @ ys) K1" "set ts \<subseteq> set (xs @ ys)" by blast
      obtain zs where zs: "res = None" "grey K2 = grey K1" "accepted D ((xs @ ys) @ zs) K2" "set us \<subseteq> set ((xs @ ys) @ zs)"
        by (rule finishesE [OF f [OF ms(2)] 2 ys(2) e(2)])
      have "accepted D (xs @ (ys @ zs)) K2 \<and> set (ts @ us) \<subseteq> set (xs @ (ys @ zs))" using zs(3,4) ys(3) by auto
      then show ?thesis using zs(1,2) ys(1) by blast
    qed
    then show ?thesis using ms ns same_decls_trans [OF ms(2) ns(2)] by auto
  qed
qed

lemma finishes_return: "finishes D xs [] K (Inr (None, K))"
  unfolding finishes_def by (auto intro: exI [of _ "[]"])

lemma expr_finishes: "plain_table K \<Longrightarrow> finishes D xs (expr_syms e) K (check_expr_deps check stk e K)"
proof (induction e arbitrary: xs K)
  case (CmpE c a b)
  have "finishes D xs ([a] @ [b]) K (check_expr_deps check stk (CmpE c a b) K)"
    unfolding check_expr_deps.simps
    by (rule finishes_seq [OF check_finishes [OF CmpE] check_finishes [OF same_decls_plain [OF _ CmpE]]])
  then show ?case by simp
next
  case (BinE c a b)
  show ?case unfolding check_expr_deps.simps expr_syms.simps
    by (rule finishes_seq [OF BinE.IH(1) [OF BinE.prems] BinE.IH(2) [OF same_decls_plain [OF _ BinE.prems]]])
qed (use check_finishes in simp_all)

lemma opt_finishes: "plain_table K \<Longrightarrow> finishes D xs (opt_syms e) K (check_opt_deps check stk e K)"
  by (cases e) (simp_all add: opt_syms_def check_opt_deps_def finishes_return expr_finishes)

lemma value_finishes: "plain_table K \<Longrightarrow> finishes D xs (value_syms e) K (check_value_deps check stk e K)"
  by (simp add: value_syms_def check_value_deps_def finishes_return expr_finishes split: option.split prop_expr.split)
    (simp add: finishes_def same_decls_def)

lemma props_finish:
  "plain_table K \<Longrightarrow> (\<And>i. i \<in> set js \<Longrightarrow> prop_at K s i = P i) \<Longrightarrow>
    finishes D xs (concat (map (\<lambda>i. checked_deps (P i)) js)) K (check_props check s stk js K)"
proof (induction js arbitrary: xs K)
  case Nil
  then show ?case by (simp add: finishes_return)
next
  case (Cons i js)
  let ?f = "(dep_frame s)\<lparr>ds_prop := Some i\<rparr>"
  have pi: "prop_at K s i = P i" and nc: "\<not> sym_is_choice (sym_at K' s)" if "same_decls K K'" for K'
    using Cons.prems that by (auto simp: plain_table_def same_decls_def choicey_def)
  have rest: "finishes D ys (concat (map (\<lambda>i. checked_deps (P i)) js)) K' (check_props check s stk js K')"
    if "same_decls K K'" for ys K'
    using Cons.IH [OF same_decls_plain [OF that Cons.prems(1)]] Cons.prems(2) that by (simp add: same_decls_def)
  note pl = same_decls_plain [OF _ Cons.prems(1)]
  show ?case
  proof (cases "p_type (P i) = P_CHOICE \<or> p_type (P i) = P_SELECT")
    case True
    then show ?thesis using rest [OF same_decls_refl] pi [OF same_decls_refl] by (auto simp: checked_deps_def Let_def)
  next
    case skip: False
    have e: "check_props check s stk (i # js) K =
      bindE (check_opt_deps check (?f # stk) (ev_expr (p_visible (P i))) K) (\<lambda>(s2, K).
        if s2 \<noteq> None then Inr (s2, K)
        else if p_type (P i) \<noteq> P_DEFAULT \<or> sym_is_choice (sym_at K s) then check_props check s stk js K
        else bindE (check_value_deps check (?f\<lparr>ds_expr := p_expr (P i) \<noteq> None\<rparr> # stk) (p_expr (P i)) K) (\<lambda>(s2, K).
          if s2 \<noteq> None then Inr (s2, K) else check_props check s stk js K))"
      unfolding check_props.simps Let_def pi [OF same_decls_refl] if_not_P [OF skip] by (rule refl)
    have "finishes D ys ((if p_type (P i) = P_DEFAULT then value_syms (p_expr (P i)) else []) @ concat (map (\<lambda>i. checked_deps (P i)) js)) K'
      (if p_type (P i) \<noteq> P_DEFAULT \<or> sym_is_choice (sym_at K' s) then check_props check s stk js K'
        else bindE (check_value_deps check (?f\<lparr>ds_expr := p_expr (P i) \<noteq> None\<rparr> # stk) (p_expr (P i)) K') (\<lambda>(s2, K).
          if s2 \<noteq> None then Inr (s2, K) else check_props check s stk js K))"
      if d: "same_decls K K'" for ys K'
    proof (cases "p_type (P i) = P_DEFAULT")
      case True
      have "finishes D ys (value_syms (p_expr (P i)) @ concat (map (\<lambda>i. checked_deps (P i)) js)) K'
        (bindE (check_value_deps check (?f\<lparr>ds_expr := p_expr (P i) \<noteq> None\<rparr> # stk) (p_expr (P i)) K') (\<lambda>(s2, K).
          if s2 \<noteq> None then Inr (s2, K) else check_props check s stk js K))"
        by (rule finishes_seq [OF value_finishes [OF pl [OF d]] rest [OF same_decls_trans [OF d]]])
      then show ?thesis using True nc [OF d] by simp
    next
      case False
      then show ?thesis using rest [OF d] by simp
    qed
    from finishes_seq [OF opt_finishes [OF Cons.prems(1)] this] show ?thesis
      unfolding e using skip by (simp add: checked_deps_def)
  qed
qed

lemma sym_finishes:
  assumes "plain_table K"
  shows "finishes D xs (follows (sym_at K s)) K (sym_check_sym_deps check s stk K)"
proof -
  let ?js = "prop_positions K s"
  have "map checked_deps (s_prop (sym_at K s)) = map (\<lambda>i. checked_deps (prop_at K s i)) ?js"
    by (rule nth_equalityI) (simp_all add: prop_positions_def)
  then have D: "follows (sym_at K s) = opt_syms (ev_expr (s_rev_dep (sym_at K s))) @ concat (map (\<lambda>i. checked_deps (prop_at K s i)) ?js)"
    by (simp add: follows_def)
  have "finishes D ys (concat (map (\<lambda>i. checked_deps (prop_at K s i)) ?js)) K' (check_props check s stk (prop_positions K' s) K')"
    if "same_decls K K'" for ys K'
    using props_finish [OF same_decls_plain [OF that assms], of ?js s "\<lambda>i. prop_at K s i"] that
    by (simp add: same_decls_def prop_positions_def)
  from finishes_seq [OF opt_finishes [OF assms] this] show ?thesis
    unfolding sym_check_sym_deps_def D .
qed

lemma body_finishes:
  assumes p: "plain_table K"
  shows "finishes D xs [s] K (check_deps_body check s stk K)"
proof -
  let ?y = "sym_at K s"
  have nc: "\<not> sym_is_choice ?y" "\<not> sym_is_choice_value ?y" using p by (auto simp: plain_table_def choicey_def)
  show ?thesis
  proof (cases "has_flag SYMBOL_CHECK ?y")
    case True
    have "\<exists>ms. ms \<noteq> [] \<and> messages K' = messages K @ ms \<and> conf K' = conf K" if "sym_check_print_recursive s stk K = Inr K'" for K'
      by (rule print_recursive_lines [OF nc(2) that])
    then show ?thesis using True by (fastforce simp: finishes_def check_deps_body_def Let_def same_decls_def elim!: bindE_Inr_cases)
  next
    case ng: False
    show ?thesis
    proof (cases "has_flag SYMBOL_CHECKED ?y")
      case True
      then have "s \<in> begun K - grey K" using ng by (simp add: begun_def grey_def)
      then show ?thesis using True ng
        by (auto simp: finishes_def check_deps_body_def Let_def accepted_def intro!: exI [of _ "[]"])
    next
      case nb: False
      define K1 where "K1 = upd_symbol s (set_flag (SYMBOL_CHECK OR SYMBOL_CHECKED)) K"
      note b = begin_symbol [where s = s and K = K, folded K1_def]
      have p1: "plain_table K1" by (rule same_decls_plain [OF b(3) p])
      have e: "check_deps_body check s stk K = bindE (sym_check_sym_deps check s stk K1)
          (\<lambda>(s2, K). Inr (if s2 = Some s then None else s2, upd_symbol s (clear_flag SYMBOL_CHECK) K))"
        using ng nb nc by (cases "sym_check_sym_deps check s stk K1") (auto simp: check_deps_body_def Let_def K1_def)
      show ?thesis unfolding finishes_def
      proof (intro allI impI)
        fix res K3
        assume "check_deps_body check s stk K = Inr (res, K3)"
        then obtain s2 K2 where 2: "sym_check_sym_deps check s stk K1 = Inr (s2, K2)"
          and r: "res = (if s2 = Some s then None else s2)" "K3 = upd_symbol s (clear_flag SYMBOL_CHECK) K2"
          unfolding e by (cases "sym_check_sym_deps check s stk K1") auto
        note f = finish_symbol [where s = s and K = K2, folded r(2)]
        obtain ms where ms: "messages K2 = messages K1 @ ms" "same_decls K1 K2"
          by (rule finishes_grow [OF sym_finishes [OF p1, of "[]"] 2])
        have m: "messages K1 = messages K" "messages K3 = messages K2" by (simp_all add: K1_def r(2))
        have sd: "same_decls K K3" by (rule same_decls_trans [OF b(3) same_decls_trans [OF ms(2) f(3)]])
        have "res = None \<and> grey K3 = grey K \<and> (\<exists>ys. accepted D (xs @ ys) K3 \<and> set [s] \<subseteq> set (xs @ ys))"
          if acc: "accepted D xs K" and eq: "messages K3 = messages K"
        proof -
          have sg: "s \<notin> grey K" "s \<notin> begun K" using ng nb by (simp_all add: grey_def begun_def)
          have acc1: "accepted D xs K1"
            using acc b(1,2) sg same_decls_follows [OF b(3)] by (auto simp: accepted_def)
          have "messages K2 = messages K1" using eq m by simp
          from finishesE [OF sym_finishes [OF p1] 2 acc1 this] obtain ys where
            ys: "s2 = None" "grey K2 = grey K1" "accepted D (xs @ ys) K2" "set (follows (sym_at K1 s)) \<subseteq> set (xs @ ys)" by blast
          have g3: "grey K3 = grey K" using f(1) ys(2) b(1) sg(1) by auto
          have Ds: "set (D s) \<subseteq> set (xs @ ys)" using ys(4) acc1 by (simp add: accepted_def)
          have "s \<in> begun K2 \<and> s \<in> grey K2" using ys(2,3) b(1) by (auto simp: accepted_def)
          then have "set ((xs @ ys) @ [s]) = begun K3 - grey K3"
            using ys(3) f(1,2) by (auto simp: accepted_def)
          moreover have "ordered D ((xs @ ys) @ [s])"
            using ordered_snoc [of D "xs @ ys" s] Ds ys(3) unfolding accepted_def by blast
          moreover have "grey K3 \<subseteq> begun K3" using ys(3) f(1,2) by (auto simp: accepted_def)
          ultimately have "accepted D (xs @ (ys @ [s])) K3"
            using ys(3) same_decls_follows [OF f(3)] by (simp add: accepted_def)
          moreover have "s \<in> set (xs @ (ys @ [s]))" by simp
          ultimately show ?thesis using g3 r(1) ys(1) by auto
        qed
        then show "(\<exists>ms. messages K3 = messages K @ ms) \<and> same_decls K K3 \<and>
          (accepted D xs K \<and> messages K3 = messages K \<longrightarrow>
            res = None \<and> grey K3 = grey K \<and> (\<exists>ys. accepted D (xs @ ys) K3 \<and> set [s] \<subseteq> set (xs @ ys)))"
          using ms m sd by auto
      qed
    qed
  qed
qed

end

lemma check_deps_contract: "check_contract (sym_check_deps depth) D"
proof (induction depth)
  case 0
  show ?case by unfold_locales (simp add: finishes_def)
next
  case (Suc depth)
  show ?case by unfold_locales (simp add: check_contract.body_finishes [OF Suc])
qed

interpretation check: check_contract "sym_check_deps depth" D for depth D
  by (rule check_deps_contract)

section \<open>A run on ranked dependencies\<close>

definition passes :: "kconfig \<Rightarrow> (sym option \<times> kconfig) result \<Rightarrow> bool" where
  "passes K m \<longleftrightarrow> (\<exists>K'. m = Inr (None, K') \<and> messages K' = messages K \<and> same_decls K K' \<and> grey K' = grey K)"

lemma passes_return [simp]: "passes K (Inr (None, K))"
  by (simp add: passes_def)








section \<open>The whole table\<close>






end
