(* ===== verification/ConfLine.thy ===== *)
theory ConfLine
  imports SymSet
begin

text \<open>
  \<open>kconfig/confdata.c\<close>, reading: the lines of a configuration file, and the value a line gives to a symbol.
  \<open>conf_read_simple\<close> works in one buffer that grows and is used for every line, so what stands behind the
  terminator of a line is left over from an earlier one. The buffer is the list of its bytes, a pointer into it a
  position, and a read or write behind its last byte is the fault \<open>OutOfBounds\<close>. What the code gets from the
  system is collected in the record \<open>host\<close>.
\<close>

section \<open>What the system provides\<close>

text \<open>
  \<open>conf_prefix\<close> is the macro \<open>CONFIG_\<close> of \<open>lkc.h\<close>, \<open>fopen_read\<close> the text of a file that can be opened,
  \<open>stat_finds\<close> and \<open>is_directory\<close> whether there is a file and of which kind, \<open>room n\<close> tells whether memory of \<open>n\<close> bytes can be had, and \<open>junk\<close> is what fresh memory contains.
\<close>

record host =
  getenv :: "string \<Rightarrow> string option"
  fopen_read :: "string \<Rightarrow> string option"
  stat_finds :: "string \<Rightarrow> bool"
  is_directory :: "string \<Rightarrow> bool"
  getpid :: nat
  room :: "nat \<Rightarrow> bool"
  junk :: "nat \<Rightarrow> char"

definition CONFIG_prefix :: "host \<Rightarrow> string" where
  "CONFIG_prefix h = (case getenv h ''CONFIG_'' of None \<Rightarrow> ''CONFIG_'' | Some p \<Rightarrow> p)"

definition conf_get_configname :: "host \<Rightarrow> string" where
  "conf_get_configname h = (case getenv h ''KCONFIG_CONFIG'' of None \<Rightarrow> ''.config'' | Some name \<Rightarrow> name)"

definition conf_get_autoconfig_name :: "host \<Rightarrow> string" where
  "conf_get_autoconfig_name h =
     (case getenv h ''KCONFIG_AUTOCONFIG'' of None \<Rightarrow> ''include/config/auto.conf'' | Some name \<Rightarrow> name)"

text \<open>A path is built in an array of \<open>PATH_MAX + 1\<close> bytes.\<close>

definition PATH_MAX :: nat where "PATH_MAX = 4096"

definition tree_path :: "string \<Rightarrow> string \<Rightarrow> string result" where
  "tree_path env name = (let p = env @ ''/'' @ name in if length p \<le> PATH_MAX then Inr p else Inl OutOfBounds)"

definition zconf_fopen :: "host \<Rightarrow> string \<Rightarrow> string option result" where
  "zconf_fopen h name =
     (case fopen_read h name of
        Some f \<Rightarrow> Inr (Some f)
      | None \<Rightarrow>
          if name = [] \<or> hd name \<noteq> CHR ''/'' then
            (case getenv h ''srctree'' of
               None \<Rightarrow> Inr None
             | Some env \<Rightarrow> bindE (tree_path env name) (\<lambda>fullname. Inr (fopen_read h fullname)))
          else Inr None)"

section \<open>Strings in a buffer\<close>

definition char_at :: "string \<Rightarrow> nat \<Rightarrow> char result" where
  "char_at b i = (if i < length b then Inr (b ! i) else Inl OutOfBounds)"

definition store_at :: "string \<Rightarrow> nat \<Rightarrow> char \<Rightarrow> string result" where
  "store_at b i c = (if i < length b then Inr (b[i := c]) else Inl OutOfBounds)"

text \<open>The string that starts at a position and ends before the next zero byte.\<close>

definition str_at :: "string \<Rightarrow> nat \<Rightarrow> string result" where
  "str_at b i = (let r = drop i b in if NUL \<in> set r then Inr (takeWhile (\<lambda>c. c \<noteq> NUL) r) else Inl OutOfBounds)"

definition strchr :: "string \<Rightarrow> nat \<Rightarrow> char \<Rightarrow> nat option result" where
  "strchr b i c =
     bindE (str_at b i) (\<lambda>s. let l = length (takeWhile (\<lambda>d. d \<noteq> c) s) in
     Inr (if l < length s then Some (i + l) else None))"

definition memcmp_eq :: "string \<Rightarrow> nat \<Rightarrow> string \<Rightarrow> bool result" where
  "memcmp_eq b i s = (if i + length s \<le> length b then Inr (take (length s) (drop i b) = s) else Inl OutOfBounds)"

text \<open>\<open>strncmp(p, s, strlen(s)) == 0\<close>\<close>

definition starts_with :: "string \<Rightarrow> nat \<Rightarrow> string \<Rightarrow> bool result" where
  "starts_with b i s = bindE (str_at b i) (\<lambda>t. Inr (take (length s) t = s))"

section \<open>Reading a line\<close>

definition LINE_GROWTH :: nat where "LINE_GROWTH = 16"

text \<open>\<open>None\<close> when there is no memory to grow the buffer.\<close>

definition add_byte :: "host \<Rightarrow> char \<Rightarrow> string \<Rightarrow> nat \<Rightarrow> string option result" where
  "add_byte h c line slen =
     (let new_size = slen + 1 in
      if length line < new_size then
        let new_size = (new_size + (LINE_GROWTH - 1)) * 2 in
        if \<not> room h new_size then Inr None
        else bindE (store_at (line @ map (junk h) [length line..<new_size]) slen c) (\<lambda>b. Inr (Some b))
      else bindE (store_at line slen c) (\<lambda>b. Inr (Some b)))"

text \<open>The label \<open>e_out\<close>: with an empty line the code writes before the start of the buffer.\<close>

definition getline_out :: "string \<Rightarrow> nat \<Rightarrow> string \<Rightarrow> (int \<times> string \<times> string) result" where
  "getline_out line slen inp =
     (if slen = 0 then Inl OutOfBounds
      else bindE (store_at line (slen - 1) NUL) (\<lambda>b. Inr (-1, b, inp)))"

text \<open>\<open>inp\<close> is what is left of the file. The result is the length or -1, the buffer and the rest.\<close>

fun getline_loop :: "host \<Rightarrow> string \<Rightarrow> nat \<Rightarrow> string \<Rightarrow> (int \<times> string \<times> string) result" where
  "getline_loop h line slen [] =
     bindE (add_byte h NUL line slen) (\<lambda>r.
     case r of None \<Rightarrow> getline_out line slen []
     | Some b \<Rightarrow> Inr (if slen = 0 then -1 else int slen, b, []))"
| "getline_loop h line slen (c # inp) =
     bindE (add_byte h c line slen) (\<lambda>r.
     case r of
       None \<Rightarrow> getline_out line slen inp
     | Some b \<Rightarrow>
         if c = CHR 0x0A then
           bindE (add_byte h NUL b (slen + 1)) (\<lambda>r.
           case r of None \<Rightarrow> getline_out b (slen + 1) inp
           | Some b \<Rightarrow> Inr (if slen + 1 = 0 then -1 else int (slen + 1), b, inp))
         else getline_loop h b (slen + 1) inp)"

definition compat_getline :: "host \<Rightarrow> string \<Rightarrow> string \<Rightarrow> (int \<times> string \<times> string) result" where
  "compat_getline h line inp = getline_loop h line 0 inp"

section \<open>The value of a symbol\<close>

definition conf_warning :: "string \<Rightarrow> kconfig \<Rightarrow> kconfig" where
  "conf_warning text K =
     K\<lparr>messages := messages K @ [ConfWarning (conf_filename K) (conf_lineno K) text],
       conf_warnings := conf_warnings K + 1\<rparr>"

text \<open>The names come from \<open>sym_find\<close> and \<open>sym_lookup\<close>, so none is \<open>NULL\<close>; \<open>printf\<close> would show that as here.\<close>

definition shown_name :: "symbol \<Rightarrow> string" where
  "shown_name y = (case s_name y of None \<Rightarrow> ''(null)'' | Some nm \<Rightarrow> nm)"

definition set_def :: "s_def \<Rightarrow> (symbol_value \<Rightarrow> symbol_value) \<Rightarrow> symbol \<Rightarrow> symbol" where
  "set_def d f y = y\<lparr>s_def := (s_def y)(d := f (s_def y d))\<rparr>"

definition give_tri :: "sym \<Rightarrow> s_def \<Rightarrow> 32 word \<Rightarrow> tristate \<Rightarrow> kconfig \<Rightarrow> kconfig" where
  "give_tri s d fl t K = upd_symbol s (set_flag fl) (upd_symbol s (set_def d (sv_tri_update (\<lambda>_. t))) K)"

definition give_val :: "sym \<Rightarrow> s_def \<Rightarrow> 32 word \<Rightarrow> string \<Rightarrow> kconfig \<Rightarrow> kconfig" where
  "give_val s d fl v K = upd_symbol s (set_flag fl) (upd_symbol s (set_def d (sv_val_update (\<lambda>_. StrVal v))) K)"

definition warn_value :: "sym \<Rightarrow> s_def \<Rightarrow> string \<Rightarrow> kconfig \<Rightarrow> kconfig" where
  "warn_value s d v K =
     (if d \<noteq> S_DEF_AUTO
      then conf_warning (''symbol value '' @ [CHR 0x27] @ v @ [CHR 0x27] @ '' invalid for '' @ shown_name (sym_at K s)) K
      else K)"

text \<open>\<open>memmove(p2, p2 + 1, strlen(p2))\<close> for the string of length \<open>n\<close> at \<open>p2\<close>\<close>

definition close_gap :: "string \<Rightarrow> nat \<Rightarrow> nat \<Rightarrow> string" where
  "close_gap b j n = take j b @ take n (drop (j + 1) b) @ drop (j + n) b"

text \<open>
  The loop over the escaped characters of a quoted string, which ends at the closing quote (the position
  returned) or when there is none. After a backslash is taken out the loop goes on behind the character that
  followed it, even if that is the terminator.
\<close>

function unescape :: "string \<Rightarrow> nat \<Rightarrow> (nat option \<times> string) result" where
  "unescape b p2 =
     (case str_at b p2 of
        Inl f \<Rightarrow> Inl f
      | Inr s \<Rightarrow>
          let l = strcspn_escaped s; j = p2 + l in
          if l = length s then Inr (None, b)
          else if b ! j = CHR 0x22 then Inr (Some j, b[j := NUL])
          else unescape (close_gap b j (length s - l)) (j + 1))"
  by pat_completeness auto

lemma takeWhile_shorter: "x \<in> set xs \<Longrightarrow> \<not> P x \<Longrightarrow> length (takeWhile P xs) < length xs"
  by (induction xs) auto

lemma str_at_range: "str_at b i = Inr s \<Longrightarrow> i + length s < length b"
proof -
  assume a: "str_at b i = Inr s"
  have n: "NUL \<in> set (drop i b)" and s: "s = takeWhile (\<lambda>c. c \<noteq> NUL) (drop i b)"
    using a by (auto simp: str_at_def Let_def split: if_splits)
  have "length s < length (drop i b)"
    unfolding s by (rule takeWhile_shorter [OF n]) simp
  then show ?thesis by simp
qed

lemma length_close_gap: "j + n < length b \<Longrightarrow> length (close_gap b j n) = length b"
  by (simp add: close_gap_def)

lemma strcspn_le: "strcspn_escaped s \<le> length s"
  by (simp add: strcspn_escaped_def length_takeWhile_le)

termination unescape
proof (relation "measure (\<lambda>(b, p2). length b - p2)", simp, clarsimp)
  fix b p2 s
  assume "str_at b p2 = Inr s" and "strcspn_escaped s \<noteq> length s"
  then have "p2 + length s < length b" and "strcspn_escaped s < length s"
    using str_at_range strcspn_le [of s] by (simp_all add: le_neq_implies_less)
  then show "length (close_gap b (p2 + strcspn_escaped s) (length s - strcspn_escaped s))
      - Suc (p2 + strcspn_escaped s) < length b - p2"
    by (subst length_close_gap) simp_all
qed

text \<open>From the label \<open>done\<close> on; the result is what the function returns, \<open>True\<close> for 1.\<close>

definition conf_store_string :: "sym \<Rightarrow> s_def \<Rightarrow> 32 word \<Rightarrow> nat \<Rightarrow> string \<Rightarrow> kconfig \<Rightarrow> (bool \<times> string \<times> kconfig) result" where
  "conf_store_string s d fl p b K =
     bindE (str_at b p) (\<lambda>v.
     Inr (if sym_string_valid (s_type (sym_at K s)) v then (False, b, give_val s d fl v K)
          else (True, b, warn_value s d v K)))"

definition conf_store_quoted :: "sym \<Rightarrow> s_def \<Rightarrow> 32 word \<Rightarrow> nat \<Rightarrow> string \<Rightarrow> kconfig \<Rightarrow> (bool \<times> string \<times> kconfig) result" where
  "conf_store_quoted s d fl p b K =
     bindE (char_at b p) (\<lambda>c.
     if c \<noteq> CHR 0x22 then Inr (False, b, K)
     else
       bindE (unescape b (p + 1)) (\<lambda>(p2, b).
       case p2 of
         None \<Rightarrow> Inr (True, b, if d \<noteq> S_DEF_AUTO then conf_warning ''invalid string found'' K else K)
       | Some _ \<Rightarrow> conf_store_string s d fl (p + 1) b K))"

definition conf_store_bool :: "sym \<Rightarrow> s_def \<Rightarrow> 32 word \<Rightarrow> nat \<Rightarrow> string \<Rightarrow> kconfig \<Rightarrow> (bool \<times> string \<times> kconfig) result" where
  "conf_store_bool s d fl p b K =
     bindE (char_at b p) (\<lambda>c.
     if c = CHR ''y'' then Inr (False, b, give_tri s d fl yes K)
     else if c = CHR ''n'' then Inr (False, b, give_tri s d fl no K)
     else bindE (str_at b p) (\<lambda>v. Inr (True, b, warn_value s d v K)))"

definition conf_set_sym_val :: "sym \<Rightarrow> s_def \<Rightarrow> 32 word \<Rightarrow> nat \<Rightarrow> string \<Rightarrow> kconfig \<Rightarrow> (bool \<times> string \<times> kconfig) result" where
  "conf_set_sym_val s d fl p b K =
     (case s_type (sym_at K s) of
        S_TRISTATE \<Rightarrow>
          bindE (char_at b p) (\<lambda>c.
          if c = CHR ''m'' then Inr (False, b, give_tri s d fl tri_mod K) else conf_store_bool s d fl p b K)
      | S_BOOLEAN \<Rightarrow> conf_store_bool s d fl p b K
      | S_OTHER \<Rightarrow>
          bindE (char_at b p) (\<lambda>c.
          if c \<noteq> CHR 0x22 then conf_store_string s d fl p b (upd_symbol s (\<lambda>y. y\<lparr>s_type := S_STRING\<rparr>) K)
          else conf_store_quoted s d fl p b K)
      | S_STRING \<Rightarrow> conf_store_quoted s d fl p b K
      | S_INT \<Rightarrow> conf_store_string s d fl p b K
      | S_HEX \<Rightarrow> conf_store_string s d fl p b K
      | S_UNKNOWN \<Rightarrow> Inr (False, b, K))"

end
