(* ===== verification/ConfRead.thy ===== *)
theory ConfRead
  imports ConfLine
begin

text \<open>
  \<open>kconfig/confdata.c\<close>: reading a configuration. \<open>calc\<close> is \<open>sym_calc_value\<close>. \<open>conf_warnings\<close> and the other
  counters do not wrap. What \<open>free\<close> releases is not modelled.
\<close>

section \<open>Names of files\<close>

definition conf_message :: "string \<Rightarrow> kconfig \<Rightarrow> kconfig" where
  "conf_message text K = K\<lparr>messages := messages K @ [ConfMessage text]\<rparr>"

definition conf_default_message_callback :: "string \<Rightarrow> string" where
  "conf_default_message_callback text = ''#'' @ [CHR 0x0A] @ ''# '' @ text @ [CHR 0x0A] @ ''#'' @ [CHR 0x0A]"

text \<open>Of the function a front end registers the table knows only whether there is one.\<close>

definition conf_set_changed_callback :: "bool \<Rightarrow> kconfig \<Rightarrow> kconfig" where
  "conf_set_changed_callback fn K = K\<lparr>conf_changed_callback := fn\<rparr>"

text \<open>\<open>strcat\<close> to the array \<open>res_value\<close>\<close>

definition res_value_cat :: "string \<Rightarrow> string \<Rightarrow> string result" where
  "res_value_cat res str =
     (if length res + length str < SYMBOL_MAXLENGTH then Inr (res @ str) else Inl OutOfBounds)"

definition conf_expand_name :: "calc \<Rightarrow> string \<Rightarrow> kconfig \<Rightarrow> (string \<times> kconfig) result" where
  "conf_expand_name calc name K =
     (if SYMBOL_MAXLENGTH \<le> length name then Inl OutOfBounds
      else
        let (s, K) = sym_lookup (Some name) 0 K
        in bindE (calc s K) (\<lambda>K. bindE (get_string_value calc s K) (\<lambda>(v, K).
           bindE (c_string v) (\<lambda>str. Inr (str, K)))))"

function conf_expand_loop :: "calc \<Rightarrow> string \<Rightarrow> string \<Rightarrow> kconfig \<Rightarrow> (string \<times> kconfig) result" where
  "conf_expand_loop calc inp res K =
     (case dropWhile (\<lambda>c. c \<noteq> CHR ''$'') inp of
        [] \<Rightarrow> bindE (res_value_cat res inp) (\<lambda>res. Inr (res, K))
      | _ # src \<Rightarrow>
          bindE (res_value_cat res (takeWhile (\<lambda>c. c \<noteq> CHR ''$'') inp)) (\<lambda>res.
          bindE (conf_expand_name calc (takeWhile name_char src) K) (\<lambda>(str, K).
          bindE (res_value_cat res str) (\<lambda>res.
          conf_expand_loop calc (dropWhile name_char src) res K))))"
  by pat_completeness auto

termination conf_expand_loop
  by (relation "measure (\<lambda>(calc, inp, res, K). length inp)") (auto dest: after_dollar_shorter)

definition conf_expand_value :: "calc \<Rightarrow> string \<Rightarrow> kconfig \<Rightarrow> (string \<times> kconfig) result" where
  "conf_expand_value calc inp K = conf_expand_loop calc inp '''' K"

definition conf_defname :: string where "conf_defname = ''arch/$ARCH/defconfig''"

definition conf_get_default_confname :: "host \<Rightarrow> calc \<Rightarrow> kconfig \<Rightarrow> (string \<times> kconfig) result" where
  "conf_get_default_confname h calc K =
     bindE (conf_expand_value calc conf_defname K) (\<lambda>(name, K).
     case getenv h ''srctree'' of
       None \<Rightarrow> Inr (name, K)
     | Some env \<Rightarrow>
         bindE (tree_path env name) (\<lambda>fullname. Inr (if stat_finds h fullname then fullname else name, K)))"

section \<open>A line\<close>

definition def_flags :: "s_def \<Rightarrow> 32 word" where
  "def_flags d = push_bit (case d of S_DEF_USER \<Rightarrow> 0 | S_DEF_AUTO \<Rightarrow> 1 | S_DEF_DEF3 \<Rightarrow> 2 | S_DEF_DEF4 \<Rightarrow> 3) SYMBOL_DEF_USER"

definition line_symbol :: "s_def \<Rightarrow> symbol_type \<Rightarrow> string \<Rightarrow> kconfig \<Rightarrow> sym option \<times> kconfig" where
  "line_symbol d type name K =
     (if d = S_DEF_USER then
        (case sym_find (Some name) K of None \<Rightarrow> (None, sym_add_change_count 1 K) | Some s \<Rightarrow> (Some s, K))
      else
        let (s, K) = sym_lookup (Some name) 0 K
        in (Some s, if s_type (sym_at K s) = S_UNKNOWN then upd_symbol s (\<lambda>y. y\<lparr>s_type := type\<rparr>) K else K))"

definition warn_reassigned :: "32 word \<Rightarrow> sym \<Rightarrow> kconfig \<Rightarrow> kconfig" where
  "warn_reassigned fl s K =
     (if has_flag fl (sym_at K s) then conf_warning (''override: reassigning to symbol '' @ shown_name (sym_at K s)) K else K)"

text \<open>A handler of a line gives \<open>None\<close> for \<open>continue\<close>, or the symbol with which the code goes to \<open>setsym\<close>.\<close>

definition read_unset_symbol :: "s_def \<Rightarrow> string \<Rightarrow> kconfig \<Rightarrow> sym option \<times> kconfig" where
  "read_unset_symbol d name K =
     (let (so, K) = line_symbol d S_BOOLEAN name K in
      case so of
        None \<Rightarrow> (None, K)
      | Some s \<Rightarrow>
          let K = warn_reassigned (def_flags d) s K; type = s_type (sym_at K s)
          in (Some s, if type = S_BOOLEAN \<or> type = S_TRISTATE then give_tri s d (def_flags d) no K else K))"

definition read_comment :: "host \<Rightarrow> s_def \<Rightarrow> string \<Rightarrow> kconfig \<Rightarrow> (sym option option \<times> string \<times> kconfig) result" where
  "read_comment h d b K =
     (let start = 2 + length (CONFIG_prefix h) in
      bindE (memcmp_eq b 2 (CONFIG_prefix h)) (\<lambda>same.
      if \<not> same then Inr (None, b, K)
      else
        bindE (strchr b start (CHR '' '')) (\<lambda>p.
        case p of
          None \<Rightarrow> Inr (None, b, K)
        | Some p \<Rightarrow>
            let b = b[p := NUL] in
            bindE (starts_with b (p + 1) ''is not set'') (\<lambda>unset.
            if \<not> unset then Inr (None, b, K)
            else
              bindE (str_at b start) (\<lambda>name.
              let (so, K) = read_unset_symbol d name K in Inr (Some so, b, K))))))"

text \<open>The end of the line is cut off, a carriage return before it as well.\<close>

definition cut_newline :: "string \<Rightarrow> nat \<Rightarrow> string result" where
  "cut_newline b p =
     bindE (strchr b p (CHR 0x0A)) (\<lambda>p2.
     case p2 of
       None \<Rightarrow> Inr b
     | Some j \<Rightarrow>
         let b = b[j := NUL]
         in Inr (if b ! (j - 1) = CHR 0x0D then b[j - 1 := NUL] else b))"

definition read_assignment :: "host \<Rightarrow> s_def \<Rightarrow> string \<Rightarrow> kconfig \<Rightarrow> (sym option option \<times> string \<times> kconfig) result" where
  "read_assignment h d b K =
     (let start = length (CONFIG_prefix h) in
      bindE (strchr b start (CHR ''='')) (\<lambda>p.
      case p of
        None \<Rightarrow> Inr (None, b, K)
      | Some p \<Rightarrow>
          bindE (cut_newline (b[p := NUL]) (p + 1)) (\<lambda>b.
          bindE (str_at b start) (\<lambda>name.
          let (so, K) = line_symbol d S_OTHER name K in
          case so of
            None \<Rightarrow> Inr (Some None, b, K)
          | Some s \<Rightarrow>
              bindE (conf_set_sym_val s d (def_flags d) (p + 1) b (warn_reassigned (def_flags d) s K)) (\<lambda>(bad, b, K).
              Inr (if bad then None else Some (Some s), b, K))))))"

text \<open>From the label \<open>setsym\<close> on: the choice that a choice value belongs to\<close>

definition set_choice_state :: "s_def \<Rightarrow> sym \<Rightarrow> kconfig \<Rightarrow> kconfig result" where
  "set_choice_state d s K =
     (if \<not> sym_is_choice_value (sym_at K s) then Inr K
      else
        bindE (choice_of K s) (\<lambda>cs.
        let state = sv_tri (s_def (sym_at K cs) d);
            K = (case sv_tri (s_def (sym_at K s) d) of
                   no \<Rightarrow> K
                 | tri_mod \<Rightarrow>
                     if state = yes then
                       upd_symbol cs (clear_flag (def_flags d))
                         (conf_warning (shown_name (sym_at K s) @ '' creates inconsistent choice state'') K)
                     else K
                 | yes \<Rightarrow>
                     upd_symbol cs (set_def d (sv_val_update (\<lambda>_. SymVal s)))
                       (if state \<noteq> no then
                          conf_warning (''override: '' @ shown_name (sym_at K s) @ '' changes choice state'') K
                        else K))
        in Inr (upd_symbol cs (set_def d (\<lambda>v. v\<lparr>sv_tri := EXPR_OR (sv_tri v) (sv_tri (s_def (sym_at K s) d))\<rparr>)) K)))"

definition read_line :: "host \<Rightarrow> s_def \<Rightarrow> string \<Rightarrow> kconfig \<Rightarrow> (string \<times> kconfig) result" where
  "read_line h d b K =
     bindE (char_at b 0) (\<lambda>c.
     bindE
       (if c = CHR ''#'' then read_comment h d b K
        else
          bindE (memcmp_eq b 0 (CONFIG_prefix h)) (\<lambda>same.
          if same then read_assignment h d b K
          else Inr (None, b, if c \<noteq> CHR 0x0D \<and> c \<noteq> CHR 0x0A then conf_warning ''unexpected data'' K else K)))
       (\<lambda>(so, b, K).
        case so of
          Some (Some s) \<Rightarrow> bindE (set_choice_state d s K) (\<lambda>K. Inr (b, K))
        | _ \<Rightarrow> Inr (b, K)))"

section \<open>A file\<close>

lemma getline_shorter:
  "getline_loop h line slen inp = Inr (n, b, rest) \<Longrightarrow> length rest \<le> length inp \<and> (inp \<noteq> [] \<longrightarrow> length rest < length inp)"
  by (induction h line slen inp rule: getline_loop.induct)
     (fastforce simp: getline_out_def bindE_eq_Inr_iff split: if_splits option.splits)+

lemma getline_ends: "compat_getline h line inp = Inr (n, b, rest) \<Longrightarrow> n \<noteq> -1 \<Longrightarrow> length rest < length inp"
proof (cases "inp = []")
  case True
  assume "compat_getline h line inp = Inr (n, b, rest)" and "n \<noteq> -1"
  then show ?thesis
    by (auto simp: True compat_getline_def getline_out_def bindE_eq_Inr_iff split: option.splits)
next
  case False
  assume "compat_getline h line inp = Inr (n, b, rest)"
  then show ?thesis using getline_shorter False unfolding compat_getline_def by blast
qed

function read_lines :: "host \<Rightarrow> s_def \<Rightarrow> string \<Rightarrow> string \<Rightarrow> kconfig \<Rightarrow> kconfig result" where
  "read_lines h d line inp K =
     (case compat_getline h line inp of
        Inl f \<Rightarrow> Inl f
      | Inr (n, line, rest) \<Rightarrow>
          if n = -1 then Inr K
          else bindE (read_line h d line (K\<lparr>conf_lineno := conf_lineno K + 1\<rparr>)) (\<lambda>(line, K). read_lines h d line rest K))"
  by pat_completeness auto

termination read_lines
  by (relation "measure (\<lambda>(h, d, line, inp, K). length inp)") (auto dest: getline_ends)

definition reset_def :: "s_def \<Rightarrow> sym \<Rightarrow> kconfig \<Rightarrow> kconfig" where
  "reset_def d s K =
     (let K = upd_symbol s (set_flag SYMBOL_CHANGED) K;
          K = upd_symbol s (clear_flag (def_flags d OR SYMBOL_VALID)) K;
          K = (if sym_is_choice (sym_at K s) then upd_symbol s (set_flag (def_flags d)) K else K)
      in upd_symbol s (set_def d (\<lambda>_. \<lparr>sv_val = NullVal, sv_tri = no\<rparr>)) K)"

text \<open>From the label \<open>load\<close> on\<close>

definition load_file :: "host \<Rightarrow> calc \<Rightarrow> s_def \<Rightarrow> string \<Rightarrow> string \<Rightarrow> kconfig \<Rightarrow> (int \<times> kconfig) result" where
  "load_file h calc d name inp K =
     (let K = K\<lparr>conf_filename := name, conf_lineno := 0, conf_warnings := 0, conf_unsaved := 0\<rparr>;
          K = fold (reset_def d) (all_symbols K) K
      in bindE (read_lines h d '''' inp K) (\<lambda>K.
         bindE (calc (modules_sym (conf K)) K) (\<lambda>K. Inr (0, K))))"

text \<open>The defaults of the symbol \<open>sym_defconfig_list\<close> name files to try, in order.\<close>

fun default_file :: "host \<Rightarrow> calc \<Rightarrow> sym \<Rightarrow> nat list \<Rightarrow> kconfig \<Rightarrow> ((string \<times> string) option \<times> kconfig) result" where
  "default_file h calc s [] K = Inr (None, K)"
| "default_file h calc s (i # js) K =
     (if p_type (prop_at K s i) \<noteq> P_DEFAULT then default_file h calc s js K
      else
        bindE (calc_opt calc (ev_expr (p_visible (prop_at K s i))) K) (\<lambda>(t, K).
        if t = no then default_file h calc s js K
        else
          case p_expr (prop_at K s i) of
            None \<Rightarrow> Inl NullDeref
          | Some (DepE (SymE x)) \<Rightarrow>
              bindE (deref (s_name (sym_at K x))) (\<lambda>nm.
              bindE (conf_expand_value calc nm K) (\<lambda>(name, K).
              bindE (zconf_fopen h name) (\<lambda>f.
              case f of
                None \<Rightarrow> default_file h calc s js K
              | Some inp \<Rightarrow> Inr (Some (name, inp), conf_message (''using defaults found in '' @ name) K))))
          | Some _ \<Rightarrow> default_file h calc s js K))"

definition conf_read_simple :: "host \<Rightarrow> calc \<Rightarrow> string option \<Rightarrow> s_def \<Rightarrow> kconfig \<Rightarrow> (int \<times> kconfig) result" where
  "conf_read_simple h calc name d K =
     (case name of
        Some name \<Rightarrow>
          bindE (zconf_fopen h name) (\<lambda>f.
          case f of None \<Rightarrow> Inr (1, K) | Some inp \<Rightarrow> load_file h calc d name inp K)
      | None \<Rightarrow>
          let name = conf_get_configname h in
          bindE (zconf_fopen h name) (\<lambda>f.
          case f of
            Some inp \<Rightarrow> load_file h calc d name inp K
          | None \<Rightarrow>
              let K = sym_add_change_count 1 K in
              (case sym_defconfig_list K of
                 None \<Rightarrow> bindE (calc (modules_sym (conf K)) K) (\<lambda>K. Inr (1, K))
               | Some s \<Rightarrow>
                   bindE (default_file h calc s (prop_positions K s) K) (\<lambda>(found, K).
                   case found of None \<Rightarrow> Inr (1, K) | Some (name, inp) \<Rightarrow> load_file h calc d name inp K))))"

section \<open>Reading the user's configuration\<close>

text \<open>Does the calculated value agree with the saved one?\<close>

definition value_agrees :: "symbol \<Rightarrow> bool result" where
  "value_agrees y =
     (if (s_type y = S_BOOLEAN \<or> s_type y = S_TRISTATE) \<and> sv_tri (s_def y S_DEF_USER) \<noteq> sym_get_tristate_value y
      then Inr False
      else if (s_type y = S_BOOLEAN \<or> s_type y = S_TRISTATE) \<and> \<not> sym_is_choice y then Inr True
      else
        bindE (c_string (sv_val (s_curr y))) (\<lambda>new.
        bindE (c_string (sv_val (s_def y S_DEF_USER))) (\<lambda>saved. Inr (new = saved))))"

definition count_unsaved :: "calc \<Rightarrow> sym \<Rightarrow> kconfig \<Rightarrow> kconfig result" where
  "count_unsaved calc s K =
     bindE (calc s K) (\<lambda>K.
     let y = sym_at K s; unsaved = K\<lparr>conf_unsaved := conf_unsaved K + 1\<rparr> in
     if sym_is_choice y \<or> has_flag SYMBOL_AUTO y then Inr K
     else if sym_has_value y \<and> has_flag SYMBOL_WRITE y then
       bindE (value_agrees y) (\<lambda>same. Inr (if same then K else unsaved))
     else if \<not> sym_has_value y \<and> \<not> has_flag SYMBOL_WRITE y then Inr K
     else Inr unsaved)"

definition saved_within_range :: "calc \<Rightarrow> sym \<Rightarrow> kconfig \<Rightarrow> (bool \<times> kconfig) result" where
  "saved_within_range calc s K =
     (if s_type (sym_at K s) = S_STRING then Inr (True, K)
      else bindE (c_string (sv_val (s_def (sym_at K s) S_DEF_USER))) (\<lambda>str. sym_string_within_range calc s str K))"

definition reset_generated :: "calc \<Rightarrow> sym \<Rightarrow> kconfig \<Rightarrow> kconfig result" where
  "reset_generated calc s K =
     (if sym_has_value (sym_at K s) \<and> \<not> sym_is_choice_value (sym_at K s) then
        let K = (if s_visible (sym_at K s) = no \<and> conf_unsaved K = 0 then upd_symbol s (clear_flag SYMBOL_DEF_USER) K else K)
        in if s_type (sym_at K s) \<in> {S_STRING, S_INT, S_HEX} then
             bindE (saved_within_range calc s K) (\<lambda>(ok, K).
             Inr (if ok then K
                  else (upd_symbol s (clear_flag (SYMBOL_VALID OR SYMBOL_DEF_USER)) K)\<lparr>conf_unsaved := conf_unsaved K + 1\<rparr>))
           else Inr K
      else Inr K)"

fun for_symbols :: "(sym \<Rightarrow> kconfig \<Rightarrow> kconfig result) \<Rightarrow> sym list \<Rightarrow> kconfig \<Rightarrow> kconfig result" where
  "for_symbols f [] K = Inr K"
| "for_symbols f (s # ss) K = bindE (f s K) (for_symbols f ss)"

definition conf_read :: "host \<Rightarrow> calc \<Rightarrow> string option \<Rightarrow> kconfig \<Rightarrow> (int \<times> kconfig) result" where
  "conf_read h calc name K =
     bindE (conf_read_simple h calc name S_DEF_USER (sym_set_change_count 0 K)) (\<lambda>(r, K).
     if r \<noteq> 0 then Inr (1, K)
     else
       bindE (for_symbols (count_unsaved calc) (all_symbols K) K) (\<lambda>K.
       bindE (for_symbols (reset_generated calc) (all_symbols K) K) (\<lambda>K.
       Inr (0, sym_add_change_count (if conf_warnings K \<noteq> 0 \<or> conf_unsaved K \<noteq> 0 then 1 else 0) K))))"

end
