(* ===== verification/Util.thy ===== *)
theory Util
  imports ConfRead
begin

text \<open>
  \<open>kconfig/util.c\<close>: the list of the files read, the dependency file for make, and growing strings; and
  \<open>expr_gstr_print\<close> of \<open>expr.c\<close>, which prints an expression into such a string and breaks its lines. A failed
  \<open>xmalloc\<close> ends the program and is not modelled; \<open>str_append\<close> uses \<open>realloc\<close>, whose failure is.
\<close>

abbreviation newline :: string where "newline \<equiv> [CHR 0x0A]"

section \<open>System calls\<close>

text \<open>
  The calls made so far are a list, the latest first. \<open>answer ops c\<close> is the error number of the call \<open>c\<close> after
  \<open>ops\<close>, 0 when it succeeds. \<open>Write f text\<close> is what a file contains once it has been closed.
\<close>

datatype sys_call =
    Chdir string
  | Stat string
  | Mkdir string
  | Open string
  | Write string string
  | Rename string string

type_synonym answers = "sys_call list \<Rightarrow> sys_call \<Rightarrow> nat"

definition call :: "answers \<Rightarrow> sys_call \<Rightarrow> sys_call list \<Rightarrow> nat \<times> sys_call list" where
  "call answer c ops = (answer ops c, c # ops)"

section \<open>Files\<close>

text \<open>
  \<open>file_list\<close> as the names in it, the last added first. A file is its number in the order they were
  added. The name asked for is compared as it stands to the names in the list, which have been expanded.
\<close>

definition file_lookup :: "calc \<Rightarrow> string \<Rightarrow> string list \<Rightarrow> kconfig \<Rightarrow> (nat \<times> string list \<times> kconfig) result" where
  "file_lookup calc name fs K =
     bindE (sym_expand_string_value calc name K) (\<lambda>(file_name, K).
     let i = length (takeWhile (\<lambda>f. f \<noteq> name) fs) in
     Inr (if i < length fs then (length fs - 1 - i, fs, K) else (length fs, file_name # fs, K)))"

fun config_files :: "string list \<Rightarrow> string" where
  "config_files [] = ''''"
| "config_files [f] = CHR 0x09 # f @ newline"
| "config_files (f # fs) = CHR 0x09 # f @ '' '' @ [CHR 0x5C] @ newline @ config_files fs"

definition double_quoted :: "string \<Rightarrow> string" where
  "double_quoted s = CHR 0x22 # s @ [CHR 0x22]"

text \<open>A symbol of \<open>sym_env_list\<close> makes the generated files depend on its environment variable.\<close>

definition env_dep :: "host \<Rightarrow> kconfig \<Rightarrow> sym \<Rightarrow> string result" where
  "env_dep h K s =
     bindE (deref (sym_get_env_prop (sym_at K s))) (\<lambda>prop.
     bindE (prop_get_symbol prop) (\<lambda>env_sym.
     case env_sym of
       None \<Rightarrow> Inr ''''
     | Some x \<Rightarrow>
         bindE (deref (s_name (sym_at K x))) (\<lambda>nm.
         let val = (case getenv h nm of None \<Rightarrow> '''' | Some v \<Rightarrow> v) in
         Inr (''ifneq '' @ double_quoted (''$('' @ nm @ '')'') @ '' '' @ double_quoted val @ newline @
              conf_get_autoconfig_name h @ '': FORCE'' @ newline @ ''endif'' @ newline))))"

fun env_deps :: "host \<Rightarrow> kconfig \<Rightarrow> sym list \<Rightarrow> string result" where
  "env_deps h K [] = Inr ''''"
| "env_deps h K (s # ss) = bindE (env_dep h K s) (\<lambda>t. bindE (env_deps h K ss) (\<lambda>ts. Inr (t @ ts)))"

definition file_write_dep ::
    "host \<Rightarrow> answers \<Rightarrow> string list \<Rightarrow> string option \<Rightarrow> sys_call list \<Rightarrow> kconfig \<Rightarrow> (int \<times> sys_call list) result" where
  "file_write_dep h answer fs name ops K =
     (let name = (case name of None \<Rightarrow> ''.kconfig.d'' | Some f \<Rightarrow> f);
          (err, ops) = call answer (Open ''..config.tmp'') ops
      in if err \<noteq> 0 then Inr (1, ops)
         else
           bindE (env_deps h K (sym_env_list K)) (\<lambda>env.
           let out = ''deps_config := '' @ [CHR 0x5C] @ newline @ config_files fs @
                 newline @ conf_get_autoconfig_name h @ '': '' @ [CHR 0x5C] @ newline @
                 [CHR 0x09] @ ''$(deps_config)'' @ newline @ newline @ env @
                 newline @ ''$(deps_config): ;'' @ newline
           in Inr (0, snd (call answer (Rename ''..config.tmp'' name) (Write ''..config.tmp'' out # ops)))))"

section \<open>Growing strings\<close>

text \<open>\<open>gs_s\<close> is the string without its terminator; a released string is \<open>None\<close>.\<close>

record gstr =
  gs_len :: nat
  gs_s :: "string option"
  gs_max_width :: int

definition str_new :: gstr where
  "str_new = \<lparr>gs_len = 64, gs_s = Some '''', gs_max_width = 0\<rparr>"

definition str_free :: "gstr \<Rightarrow> gstr" where
  "str_free gs = gs\<lparr>gs_s := None, gs_len := 0\<rparr>"

text \<open>\<open>strcat\<close> writes the text and its terminator; with too little room that is behind the allocation.\<close>

definition str_append :: "host \<Rightarrow> string option \<Rightarrow> gstr \<Rightarrow> gstr result" where
  "str_append h s gs =
     (case s of
        None \<Rightarrow> Inr gs
      | Some t \<Rightarrow>
          bindE (deref (gs_s gs)) (\<lambda>old.
          let l = length old + length t + 1 in
          bindE (if gs_len gs < l then (if room h l then Inr (gs\<lparr>gs_len := l\<rparr>) else Inl NullDeref) else Inr gs)
            (\<lambda>gs. if gs_len gs < length old + length t + 1 then Inl OutOfBounds else Inr (gs\<lparr>gs_s := Some (old @ t)\<rparr>))))"

text \<open>The text is formatted in an array of 10000 bytes and cut to it.\<close>

definition str_printf :: "host \<Rightarrow> string \<Rightarrow> gstr \<Rightarrow> gstr result" where
  "str_printf h text gs = str_append h (Some (take 9999 text)) gs"

definition str_get :: "gstr \<Rightarrow> string option" where
  "str_get gs = gs_s gs"

section \<open>Expressions in a growing string\<close>

text \<open>From the last newline, with it, to the end.\<close>

definition last_line_length :: "string \<Rightarrow> nat" where
  "last_line_length s =
     (let l = takeWhile (\<lambda>c. c \<noteq> CHR 0x0A) (rev s) in if length l = length s then length s else length l + 1)"

text \<open>The lengths are \<open>unsigned\<close>, and \<open>max_width\<close> becomes so in the comparison.\<close>

definition unsigned_int :: "int \<Rightarrow> int" where
  "unsigned_int x = x mod 2 ^ 32"

definition breaks_line :: "gstr \<Rightarrow> string \<Rightarrow> string \<Rightarrow> string option \<Rightarrow> bool" where
  "breaks_line gs s t sym_str =
     (let extra = length t + (case sym_str of None \<Rightarrow> 0 | Some v \<Rightarrow> 4 + length v) in
      unsigned_int (int (last_line_length s) + int extra) > unsigned_int (gs_max_width gs))"

definition expr_print_gstr_helper :: "host \<Rightarrow> calc \<Rightarrow> print_call \<Rightarrow> gstr \<Rightarrow> kconfig \<Rightarrow> (gstr \<times> kconfig) result" where
  "expr_print_gstr_helper h calc c gs K =
     (let (so, t) = c in
      bindE (case so of None \<Rightarrow> Inr (None, K)
                      | Some s \<Rightarrow> bindE (get_string_value calc s K) (\<lambda>(v, K). Inr (Some v, K))) (\<lambda>(sym_str, K).
      bindE (if gs_max_width gs = 0 then Inr gs
             else
               bindE (deref (gs_s gs)) (\<lambda>old.
               bindE (case sym_str of None \<Rightarrow> Inr None | Some NullVal \<Rightarrow> Inr None
                        | Some v \<Rightarrow> bindE (c_string v) (\<lambda>x. Inr (Some x))) (\<lambda>val.
               if breaks_line gs old t val then str_append h (Some ([CHR 0x5C] @ newline)) gs else Inr gs))) (\<lambda>gs.
      bindE (str_append h (Some t) gs) (\<lambda>gs.
      case so of
        None \<Rightarrow> Inr (gs, K)
      | Some s \<Rightarrow>
          if s_type (sym_at K s) = S_UNKNOWN then Inr (gs, K)
          else
            bindE (deref sym_str) (\<lambda>v. bindE (c_string v) (\<lambda>x.
            bindE (str_printf h ('' [='' @ x @ '']'') gs) (\<lambda>gs. Inr (gs, K))))))))"

fun print_calls :: "host \<Rightarrow> calc \<Rightarrow> print_call list \<Rightarrow> gstr \<Rightarrow> kconfig \<Rightarrow> (gstr \<times> kconfig) result" where
  "print_calls h calc [] gs K = Inr (gs, K)"
| "print_calls h calc (c # cs) gs K =
     bindE (expr_print_gstr_helper h calc c gs K) (\<lambda>(gs, K). print_calls h calc cs gs K)"

definition expr_gstr_print :: "host \<Rightarrow> calc \<Rightarrow> prop_expr option \<Rightarrow> gstr \<Rightarrow> kconfig \<Rightarrow> (gstr \<times> kconfig) result" where
  "expr_gstr_print h calc e gs K = print_calls h calc (expr_print (conf K) e E_NONE) gs K"

end
