(* ===== verification/ConfWrite.thy ===== *)
theory ConfWrite
  imports Util
begin

text \<open>
  \<open>kconfig/confdata.c\<close>: the text of a configuration, for people, for make and for C, and the files under
  \<open>include/config\<close> that tell make which symbols have changed. What \<open>fprintf\<close> prints is appended to a string.
\<close>

section \<open>Printers\<close>

definition first_char :: "string \<Rightarrow> char" where
  "first_char s = (case s of [] \<Rightarrow> NUL | c # _ \<Rightarrow> c)"

text \<open>The arguments of \<open>print_symbol\<close>: type, name and value of the symbol, and whether the last one is not \<open>NULL\<close>.\<close>

record conf_printer =
  print_symbol :: "host \<Rightarrow> symbol_type \<Rightarrow> string \<Rightarrow> string \<Rightarrow> bool \<Rightarrow> string"
  print_comment :: "string \<Rightarrow> string"

definition kconfig_print_symbol :: "host \<Rightarrow> symbol_type \<Rightarrow> string \<Rightarrow> string \<Rightarrow> bool \<Rightarrow> string" where
  "kconfig_print_symbol h type name val arg =
     (if (type = S_BOOLEAN \<or> type = S_TRISTATE) \<and> first_char val = CHR ''n'' then
        (let skip_unset = arg in
         if \<not> skip_unset then ''# '' @ CONFIG_prefix h @ name @ '' is not set'' @ newline else '''')
      else CONFIG_prefix h @ name @ ''='' @ val @ newline)"

text \<open>The lines of a comment; \<open>mark\<close> is what each begins with.\<close>

function comment_lines :: "string \<Rightarrow> string \<Rightarrow> string" where
  "comment_lines mark p =
     (let text = takeWhile (\<lambda>c. c \<noteq> CHR 0x0A) p; line = mark @ (if text \<noteq> [] then '' '' @ text else '''') @ newline in
      case dropWhile (\<lambda>c. c \<noteq> CHR 0x0A) p of [] \<Rightarrow> line | _ # p \<Rightarrow> line @ comment_lines mark p)"
  by pat_completeness auto

lemma dropWhile_Cons_shorter: "dropWhile P xs = y # ys \<Longrightarrow> length ys < length xs"
  using length_dropWhile_le [of P xs] by simp

termination comment_lines
  by (relation "measure (length \<circ> snd)") (auto dest: dropWhile_Cons_shorter)

definition kconfig_print_comment :: "string \<Rightarrow> string" where
  "kconfig_print_comment val = comment_lines ''#'' val"

definition kconfig_printer_cb :: conf_printer where
  "kconfig_printer_cb = \<lparr>print_symbol = kconfig_print_symbol, print_comment = kconfig_print_comment\<rparr>"

definition header_print_symbol :: "host \<Rightarrow> symbol_type \<Rightarrow> string \<Rightarrow> string \<Rightarrow> bool \<Rightarrow> string" where
  "header_print_symbol h type name val arg =
     (let define = ''#define '' @ CONFIG_prefix h @ name in
      if type = S_BOOLEAN \<or> type = S_TRISTATE then
        (if first_char val = CHR ''n'' then ''''
         else define @ (if first_char val = CHR ''m'' then ''_MODULE'' else '''') @ '' 1'' @ newline)
      else if type = S_HEX then define @ '' '' @ (if has_hex_prefix val then '''' else ''0x'') @ val @ newline
      else if type = S_STRING \<or> type = S_INT then define @ '' '' @ val @ newline
      else '''')"

definition header_print_comment :: "string \<Rightarrow> string" where
  "header_print_comment val = ''/*'' @ newline @ comment_lines '' *'' val @ '' */'' @ newline"

definition header_printer_cb :: conf_printer where
  "header_printer_cb = \<lparr>print_symbol = header_print_symbol, print_comment = header_print_comment\<rparr>"

definition toupper :: "char \<Rightarrow> char" where
  "toupper c = (if (97 :: nat) \<le> of_char c \<and> of_char c \<le> (122 :: nat) then char_of (of_char c - 32 :: nat) else c)"

definition tolower :: "char \<Rightarrow> char" where
  "tolower c = (if (65 :: nat) \<le> of_char c \<and> of_char c \<le> (90 :: nat) then char_of (of_char c + 32 :: nat) else c)"

definition tristate_print_symbol :: "host \<Rightarrow> symbol_type \<Rightarrow> string \<Rightarrow> string \<Rightarrow> bool \<Rightarrow> string" where
  "tristate_print_symbol h type name val arg =
     (if type = S_TRISTATE \<and> first_char val \<noteq> CHR ''n''
      then CONFIG_prefix h @ name @ ''='' @ [toupper (first_char val)] @ newline else '''')"

definition tristate_printer_cb :: conf_printer where
  "tristate_printer_cb = \<lparr>print_symbol = tristate_print_symbol, print_comment = kconfig_print_comment\<rparr>"

definition conf_write_symbol ::
    "host \<Rightarrow> calc \<Rightarrow> conf_printer \<Rightarrow> bool \<Rightarrow> sym \<Rightarrow> kconfig \<Rightarrow> (string \<times> kconfig) result" where
  "conf_write_symbol h calc printer arg s K =
     (let type = s_type (sym_at K s) in
      if type = S_OTHER \<or> type = S_UNKNOWN then Inr ('''', K)
      else
        bindE (get_string_value calc s K) (\<lambda>(v, K).
        bindE (c_string v) (\<lambda>str.
        bindE (deref (s_name (sym_at K s))) (\<lambda>name.
        Inr (print_symbol printer h type name (if type = S_STRING then sym_escape_string_value str else str) arg, K)))))"

text \<open>\<open>snprintf\<close> to a buffer of 256 bytes; \<open>title\<close> is \<open>rootmenu.prompt->text\<close>.\<close>

definition conf_write_heading :: "string \<Rightarrow> conf_printer \<Rightarrow> string" where
  "conf_write_heading title printer =
     print_comment printer
       (take 255 (newline @ ''Automatically generated file; DO NOT EDIT.'' @ newline @ title @ newline))"

section \<open>The files for make\<close>

definition ENOENT :: nat where "ENOENT = 2"

text \<open>Must the file of the symbol be touched? The symbol is calculated, and its old value read from the last run.\<close>

definition value_changed :: "calc \<Rightarrow> sym \<Rightarrow> kconfig \<Rightarrow> (bool \<times> kconfig) result" where
  "value_changed calc s K =
     (let y = sym_at K s; type = s_type y; logic = (type = S_BOOLEAN \<or> type = S_TRISTATE) in
      if has_flag SYMBOL_WRITE y then
        if has_flag (def_flags S_DEF_AUTO) y then
          if logic then Inr (sym_get_tristate_value y \<noteq> sv_tri (s_def y S_DEF_AUTO), K)
          else if type = S_STRING \<or> type = S_HEX \<or> type = S_INT then
            bindE (get_string_value calc s K) (\<lambda>(v, K).
            bindE (c_string v) (\<lambda>new.
            bindE (c_string (sv_val (s_def (sym_at K s) S_DEF_AUTO))) (\<lambda>old. Inr (new \<noteq> old, K))))
          else Inr (True, K)
        else Inr (\<not> (logic \<and> sym_get_tristate_value y = no), K)
      else Inr (has_flag (def_flags S_DEF_AUTO) y, K))"

definition header_path :: "string \<Rightarrow> string result" where
  "header_path name =
     (let p = map (\<lambda>c. let c = tolower c in if c = CHR ''_'' then CHR ''/'' else c) name @ ''.h'' in
      if length p \<le> PATH_MAX then Inr p else Inl OutOfBounds)"

text \<open>The directories of a path, outermost first; the first slash belongs to the search as well.\<close>

function make_dirs :: "answers \<Rightarrow> string \<Rightarrow> string \<Rightarrow> sys_call list \<Rightarrow> bool \<times> sys_call list" where
  "make_dirs answer before d ops =
     (case dropWhile (\<lambda>c. c \<noteq> CHR ''/'') d of
        [] \<Rightarrow> (True, ops)
      | _ # rest \<Rightarrow>
          let dir = before @ takeWhile (\<lambda>c. c \<noteq> CHR ''/'') d;
              (missing, ops) = call answer (Stat dir) ops;
              (failed, ops) = (if missing \<noteq> 0 then call answer (Mkdir dir) ops else (0, ops))
          in if failed \<noteq> 0 then (False, ops) else make_dirs answer (dir @ ''/'') rest ops)"
  by pat_completeness auto

termination make_dirs
  by (relation "measure (\<lambda>(answer, before, d, ops). length d)") (auto dest: dropWhile_Cons_shorter)

definition touch_header :: "answers \<Rightarrow> string \<Rightarrow> sys_call list \<Rightarrow> bool \<times> sys_call list" where
  "touch_header answer path ops =
     (let (err, ops) = call answer (Open path) ops in
      if err = 0 then (True, ops)
      else if err \<noteq> ENOENT then (False, ops)
      else
        let (ok, ops) = make_dirs answer '''' path ops in
        if \<not> ok then (False, ops)
        else let (err, ops) = call answer (Open path) ops in (err = 0, ops))"

text \<open>The loop over the symbols; the result is 0 or 1.\<close>

fun split_symbols :: "answers \<Rightarrow> calc \<Rightarrow> sym list \<Rightarrow> sys_call list \<Rightarrow> kconfig \<Rightarrow> (int \<times> sys_call list \<times> kconfig) result" where
  "split_symbols answer calc [] ops K = Inr (0, ops, K)"
| "split_symbols answer calc (s # ss) ops K =
     bindE (calc s K) (\<lambda>K.
     if has_flag SYMBOL_AUTO (sym_at K s) then split_symbols answer calc ss ops K
     else
       case s_name (sym_at K s) of
         None \<Rightarrow> split_symbols answer calc ss ops K
       | Some name \<Rightarrow>
           bindE (value_changed calc s K) (\<lambda>(changed, K).
           if \<not> changed then split_symbols answer calc ss ops K
           else
             bindE (header_path name) (\<lambda>path.
             let (ok, ops) = touch_header answer path ops
             in if ok then split_symbols answer calc ss ops K else Inr (1, ops, K))))"

definition conf_split_config ::
    "host \<Rightarrow> answers \<Rightarrow> calc \<Rightarrow> sys_call list \<Rightarrow> kconfig \<Rightarrow> (int \<times> sys_call list \<times> kconfig) result" where
  "conf_split_config h answer calc ops K =
     bindE (conf_read_simple h calc (Some (conf_get_autoconfig_name h)) S_DEF_AUTO K) (\<lambda>(_, K).
     let (err, ops) = call answer (Chdir ''include/config'') ops in
     if err \<noteq> 0 then Inr (1, ops, K)
     else
       bindE (split_symbols answer calc (all_symbols K) ops K) (\<lambda>(res, ops, K).
       let (err, ops) = call answer (Chdir ''../..'') ops in Inr (if err \<noteq> 0 then 1 else res, ops, K)))"

text \<open>The symbols of \<open>auto.conf\<close>, \<open>tristate.conf\<close> and \<open>autoconf.h\<close>.\<close>

fun write_symbols ::
    "host \<Rightarrow> calc \<Rightarrow> sym list \<Rightarrow> string \<Rightarrow> string \<Rightarrow> string \<Rightarrow> kconfig \<Rightarrow> (string \<times> string \<times> string \<times> kconfig) result" where
  "write_symbols h calc [] out tri hdr K = Inr (out, tri, hdr, K)"
| "write_symbols h calc (s # ss) out tri hdr K =
     bindE (calc s K) (\<lambda>K.
     if \<not> has_flag SYMBOL_WRITE (sym_at K s) \<or> s_name (sym_at K s) = None then write_symbols h calc ss out tri hdr K
     else
       bindE (conf_write_symbol h calc kconfig_printer_cb True s K) (\<lambda>(t1, K).
       bindE (conf_write_symbol h calc tristate_printer_cb True s K) (\<lambda>(t2, K).
       bindE (conf_write_symbol h calc header_printer_cb False s K) (\<lambda>(t3, K).
       write_symbols h calc ss (out @ t1) (tri @ t2) (hdr @ t3) K))))"

text \<open>Opening the three temporary files, and renaming them; a failure ends the sequence.\<close>

fun calls_ok :: "answers \<Rightarrow> sys_call list \<Rightarrow> sys_call list \<Rightarrow> bool \<times> sys_call list" where
  "calls_ok answer [] ops = (True, ops)"
| "calls_ok answer (c # cs) ops =
     (let (err, ops) = call answer c ops in if err \<noteq> 0 then (False, ops) else calls_ok answer cs ops)"

definition renamed_files :: "host \<Rightarrow> sys_call list" where
  "renamed_files h =
     [Rename ''.tmpconfig.h''
        (case getenv h ''KCONFIG_AUTOHEADER'' of None \<Rightarrow> ''include/generated/autoconf.h'' | Some f \<Rightarrow> f),
      Rename ''.tmpconfig_tristate''
        (case getenv h ''KCONFIG_TRISTATE'' of None \<Rightarrow> ''include/config/tristate.conf'' | Some f \<Rightarrow> f),
      Rename ''.tmpconfig'' (conf_get_autoconfig_name h)]"

text \<open>\<open>fs\<close> is \<open>file_list\<close>; whether its dependency file could be written is not looked at.\<close>

definition conf_write_autoconf ::
    "host \<Rightarrow> answers \<Rightarrow> calc \<Rightarrow> string \<Rightarrow> string list \<Rightarrow>
     sys_call list \<Rightarrow> kconfig \<Rightarrow> (int \<times> sys_call list \<times> kconfig) result" where
  "conf_write_autoconf h answer calc title fs ops K =
     bindE (sym_clear_all_valid calc K) (\<lambda>K.
     bindE (file_write_dep h answer fs (Some ''include/config/auto.conf.cmd'') ops K) (\<lambda>(_, ops).
     bindE (conf_split_config h answer calc ops K) (\<lambda>(res, ops, K).
     if res \<noteq> 0 then Inr (1, ops, K)
     else
       let (ok, ops) = calls_ok answer [Open ''.tmpconfig'', Open ''.tmpconfig_tristate'', Open ''.tmpconfig.h''] ops in
       if \<not> ok then Inr (1, ops, K)
       else
         bindE (write_symbols h calc (all_symbols K) (conf_write_heading title kconfig_printer_cb)
             (conf_write_heading title tristate_printer_cb) (conf_write_heading title header_printer_cb) K)
           (\<lambda>(out, tri, hdr, K).
         let ops = Write ''.tmpconfig.h'' hdr # Write ''.tmpconfig_tristate'' tri # Write ''.tmpconfig'' out # ops;
             (ok, ops) = calls_ok answer (renamed_files h) ops
         in Inr (if ok then 0 else 1, ops, K)))))"

end
