(* ===== verification/ConfBack.thy ===== *)
theory ConfBack
  imports ConfWrite
begin

text \<open>
  What the writer of a configuration prints, its reader reads back: a line of the file comes out of the
  buffer as it was written, whatever the buffer held before, a quoted string loses its quotes and backslashes,
  and the symbol gets the value that was written.
\<close>

section \<open>Strings in a buffer\<close>

definition plain :: "string \<Rightarrow> bool" where
  "plain s \<longleftrightarrow> NUL \<notin> set s \<and> CHR 0x0A \<notin> set s"

lemma takeWhile_stop: "\<forall>x\<in>set s. P x \<Longrightarrow> \<not> P c \<Longrightarrow> takeWhile P (s @ c # t) = s"
  by (induction s) auto

lemma str_at_append: "NUL \<notin> set s \<Longrightarrow> str_at (pre @ s @ NUL # t) (length pre) = Inr s"
proof -
  assume n: "NUL \<notin> set s"
  have "takeWhile (\<lambda>c. c \<noteq> NUL) (s @ NUL # t) = s" by (rule takeWhile_stop) (use n in auto)
  then show ?thesis by (simp add: str_at_def)
qed

lemma strchr_found:
  assumes "NUL \<notin> set s" and "c \<notin> set u" and "s = u @ c # w"
  shows "strchr (pre @ s @ NUL # t) (length pre) c = Inr (Some (length pre + length u))"
proof -
  have "takeWhile (\<lambda>d. d \<noteq> c) s = u"
    unfolding assms(3) using assms(2) by (intro takeWhile_stop) auto
  then show ?thesis unfolding strchr_def str_at_append [OF assms(1)] by (simp add: assms(3))
qed

lemma strchr_none:
  assumes "NUL \<notin> set s" and "c \<notin> set s"
  shows "strchr (pre @ s @ NUL # t) (length pre) c = Inr None"
proof -
  have "takeWhile (\<lambda>d. d \<noteq> c) s = s" using assms(2) by (auto simp: takeWhile_eq_all_conv)
  then show ?thesis unfolding strchr_def str_at_append [OF assms(1)] by (simp only: bindE_Inr Let_def) simp
qed

lemma memcmp_prefix: "memcmp_eq (pre @ s @ t) (length pre) s = Inr True"
  by (simp add: memcmp_eq_def)

lemma list_update_mid: "(pre @ c # t)[length pre := d] = pre @ d # t"
  by (simp add: list_update_append)

section \<open>Escaped strings\<close>

declare escape_loop.simps [simp del] escape_length.simps [simp del] unescape.simps [simp del]

definition esc :: "string \<Rightarrow> string" where
  "esc s = concat (map (\<lambda>c. if escaped_char c then [CHR 0x5C, c] else [c]) s)"

lemma esc_plain: "\<forall>c\<in>set u. \<not> escaped_char c \<Longrightarrow> esc (u @ s) = u @ esc s"
  by (induction u) (simp_all add: esc_def)

lemma strcspn_split:
  obtains (all) "\<forall>c\<in>set s. \<not> escaped_char c" "strcspn_escaped s = length s"
    | (some) u c w where "s = u @ c # w" "\<forall>x\<in>set u. \<not> escaped_char x" "escaped_char c"
        "strcspn_escaped s = length u"
proof (cases "\<forall>c\<in>set s. \<not> escaped_char c")
  case True
  then have t: "takeWhile (\<lambda>c. \<not> escaped_char c) s = s" by (simp add: takeWhile_eq_all_conv)
  show ?thesis by (rule all [OF True]) (simp only: strcspn_escaped_def t)
next
  case False
  then obtain u c w where s: "s = u @ c # w" "escaped_char c" "\<forall>x\<in>set u. \<not> escaped_char x"
    using split_list_first_prop [of s escaped_char] by blast
  then have "takeWhile (\<lambda>c. \<not> escaped_char c) s = u" by (simp add: takeWhile_stop)
  then show ?thesis using some [of u c w] s by (simp add: strcspn_escaped_def)
qed

lemma escape_loop_esc: "escape_loop s res = res @ esc s"
proof (induction "length s" arbitrary: s res rule: less_induct)
  case less
  show ?case
  proof (cases s rule: strcspn_split)
    case all
    then have "esc s = s" using esc_plain [of s "[]"] by (simp add: esc_def)
    then show ?thesis using all(2) by (simp add: escape_loop.simps Let_def)
  next
    case (some u c w)
    have "escape_loop s res = escape_loop w (res @ u @ [CHR 0x5C, c])"
      by (subst escape_loop.simps) (simp only: Let_def some(4), simp add: some(1))
    moreover have "esc s = u @ [CHR 0x5C, c] @ esc w"
      using some esc_plain [of u "c # w"] by (simp add: esc_def)
    ultimately show ?thesis using less [of w] some(1) by simp
  qed
qed

lemma escaped_value: "sym_escape_string_value v = [CHR 0x22] @ esc v @ [CHR 0x22]"
  by (simp add: sym_escape_string_value_def escape_loop_esc)

lemma escape_length_esc: "escape_length s n + length s = n + length (esc s)"
proof (induction "length s" arbitrary: s n rule: less_induct)
  case less
  show ?case
  proof (cases s rule: strcspn_split)
    case all
    then have "esc s = s" using esc_plain [of s "[]"] by (simp add: esc_def)
    then show ?thesis using all(2) by (simp add: escape_length.simps)
  next
    case (some u c w)
    have "escape_length s n = escape_length w (n + 1)"
      by (subst escape_length.simps) (simp only: some(4), simp add: some(1))
    moreover have "esc s = u @ [CHR 0x5C, c] @ esc w"
      using some esc_plain [of u "c # w"] by (simp add: esc_def)
    ultimately show ?thesis using less [of w "n + 1"] some(1) by simp
  qed
qed

text \<open>The first pass over the string measures exactly what the second writes.\<close>

lemma escape_reslen_exact: "escape_reslen v = length (sym_escape_string_value v) + 1"
  using escape_length_esc [of v "length v + 2 + 1"] by (simp add: escape_reslen_def escaped_value)

lemma esc_NUL: "NUL \<notin> set v \<Longrightarrow> NUL \<notin> set (esc v)"
  by (auto simp: esc_def NUL_def)

lemma esc_newline: "CHR 0x0A \<notin> set v \<Longrightarrow> CHR 0x0A \<notin> set (esc v)"
  by (auto simp: esc_def)

lemma close_gap_mid:
  "close_gap (A @ c # s @ NUL # t) (length A) (length s + 1) = A @ s @ NUL # NUL # t"
  by (simp add: close_gap_def)

lemma unescape_esc:
  assumes "NUL \<notin> set v" and "NUL \<in> set suf"
  shows "\<exists>suf'. unescape (pre @ esc v @ CHR 0x22 # suf) (length pre) =
    Inr (Some (length pre + length v), pre @ v @ NUL # suf') \<and> length suf' + length v = length suf + length (esc v)"
  using assms
proof (induction "length v" arbitrary: v pre suf rule: less_induct)
  case less
  obtain x t where suf: "suf = x @ NUL # t" and x: "NUL \<notin> set x"
    using split_list_first [OF less.prems(2)] by blast
  have nul: "NUL \<notin> set (esc v @ CHR 0x22 # x)"
    using esc_NUL [OF less.prems(1)] x by (simp add: NUL_def)
  have s: "str_at (pre @ esc v @ CHR 0x22 # suf) (length pre) = Inr (esc v @ CHR 0x22 # x)"
    using str_at_append [OF nul, of pre t] by (simp add: suf)
  show ?case
  proof (cases v rule: strcspn_split)
    case all
    then have e: "esc v = v" using esc_plain [of v "[]"] by (simp add: esc_def)
    have l: "strcspn_escaped (esc v @ CHR 0x22 # x) = length v"
      using all(1) by (simp add: e strcspn_escaped_def takeWhile_stop escaped_char_def)
    have "unescape (pre @ esc v @ CHR 0x22 # suf) (length pre) = Inr (Some (length pre + length v), pre @ v @ NUL # suf)"
      by (subst unescape.simps)
        (simp only: s, simp add: l Let_def, simp add: e nth_append list_update_append)
    then show ?thesis using e by auto
  next
    case (some u c w)
    have e: "esc v = u @ CHR 0x5C # c # esc w"
      using some esc_plain [of u "c # w"] by (simp add: esc_def)
    have l: "strcspn_escaped (esc v @ CHR 0x22 # x) = length u"
      using some(2) by (simp add: e strcspn_escaped_def takeWhile_stop escaped_char_def)
    have "close_gap (pre @ esc v @ CHR 0x22 # suf) (length pre + length u) (length (esc v @ CHR 0x22 # x) - length u)
        = (pre @ u @ [c]) @ esc w @ CHR 0x22 # x @ NUL # NUL # t"
      using close_gap_mid [of "pre @ u" "CHR 0x5C" "c # esc w @ CHR 0x22 # x" t] by (simp add: e suf eval_nat_numeral)
    then have step: "unescape (pre @ esc v @ CHR 0x22 # suf) (length pre) =
        unescape ((pre @ u @ [c]) @ esc w @ CHR 0x22 # x @ NUL # NUL # t) (length (pre @ u @ [c]))"
      by (subst unescape.simps)
        (simp only: s, simp add: l Let_def, simp add: e nth_append)
    obtain suf' where "unescape ((pre @ u @ [c]) @ esc w @ CHR 0x22 # (x @ NUL # NUL # t)) (length (pre @ u @ [c])) =
        Inr (Some (length (pre @ u @ [c]) + length w), (pre @ u @ [c]) @ w @ NUL # suf')"
      and "length suf' + length w = length (x @ NUL # NUL # t) + length (esc w)"
      using less.hyps [of w "x @ NUL # NUL # t" "pre @ u @ [c]"] less.prems(1) some(1) by auto
    then show ?thesis using step some(1) e suf by auto
  qed
qed


section \<open>A line comes out of the buffer as it was written\<close>

lemma add_byte_ok:
  assumes "\<forall>n. room h n" and "slen \<le> length line"
  obtains b where "add_byte h c line slen = Inr (Some b)" "slen < length b" "take (slen + 1) b = take slen line @ [c]"
proof -
  define line' where "line' = (if length line < slen + 1
    then line @ map (junk h) [length line..<(slen + 1 + (LINE_GROWTH - 1)) * 2] else line)"
  have l: "slen < length line'"
    using assms(2) by (auto simp: line'_def LINE_GROWTH_def)
  have a: "add_byte h c line slen = Inr (Some (line'[slen := c]))"
    using assms(1) l unfolding add_byte_def Let_def line'_def store_at_def by (simp split: if_splits)
  have "take slen line' = take slen line"
    using assms(2) by (simp add: line'_def)
  then have "take (slen + 1) (line'[slen := c]) = take slen line @ [c]"
    using l by (simp add: take_Suc_conv_app_nth)
  then show ?thesis using that [OF a] l by simp
qed

lemma getline_loop_line:
  assumes "\<forall>n. room h n" and "CHR 0x0A \<notin> set x" and "slen \<le> length line"
  shows "\<exists>stale. getline_loop h line slen (x @ CHR 0x0A # rest) =
    Inr (int (slen + length x + 1), (take slen line @ x @ newline) @ NUL # stale, rest)"
  using assms(2,3)
proof (induction x arbitrary: slen line)
  case Nil
  obtain b where b: "add_byte h (CHR 0x0A) line slen = Inr (Some b)" "slen < length b"
      "take (slen + 1) b = take slen line @ newline"
    using add_byte_ok [OF assms(1) Nil(2)] by blast
  obtain b' where b': "add_byte h NUL b (slen + 1) = Inr (Some b')" "slen + 1 < length b'"
      "take (slen + 1 + 1) b' = take (slen + 1) b @ [NUL]"
    using add_byte_ok [OF assms(1), of "slen + 1" b] b(2) by auto
  have "b' = take (slen + 1 + 1) b' @ drop (slen + 1 + 1) b'" by (simp only: append_take_drop_id)
  then have "b' = take slen line @ newline @ NUL # drop (slen + 2) b'"
    unfolding b'(3) b(3) by simp
  then show ?case using b(1) b'(1) by (intro exI [of _ "drop (slen + 2) b'"]) simp
next
  case (Cons c x)
  obtain b where b: "add_byte h c line slen = Inr (Some b)" "slen < length b"
      "take (slen + 1) b = take slen line @ [c]"
    using add_byte_ok [OF assms(1) Cons.prems(2)] by blast
  obtain stale where "getline_loop h b (slen + 1) (x @ CHR 0x0A # rest) =
      Inr (int (slen + 1 + length x + 1), (take (slen + 1) b @ x @ newline) @ NUL # stale, rest)"
    using Cons.IH [of "slen + 1" b] Cons.prems(1) b(2) by auto
  moreover have "c \<noteq> CHR 0x0A" using Cons.prems(1) by auto
  ultimately show ?case using b by (intro exI [of _ stale]) simp
qed

lemma getline_line:
  assumes "\<forall>n. room h n" and "CHR 0x0A \<notin> set x"
  obtains stale where "compat_getline h line (x @ newline @ rest) = Inr (int (length x + 1), x @ newline @ NUL # stale, rest)"
  using getline_loop_line [OF assms, of 0 line rest] unfolding compat_getline_def by auto

lemma getline_eof:
  assumes "\<forall>n. room h n"
  obtains b where "compat_getline h line [] = Inr (-1, b, [])"
proof -
  obtain b where "add_byte h NUL line 0 = Inr (Some b)" using add_byte_ok [OF assms, of 0 line] by auto
  then have "compat_getline h line [] = Inr (-1, b, [])" by (simp add: compat_getline_def)
  then show ?thesis by (rule that)
qed

section \<open>What a line gives to a symbol\<close>

definition letter_tri :: "string \<Rightarrow> tristate" where
  "letter_tri v = (if v = ''y'' then yes else if v = ''m'' then tri_mod else no)"

definition logical :: "symbol_type \<Rightarrow> bool" where
  "logical t \<longleftrightarrow> t = S_BOOLEAN \<or> t = S_TRISTATE"

text \<open>The values the writer prints for a symbol of a type, as strings.\<close>

definition printable :: "symbol_type \<Rightarrow> string \<Rightarrow> bool" where
  "printable t v \<longleftrightarrow>
     (case t of
        S_BOOLEAN \<Rightarrow> v = ''y'' \<or> v = ''n''
      | S_TRISTATE \<Rightarrow> v = ''y'' \<or> v = ''m'' \<or> v = ''n''
      | S_INT \<Rightarrow> sym_string_valid S_INT v
      | S_HEX \<Rightarrow> sym_string_valid S_HEX v
      | S_STRING \<Rightarrow> plain v
      | _ \<Rightarrow> False)"

definition give :: "sym \<Rightarrow> string \<Rightarrow> kconfig \<Rightarrow> kconfig" where
  "give s v K =
     (if logical (s_type (sym_at K s)) then give_tri s S_DEF_USER SYMBOL_DEF_USER (letter_tri v) K
      else give_val s S_DEF_USER SYMBOL_DEF_USER v K)"

definition quoted :: "symbol_type \<Rightarrow> string \<Rightarrow> string" where
  "quoted t v = (if t = S_STRING then sym_escape_string_value v else v)"

lemma def_flags_user [simp]: "def_flags S_DEF_USER = SYMBOL_DEF_USER"
  by (simp add: def_flags_def)

lemma char_at_mid: "char_at (pre @ c # t) (length pre) = Inr c"
  by (simp add: char_at_def)

lemma digit_plain: "isdigit c \<Longrightarrow> c \<noteq> NUL \<and> c \<noteq> CHR 0x0A \<and> c \<noteq> CHR 0x0D"
  by (auto simp: isdigit_def NUL_def)

lemma xdigit_plain: "isxdigit c \<Longrightarrow> c \<noteq> NUL \<and> c \<noteq> CHR 0x0A \<and> c \<noteq> CHR 0x0D"
  by (auto simp: isxdigit_def isdigit_def NUL_def)

text \<open>Numbers have no character in them that would end a line early.\<close>

lemma number_chars:
  assumes "printable t v" and "t = S_INT \<or> t = S_HEX"
  shows "\<forall>c\<in>set v. c \<noteq> NUL \<and> c \<noteq> CHR 0x0A \<and> c \<noteq> CHR 0x0D"
  using assms(2)
proof
  assume t: "t = S_INT"
  have "\<forall>c\<in>set v. c = CHR ''-'' \<or> isdigit c"
  proof (cases v)
    case (Cons a r)
    show ?thesis
    proof (cases "a = CHR ''-''")
      case True
      then have "r \<noteq> [] \<and> list_all isdigit r"
        using assms(1) by (cases r) (auto simp: printable_def t Cons)
      then show ?thesis using Cons True by (auto simp: list_all_iff)
    next
      case False
      then have "isdigit a \<and> list_all isdigit r"
        using assms(1) by (auto simp: printable_def t Cons)
      then show ?thesis using Cons by (auto simp: list_all_iff)
    qed
  qed simp
  moreover have "c = CHR ''-'' \<or> isdigit c \<Longrightarrow> c \<noteq> NUL \<and> c \<noteq> CHR 0x0A \<and> c \<noteq> CHR 0x0D" for c
    using digit_plain [of c] by (auto simp: NUL_def)
  ultimately show ?thesis by blast
next
  assume t: "t = S_HEX"
  have "\<forall>c\<in>set v. isxdigit c \<or> c = CHR ''0'' \<or> c = CHR ''x'' \<or> c = CHR ''X''"
  proof (cases "has_hex_prefix v")
    case True
    then obtain a b r where v: "v = a # b # r" and ab: "a = CHR ''0''" "b = CHR ''x'' \<or> b = CHR ''X''"
      by (auto simp: has_hex_prefix_def split: list.splits)
    have "list_all isxdigit r" using assms(1) True by (simp add: printable_def t v)
    then show ?thesis using ab by (auto simp: v list_all_iff)
  next
    case False
    then have "list_all isxdigit v" using assms(1) by (simp add: printable_def t)
    then show ?thesis by (auto simp: list_all_iff)
  qed
  moreover have "isxdigit c \<or> c = CHR ''0'' \<or> c = CHR ''x'' \<or> c = CHR ''X'' \<Longrightarrow> c \<noteq> NUL \<and> c \<noteq> CHR 0x0A \<and> c \<noteq> CHR 0x0D" for c
    using xdigit_plain [of c] by (auto simp: NUL_def)
  ultimately show ?thesis by blast
qed

lemma quoted_plain:
  assumes "printable t v"
  shows "NUL \<notin> set (quoted t v)" "CHR 0x0A \<notin> set (quoted t v)"
    "quoted t v \<noteq> [] \<Longrightarrow> last (quoted t v) \<noteq> CHR 0x0D"
proof -
  have "NUL \<notin> set (quoted t v) \<and> CHR 0x0A \<notin> set (quoted t v) \<and> (quoted t v \<noteq> [] \<longrightarrow> last (quoted t v) \<noteq> CHR 0x0D)"
  proof (cases t)
    case S_INT
    then show ?thesis using number_chars [OF assms] by (auto simp: quoted_def dest: last_in_set)
  next
    case S_HEX
    then show ?thesis using number_chars [OF assms] by (auto simp: quoted_def dest: last_in_set)
  next
    case S_STRING
    then have "plain v" using assms by (simp add: printable_def)
    then show ?thesis using esc_NUL [of v] esc_newline [of v]
      by (auto simp: quoted_def S_STRING escaped_value plain_def NUL_def)
  qed (use assms in \<open>auto simp: printable_def quoted_def NUL_def\<close>)
  then show "NUL \<notin> set (quoted t v)" "CHR 0x0A \<notin> set (quoted t v)"
    "quoted t v \<noteq> [] \<Longrightarrow> last (quoted t v) \<noteq> CHR 0x0D" by auto
qed

lemma set_sym_val_back:
  assumes t: "s_type (sym_at K s) = t" and v: "printable t v"
  shows "\<exists>b'. conf_set_sym_val s S_DEF_USER SYMBOL_DEF_USER (length P) (P @ quoted t v @ NUL # stale) K = Inr (False, b', give s v K)"
proof -
  have nul: "NUL \<notin> set (quoted t v)" by (rule quoted_plain [OF v])
  have str: "str_at (P @ quoted t v @ NUL # stale) (length P) = Inr (quoted t v)" by (rule str_at_append [OF nul])
  show ?thesis
  proof (cases t)
    case S_STRING
    have pv: "plain v" using v by (simp add: printable_def S_STRING)
    have q: "P @ quoted t v @ NUL # stale = (P @ [CHR 0x22]) @ esc v @ CHR 0x22 # NUL # stale"
      by (simp add: quoted_def S_STRING escaped_value)
    obtain suf' where u: "unescape ((P @ [CHR 0x22]) @ esc v @ CHR 0x22 # NUL # stale) (length (P @ [CHR 0x22])) =
        Inr (Some (length (P @ [CHR 0x22]) + length v), (P @ [CHR 0x22]) @ v @ NUL # suf')"
      using unescape_esc [of v "NUL # stale" "P @ [CHR 0x22]"] pv by (auto simp: plain_def)
    have st: "str_at ((P @ [CHR 0x22]) @ v @ NUL # suf') (length (P @ [CHR 0x22])) = Inr v"
      by (rule str_at_append) (use pv in \<open>simp add: plain_def\<close>)
    have c: "char_at (P @ quoted t v @ NUL # stale) (length P) = Inr (CHR 0x22)"
      by (simp add: q char_at_def)
    have u': "unescape (P @ quoted t v @ NUL # stale) (length P + 1) =
        Inr (Some (length P + 1 + length v), (P @ [CHR 0x22]) @ v @ NUL # suf')"
      using u unfolding q by simp
    have st': "conf_store_string s S_DEF_USER SYMBOL_DEF_USER (length P + 1) ((P @ [CHR 0x22]) @ v @ NUL # suf') K =
        Inr (False, (P @ [CHR 0x22]) @ v @ NUL # suf', give s v K)"
      using st t S_STRING by (simp add: conf_store_string_def give_def logical_def)
    have "conf_store_quoted s S_DEF_USER SYMBOL_DEF_USER (length P) (P @ quoted t v @ NUL # stale) K =
        Inr (False, (P @ [CHR 0x22]) @ v @ NUL # suf', give s v K)"
      unfolding conf_store_quoted_def c bindE_Inr u' by (simp only: st' simp_thms if_False prod.case option.case bindE_Inr)
    then show ?thesis using t S_STRING by (simp add: conf_set_sym_val_def)
  next
    case S_INT
    then show ?thesis using str t v
      by (simp add: conf_set_sym_val_def conf_store_string_def give_def logical_def printable_def quoted_def)
  next
    case S_HEX
    then show ?thesis using str t v
      by (simp add: conf_set_sym_val_def conf_store_string_def give_def logical_def printable_def quoted_def)
  next
    case S_BOOLEAN
    then show ?thesis using t v
      by (auto simp: conf_set_sym_val_def conf_store_bool_def give_def logical_def printable_def quoted_def letter_tri_def char_at_mid)
  next
    case S_TRISTATE
    then show ?thesis using t v
      by (auto simp: conf_set_sym_val_def conf_store_bool_def give_def logical_def printable_def quoted_def letter_tri_def char_at_mid)
  qed (use v in \<open>simp_all add: printable_def\<close>)
qed


section \<open>A written line is read back\<close>

definition prefix_ok :: "host \<Rightarrow> bool" where
  "prefix_ok h \<longleftrightarrow> plain (CONFIG_prefix h) \<and> (CONFIG_prefix h = [] \<or> hd (CONFIG_prefix h) \<noteq> CHR ''#'')"

definition name_ok :: "string \<Rightarrow> bool" where
  "name_ok nm \<longleftrightarrow> nm \<noteq> [] \<and> list_all name_char nm"

lemma name_char_not: "name_char c \<Longrightarrow> c \<noteq> NUL \<and> c \<noteq> CHR 0x0A \<and> c \<noteq> CHR '' '' \<and> c \<noteq> CHR ''='' \<and> c \<noteq> CHR ''#''"
  by (auto simp: name_char_def isalnum_def isdigit_def NUL_def)

lemma name_chars:
  assumes "name_ok nm"
  shows "NUL \<notin> set nm" "CHR 0x0A \<notin> set nm" "CHR '' '' \<notin> set nm" "CHR ''='' \<notin> set nm" "CHR ''#'' \<notin> set nm"
  using assms name_char_not unfolding name_ok_def list_all_iff by blast+

lemma no_reassign: "\<not> has_flag fl (sym_at K s) \<Longrightarrow> warn_reassigned fl s K = K"
  by (simp add: warn_reassigned_def)

lemma give_choice_value: "sym_is_choice_value (sym_at (give s v K) x) = sym_is_choice_value (sym_at K x)"
  by (simp add: give_def give_tri_def give_val_def sym_is_choice_value_def has_flag_def set_flag_def set_def_def
      bit.conj_disj_distrib2 SYMBOL_CHOICEVAL_def SYMBOL_DEF_USER_def)

lemma give_n: "logical (s_type (sym_at K s)) \<Longrightarrow> give s ''n'' K = give_tri s S_DEF_USER SYMBOL_DEF_USER no K"
  by (simp add: give_def letter_tri_def)

text \<open>A symbol the file has not mentioned yet, and whose name leads to it.\<close>

definition awaits :: "host \<Rightarrow> kconfig \<Rightarrow> sym \<Rightarrow> string \<Rightarrow> bool" where
  "awaits h K s nm \<longleftrightarrow> prefix_ok h \<and> name_ok nm \<and> sym_find (Some nm) K = Some s \<and>
     \<not> sym_is_choice_value (sym_at K s) \<and> \<not> has_flag SYMBOL_DEF_USER (sym_at K s)"

lemma awaitsD:
  assumes "awaits h K s nm"
  shows "prefix_ok h" "name_ok nm" "sym_find (Some nm) K = Some s" "\<not> sym_is_choice_value (sym_at K s)"
    "\<not> has_flag SYMBOL_DEF_USER (sym_at K s)"
  using assms by (simp_all add: awaits_def)

lemma read_unset_back:
  assumes a: "awaits h K s nm" and "logical (s_type (sym_at K s))"
  shows "\<exists>b'. read_comment h S_DEF_USER (''# '' @ CONFIG_prefix h @ nm @ '' is not set'' @ newline @ NUL # stale) K =
    Inr (Some (Some s), b', give s ''n'' K)"
proof -
  note nm = awaitsD(2) [OF a] and found = awaitsD(3) [OF a] and fresh = awaitsD(5) [OF a]
  let ?b = "''# '' @ CONFIG_prefix h @ nm @ '' is not set'' @ newline @ NUL # stale"
  let ?P = "''# '' @ CONFIG_prefix h"
  have m: "memcmp_eq ?b 2 (CONFIG_prefix h) = Inr True"
    using memcmp_prefix [of "''# ''" "CONFIG_prefix h"] by (simp add: eval_nat_numeral)
  have sp: "strchr ?b (2 + length (CONFIG_prefix h)) (CHR '' '') = Inr (Some (2 + length (CONFIG_prefix h) + length nm))"
    using strchr_found [of "nm @ '' is not set'' @ newline" "CHR '' ''" nm "''is not set'' @ newline" ?P stale] name_chars [OF nm]
    by (simp add: NUL_def)
  have upd: "?b[2 + length (CONFIG_prefix h) + length nm := NUL] = ?P @ nm @ NUL # ''is not set'' @ newline @ NUL # stale"
    using list_update_mid [of "?P @ nm" "CHR '' ''" "''is not set'' @ newline @ NUL # stale" NUL] by simp
  have st: "starts_with (?P @ nm @ NUL # ''is not set'' @ newline @ NUL # stale) (2 + length (CONFIG_prefix h) + length nm + 1) ''is not set'' = Inr True"
    using str_at_append [of "''is not set'' @ newline" "?P @ nm @ [NUL]" stale] by (simp add: starts_with_def NUL_def)
  have name: "str_at (?P @ nm @ NUL # ''is not set'' @ newline @ NUL # stale) (2 + length (CONFIG_prefix h)) = Inr nm"
    using str_at_append [of nm ?P] name_chars [OF nm] by simp
  have u: "read_unset_symbol S_DEF_USER nm K = (Some s, give s ''n'' K)"
    using assms found fresh by (auto simp: read_unset_symbol_def line_symbol_def no_reassign give_n logical_def Let_def)
  show ?thesis
    unfolding read_comment_def Let_def m bindE_Inr sp option.case simp_thms if_False upd st name u by simp
qed

lemma read_assignment_back:
  assumes a: "awaits h K s nm" and t: "s_type (sym_at K s) = t" and v: "printable t v"
  shows "\<exists>b'. read_assignment h S_DEF_USER (CONFIG_prefix h @ nm @ ''='' @ quoted t v @ newline @ NUL # stale) K =
    Inr (Some (Some s), b', give s v K)"
proof -
  note nm = awaitsD(2) [OF a] and found = awaitsD(3) [OF a] and fresh = awaitsD(5) [OF a]
  let ?b = "CONFIG_prefix h @ nm @ ''='' @ quoted t v @ newline @ NUL # stale"
  let ?p = "length (CONFIG_prefix h) + length nm"
  let ?P = "CONFIG_prefix h @ nm @ [NUL]"
  note q = quoted_plain [OF v]
  have eq: "strchr ?b (length (CONFIG_prefix h)) (CHR ''='') = Inr (Some ?p)"
    using strchr_found [of "nm @ ''='' @ quoted t v @ newline" "CHR ''=''" nm "quoted t v @ newline" "CONFIG_prefix h" stale]
      name_chars [OF nm] q(1) by (simp add: NUL_def)
  have upd: "?b[?p := NUL] = ?P @ quoted t v @ newline @ NUL # stale"
    using list_update_mid [of "CONFIG_prefix h @ nm" "CHR ''=''" "quoted t v @ newline @ NUL # stale" NUL] by simp
  have nl: "strchr (?P @ quoted t v @ newline @ NUL # stale) (?p + 1) (CHR 0x0A) = Inr (Some (?p + 1 + length (quoted t v)))"
    using strchr_found [of "quoted t v @ newline" "CHR 0x0A" "quoted t v" "[]" ?P stale] q by (simp add: NUL_def)
  have upd2: "(?P @ quoted t v @ newline @ NUL # stale)[?p + 1 + length (quoted t v) := NUL] = ?P @ quoted t v @ NUL # NUL # stale"
    using list_update_mid [of "?P @ quoted t v" "CHR 0x0A" "NUL # stale" NUL] by (simp add: add.assoc)
  have cr: "(?P @ quoted t v @ NUL # NUL # stale) ! (?p + 1 + length (quoted t v) - 1) \<noteq> CHR 0x0D"
  proof (cases "quoted t v = []")
    case True
    then show ?thesis by (simp add: nth_append NUL_def)
  next
    case False
    then have "(?P @ quoted t v @ NUL # NUL # stale) ! (?p + 1 + length (quoted t v) - 1) = last (quoted t v)"
      by (simp add: nth_append last_conv_nth)
    then show ?thesis using q(3) [OF False] by simp
  qed
  have cut: "cut_newline (?P @ quoted t v @ newline @ NUL # stale) (?p + 1) = Inr (?P @ quoted t v @ NUL # NUL # stale)"
    unfolding cut_newline_def nl bindE_Inr option.case Let_def upd2 using cr by simp
  have name: "str_at (?P @ quoted t v @ NUL # NUL # stale) (length (CONFIG_prefix h)) = Inr nm"
    using str_at_append [of nm "CONFIG_prefix h" "quoted t v @ NUL # NUL # stale"] name_chars [OF nm] by simp
  obtain b' where set: "conf_set_sym_val s S_DEF_USER SYMBOL_DEF_USER (?p + 1) (?P @ quoted t v @ NUL # NUL # stale) K = Inr (False, b', give s v K)"
    using set_sym_val_back [OF t v, of ?P "NUL # stale"] by auto
  show ?thesis
    unfolding read_assignment_def Let_def eq bindE_Inr option.case upd cut name
    using set found fresh by (simp add: line_symbol_def no_reassign)
qed

lemma read_line_back:
  assumes a: "awaits h K s nm" and t: "s_type (sym_at K s) = t" and v: "printable t v"
  shows "\<exists>b'. read_line h S_DEF_USER (kconfig_print_symbol h t nm (quoted t v) False @ NUL # stale) K = Inr (b', give s v K)"
proof (cases "logical t \<and> v = ''n''")
  case True
  note cv = awaitsD(4) [OF a]
  from True have printed: "kconfig_print_symbol h t nm (quoted t v) False = ''# '' @ CONFIG_prefix h @ nm @ '' is not set'' @ newline"
    by (auto simp: kconfig_print_symbol_def logical_def quoted_def first_char_def)
  obtain b' where "read_comment h S_DEF_USER (''# '' @ CONFIG_prefix h @ nm @ '' is not set'' @ newline @ NUL # stale) K =
      Inr (Some (Some s), b', give s ''n'' K)"
    using read_unset_back [OF a] t True by blast
  then show ?thesis using cv True unfolding printed
    by (simp add: read_line_def char_at_def set_choice_state_def give_choice_value)
next
  case False
  note pre = awaitsD(1) [OF a] and nm = awaitsD(2) [OF a] and cv = awaitsD(4) [OF a]
  have nn: "\<not> (logical t \<and> first_char (quoted t v) = CHR ''n'')"
    using False v by (auto simp: printable_def logical_def quoted_def first_char_def)
  then have printed: "kconfig_print_symbol h t nm (quoted t v) False = CONFIG_prefix h @ nm @ ''='' @ quoted t v @ newline"
    by (auto simp: kconfig_print_symbol_def logical_def)
  obtain c r where cr: "CONFIG_prefix h @ nm = c # r" and c: "c \<noteq> CHR ''#''"
  proof (cases "CONFIG_prefix h")
    case Nil
    then show ?thesis using that [of "hd nm" "tl nm"] nm name_chars(5) [OF nm] by (cases nm) (auto simp: name_ok_def)
  next
    case (Cons a x)
    then show ?thesis using that [of a "x @ nm"] pre by (simp add: prefix_ok_def)
  qed
  have ch: "char_at (CONFIG_prefix h @ nm @ ''='' @ quoted t v @ newline @ NUL # stale) 0 = Inr c"
    using char_at_mid [of "[]" c "r @ ''='' @ quoted t v @ newline @ NUL # stale"] cr by (metis append.assoc append_Cons append_Nil list.size(3))
  have m: "memcmp_eq (CONFIG_prefix h @ nm @ ''='' @ quoted t v @ newline @ NUL # stale) 0 (CONFIG_prefix h) = Inr True"
    using memcmp_prefix [of "[]" "CONFIG_prefix h"] by simp
  obtain b' where "read_assignment h S_DEF_USER (CONFIG_prefix h @ nm @ ''='' @ quoted t v @ newline @ NUL # stale) K =
      Inr (Some (Some s), b', give s v K)"
    using read_assignment_back [OF a t v] by blast
  then show ?thesis using c cv m ch unfolding printed
    by (simp add: read_line_def set_choice_state_def give_choice_value)
qed


section \<open>A file\<close>

text \<open>What the search for a name looks at.\<close>

definition same_decl :: "kconfig \<Rightarrow> kconfig \<Rightarrow> bool" where
  "same_decl K K' \<longleftrightarrow> symbol_hash K' = symbol_hash K \<and> messages K' = messages K \<and>
     modules_sym (conf K') = modules_sym (conf K) \<and>
     (\<forall>x. s_name (sym_at K' x) = s_name (sym_at K x) \<and> s_type (sym_at K' x) = s_type (sym_at K x) \<and>
          s_flags (sym_at K' x) AND SYMBOL_CONST = s_flags (sym_at K x) AND SYMBOL_CONST \<and>
          sym_is_choice_value (sym_at K' x) = sym_is_choice_value (sym_at K x))"

lemma same_decl_refl: "same_decl K K"
  by (simp add: same_decl_def)

lemma same_decl_trans: "same_decl K K' \<Longrightarrow> same_decl K' K'' \<Longrightarrow> same_decl K K''"
  by (simp add: same_decl_def)

lemma same_decl_find: "same_decl K K' \<Longrightarrow> sym_find nm K' = sym_find nm K"
  by (simp add: same_decl_def sym_find_def split: option.split)

lemma same_decl_give: "same_decl K (give s v K)"
  unfolding same_decl_def
  by (simp add: give_choice_value)
    (simp add: give_def give_tri_def give_val_def set_flag_def set_def_def bit.conj_disj_distrib2
      SYMBOL_CONST_def SYMBOL_DEF_USER_def)

lemma same_decl_lineno: "same_decl K (K\<lparr>conf_lineno := n\<rparr>)"
  by (simp add: same_decl_def)

type_synonym entry = "sym \<times> string \<times> string"

fun entry_line :: "host \<Rightarrow> kconfig \<Rightarrow> entry \<Rightarrow> string" where
  "entry_line h K (s, nm, v) = kconfig_print_symbol h (s_type (sym_at K s)) nm (quoted (s_type (sym_at K s)) v) False"

fun entry_ok :: "host \<Rightarrow> kconfig \<Rightarrow> entry \<Rightarrow> bool" where
  "entry_ok h K (s, nm, v) \<longleftrightarrow> awaits h K s nm \<and> printable (s_type (sym_at K s)) v"

definition give_next :: "entry \<Rightarrow> kconfig \<Rightarrow> kconfig" where
  "give_next e K = give (fst e) (snd (snd e)) (K\<lparr>conf_lineno := conf_lineno K + 1\<rparr>)"

lemma same_decl_next: "same_decl K (give_next e K)"
  unfolding give_next_def by (rule same_decl_trans [OF same_decl_lineno same_decl_give])

lemma give_other: "x \<noteq> s \<Longrightarrow> sym_at (give s v K) x = sym_at K x"
  by (simp add: give_def give_tri_def give_val_def)

lemma entry_ok_next:
  assumes "entry_ok h K e" and "fst e \<noteq> fst e'"
  shows "entry_ok h (give_next e' K) e"
proof -
  obtain s nm v where e: "e = (s, nm, v)" by (cases e)
  have "sym_at (give_next e' K) s = sym_at K s"
    using assms(2) by (simp add: give_next_def e give_other)
  then show ?thesis
    using assms(1) same_decl_find [OF same_decl_next, of "Some nm" e' K] by (simp add: e awaits_def)
qed

lemma entry_line_next: "entry_line h (give_next e' K) e = entry_line h K e"
  using same_decl_next [of K e'] by (cases e) (simp add: same_decl_def)

lemma entry_line_ends:
  assumes "entry_ok h K e"
  obtains x where "entry_line h K e = x @ newline" "CHR 0x0A \<notin> set x"
proof -
  obtain s nm v where e: "e = (s, nm, v)" by (cases e)
  let ?t = "s_type (sym_at K s)"
  have p: "CHR 0x0A \<notin> set (CONFIG_prefix h)" "CHR 0x0A \<notin> set nm" "CHR 0x0A \<notin> set (quoted ?t v)"
    using assms quoted_plain(2) [of ?t v] name_chars(2) [of nm] by (simp_all add: e awaits_def prefix_ok_def plain_def)
  show ?thesis
  proof (cases "(?t = S_BOOLEAN \<or> ?t = S_TRISTATE) \<and> first_char (quoted ?t v) = CHR ''n''")
    case True
    then show ?thesis using p by (intro that [of "''# '' @ CONFIG_prefix h @ nm @ '' is not set''"])
      (simp_all add: e kconfig_print_symbol_def)
  next
    case False
    then show ?thesis using p by (intro that [of "CONFIG_prefix h @ nm @ ''='' @ quoted ?t v"])
      (simp_all only: e kconfig_print_symbol_def entry_line.simps if_False append_assoc, simp)
  qed
qed

lemma read_lines_back:
  assumes mem: "\<forall>n. room h n" and "distinct (map fst es)" and "\<forall>e\<in>set es. entry_ok h K e"
  shows "read_lines h S_DEF_USER line (concat (map (entry_line h K) es)) K = Inr (fold give_next es K)"
  using assms(2,3)
proof (induction es arbitrary: K line)
  case Nil
  obtain b where "compat_getline h line [] = Inr (-1, b, [])" by (rule getline_eof [OF mem])
  then show ?case by (simp add: read_lines.simps)
next
  case (Cons e es)
  obtain s nm v where e: "e = (s, nm, v)" by (cases e)
  let ?K = "K\<lparr>conf_lineno := conf_lineno K + 1\<rparr>"
  have ok: "entry_ok h K e" using Cons.prems(2) by simp
  obtain x where x: "entry_line h K e = x @ newline" "CHR 0x0A \<notin> set x" by (rule entry_line_ends [OF ok])
  obtain stale where g: "compat_getline h line (x @ newline @ concat (map (entry_line h K) es)) =
      Inr (int (length x + 1), x @ newline @ NUL # stale, concat (map (entry_line h K) es))"
    by (rule getline_line [OF mem x(2)])
  have a: "awaits h ?K s nm"
    using ok same_decl_find [OF same_decl_lineno [of K "conf_lineno K + 1"], of "Some nm"] by (simp add: e awaits_def)
  have t: "s_type (sym_at ?K s) = s_type (sym_at K s)" by simp
  have v: "printable (s_type (sym_at K s)) v" using ok by (simp add: e)
  obtain b' where r: "read_line h S_DEF_USER (entry_line h K e @ NUL # stale) ?K = Inr (b', give s v ?K)"
    using read_line_back [OF a t v, of stale] by (auto simp: e)
  have r': "read_line h S_DEF_USER (x @ newline @ NUL # stale) ?K = Inr (b', give_next e K)"
    using r unfolding x(1) by (simp add: give_next_def e)
  have "\<forall>e'\<in>set es. entry_ok h (give_next e K) e'"
  proof
    fix e' assume e': "e' \<in> set es"
    then have "fst e' \<noteq> fst e" using Cons.prems(1) by (metis distinct.simps(2) image_eqI list.set_map list.simps(9))
    then show "entry_ok h (give_next e K) e'" using Cons.prems(2) e' by (intro entry_ok_next) simp_all
  qed
  then have "read_lines h S_DEF_USER b' (concat (map (entry_line h (give_next e K)) es)) (give_next e K) =
      Inr (fold give_next es (give_next e K))"
    using Cons.IH [of "give_next e K" b'] Cons.prems(1) by simp
  then have rest: "read_lines h S_DEF_USER b' (concat (map (entry_line h K) es)) (give_next e K) =
      Inr (fold give_next es (give_next e K))"
    by (simp only: ext [of "entry_line h (give_next e K)" "entry_line h K", OF entry_line_next])
  have inp: "concat (map (entry_line h K) (e # es)) = x @ newline @ concat (map (entry_line h K) es)"
    by (simp add: x(1))
  show ?case
    unfolding inp by (subst read_lines.simps) (simp only: g sum.case prod.case r' bindE_Inr rest fold_Cons o_apply, simp)
qed

text \<open>The symbol has the value that was written, given by the user.\<close>

definition has_saved :: "symbol_type \<Rightarrow> symbol \<Rightarrow> string \<Rightarrow> bool" where
  "has_saved t y v \<longleftrightarrow> sym_has_value y \<and>
     (if logical t then sv_tri (s_def y S_DEF_USER) = letter_tri v else sv_val (s_def y S_DEF_USER) = StrVal v)"

lemma give_saved: "has_saved (s_type (sym_at K s)) (sym_at (give s v K) s) v"
  by (simp add: has_saved_def give_def give_tri_def give_val_def sym_has_value_def has_flag_def set_flag_def set_def_def
      bit.conj_disj_distrib2 SYMBOL_DEF_USER_def)

lemma fold_give_other: "x \<notin> fst ` set es \<Longrightarrow> sym_at (fold give_next es K) x = sym_at K x"
  by (induction es arbitrary: K) (simp_all add: give_next_def give_other)

lemma fold_give_saved:
  "distinct (map fst es) \<Longrightarrow> (s, nm, v) \<in> set es \<Longrightarrow>
     has_saved (s_type (sym_at K s)) (sym_at (fold give_next es K) s) v"
proof (induction es arbitrary: K)
  case (Cons e es)
  show ?case
  proof (cases "e = (s, nm, v)")
    case True
    have "s \<notin> fst ` set es" using Cons.prems(1) True by simp
    then have "sym_at (fold give_next (e # es) K) s = sym_at (give_next e K) s"
      using fold_give_other [of s es "give_next e K"] by simp
    moreover have "has_saved (s_type (sym_at K s)) (sym_at (give_next e K) s) v"
      using give_saved [of "K\<lparr>conf_lineno := conf_lineno K + 1\<rparr>" s v] by (simp add: True give_next_def)
    ultimately show ?thesis by simp
  next
    case False
    have "s_type (sym_at (give_next e K) s) = s_type (sym_at K s)"
      using same_decl_next [of K e] by (simp add: same_decl_def)
    then show ?thesis using Cons.IH [of "give_next e K"] Cons.prems False by simp
  qed
qed simp

lemma fold_give_decl: "same_decl K (fold give_next es K)"
proof (induction es arbitrary: K)
  case (Cons e es)
  show ?case using same_decl_trans [OF same_decl_next [of K e] Cons [of "give_next e K"]] by simp
qed (simp add: same_decl_refl)

end
