(* ===== verification/ConfProps.thy ===== *)
theory ConfProps
  imports ConfBack SymTable
begin

text \<open>
  The properties of reading and writing a configuration, and the small configuration they are applied to.
\<close>

section \<open>The symbols before the file is read\<close>

definition same_names :: "kconfig \<Rightarrow> kconfig \<Rightarrow> bool" where
  "same_names K K' \<longleftrightarrow> same_decl K K' \<and> (\<forall>x. sym_is_choice (sym_at K' x) = sym_is_choice (sym_at K x))"

lemma same_names_trans: "same_names K K' \<Longrightarrow> same_names K' K'' \<Longrightarrow> same_names K K''"
  unfolding same_names_def using same_decl_trans by blast

lemma reset_same_names: "same_names K (reset_def S_DEF_USER s K)"
  by (simp add: same_names_def same_decl_def reset_def_def Let_def sym_is_choice_def sym_is_choice_value_def has_flag_def
      set_flag_def clear_flag_def set_def_def bit.conj_disj_distrib2 and.assoc SYMBOL_CONST_def
      SYMBOL_DEF_USER_def SYMBOL_VALID_def SYMBOL_CHANGED_def SYMBOL_CHOICE_def SYMBOL_CHOICEVAL_def)

lemma reset_clears: "\<not> sym_is_choice (sym_at K s) \<Longrightarrow> \<not> has_flag SYMBOL_DEF_USER (sym_at (reset_def S_DEF_USER s K) s)"
  by (simp add: reset_def_def Let_def sym_is_choice_def has_flag_def set_flag_def clear_flag_def set_def_def and.assoc
      bit.conj_disj_distrib2 SYMBOL_DEF_USER_def SYMBOL_VALID_def SYMBOL_CHANGED_def SYMBOL_CHOICE_def)

lemma reset_other: "x \<noteq> s \<Longrightarrow> sym_at (reset_def d s K) x = sym_at K x"
  by (simp add: reset_def_def Let_def)

lemma reset_all_names: "same_names K (fold (reset_def S_DEF_USER) xs K)"
proof (induction xs arbitrary: K)
  case (Cons x xs)
  show ?case using same_names_trans [OF reset_same_names [of K x] Cons [of "reset_def S_DEF_USER x K"]] by simp
qed (simp add: same_names_def same_decl_refl)

lemma reset_all_other: "x \<notin> set xs \<Longrightarrow> sym_at (fold (reset_def d) xs K) x = sym_at K x"
  by (induction xs arbitrary: K) (simp_all add: reset_other)

lemma reset_all_clears:
  assumes "s \<in> set xs" and "\<not> sym_is_choice (sym_at K s)"
  shows "\<not> has_flag SYMBOL_DEF_USER (sym_at (fold (reset_def S_DEF_USER) xs K) s)"
  using assms
proof (induction xs arbitrary: K)
  case (Cons x xs)
  show ?case
  proof (cases "s \<in> set xs")
    case True
    have "\<not> sym_is_choice (sym_at (reset_def S_DEF_USER x K) s)"
      using Cons.prems(2) reset_same_names [of K x] by (simp add: same_names_def)
    then show ?thesis using Cons.IH [OF True] by simp
  next
    case False
    then have "s = x" using Cons.prems(1) by simp
    then show ?thesis using reset_all_other [OF False] reset_clears Cons.prems(2) by simp
  qed
qed simp

lemma reset_value: "s_def (sym_at (reset_def d s K) s) d = \<lparr>sv_val = NullVal, sv_tri = no\<rparr>"
  by (simp add: reset_def_def Let_def set_def_def)

lemma reset_all_value:
  "s \<in> set xs \<Longrightarrow> s_def (sym_at (fold (reset_def d) xs K) s) d = \<lparr>sv_val = NullVal, sv_tri = no\<rparr>"
proof (induction xs arbitrary: K)
  case (Cons x xs)
  show ?case
  proof (cases "s \<in> set xs")
    case True
    then show ?thesis using Cons.IH by simp
  next
    case False
    then have "s = x" using Cons.prems by simp
    then show ?thesis using reset_all_other [OF False, of d "reset_def d x K"] reset_value [of d x K] by simp
  qed
qed simp

section \<open>Writing and reading a configuration\<close>

text \<open>
  \<open>kept W K s\<close>: the symbol \<open>s\<close> of the table \<open>W\<close> that is written is declared the same way in the table \<open>K\<close> that
  is read into, is found by its name there, and is neither a choice nor the value of one.
\<close>

definition kept :: "kconfig \<Rightarrow> kconfig \<Rightarrow> sym \<Rightarrow> bool" where
  "kept W K s \<longleftrightarrow> s \<in> set (all_symbols K) \<and> s_type (sym_at K s) = s_type (sym_at W s) \<and>
     \<not> sym_is_choice (sym_at K s) \<and> \<not> sym_is_choice_value (sym_at K s) \<and>
     (case s_name (sym_at W s) of None \<Rightarrow> False | Some nm \<Rightarrow> name_ok nm \<and> sym_find (Some nm) K = Some s)"

text \<open>What is printed for a symbol, and with it the value it stands for.\<close>

definition prints :: "host \<Rightarrow> calc \<Rightarrow> kconfig \<Rightarrow> sym \<Rightarrow> string \<Rightarrow> string \<Rightarrow> bool" where
  "prints h calc W s text val \<longleftrightarrow> get_string_value calc s W = Inr (StrVal val, W) \<and> printable (s_type (sym_at W s)) val \<and>
     conf_write_symbol h calc kconfig_printer_cb False s W = Inr (text, W)"

lemma prints_line:
  assumes "prints h calc W s text val" and "kept W K s"
  shows "text = entry_line h K (s, the (s_name (sym_at W s)), val)"
  using assms by (auto simp: prints_def kept_def conf_write_symbol_def quoted_def c_string_def kconfig_printer_cb_def
      printable_def Let_def split: option.splits symbol_type.splits if_splits)

text \<open>
  C37: Reading a configuration gives back what was written. When a file consists of what \<open>conf_write_symbol\<close>
  prints for symbols of one table, \<open>conf_read_simple\<close> ends its loop over the lines without a message, every one of these
  symbols has been given the value that was printed, and the others have lost the values they had.
\<close>
theorem saved_values_read_back:
  assumes mem: "\<forall>n. room h n" and pre: "prefix_ok h" and dist: "distinct ss"
    and kept: "\<forall>s\<in>set ss. kept W K s" and written: "\<forall>s\<in>set ss. prints h wcalc W s (out s) (val s)"
    and exists: "fopen_read h f = Some (concat (map out ss))"
  shows "\<exists>K1. conf_read_simple h calc (Some f) S_DEF_USER K = bindE (calc (modules_sym (conf K1)) K1) (\<lambda>K. Inr (0, K)) \<and>
    (\<forall>s\<in>set ss. has_saved (s_type (sym_at W s)) (sym_at K1 s) (val s)) \<and>
    (\<forall>s\<in>set (all_symbols K) - set ss. s_def (sym_at K1 s) S_DEF_USER = \<lparr>sv_val = NullVal, sv_tri = no\<rparr>) \<and>
    messages K1 = messages K"
proof -
  let ?K = "K\<lparr>conf_filename := f, conf_lineno := 0, conf_warnings := 0, conf_unsaved := 0\<rparr>"
  define R where "R = fold (reset_def S_DEF_USER) (all_symbols ?K) ?K"
  define es where "es = map (\<lambda>s. (s, the (s_name (sym_at W s)), val s)) ss"
  have decl: "same_decl K R"
    using reset_all_names [of ?K "all_symbols ?K"] by (simp add: R_def same_names_def same_decl_def)
  have all: "all_symbols ?K = all_symbols K" by (simp add: all_symbols_def chained_def)
  have ok: "\<forall>e\<in>set es. entry_ok h R e"
  proof
    fix e assume "e \<in> set es"
    then obtain s where s: "s \<in> set ss" "e = (s, the (s_name (sym_at W s)), val s)" by (auto simp: es_def)
    have k: "kept W K s" and p: "prints h wcalc W s (out s) (val s)" using s(1) kept written by auto
    have "\<not> has_flag SYMBOL_DEF_USER (sym_at R s)"
      unfolding R_def by (rule reset_all_clears) (use k in \<open>simp_all add: all kept_def\<close>)
    then show "entry_ok h R e"
      using k p pre decl same_decl_find [OF decl]
      by (auto simp: s(2) awaits_def kept_def prints_def same_decl_def split: option.splits)
  qed
  have lines: "concat (map out ss) = concat (map (entry_line h R) es)"
  proof -
    have "out s = entry_line h R (s, the (s_name (sym_at W s)), val s)" if "s \<in> set ss" for s
      using prints_line [of h wcalc W s "out s" "val s" K] that kept written decl by (simp add: same_decl_def)
    then show ?thesis by (simp add: es_def cong: map_cong)
  qed
  have d: "distinct (map fst es)" using dist by (simp add: es_def comp_def)
  define K1 where "K1 = fold give_next es R"
  have "read_lines h S_DEF_USER '''' (concat (map out ss)) R = Inr K1"
    unfolding lines K1_def by (rule read_lines_back [OF mem d ok])
  then have "conf_read_simple h calc (Some f) S_DEF_USER K = bindE (calc (modules_sym (conf K1)) K1) (\<lambda>K. Inr (0, K))"
    by (simp add: conf_read_simple_def zconf_fopen_def exists load_file_def R_def)
  moreover have "has_saved (s_type (sym_at W s)) (sym_at K1 s) (val s)" if "s \<in> set ss" for s
  proof -
    have "s_type (sym_at W s) = s_type (sym_at R s)" using that kept decl by (simp add: kept_def same_decl_def)
    moreover have "(s, the (s_name (sym_at W s)), val s) \<in> set es" using that by (simp add: es_def)
    ultimately show ?thesis using fold_give_saved [OF d] unfolding K1_def by metis
  qed
  moreover have "s_def (sym_at K1 s) S_DEF_USER = \<lparr>sv_val = NullVal, sv_tri = no\<rparr>"
    if "s \<in> set (all_symbols K)" "s \<notin> set ss" for s
  proof -
    have "sym_at K1 s = sym_at R s" unfolding K1_def by (rule fold_give_other) (use that(2) in \<open>auto simp: es_def\<close>)
    then show ?thesis using reset_all_value [of s "all_symbols ?K" S_DEF_USER ?K] that(1) by (simp add: R_def all)
  qed
  moreover have "messages K1 = messages K"
    using same_decl_trans [OF decl fold_give_decl [of R es]] by (simp add: K1_def same_decl_def)
  ultimately show ?thesis by blast
qed

text \<open>A boolean symbol with the value \<open>y\<close> and a string with a quote in it\<close>

definition two_symbols :: kconfig where
  "two_symbols = empty_table\<lparr>
     conf := (conf empty_table)\<lparr>symbols := (symbols (conf empty_table))
       (config_symbol 0 := blank_symbol\<lparr>s_name := Some ''A'', s_type := S_BOOLEAN, s_curr := \<lparr>sv_val = NullVal, sv_tri = yes\<rparr>\<rparr>,
        config_symbol 1 := blank_symbol\<lparr>s_name := Some ''S'', s_type := S_STRING,
          s_curr := \<lparr>sv_val = StrVal [CHR ''a'', CHR 0x22, CHR ''b''], sv_tri = no\<rparr>\<rparr>)\<rparr>,
     symbol_hash := (\<lambda>i. (if i = bucket ''S'' then [config_symbol 1] else []) @ (if i = bucket ''A'' then [config_symbol 0] else []))\<rparr>"

definition two_lines :: "sym \<Rightarrow> string" where
  "two_lines s = (if s = config_symbol 0 then ''CONFIG_A=y'' @ newline
     else ''CONFIG_S='' @ [CHR 0x22, CHR ''a'', CHR 0x5C, CHR 0x22, CHR ''b'', CHR 0x22] @ newline)"

definition two_values :: "sym \<Rightarrow> string" where
  "two_values s = (if s = config_symbol 0 then ''y'' else [CHR ''a'', CHR 0x22, CHR ''b''])"

definition one_file :: "string \<Rightarrow> host" where
  "one_file text = \<lparr>getenv = (\<lambda>_. None), fopen_read = (\<lambda>_. Some text), stat_finds = (\<lambda>_. True),
     is_directory = (\<lambda>_. False), getpid = 1,
     room = (\<lambda>_. True), junk = (\<lambda>_. NUL)\<rparr>"

lemma bucket_less: "bucket nm < unat SYMBOL_HASHSIZE"
proof -
  have "strhash nm mod SYMBOL_HASHSIZE < SYMBOL_HASHSIZE"
    by (rule word_mod_less_divisor) (simp add: SYMBOL_HASHSIZE_def)
  then show ?thesis by (simp add: bucket_def word_less_nat_alt)
qed

lemma two_symbols_chained: "config_symbol 0 \<in> set (all_symbols two_symbols)" "config_symbol 1 \<in> set (all_symbols two_symbols)"
  using bucket_less [of "''A''"] bucket_less [of "''S''"]
  by (auto simp: all_symbols_def chained_def two_symbols_def blank_symbol_def)

lemma two_symbols_kept: "kept two_symbols two_symbols (config_symbol 0)" "kept two_symbols two_symbols (config_symbol 1)"
  using two_symbols_chained
  by (simp_all add: kept_def two_symbols_def blank_symbol_def sym_is_choice_def sym_is_choice_value_def has_flag_def
      name_ok_def name_char_def isalnum_def isdigit_def sym_find_def)

lemma two_symbols_printed:
  "prints (one_file t) calc two_symbols (config_symbol 0) (two_lines (config_symbol 0)) (two_values (config_symbol 0))"
  "prints (one_file t) calc two_symbols (config_symbol 1) (two_lines (config_symbol 1)) (two_values (config_symbol 1))"
  by (simp_all add: prints_def two_symbols_def blank_symbol_def get_string_value_def two_lines_def two_values_def
      sym_get_tristate_value_def printable_def plain_def NUL_def conf_write_symbol_def c_string_def kconfig_printer_cb_def
      kconfig_print_symbol_def first_char_def CONFIG_prefix_def one_file_def escaped_value esc_def escaped_char_def)

lemma saved_values_read_back_witness:
  "\<exists>K1. conf_read_simple (one_file (concat (map two_lines [config_symbol 0, config_symbol 1]))) (\<lambda>s K. Inr K) (Some ''.config'')
       S_DEF_USER two_symbols = Inr (0, K1) \<and>
     sv_tri (s_def (sym_at K1 (config_symbol 0)) S_DEF_USER) = yes \<and>
     sv_val (s_def (sym_at K1 (config_symbol 1)) S_DEF_USER) = StrVal [CHR ''a'', CHR 0x22, CHR ''b'']"
proof -
  let ?h = "one_file (concat (map two_lines [config_symbol 0, config_symbol 1]))"
  have "\<exists>K1. conf_read_simple ?h (\<lambda>s K. Inr K) (Some ''.config'') S_DEF_USER two_symbols =
      bindE ((\<lambda>s K. Inr K) (modules_sym (conf K1)) K1) (\<lambda>K. Inr (0, K)) \<and>
    (\<forall>s\<in>set [config_symbol 0, config_symbol 1]. has_saved (s_type (sym_at two_symbols s)) (sym_at K1 s) (two_values s)) \<and>
    (\<forall>s\<in>set (all_symbols two_symbols) - set [config_symbol 0, config_symbol 1].
       s_def (sym_at K1 s) S_DEF_USER = \<lparr>sv_val = NullVal, sv_tri = no\<rparr>) \<and> messages K1 = messages two_symbols"
    by (rule saved_values_read_back [where wcalc = "\<lambda>s K. Inr K" and out = two_lines])
      (use two_symbols_kept two_symbols_printed in
        \<open>simp_all add: one_file_def prefix_ok_def plain_def CONFIG_prefix_def NUL_def\<close>)
  then show ?thesis
    by (auto simp: has_saved_def logical_def two_symbols_def blank_symbol_def two_values_def letter_tri_def)
qed

end
