(* ===== verification/Menu.thy ===== *)
theory Menu
  imports SymSet
begin

text \<open>
  \<open>kconfig/menu.c\<close>: the menus. A menu is a record in a table, numbered in the order \<open>menu_add_entry\<close>
  makes them; \<open>rootmenu\<close> is number 0. The pointers \<open>next\<close>, \<open>parent\<close> and \<open>list\<close> are numbers or \<open>None\<close>. A prompt is
  a pointer to a property, which belongs to a symbol (and then is a position in the symbol's list) or stands alone.
  File and line of a menu are in \<open>menu_pos\<close> of the symbol table, its flags in \<open>menu_flags\<close>.

  Loops that follow pointers have a bound on the number of steps and end in the fault \<open>Diverges\<close> when it is used up.
\<close>

section \<open>The state of the parser\<close>

datatype prop_ref = SymProp sym nat | FreeProp nat

record menu =
  next_menu :: "nat option"
  parent_menu :: "nat option"
  list_menu :: "nat option"
  menu_sym :: "sym option"
  menu_prompt :: "prop_ref option"
  menu_visibility :: "expr option"
  menu_dep :: "expr option"
  menu_help :: "string option"

text \<open>\<open>last_entry_ptr\<close> is the address of a field of a menu.\<close>

datatype menu_link = ListOf nat | NextOf nat

record menus =
  tab :: kconfig
  menu_at :: "nat \<Rightarrow> menu"
  menu_count :: nat
  current_entry :: nat
  current_menu :: nat
  last_entry_ptr :: menu_link
  free_props :: "property list"
  modules_option :: "sym option"
  parse_file :: string
  parse_line :: int
  yynerrs :: int

definition rootmenu :: nat where "rootmenu = 0"

definition blank_menu :: menu where
  "blank_menu = \<lparr>next_menu = None, parent_menu = None, list_menu = None, menu_sym = None, menu_prompt = None,
     menu_visibility = None, menu_dep = None, menu_help = None\<rparr>"

definition upd_menu :: "nat \<Rightarrow> (menu \<Rightarrow> menu) \<Rightarrow> menus \<Rightarrow> menus" where
  "upd_menu m f S = S\<lparr>menu_at := (menu_at S)(m := f (menu_at S m))\<rparr>"

definition upd_tab :: "(kconfig \<Rightarrow> kconfig) \<Rightarrow> menus \<Rightarrow> menus" where
  "upd_tab f S = S\<lparr>tab := f (tab S)\<rparr>"

definition set_link :: "menu_link \<Rightarrow> nat option \<Rightarrow> menus \<Rightarrow> menus" where
  "set_link l p S =
     (case l of
        ListOf m \<Rightarrow> upd_menu m (\<lambda>x. x\<lparr>list_menu := p\<rparr>) S
      | NextOf m \<Rightarrow> upd_menu m (\<lambda>x. x\<lparr>next_menu := p\<rparr>) S)"

definition get_prop :: "menus \<Rightarrow> prop_ref \<Rightarrow> property" where
  "get_prop S r = (case r of SymProp s i \<Rightarrow> prop_at (tab S) s i | FreeProp i \<Rightarrow> free_props S ! i)"

definition set_prop :: "prop_ref \<Rightarrow> (property \<Rightarrow> property) \<Rightarrow> menus \<Rightarrow> menus" where
  "set_prop r f S =
     (case r of
        SymProp s i \<Rightarrow> upd_tab (upd_prop s i f) S
      | FreeProp i \<Rightarrow> S\<lparr>free_props := (free_props S)[i := f (free_props S ! i)]\<rparr>)"

text \<open>\<open>menu_warn\<close> and \<open>prop_warn\<close>; the position is that of the menu or of the property.\<close>

definition warn_at :: "string \<times> int \<Rightarrow> string \<Rightarrow> menus \<Rightarrow> menus" where
  "warn_at pos text S = upd_tab (\<lambda>K. K\<lparr>messages := messages K @ [ConfWarning (fst pos) (snd pos) text]\<rparr>) S"

definition menu_warn :: "nat \<Rightarrow> string \<Rightarrow> menus \<Rightarrow> menus" where
  "menu_warn m text S = warn_at (menu_pos (tab S) m) text S"

definition prop_warn :: "property \<Rightarrow> string \<Rightarrow> menus \<Rightarrow> menus" where
  "prop_warn p text S = warn_at (p_file p, p_lineno p) text S"

section \<open>Dependencies\<close>

text \<open>
  \<open>m\<close> becomes \<open>m && MODULES\<close>. Before an option \<open>modules\<close> has been read \<open>modules_sym\<close> is \<open>NULL\<close> and the code makes
  an expression of no symbol, which is the fault \<open>NullDeref\<close> here.
\<close>

fun menu_check_dep_some :: "sym option \<Rightarrow> expr \<Rightarrow> expr result" where
  "menu_check_dep_some modules (NotE a) = bindE (menu_check_dep_some modules a) (\<lambda>a. Inr (NotE a))"
| "menu_check_dep_some modules (BinE c a b) =
     bindE (menu_check_dep_some modules a) (\<lambda>a. bindE (menu_check_dep_some modules b) (\<lambda>b. Inr (BinE c a b)))"
| "menu_check_dep_some modules (SymE s) =
     (if s = symbol_mod then bindE (deref modules) (\<lambda>x. Inr (expr_alloc_two Conj (SymE s) (expr_alloc_symbol x)))
      else Inr (SymE s))"
| "menu_check_dep_some modules (CmpE c s1 s2) = Inr (CmpE c s1 s2)"

definition menu_check_dep :: "menus \<Rightarrow> expr option \<Rightarrow> expr option result" where
  "menu_check_dep S e =
     (case e of None \<Rightarrow> Inr None
      | Some a \<Rightarrow> bindE (menu_check_dep_some (modules_option S) a) (\<lambda>a. Inr (Some a)))"

definition menu_add_dep :: "expr option \<Rightarrow> menus \<Rightarrow> menus result" where
  "menu_add_dep dep S =
     bindE (menu_check_dep S dep) (\<lambda>dep.
     Inr (upd_menu (current_entry S) (\<lambda>x. x\<lparr>menu_dep := expr_alloc_and (menu_dep x) dep\<rparr>) S))"

definition menu_add_visibility :: "expr option \<Rightarrow> menus \<Rightarrow> menus" where
  "menu_add_visibility e S =
     upd_menu (current_entry S) (\<lambda>x. x\<lparr>menu_visibility := expr_alloc_and (menu_visibility x) e\<rparr>) S"

definition menu_set_type :: "symbol_type \<Rightarrow> menus \<Rightarrow> menus result" where
  "menu_set_type type S =
     bindE (deref (menu_sym (menu_at S (current_entry S)))) (\<lambda>s.
     let y = sym_at (tab S) s in
     Inr (if s_type y = type then S
          else if s_type y = S_UNKNOWN then upd_tab (upd_symbol s (\<lambda>y. y\<lparr>s_type := type\<rparr>)) S
          else menu_warn (current_entry S)
            (''ignoring type redefinition of '' @ [CHR 0x27] @ (case s_name y of None \<Rightarrow> ''<choice>'' | Some nm \<Rightarrow> nm) @ [CHR 0x27]
             @ '' from '' @ [CHR 0x27] @ sym_type_name (s_type y) @ [CHR 0x27] @ '' to '' @ [CHR 0x27] @ sym_type_name type @ [CHR 0x27]) S))"

section \<open>Properties of an entry\<close>

text \<open>The visibilities of the menus above, ANDed to the condition of a prompt.\<close>

fun upper_visibility :: "nat \<Rightarrow> menus \<Rightarrow> nat option \<Rightarrow> expr option \<Rightarrow> expr option result" where
  "upper_visibility fuel S None vis = Inr vis"
| "upper_visibility 0 S (Some m) vis = Inl Diverges"
| "upper_visibility (Suc fuel) S (Some m) vis =
     (let x = menu_at S m in
      upper_visibility fuel S (parent_menu x)
        (case menu_visibility x of None \<Rightarrow> vis | Some v \<Rightarrow> expr_alloc_and vis (Some (expr_copy v))))"

text \<open>The property is linked to the symbol of the entry, or stands alone.\<close>

definition link_prop :: "property \<Rightarrow> menus \<Rightarrow> prop_ref \<times> menus" where
  "link_prop p S =
     (case menu_sym (menu_at S (current_entry S)) of
        Some s \<Rightarrow> (SymProp s (length (s_prop (sym_at (tab S) s))), upd_tab (upd_symbol s (\<lambda>y. y\<lparr>s_prop := s_prop y @ [p]\<rparr>)) S)
      | None \<Rightarrow> (FreeProp (length (free_props S)), S\<lparr>free_props := free_props S @ [p]\<rparr>))"

definition menu_add_prop ::
    "prop_type \<Rightarrow> string option \<Rightarrow> prop_expr option \<Rightarrow> expr option \<Rightarrow> menus \<Rightarrow> (prop_ref \<times> menus) result" where
  "menu_add_prop type prompt e dep S =
     (let ce = current_entry S;
          p = (new_property type (menu_sym (menu_at S ce)) (parse_file S) (parse_line S))\<lparr>p_menu := Some ce, p_expr := e\<rparr>
      in bindE (menu_check_dep S dep) (\<lambda>vis.
         let (r, S) = link_prop (p\<lparr>p_visible := \<lparr>ev_expr = vis, ev_tri = no\<rparr>\<rparr>) S in
         case prompt of
           None \<Rightarrow> Inr (r, S)
         | Some text \<Rightarrow>
             let S = (if text \<noteq> [] \<and> isspace (hd text) then prop_warn p ''leading whitespace ignored'' S else S);
                 S = (if menu_prompt (menu_at S ce) \<noteq> None \<and> ce \<noteq> rootmenu then prop_warn p ''prompt redefined'' S else S)
             in bindE (if type = P_PROMPT then upper_visibility (menu_count S) S (parent_menu (menu_at S ce)) vis else Inr vis)
               (\<lambda>vis.
                let S = set_prop r (\<lambda>p. p\<lparr>p_visible := \<lparr>ev_expr = vis, ev_tri = no\<rparr>, p_text := Some (dropWhile isspace text)\<rparr>) S
                in Inr (r, upd_menu ce (\<lambda>x. x\<lparr>menu_prompt := Some r\<rparr>) S))))"

definition menu_add_prompt :: "prop_type \<Rightarrow> string \<Rightarrow> expr option \<Rightarrow> menus \<Rightarrow> (prop_ref \<times> menus) result" where
  "menu_add_prompt type prompt dep S = menu_add_prop type (Some prompt) None dep S"

definition menu_add_expr :: "prop_type \<Rightarrow> prop_expr option \<Rightarrow> expr option \<Rightarrow> menus \<Rightarrow> menus result" where
  "menu_add_expr type e dep S = bindE (menu_add_prop type None e dep S) (\<lambda>(r, S). Inr S)"

definition menu_add_symbol :: "prop_type \<Rightarrow> sym \<Rightarrow> expr option \<Rightarrow> menus \<Rightarrow> menus result" where
  "menu_add_symbol type s dep S =
     bindE (menu_add_prop type None (Some (DepE (expr_alloc_symbol s))) dep S) (\<lambda>(r, S). Inr S)"

section \<open>Entries\<close>

definition menu_init :: "menus \<Rightarrow> menus" where
  "menu_init S = S\<lparr>current_entry := rootmenu, current_menu := rootmenu, last_entry_ptr := ListOf rootmenu\<rparr>"

definition menu_add_entry :: "sym option \<Rightarrow> menus \<Rightarrow> menus result" where
  "menu_add_entry so S =
     (let m = menu_count S;
          S = upd_menu m (\<lambda>_. blank_menu\<lparr>menu_sym := so, parent_menu := Some (current_menu S)\<rparr>) (S\<lparr>menu_count := m + 1\<rparr>);
          S = upd_tab (\<lambda>K. K\<lparr>menu_pos := (menu_pos K)(m := (parse_file S, parse_line S)), menu_flags := (menu_flags K)(m := 0)\<rparr>) S;
          S = (set_link (last_entry_ptr S) (Some m) S)\<lparr>last_entry_ptr := NextOf m, current_entry := m\<rparr>
      in case so of None \<Rightarrow> Inr S | Some s \<Rightarrow> menu_add_symbol P_SYMBOL s None S)"

definition menu_end_entry :: "menus \<Rightarrow> menus" where
  "menu_end_entry S = S"

definition menu_add_menu :: "menus \<Rightarrow> menus" where
  "menu_add_menu S = (menu_end_entry S)\<lparr>last_entry_ptr := ListOf (current_entry S), current_menu := current_entry S\<rparr>"

text \<open>The menu above the root does not exist; the code would store \<open>NULL\<close> there.\<close>

definition menu_end_menu :: "menus \<Rightarrow> menus result" where
  "menu_end_menu S =
     bindE (deref (parent_menu (menu_at S (current_menu S)))) (\<lambda>p.
     Inr (S\<lparr>last_entry_ptr := NextOf (current_menu S), current_menu := p\<rparr>))"

datatype opt_token = T_OPT_MODULES | T_OPT_DEFCONFIG_LIST | T_OPT_ENV | T_OPT_ALLNOCONFIG_Y

definition SYMBOL_ALLNOCONFIG_Y :: "32 word" where "SYMBOL_ALLNOCONFIG_Y = 0x200000"

definition zconf_error :: "string \<Rightarrow> menus \<Rightarrow> menus" where
  "zconf_error text S =
     (upd_tab (\<lambda>K. K\<lparr>messages := messages K @ [ErrorLine (parse_file S @ '':'' @ lld (parse_line S) @ '': '' @ text)]\<rparr>) S)
       \<lparr>yynerrs := yynerrs S + 1\<rparr>"

text \<open>\<open>env\<close> is the value of the variable \<open>arg\<close> in the environment.\<close>

definition menu_add_option :: "opt_token \<Rightarrow> string \<Rightarrow> string option \<Rightarrow> menus \<Rightarrow> menus result" where
  "menu_add_option token arg env S =
     bindE (deref (menu_sym (menu_at S (current_entry S)))) (\<lambda>s.
     case token of
       T_OPT_MODULES \<Rightarrow>
         bindE (case modules_option S of
                  None \<Rightarrow> Inr S
                | Some old \<Rightarrow>
                    bindE (deref (s_name (sym_at (tab S) s))) (\<lambda>new. bindE (deref (s_name (sym_at (tab S) old))) (\<lambda>old.
                    Inr (zconf_error (''symbol '' @ [CHR 0x27] @ new @ [CHR 0x27] @ '' redefines option '' @ [CHR 0x27] @ ''modules'' @ [CHR 0x27]
                      @ '' already defined by symbol '' @ [CHR 0x27] @ old @ [CHR 0x27]) S))))
           (\<lambda>S. Inr ((upd_tab (\<lambda>K. K\<lparr>conf := (conf K)\<lparr>modules_sym := s\<rparr>\<rparr>) S)\<lparr>modules_option := Some s\<rparr>))
     | T_OPT_DEFCONFIG_LIST \<Rightarrow>
         (case sym_defconfig_list (tab S) of
            None \<Rightarrow> Inr (upd_tab (\<lambda>K. K\<lparr>sym_defconfig_list := Some s\<rparr>) S)
          | Some d \<Rightarrow> Inr (if d \<noteq> s then zconf_error ''trying to redefine defconfig symbol'' S else S))
     | T_OPT_ENV \<Rightarrow> bindE (prop_add_env s arg env (parse_file S) (parse_line S) (tab S)) (\<lambda>K. Inr (S\<lparr>tab := K\<rparr>))
     | T_OPT_ALLNOCONFIG_Y \<Rightarrow> Inr (upd_tab (upd_symbol s (set_flag SYMBOL_ALLNOCONFIG_Y)) S))"

section \<open>Questions about a menu\<close>

definition menu_has_prompt :: "menus \<Rightarrow> nat \<Rightarrow> bool" where
  "menu_has_prompt S m \<longleftrightarrow> menu_prompt (menu_at S m) \<noteq> None"

definition menu_get_prompt :: "menus \<Rightarrow> nat \<Rightarrow> string option" where
  "menu_get_prompt S m =
     (let x = menu_at S m in
      case menu_prompt x of
        Some r \<Rightarrow> p_text (get_prop S r)
      | None \<Rightarrow> (case menu_sym x of None \<Rightarrow> None | Some s \<Rightarrow> s_name (sym_at (tab S) s)))"

definition menu_get_root_menu :: "nat \<Rightarrow> nat" where
  "menu_get_root_menu m = rootmenu"

fun menu_get_parent_menu :: "nat \<Rightarrow> menus \<Rightarrow> nat \<Rightarrow> nat result" where
  "menu_get_parent_menu 0 S m = Inl Diverges"
| "menu_get_parent_menu (Suc fuel) S m =
     (if m = rootmenu then Inr m
      else if (case menu_prompt (menu_at S m) of None \<Rightarrow> False | Some r \<Rightarrow> p_type (get_prop S r) = P_MENU) then Inr m
      else bindE (deref (parent_menu (menu_at S m))) (menu_get_parent_menu fuel S))"

definition menu_has_help :: "menus \<Rightarrow> nat \<Rightarrow> bool" where
  "menu_has_help S m \<longleftrightarrow> menu_help (menu_at S m) \<noteq> None"

definition menu_get_help :: "menus \<Rightarrow> nat \<Rightarrow> string" where
  "menu_get_help S m = (case menu_help (menu_at S m) of None \<Rightarrow> '''' | Some t \<Rightarrow> t)"

definition lift_tab :: "('a \<times> kconfig) result \<Rightarrow> menus \<Rightarrow> ('a \<times> menus) result" where
  "lift_tab r S = bindE r (\<lambda>(v, K). Inr (v, S\<lparr>tab := K\<rparr>))"

text \<open>
  \<open>menu_is_visible\<close> and its loop over the menus below. The first argument bounds the depth of the recursion and the
  length of the lists.
\<close>

fun menu_is_visible :: "calc \<Rightarrow> nat \<Rightarrow> nat \<Rightarrow> menus \<Rightarrow> (bool \<times> menus) result"
  and child_visible :: "calc \<Rightarrow> nat \<Rightarrow> nat option \<Rightarrow> menus \<Rightarrow> (bool \<times> menus) result" where
  "menu_is_visible calc 0 m S = Inl Diverges"
| "menu_is_visible calc (Suc fuel) m S =
     (case menu_prompt (menu_at S m) of
        None \<Rightarrow> Inr (False, S)
      | Some r \<Rightarrow>
          bindE (lift_tab (calc_opt calc (menu_visibility (menu_at S m)) (tab S)) S) (\<lambda>(v, S).
          if menu_visibility (menu_at S m) \<noteq> None \<and> v = no then Inr (False, S)
          else
            bindE (case menu_sym (menu_at S m) of
                     Some s \<Rightarrow> bindE (calc s (tab S)) (\<lambda>K. let S = S\<lparr>tab := K\<rparr> in Inr (ev_tri (p_visible (get_prop S r)), S))
                   | None \<Rightarrow> bindE (lift_tab (calc_opt calc (ev_expr (p_visible (get_prop S r))) (tab S)) S) (\<lambda>(t, S).
                       Inr (t, set_prop r (set_visible t) S)))
              (\<lambda>(visible, S).
               if visible \<noteq> no then Inr (True, S)
               else
                 case menu_sym (menu_at S m) of
                   None \<Rightarrow> Inr (False, S)
                 | Some s \<Rightarrow>
                     if sym_get_tristate_value (sym_at (tab S) s) = no then Inr (False, S)
                     else
                       bindE (child_visible calc fuel (list_menu (menu_at S m)) S) (\<lambda>(found, S).
                       Inr (found, if found then upd_tab (upd_symbol s (set_flag SYMBOL_DEF_USER)) S else S)))))"
| "child_visible calc fuel None S = Inr (False, S)"
| "child_visible calc 0 (Some c) S = Inl Diverges"
| "child_visible calc (Suc fuel) (Some c) S =
     bindE (menu_is_visible calc fuel c S) (\<lambda>(vis, S).
     if vis then Inr (True, S) else child_visible calc fuel (next_menu (menu_at S c)) S)"

definition menu_is_empty :: "calc \<Rightarrow> nat \<Rightarrow> nat \<Rightarrow> menus \<Rightarrow> (bool \<times> menus) result" where
  "menu_is_empty calc fuel m S =
     bindE (child_visible calc fuel (list_menu (menu_at S m)) S) (\<lambda>(found, S). Inr (\<not> found, S))"

end
