(* ===== verification/MenuFinal.thy ===== *)
theory MenuFinal
  imports Menu SymCalc
begin

text \<open>
  \<open>menu_finalize\<close> of \<open>kconfig/menu.c\<close>: the dependencies of a menu are ANDed to those of its entries and to the
  conditions of their properties, entries that depend on the symbol before them become a menu below it, the
  members of a choice are linked to it, and menus without a prompt are dissolved.
\<close>

section \<open>Checking the properties of a symbol\<close>

definition menu_validate_number :: "menus \<Rightarrow> sym \<Rightarrow> sym \<Rightarrow> bool result" where
  "menu_validate_number S s s2 =
     (let y2 = sym_at (tab S) s2 in
      if s_type y2 = S_INT \<or> s_type y2 = S_HEX then Inr True
      else if s_type y2 = S_UNKNOWN then
        bindE (deref (s_name y2)) (\<lambda>nm. Inr (sym_string_valid (s_type (sym_at (tab S) s)) nm))
      else Inr False)"

definition in_quotes :: "string \<Rightarrow> string" where
  "in_quotes t = [CHR 0x27] @ t @ [CHR 0x27]"

definition quoted_name :: "menus \<Rightarrow> sym \<Rightarrow> string" where
  "quoted_name S s = in_quotes (case s_name (sym_at (tab S) s) of None \<Rightarrow> ''(null)'' | Some nm \<Rightarrow> nm)"

definition check_default :: "sym \<Rightarrow> property \<Rightarrow> menus \<Rightarrow> menus result" where
  "check_default s p S =
     (let t = s_type (sym_at (tab S) s) in
      bindE (deref (p_expr p)) (\<lambda>e.
      let single = (case e of DepE (SymE _) \<Rightarrow> True | _ \<Rightarrow> False);
          S = (if (t = S_STRING \<or> t = S_INT \<or> t = S_HEX) \<and> \<not> single
               then prop_warn p (''default for config symbol '' @ quoted_name S s @ '' must be a single symbol'') S else S)
      in if \<not> single then Inr S
         else
           bindE (prop_get_symbol p) (\<lambda>d. bindE (deref d) (\<lambda>s2.
           if t = S_HEX \<or> t = S_INT then
             bindE (menu_validate_number S s s2) (\<lambda>ok.
             Inr (if ok then S else prop_warn p (quoted_name S s @ '': number is invalid'') S))
           else Inr S))))"

definition check_select :: "sym \<Rightarrow> property \<Rightarrow> menus \<Rightarrow> menus result" where
  "check_select s p S =
     bindE (prop_get_symbol p) (\<lambda>d.
     let t = s_type (sym_at (tab S) s) in
     if t \<noteq> S_BOOLEAN \<and> t \<noteq> S_TRISTATE then
       Inr (prop_warn p (''config symbol '' @ quoted_name S s @ '' uses select, but is not boolean or tristate'') S)
     else
       bindE (deref d) (\<lambda>s2.
       let t2 = s_type (sym_at (tab S) s2) in
       Inr (if t2 \<noteq> S_UNKNOWN \<and> t2 \<noteq> S_BOOLEAN \<and> t2 \<noteq> S_TRISTATE then
              prop_warn p (quoted_name S s2 @ '' has wrong type. '' @ in_quotes ''select''
                @ '' only accept arguments of boolean and tristate type'') S
            else S)))"

definition check_range :: "sym \<Rightarrow> property \<Rightarrow> menus \<Rightarrow> menus result" where
  "check_range s p S =
     (let t = s_type (sym_at (tab S) s);
          S = (if t \<noteq> S_INT \<and> t \<noteq> S_HEX then prop_warn p ''range is only allowed for int or hex symbols'' S else S)
      in bindE (range_ends p) (\<lambda>(l, r).
         bindE (menu_validate_number S s l) (\<lambda>ok.
         bindE (if ok then menu_validate_number S s r else Inr False) (\<lambda>ok.
         Inr (if ok then S else prop_warn p ''range is invalid'' S)))))"

fun sym_check_props :: "sym \<Rightarrow> property list \<Rightarrow> menus \<Rightarrow> menus result" where
  "sym_check_props s [] S = Inr S"
| "sym_check_props s (p # ps) S =
     bindE (case p_type p of
              P_DEFAULT \<Rightarrow> check_default s p S
            | P_SELECT \<Rightarrow> check_select s p S
            | P_RANGE \<Rightarrow> check_range s p S
            | _ \<Rightarrow> Inr S) (sym_check_props s ps)"

definition sym_check_prop :: "sym \<Rightarrow> menus \<Rightarrow> menus result" where
  "sym_check_prop s S = sym_check_props s (s_prop (sym_at (tab S) s)) S"

section \<open>Expressions that may be \<open>NULL\<close>\<close>

definition transform_opt :: "menus \<Rightarrow> expr option \<Rightarrow> expr option" where
  "transform_opt S e = map_option (expr_transform (conf (tab S))) e"

definition dups_opt :: "menus \<Rightarrow> expr option \<Rightarrow> expr option result" where
  "dups_opt S e =
     (case e of
        None \<Rightarrow> Inr None
      | Some a \<Rightarrow> (case expr_eliminate_dups (conf (tab S)) a of None \<Rightarrow> Inl Diverges | Some b \<Rightarrow> Inr (Some b)))"

definition opt_contains :: "expr option \<Rightarrow> sym \<Rightarrow> bool" where
  "opt_contains e s = (case e of None \<Rightarrow> False | Some a \<Rightarrow> expr_contains_symbol a s)"

definition opt_depends :: "expr option \<Rightarrow> sym \<Rightarrow> bool" where
  "opt_depends e s = (case e of None \<Rightarrow> False | Some a \<Rightarrow> expr_depends_symbol a s)"

definition eliminate_eq_opt :: "expr option \<Rightarrow> expr option \<Rightarrow> expr option \<times> expr option" where
  "eliminate_eq_opt e1 e2 =
     (case (e1, e2) of
        (Some a, Some b) \<Rightarrow> (let (a, b, n) = expr_eliminate_eq a b 0 in (Some a, Some b))
      | _ \<Rightarrow> (e1, e2))"

definition prompt_visible :: "menus \<Rightarrow> nat \<Rightarrow> expr option" where
  "prompt_visible S m = (case menu_prompt (menu_at S m) of None \<Rightarrow> None | Some r \<Rightarrow> ev_expr (p_visible (get_prop S r)))"

definition set_visible_expr :: "expr option \<Rightarrow> property \<Rightarrow> property" where
  "set_visible_expr e p = p\<lparr>p_visible := (p_visible p)\<lparr>ev_expr := e\<rparr>\<rparr>"

definition upd_sym :: "sym \<Rightarrow> (symbol \<Rightarrow> symbol) \<Rightarrow> menus \<Rightarrow> menus" where
  "upd_sym s f S = upd_tab (upd_symbol s f) S"

section \<open>The entries of a menu\<close>

fun each_menu :: "nat \<Rightarrow> (nat \<Rightarrow> menus \<Rightarrow> menus result) \<Rightarrow> nat option \<Rightarrow> menus \<Rightarrow> menus result" where
  "each_menu fuel f None S = Inr S"
| "each_menu 0 f (Some m) S = Inl Diverges"
| "each_menu (Suc fuel) f (Some m) S = bindE (f m S) (\<lambda>S. each_menu fuel f (next_menu (menu_at S m)) S)"

text \<open>The first choice value that has a type gives it to the choice.\<close>

fun first_typed :: "nat \<Rightarrow> nat option \<Rightarrow> menus \<Rightarrow> menus result" where
  "first_typed fuel None S = Inr S"
| "first_typed 0 (Some m) S = Inl Diverges"
| "first_typed (Suc fuel) (Some m) S =
     (case menu_sym (menu_at S m) of
        None \<Rightarrow> first_typed fuel (next_menu (menu_at S m)) S
      | Some s \<Rightarrow>
          if s_type (sym_at (tab S) s) \<noteq> S_UNKNOWN then menu_set_type (s_type (sym_at (tab S) s)) S
          else first_typed fuel (next_menu (menu_at S m)) S)"

definition choice_types :: "nat \<Rightarrow> nat \<Rightarrow> sym \<Rightarrow> menus \<Rightarrow> menus result" where
  "choice_types fuel parent s S =
     bindE (if s_type (sym_at (tab S) s) = S_UNKNOWN
            then first_typed fuel (list_menu (menu_at S parent)) (S\<lparr>current_entry := parent\<rparr>) else Inr S) (\<lambda>S.
     each_menu fuel (\<lambda>m S.
       let S = S\<lparr>current_entry := m\<rparr> in
       case menu_sym (menu_at S m) of
         None \<Rightarrow> Inr S
       | Some x \<Rightarrow>
           if s_type (sym_at (tab S) x) = S_UNKNOWN then menu_set_type (s_type (sym_at (tab S) s)) S else Inr S)
       (list_menu (menu_at S parent)) S)"

definition parent_dep :: "menus \<Rightarrow> nat \<Rightarrow> expr option" where
  "parent_dep S parent =
     (case menu_sym (menu_at S parent) of
        Some s \<Rightarrow>
          if sym_is_choice (sym_at (tab S) s) then Some (expr_alloc_symbol s)
          else if menu_prompt (menu_at S parent) \<noteq> None then prompt_visible S parent else menu_dep (menu_at S parent)
      | None \<Rightarrow> if menu_prompt (menu_at S parent) \<noteq> None then prompt_visible S parent else menu_dep (menu_at S parent))"

text \<open>A symbol that is selected depends in reverse on the one that selects it.\<close>

definition add_selected :: "nat \<Rightarrow> property \<Rightarrow> expr option \<Rightarrow> menus \<Rightarrow> menus result" where
  "add_selected m p dep S =
     (if p_type p \<noteq> P_SELECT then Inr S
      else
        bindE (prop_get_symbol p) (\<lambda>d. bindE (deref d) (\<lambda>es. bindE (deref (menu_sym (menu_at S m))) (\<lambda>s.
        Inr (upd_sym es (\<lambda>y. y\<lparr>s_rev_dep := (s_rev_dep y)\<lparr>ev_expr := expr_alloc_or (ev_expr (s_rev_dep y))
          (expr_alloc_and (Some (expr_alloc_symbol s)) (map_option expr_copy dep))\<rparr>\<rparr>) S)))))"

definition spread_prop :: "nat \<Rightarrow> expr option \<Rightarrow> prop_ref \<Rightarrow> menus \<Rightarrow> menus result" where
  "spread_prop m basedep r S =
     (if p_menu (get_prop S r) \<noteq> Some m then Inr S
      else
        bindE (dups_opt S (expr_alloc_and (map_option expr_copy basedep) (transform_opt S (ev_expr (p_visible (get_prop S r)))))) (\<lambda>dep.
        let dep = (case menu_sym (menu_at S m) of
                     None \<Rightarrow> dep
                   | Some s \<Rightarrow> if s_type (sym_at (tab S) s) \<noteq> S_TRISTATE then map_option (expr_trans_bool (conf (tab S))) dep else dep)
        in add_selected m (get_prop S r) dep (set_prop r (set_visible_expr dep) S)))"

fun each_prop :: "(prop_ref \<Rightarrow> menus \<Rightarrow> menus result) \<Rightarrow> prop_ref list \<Rightarrow> menus \<Rightarrow> menus result" where
  "each_prop f [] S = Inr S"
| "each_prop f (r # rs) S = bindE (f r S) (each_prop f rs)"

definition props_of :: "menus \<Rightarrow> sym \<Rightarrow> prop_ref list" where
  "props_of S s = map (SymProp s) (prop_positions (tab S) s)"

definition menu_props :: "menus \<Rightarrow> nat \<Rightarrow> prop_ref list" where
  "menu_props S m =
     (case menu_sym (menu_at S m) of
        Some s \<Rightarrow> props_of S s
      | None \<Rightarrow> (case menu_prompt (menu_at S m) of None \<Rightarrow> [] | Some r \<Rightarrow> [r]))"

definition spread_dep :: "expr option \<Rightarrow> nat \<Rightarrow> menus \<Rightarrow> menus result" where
  "spread_dep parentdep m S =
     bindE (dups_opt S (expr_alloc_and (map_option expr_copy parentdep) (transform_opt S (menu_dep (menu_at S m))))) (\<lambda>basedep.
     let S = upd_menu m (\<lambda>x. x\<lparr>menu_dep := basedep\<rparr>) S
     in each_prop (spread_prop m basedep) (menu_props S m) S)"

section \<open>An entry that becomes a menu\<close>

text \<open>\<open>dep\<close> implies what is visible of the entry: after what both have in common is removed nothing is left.\<close>

definition implied :: "menus \<Rightarrow> expr option \<Rightarrow> expr option \<Rightarrow> bool result" where
  "implied S basedep dep =
     bindE (dups_opt S (transform_opt S (expr_trans_compare dep Neq symbol_no))) (\<lambda>dep.
     Inr (expr_is_yes (snd (eliminate_eq_opt dep (map_option expr_copy basedep)))))"

fun absorb ::
    "nat \<Rightarrow> (nat \<Rightarrow> menus \<Rightarrow> menus result) \<Rightarrow> nat \<Rightarrow> sym \<Rightarrow> expr option \<Rightarrow> nat option \<Rightarrow> nat option \<Rightarrow> menus \<Rightarrow>
     (nat option \<times> menus) result" where
  "absorb fuel finalize parent s basedep None last_menu S = Inr (last_menu, S)"
| "absorb 0 finalize parent s basedep (Some m) last_menu S = Inl Diverges"
| "absorb (Suc fuel) finalize parent s basedep (Some m) last_menu S =
     (let dep = (if menu_prompt (menu_at S m) \<noteq> None then prompt_visible S m else menu_dep (menu_at S m)) in
      if \<not> opt_contains dep s then Inr (last_menu, S)
      else
        bindE (if opt_depends dep s then Inr True else implied S basedep dep) (\<lambda>below.
        if \<not> below then Inr (last_menu, S)
        else
          bindE (finalize m S) (\<lambda>S.
          let S = upd_menu m (\<lambda>x. x\<lparr>parent_menu := Some parent\<rparr>) S
          in absorb fuel finalize parent s basedep (next_menu (menu_at S m)) (Some m) S)))"

definition absorb_entries :: "nat \<Rightarrow> (nat \<Rightarrow> menus \<Rightarrow> menus result) \<Rightarrow> nat \<Rightarrow> sym \<Rightarrow> menus \<Rightarrow> menus result" where
  "absorb_entries fuel finalize parent s S =
     bindE (dups_opt S (transform_opt S (expr_trans_compare (prompt_visible S parent) Neq symbol_no))) (\<lambda>basedep.
     bindE (absorb fuel finalize parent s basedep (next_menu (menu_at S parent)) None S) (\<lambda>(last_menu, S).
     let S = (case last_menu of
                None \<Rightarrow> S
              | Some l \<Rightarrow>
                  upd_menu l (\<lambda>x. x\<lparr>next_menu := None\<rparr>)
                    (upd_menu parent (\<lambda>x. x\<lparr>list_menu := next_menu x, next_menu := next_menu (menu_at S l)\<rparr>) S))
     in Inr (upd_sym s (\<lambda>y. y\<lparr>s_dir_dep := (s_dir_dep y)\<lparr>ev_expr :=
          expr_alloc_or (ev_expr (s_dir_dep y)) (menu_dep (menu_at S parent))\<rparr>\<rparr>) S)))"

section \<open>The members of a choice, and menus without a prompt\<close>

definition check_choice_prop :: "nat \<Rightarrow> sym \<Rightarrow> prop_ref \<Rightarrow> menus \<Rightarrow> menus result" where
  "check_choice_prop m cs r S =
     (let p = get_prop S r;
          S = (if p_type p = P_DEFAULT then prop_warn p ''defaults for choice values not supported'' S else S)
      in if p_menu p = Some m then Inr S
         else if p_type p = P_PROMPT then
           bindE (deref (p_menu p)) (\<lambda>pm. bindE (deref (parent_menu (menu_at S pm))) (\<lambda>above.
           Inr (if menu_sym (menu_at S above) \<noteq> Some cs then prop_warn p ''choice value used outside its choice group'' S else S)))
         else Inr S)"

text \<open>A member that is not tristate needs its tristate choice to be \<open>y\<close>.\<close>

definition need_choice_yes :: "nat \<Rightarrow> sym \<Rightarrow> sym \<Rightarrow> menus \<Rightarrow> menus result" where
  "need_choice_yes m cs x S =
     (if s_type (sym_at (tab S) cs) = S_TRISTATE \<and> s_type (sym_at (tab S) x) \<noteq> S_TRISTATE then
        let basedep = expr_alloc_comp Eq cs symbol_yes;
            S = upd_menu m (\<lambda>y. y\<lparr>menu_dep := expr_alloc_and (Some basedep) (menu_dep y)\<rparr>) S
        in each_prop (\<lambda>r S.
             if p_menu (get_prop S r) \<noteq> Some m then Inr S
             else Inr (set_prop r (\<lambda>p. set_visible_expr (expr_alloc_and (Some (expr_copy basedep)) (ev_expr (p_visible p))) p) S))
             (props_of S x) S
      else Inr S)"

definition append_list :: "sym \<Rightarrow> prop_expr option \<Rightarrow> prop_expr result" where
  "append_list x e =
     (case e of None \<Rightarrow> Inr (ListE [x]) | Some (ListE ss) \<Rightarrow> Inr (ListE (ss @ [x])) | Some _ \<Rightarrow> Inl BadCast)"

definition choice_position :: "symbol \<Rightarrow> nat option" where
  "choice_position y = find (\<lambda>i. p_type (s_prop y ! i) = P_CHOICE) [0..<length (s_prop y)]"

definition link_choice_value :: "nat \<Rightarrow> sym \<Rightarrow> sym \<Rightarrow> menus \<Rightarrow> menus result" where
  "link_choice_value m cs x S =
     (let S = upd_sym x (set_flag SYMBOL_CHOICEVAL) (S\<lparr>current_entry := m\<rparr>);
          S = (if menu_prompt (menu_at S m) = None then menu_warn m ''choice value must have a prompt'' S else S)
      in bindE (each_prop (check_choice_prop m cs) (props_of S x) S) (\<lambda>S.
         bindE (need_choice_yes m cs x S) (\<lambda>S.
         bindE (menu_add_symbol P_CHOICE cs None S) (\<lambda>S.
         bindE (deref (choice_position (sym_at (tab S) cs))) (\<lambda>i.
         bindE (append_list x (p_expr (prop_at (tab S) cs i))) (\<lambda>e.
         Inr (set_prop (SymProp cs i) (\<lambda>p. p\<lparr>p_expr := Some e\<rparr>) S)))))))"

text \<open>The last menu of a list, after all of them have got a new parent.\<close>

fun reparent :: "nat \<Rightarrow> nat \<Rightarrow> nat \<Rightarrow> menus \<Rightarrow> (nat \<times> menus) result" where
  "reparent 0 parent m S = Inl Diverges"
| "reparent (Suc fuel) parent m S =
     (let S = upd_menu m (\<lambda>x. x\<lparr>parent_menu := Some parent\<rparr>) S in
      case next_menu (menu_at S m) of None \<Rightarrow> Inr (m, S) | Some n \<Rightarrow> reparent fuel parent n S)"

definition dissolve :: "nat \<Rightarrow> nat \<Rightarrow> nat \<Rightarrow> menus \<Rightarrow> menus result" where
  "dissolve fuel parent m S =
     (let untitled = (case menu_prompt (menu_at S m) of None \<Rightarrow> True | Some r \<Rightarrow> p_text (get_prop S r) = None) in
      case list_menu (menu_at S m) of
        None \<Rightarrow> Inr S
      | Some c \<Rightarrow>
          if \<not> untitled then Inr S
          else
            bindE (reparent fuel parent c S) (\<lambda>(l, S).
            let S = upd_menu l (\<lambda>x. x\<lparr>next_menu := next_menu (menu_at S m)\<rparr>) S
            in Inr (upd_menu m (\<lambda>x. x\<lparr>next_menu := Some c, list_menu := None\<rparr>) S)))"

definition finish_child :: "nat \<Rightarrow> nat \<Rightarrow> nat \<Rightarrow> menus \<Rightarrow> menus result" where
  "finish_child fuel parent m S =
     bindE (case (menu_sym (menu_at S parent), menu_sym (menu_at S m)) of
              (Some cs, Some x) \<Rightarrow>
                if sym_is_choice (sym_at (tab S) cs) \<and> \<not> sym_is_choice_value (sym_at (tab S) x)
                then link_choice_value m cs x S else Inr S
            | _ \<Rightarrow> Inr S) (dissolve fuel parent m)"

section \<open>The whole\<close>

definition warn_symbol :: "nat \<Rightarrow> menus \<Rightarrow> menus result" where
  "warn_symbol parent S =
     (case menu_sym (menu_at S parent) of
        None \<Rightarrow> Inr S
      | Some s \<Rightarrow>
          if has_flag SYMBOL_WARNED (sym_at (tab S) s) then Inr S
          else
            let S = (if s_type (sym_at (tab S) s) = S_UNKNOWN then menu_warn parent ''config symbol defined without type'' S else S);
                S = (if sym_is_choice (sym_at (tab S) s) \<and> menu_prompt (menu_at S parent) = None
                     then menu_warn parent ''choice must have a prompt'' S else S)
            in bindE (sym_check_prop s S) (\<lambda>S. Inr (upd_sym s (set_flag SYMBOL_WARNED) S)))"

definition add_own_prompt :: "nat \<Rightarrow> menus \<Rightarrow> menus" where
  "add_own_prompt parent S =
     (case menu_sym (menu_at S parent) of
        None \<Rightarrow> S
      | Some s \<Rightarrow>
          if \<not> sym_is_optional (sym_at (tab S) s) \<and> menu_prompt (menu_at S parent) \<noteq> None then
            upd_sym s (\<lambda>y. y\<lparr>s_rev_dep := (s_rev_dep y)\<lparr>ev_expr := expr_alloc_or (ev_expr (s_rev_dep y))
              (expr_alloc_and (prompt_visible S parent) (Some (expr_alloc_symbol symbol_mod)))\<rparr>\<rparr>) S
          else S)"

fun menu_finalize :: "nat \<Rightarrow> nat \<Rightarrow> menus \<Rightarrow> menus result" where
  "menu_finalize 0 parent S = Inl Diverges"
| "menu_finalize (Suc fuel) parent S =
     bindE
       (if list_menu (menu_at S parent) \<noteq> None then
          bindE (case menu_sym (menu_at S parent) of
                   None \<Rightarrow> Inr S
                 | Some s \<Rightarrow> if sym_is_choice (sym_at (tab S) s) then choice_types fuel parent s S else Inr S) (\<lambda>S.
          bindE (each_menu fuel (spread_dep (parent_dep S parent)) (list_menu (menu_at S parent)) S) (\<lambda>S.
          each_menu fuel (menu_finalize fuel) (list_menu (menu_at S parent)) S))
        else
          case menu_sym (menu_at S parent) of
            None \<Rightarrow> Inr S
          | Some s \<Rightarrow> absorb_entries fuel (menu_finalize fuel) parent s S) (\<lambda>S.
     bindE (each_menu fuel (finish_child fuel parent) (list_menu (menu_at S parent)) S) (\<lambda>S.
     bindE (warn_symbol parent S) (\<lambda>S. Inr (add_own_prompt parent S))))"

end
