(* ===== verification/ConfMenu.thy ===== *)
theory ConfMenu
  imports ConfWrite Menu
begin

text \<open>
  \<open>kconfig/confdata.c\<close>: writing the configuration, in the order of the menus. The walk over the menus follows
  the pointers \<open>list\<close>, \<open>next\<close> and \<open>parent\<close>; it has as many steps as there are menus.
\<close>

section \<open>The walk\<close>

fun climb :: "nat \<Rightarrow> menus \<Rightarrow> nat \<Rightarrow> nat option result" where
  "climb 0 S m = Inl Diverges"
| "climb (Suc fuel) S m =
     (case parent_menu (menu_at S m) of
        None \<Rightarrow> Inr None
      | Some p \<Rightarrow> (case next_menu (menu_at S p) of Some q \<Rightarrow> Inr (Some q) | None \<Rightarrow> climb fuel S p))"

definition next_entry :: "menus \<Rightarrow> nat \<Rightarrow> nat option result" where
  "next_entry S m =
     (case list_menu (menu_at S m) of
        Some c \<Rightarrow> Inr (Some c)
      | None \<Rightarrow> (case next_menu (menu_at S m) of Some q \<Rightarrow> Inr (Some q) | None \<Rightarrow> climb (menu_count S) S m))"

type_synonym writer = "nat \<Rightarrow> menus \<Rightarrow> (string \<times> menus) result"

fun walk_menus :: "nat \<Rightarrow> writer \<Rightarrow> nat option \<Rightarrow> menus \<Rightarrow> string \<Rightarrow> (string \<times> menus) result" where
  "walk_menus fuel f None S out = Inr (out, S)"
| "walk_menus 0 f (Some m) S out = Inl Diverges"
| "walk_menus (Suc fuel) f (Some m) S out =
     bindE (f m S) (\<lambda>(t, S). bindE (next_entry S m) (\<lambda>p. walk_menus fuel f p S (out @ t)))"

definition walk_all :: "writer \<Rightarrow> menus \<Rightarrow> string \<Rightarrow> (string \<times> menus) result" where
  "walk_all f S out = walk_menus (menu_count S) f (list_menu (menu_at S rootmenu)) S out"

section \<open>What is written for a menu\<close>

definition write_symbol :: "host \<Rightarrow> calc \<Rightarrow> sym \<Rightarrow> menus \<Rightarrow> (string \<times> menus) result" where
  "write_symbol h calc s S = lift_tab (conf_write_symbol h calc kconfig_printer_cb False s (tab S)) S"

definition write_entry :: "host \<Rightarrow> calc \<Rightarrow> nat \<Rightarrow> writer" where
  "write_entry h calc fuel m S =
     (case menu_sym (menu_at S m) of
        None \<Rightarrow>
          bindE (menu_is_visible calc fuel m S) (\<lambda>(vis, S).
          if \<not> vis then Inr ('''', S)
          else bindE (deref (menu_get_prompt S m)) (\<lambda>str.
            Inr (newline @ ''#'' @ newline @ ''# '' @ str @ newline @ ''#'' @ newline, S)))
      | Some s \<Rightarrow>
          if has_flag SYMBOL_CHOICE (sym_at (tab S) s) then Inr ('''', S)
          else
            bindE (calc s (tab S)) (\<lambda>K.
            if \<not> has_flag SYMBOL_WRITE (sym_at K s) then Inr ('''', S\<lparr>tab := K\<rparr>)
            else write_symbol h calc s (S\<lparr>tab := upd_symbol s (clear_flag SYMBOL_WRITE) K\<rparr>)))"

text \<open>A choice value that the choice has by default is left out when it is a boolean \<open>y\<close>.\<close>

definition default_of_choice :: "calc \<Rightarrow> sym \<Rightarrow> kconfig \<Rightarrow> (bool \<times> kconfig) result" where
  "default_of_choice calc s K =
     (if \<not> sym_is_choice_value (sym_at K s) then Inr (False, K)
      else
        bindE (choice_of K s) (\<lambda>cs.
        bindE (sym_choice_default calc cs K) (\<lambda>(ds, K).
        Inr (\<not> sym_is_optional (sym_at K cs) \<and> ds = Some s \<and> s_type (sym_at K s) = S_BOOLEAN \<and>
          sym_get_tristate_value (sym_at K s) = yes, K))))"

text \<open>Is the value the one the symbol has without the user? (\<open>strcmp\<close> needs both to be strings.)\<close>

definition equals_default :: "calc \<Rightarrow> sym \<Rightarrow> kconfig \<Rightarrow> (bool \<times> kconfig) result" where
  "equals_default calc s K =
     bindE (get_string_value calc s K) (\<lambda>(v, K). bindE (sym_get_string_default calc s K) (\<lambda>(d, K).
     bindE (c_string v) (\<lambda>v. bindE (c_string d) (\<lambda>d. Inr (v = d, K)))))"

definition write_defconfig_entry :: "host \<Rightarrow> calc \<Rightarrow> nat \<Rightarrow> writer" where
  "write_defconfig_entry h calc fuel m S =
     (case menu_sym (menu_at S m) of
        None \<Rightarrow> bindE (menu_is_visible calc fuel m S) (\<lambda>(vis, S). Inr ('''', S))
      | Some s \<Rightarrow>
          if sym_is_choice (sym_at (tab S) s) then Inr ('''', S)
          else
            bindE (calc s (tab S)) (\<lambda>K.
            if \<not> has_flag SYMBOL_WRITE (sym_at K s) then Inr ('''', S\<lparr>tab := K\<rparr>)
            else
              let K = upd_symbol s (clear_flag SYMBOL_WRITE) K in
              if \<not> sym_is_changable (sym_at K s) then Inr ('''', S\<lparr>tab := K\<rparr>)
              else
                bindE (equals_default calc s K) (\<lambda>(same, K).
                if same then Inr ('''', S\<lparr>tab := K\<rparr>)
                else
                  bindE (default_of_choice calc s K) (\<lambda>(skip, K).
                  if skip then Inr ('''', S\<lparr>tab := K\<rparr>) else write_symbol h calc s (S\<lparr>tab := K\<rparr>)))))"

definition conf_write_defconfig ::
    "host \<Rightarrow> answers \<Rightarrow> calc \<Rightarrow> nat \<Rightarrow> string \<Rightarrow> sys_call list \<Rightarrow> menus \<Rightarrow> (int \<times> sys_call list \<times> menus) result" where
  "conf_write_defconfig h answer calc fuel filename ops S =
     (let (err, ops) = call answer (Open filename) ops in
      if err \<noteq> 0 then Inr (1, ops, S)
      else
        bindE (sym_clear_all_valid calc (tab S)) (\<lambda>K.
        bindE (walk_all (write_defconfig_entry h calc fuel) (S\<lparr>tab := K\<rparr>) '''') (\<lambda>(out, S).
        Inr (0, Write filename out # ops, S))))"

section \<open>The file \<open>.config\<close>\<close>

definition path_fits :: "string \<Rightarrow> string result" where
  "path_fits p = (if length p \<le> PATH_MAX then Inr p else Inl OutOfBounds)"

text \<open>The directory, with a slash at its end, and the name of the file in it.\<close>

definition split_name :: "host \<Rightarrow> string option \<Rightarrow> string \<times> string" where
  "split_name h name =
     (case name of
        None \<Rightarrow> ('''', conf_get_configname h)
      | Some name \<Rightarrow>
          if name = [] then ('''', conf_get_configname h)
          else if is_directory h name then (name @ ''/'', conf_get_configname h)
          else
            let base = rev (takeWhile (\<lambda>c. c \<noteq> CHR ''/'') (rev name)); dir = take (length name - length base) name
            in if dir = [] then ('''', name) else (dir, if base \<noteq> [] then base else conf_get_configname h))"

definition conf_write ::
    "host \<Rightarrow> answers \<Rightarrow> calc \<Rightarrow> nat \<Rightarrow> string option \<Rightarrow> sys_call list \<Rightarrow> menus \<Rightarrow> (int \<times> sys_call list \<times> menus) result" where
  "conf_write h answer calc fuel name ops S =
     (let (dirname, basename) = split_name h name in
      bindE (path_fits dirname) (\<lambda>dirname.
      bindE (path_fits (dirname @ basename)) (\<lambda>newname.
      let overwrite = (case getenv h ''KCONFIG_OVERWRITECONFIG'' of None \<Rightarrow> False | Some e \<Rightarrow> e \<noteq> []) in
      bindE (if overwrite then Inr newname else path_fits (dirname @ ''.tmpconfig.'' @ lld (int (getpid h)))) (\<lambda>opened.
      let (err, ops) = call answer (Open opened) ops in
      if err \<noteq> 0 then Inr (1, ops, S)
      else
        bindE (deref (menu_get_prompt S rootmenu)) (\<lambda>title.
        bindE (if conf_get_changed (tab S) then Inr (tab S) else sym_clear_all_valid calc (tab S)) (\<lambda>K.
        bindE (walk_all (write_entry h calc fuel) (S\<lparr>tab := K\<rparr>) (conf_write_heading title kconfig_printer_cb)) (\<lambda>(out, S).
        let ops = Write opened out # ops;
            S' = upd_tab (\<lambda>K. sym_set_change_count 0 (conf_message (''configuration written to '' @ newname) K)) S
        in if overwrite then Inr (0, ops, S')
           else
             bindE (path_fits (dirname @ basename @ ''.old'')) (\<lambda>old.
             let (_, ops) = call answer (Rename newname old) ops;
                 (err, ops) = call answer (Rename opened newname) ops
             in Inr (if err \<noteq> 0 then (1, ops, S) else (0, ops, S'))))))))))"

end
