(* ===== verification/MenuWalk.thy ===== *)
theory MenuWalk
  imports ConfMenu
begin

text \<open>
  The walk over the menus visits the entries of the tree that the pointers represent, each once and in the
  order of the configuration files, and ends.
\<close>

section \<open>Trees of menus\<close>

datatype entry_tree = Entry nat "entry_tree list"

fun preorder :: "entry_tree list \<Rightarrow> nat list" where
  "preorder [] = []"
| "preorder (Entry m cs # ts) = m # preorder cs @ preorder ts"

text \<open>The list that starts at a pointer, with the lists below its members.\<close>

fun siblings :: "menus \<Rightarrow> nat option \<Rightarrow> nat option \<Rightarrow> entry_tree list \<Rightarrow> bool" where
  "siblings S par p [] \<longleftrightarrow> p = None"
| "siblings S par p (Entry m cs # ts) \<longleftrightarrow> p = Some m \<and> parent_menu (menu_at S m) = par \<and>
     siblings S (Some m) (list_menu (menu_at S m)) cs \<and> siblings S par (next_menu (menu_at S m)) ts"

fun depth :: "entry_tree list \<Rightarrow> nat" where
  "depth [] = 0"
| "depth (Entry m cs # ts) = max (1 + depth cs) (depth ts)"

lemma depth_le: "depth ts \<le> length (preorder ts)"
  by (induction ts rule: depth.induct) auto

text \<open>\<open>S'\<close> has the same menus as \<open>S\<close>, linked the same way.\<close>

definition same_links :: "menus \<Rightarrow> menus \<Rightarrow> bool" where
  "same_links S S' \<longleftrightarrow> menu_count S' = menu_count S \<and>
     (\<forall>m. next_menu (menu_at S' m) = next_menu (menu_at S m) \<and> parent_menu (menu_at S' m) = parent_menu (menu_at S m) \<and>
          list_menu (menu_at S' m) = list_menu (menu_at S m))"

lemma same_links_refl [simp]: "same_links S S"
  by (simp add: same_links_def)

lemma same_links_trans: "same_links S S' \<Longrightarrow> same_links S' S'' \<Longrightarrow> same_links S S''"
  by (simp add: same_links_def)

lemma same_links_siblings: "same_links S S' \<Longrightarrow> siblings S' par p ts = siblings S par p ts"
  by (induction S par p ts rule: siblings.induct) (simp_all add: same_links_def)

lemma same_links_climb: "same_links S S' \<Longrightarrow> climb fuel S' m = climb fuel S m"
  by (induction fuel S m rule: climb.induct) (simp_all add: same_links_def split: option.split)

lemma same_links_tab [simp]: "same_links S (S\<lparr>tab := K\<rparr>)" "same_links S (upd_tab f S)"
  by (simp_all add: same_links_def upd_tab_def)

lemma same_links_set_prop [simp]: "same_links S (set_prop r f S)"
  by (simp add: same_links_def set_prop_def upd_tab_def split: prop_ref.split)

lemma lift_tab_links: "lift_tab r S = Inr (v, S') \<Longrightarrow> same_links S S'"
  by (auto simp: lift_tab_def)

definition keeps_links :: "writer \<Rightarrow> bool" where
  "keeps_links f \<longleftrightarrow> (\<forall>m S t S'. f m S = Inr (t, S') \<longrightarrow> same_links S S')"

section \<open>The walk visits the tree in order\<close>

fun visit_all :: "writer \<Rightarrow> nat list \<Rightarrow> menus \<Rightarrow> string \<Rightarrow> (string \<times> menus) result" where
  "visit_all f [] S out = Inr (out, S)"
| "visit_all f (m # ms) S out = bindE (f m S) (\<lambda>(t, S). visit_all f ms S (out @ t))"

lemma visit_all_links:
  assumes "keeps_links f"
  shows "visit_all f ms S out = Inr (t, S') \<Longrightarrow> same_links S S'"
proof (induction ms arbitrary: S out)
  case (Cons m ms)
  then obtain u S1 where "f m S = Inr (u, S1)" "visit_all f ms S1 (out @ u) = Inr (t, S')"
    by (auto simp: bindE_eq_Inr_iff)
  then show ?case using Cons.IH assms same_links_trans unfolding keeps_links_def by blast
qed simp

lemma visit_all_append:
  "visit_all f (xs @ ys) S out = bindE (visit_all f xs S out) (\<lambda>(out, S). visit_all f ys S out)"
proof (induction xs arbitrary: S out)
  case (Cons x xs)
  show ?case
  proof (cases "f x S")
    case (Inr r)
    then show ?thesis using Cons by (cases r) simp
  qed simp
qed simp

lemma walk_siblings:
  assumes f: "keeps_links f"
  shows "siblings S par p ts \<Longrightarrow> ts \<noteq> [] \<Longrightarrow> length (preorder ts) \<le> n \<Longrightarrow> k + depth ts \<le> menu_count S + 1 \<Longrightarrow>
     (\<forall>m F. parent_menu (menu_at S m) = par \<longrightarrow> k \<le> F \<longrightarrow> climb F S m = Inr q) \<Longrightarrow>
     walk_menus n f p S out = bindE (visit_all f (preorder ts) S out) (\<lambda>(out, S). walk_menus (n - length (preorder ts)) f q S out)"
proof (induction ts arbitrary: S par p n k q out rule: depth.induct)
  case 1
  then show ?case by simp
next
  case (2 m cs ts)
  have p: "p = Some m" and par: "parent_menu (menu_at S m) = par"
    and cs: "siblings S (Some m) (list_menu (menu_at S m)) cs" and ts: "siblings S par (next_menu (menu_at S m)) ts"
    using 2(3) by simp_all
  obtain n' where n: "n = Suc n'" using 2(5) by (cases n) simp_all
  show ?case
  proof (cases "f m S")
    case (Inl e)
    then show ?thesis by (simp add: p n)
  next
    case (Inr r)
    obtain t S1 where r: "f m S = Inr (t, S1)" using Inr by (cases r) simp
    have same: "same_links S S1" using f r unfolding keeps_links_def by blast
    note cs1 = cs [folded same_links_siblings [OF same]] and ts1 = ts [folded same_links_siblings [OF same]]
    have l1: "list_menu (menu_at S1 m) = list_menu (menu_at S m)" "next_menu (menu_at S1 m) = next_menu (menu_at S m)"
      "menu_count S1 = menu_count S" "\<And>m. parent_menu (menu_at S1 m) = parent_menu (menu_at S m)"
      "\<And>m. next_menu (menu_at S1 m) = next_menu (menu_at S m)"
      using same by (simp_all add: same_links_def)
    define q' where "q' = (case next_menu (menu_at S m) of Some x \<Rightarrow> Some x | None \<Rightarrow> q)"
    have out: "climb F S1 x = Inr q" if "parent_menu (menu_at S x) = par" "k \<le> F" for F x
      using 2(7) that same_links_climb [OF same] by metis
    have up: "climb F S1 x = Inr q'" if x: "parent_menu (menu_at S1 x) = Some m" and F: "k + 1 \<le> F" for F x
    proof -
      obtain F' where F': "F = Suc F'" "k \<le> F'" using F by (cases F) simp_all
      show ?thesis
        using x out [OF par F'(2)] by (simp add: F'(1) l1 q'_def split: option.split)
    qed
    have step: "walk_menus n f p S out = bindE (next_entry S1 m) (\<lambda>p. walk_menus n' f p S1 (out @ t))"
      by (simp add: p n r)
    have rest: "walk_menus j f q' S2 out2 =
        bindE (visit_all f (preorder ts) S2 out2) (\<lambda>(out, S). walk_menus (j - length (preorder ts)) f q S out)"
      if s2: "same_links S1 S2" and j: "length (preorder ts) \<le> j" for j S2 out2
    proof (cases "ts = []")
      case True
      then show ?thesis using ts by (simp add: q'_def)
    next
      case False
      have sib: "siblings S2 par (next_menu (menu_at S m)) ts" using ts1 same_links_siblings [OF s2] l1(2) by simp
      have "next_menu (menu_at S m) \<noteq> None" using ts False by (cases ts; cases "hd ts") auto
      then have q': "q' = next_menu (menu_at S m)" by (auto simp: q'_def)
      have c: "menu_count S2 = menu_count S" using s2 l1(3) by (simp add: same_links_def)
      show ?thesis unfolding q'
      proof (rule 2(2) [OF sib False j, of k])
        show "k + depth ts \<le> menu_count S2 + 1" using 2(6) by (simp add: c)
        show "\<forall>x F. parent_menu (menu_at S2 x) = par \<longrightarrow> k \<le> F \<longrightarrow> climb F S2 x = Inr q"
          using out same_links_climb [OF s2] s2 l1(4) unfolding same_links_def by metis
      qed
    qed
    have len: "length (preorder ts) \<le> n' - length (preorder cs)" using 2(5) n by simp
    show ?thesis
    proof (cases "cs = []")
      case True
      then have "list_menu (menu_at S1 m) = None" using cs l1 by simp
      moreover have "climb (menu_count S1) S1 m = Inr q"
        using out [OF par, of "menu_count S1"] 2(6) l1(3) by simp
      ultimately have "next_entry S1 m = Inr q'" by (simp add: next_entry_def q'_def l1 split: option.split)
      then show ?thesis using rest [OF same_links_refl, of n' "out @ t"] len unfolding step by (simp add: True r n)
    next
      case False
      then obtain c where c: "list_menu (menu_at S1 m) = Some c" using cs l1 by (cases cs; cases "hd cs") auto
      have "walk_menus n' f (Some c) S1 (out @ t) = bindE (visit_all f (preorder cs) S1 (out @ t))
          (\<lambda>(out, S). walk_menus (n' - length (preorder cs)) f q' S out)"
      proof (rule 2(1) [of S1 "Some m" "Some c" n' "k + 1" q', OF _ False])
        show "siblings S1 (Some m) (Some c) cs" using cs1 c l1 by simp
        show "length (preorder cs) \<le> n'" using 2(5) n by simp
        show "k + 1 + depth cs \<le> menu_count S1 + 1" using 2(6) l1(3) by simp
        show "\<forall>x F. parent_menu (menu_at S1 x) = Some m \<longrightarrow> k + 1 \<le> F \<longrightarrow> climb F S1 x = Inr q'" using up by blast
      qed
      also have "\<dots> = bindE (visit_all f (preorder cs) S1 (out @ t)) (\<lambda>(out, S).
          bindE (visit_all f (preorder ts) S out) (\<lambda>(out, S). walk_menus (n' - length (preorder cs) - length (preorder ts)) f q S out))"
      proof (cases "visit_all f (preorder cs) S1 (out @ t)")
        case (Inr u)
        then show ?thesis using rest [OF visit_all_links [OF f, of "preorder cs" S1 "out @ t"]] len by (cases u) simp
      qed simp
      also have "\<dots> = bindE (visit_all f (preorder (Entry m cs # ts)) S out)
          (\<lambda>(out, S). walk_menus (n - length (preorder (Entry m cs # ts))) f q S out)"
        by (simp add: r n visit_all_append bindE_assoc case_prod_unfold)
      finally show ?thesis by (simp add: step next_entry_def c)
    qed
  qed
qed

text \<open>\<open>ts\<close> is the tree of all entries.\<close>

definition menu_tree :: "menus \<Rightarrow> entry_tree list \<Rightarrow> bool" where
  "menu_tree S ts \<longleftrightarrow> siblings S (Some rootmenu) (list_menu (menu_at S rootmenu)) ts \<and>
     parent_menu (menu_at S rootmenu) = None \<and> next_menu (menu_at S rootmenu) = None \<and> length (preorder ts) < menu_count S"

lemma walk_tree:
  assumes "keeps_links f" and "menu_tree S ts"
  shows "walk_all f S out = visit_all f (preorder ts) S out"
proof (cases "ts = []")
  case True
  then show ?thesis using assms(2) by (simp add: walk_all_def menu_tree_def)
next
  case False
  have "walk_all f S out = bindE (visit_all f (preorder ts) S out)
      (\<lambda>(out, S'). walk_menus (menu_count S - length (preorder ts)) f None S' out)"
    unfolding walk_all_def
  proof (rule walk_siblings [OF assms(1) _ False, of S "Some rootmenu" _ _ 2])
    show "siblings S (Some rootmenu) (list_menu (menu_at S rootmenu)) ts" "length (preorder ts) \<le> menu_count S"
      using assms(2) by (simp_all add: menu_tree_def)
    show "2 + depth ts \<le> menu_count S + 1" using depth_le [of ts] assms(2) by (simp add: menu_tree_def)
    show "\<forall>m F. parent_menu (menu_at S m) = Some rootmenu \<longrightarrow> 2 \<le> F \<longrightarrow> climb F S m = Inr None"
    proof (intro allI impI)
      fix m F :: nat assume m: "parent_menu (menu_at S m) = Some rootmenu" and "2 \<le> F"
      then obtain F' where "F = Suc (Suc F')" by (metis Suc_le_D numeral_2_eq_2 Suc_le_mono)
      then show "climb F S m = Inr None" using m assms(2) by (simp add: menu_tree_def)
    qed
  qed
  then show ?thesis by (simp add: case_prod_unfold bindE_def split: sum.split)
qed

end
