(* ===== verification/MenuTree.thy ===== *)
theory MenuTree
  imports MenuWalk
begin

text \<open>
  The parser builds a tree. \<open>statement\<close>s are the blocks of the grammar in \<open>zconf.y\<close>, as far as they move the parser
  among the menus: an entry, and an entry that opens a menu and closes it after the statements inside. What else
  the actions of the grammar do with an entry leaves its links alone.
\<close>

section \<open>Operations that leave the links alone\<close>

definition same_place :: "menus \<Rightarrow> menus \<Rightarrow> bool" where
  "same_place S S' \<longleftrightarrow> same_links S S' \<and> current_menu S' = current_menu S \<and> current_entry S' = current_entry S \<and>
     last_entry_ptr S' = last_entry_ptr S"

lemma same_place_refl [simp]: "same_place S S"
  by (simp add: same_place_def)

lemma same_place_trans: "same_place S S' \<Longrightarrow> same_place S' S'' \<Longrightarrow> same_place S S''"
  unfolding same_place_def using same_links_trans by auto

lemma same_place_tab [simp]: "same_place S (upd_tab f X) \<longleftrightarrow> same_place S X"
  by (simp add: same_place_def upd_tab_def same_links_def)

lemma same_place_set_prop [simp]: "same_place S (set_prop r f X) \<longleftrightarrow> same_place S X"
  by (cases r) (simp_all add: set_prop_def, simp add: same_place_def same_links_def)

lemma same_place_warn [simp]: "same_place S (prop_warn p t X) \<longleftrightarrow> same_place S X"
  by (simp add: prop_warn_def warn_at_def)

lemma same_place_prompt [simp]: "same_place S (upd_menu m (menu_prompt_update f) X) \<longleftrightarrow> same_place S X"
  by (auto simp: same_place_def same_links_def upd_menu_def)

lemma same_place_link: "link_prop p S = (r, S') \<Longrightarrow> same_place S S'"
  by (auto simp: link_prop_def same_place_def same_links_def upd_tab_def split: option.splits)

text \<open>The result of an operation that leaves the links alone\<close>

definition in_place :: "menus \<Rightarrow> ('a \<times> menus) result \<Rightarrow> bool" where
  "in_place S r \<longleftrightarrow> (\<forall>v S'. r = Inr (v, S') \<longrightarrow> same_place S S')"

lemma placed_Inl [simp]: "in_place S (Inl e)"
  by (simp add: in_place_def)

lemma placed_Inr [simp]: "in_place S (Inr (v, S')) \<longleftrightarrow> same_place S S'"
  by (simp add: in_place_def)

lemma placed_bind: "(\<And>v. m = Inr v \<Longrightarrow> in_place S (f v)) \<Longrightarrow> in_place S (bindE m f)"
  by (cases m) simp_all

lemma placed_then:
  assumes "in_place S m" and "\<And>v S'. m = Inr (v, S') \<Longrightarrow> in_place S' (f (v, S'))"
  shows "in_place S (bindE m f)"
  using assms same_place_trans unfolding in_place_def by (cases m) (fastforce simp: bindE_def)+

lemma add_prop_placed: "in_place S (menu_add_prop type prompt e dep S)"
  unfolding menu_add_prop_def Let_def
proof (rule placed_bind, goal_cases)
  case (1 vis)
  obtain r S1 where l: "link_prop ((new_property type (menu_sym (menu_at S (current_entry S))) (parse_file S) (parse_line S))
        \<lparr>p_menu := Some (current_entry S), p_expr := e, p_visible := \<lparr>ev_expr = vis, ev_tri = no\<rparr>\<rparr>) S = (r, S1)"
    by (metis surj_pair)
  note s1 = same_place_link [OF l]
  show ?case
    unfolding l prod.case
  proof (cases prompt, simp add: s1, simp only: option.case, rule placed_bind, goal_cases)
    case (1 tx vis')
    show ?case by (simp add: s1)
  qed
qed

lemma add_symbol_place: "menu_add_symbol type s dep S = Inr S' \<Longrightarrow> same_place S S'"
  using add_prop_placed [of S type None "Some (DepE (expr_alloc_symbol s))" dep]
  by (auto simp: menu_add_symbol_def in_place_def)

lemma lift_tab_placed [simp]: "in_place S (lift_tab r S)"
  by (cases r) (auto simp: lift_tab_def same_place_def same_links_def)

lemma same_place_tab_set [simp]: "same_place S (S\<lparr>tab := K\<rparr>)"
  by (simp add: same_place_def same_links_def)

section \<open>Blocks of statements\<close>

text \<open>The last component says what else the actions do with the entry: its type, its prompt, its dependencies.\<close>

datatype statement =
    Config "sym option" "menus \<Rightarrow> menus result"
  | Block "sym option" "menus \<Rightarrow> menus result" "statement list"

fun parse_statements :: "statement list \<Rightarrow> menus \<Rightarrow> menus result" where
  "parse_statements [] S = Inr S"
| "parse_statements (Config so attrs # sts) S =
     bindE (menu_add_entry so S) (\<lambda>S. bindE (attrs S) (\<lambda>S. parse_statements sts (menu_end_entry S)))"
| "parse_statements (Block so attrs body # sts) S =
     bindE (menu_add_entry so S) (\<lambda>S. bindE (attrs S) (\<lambda>S. bindE (parse_statements body (menu_add_menu S)) (\<lambda>S.
     bindE (menu_end_menu S) (parse_statements sts))))"

fun attrs_ok :: "statement list \<Rightarrow> bool" where
  "attrs_ok [] \<longleftrightarrow> True"
| "attrs_ok (Config so attrs # sts) \<longleftrightarrow> (\<forall>S S'. attrs S = Inr S' \<longrightarrow> same_place S S') \<and> attrs_ok sts"
| "attrs_ok (Block so attrs body # sts) \<longleftrightarrow>
     (\<forall>S S'. attrs S = Inr S' \<longrightarrow> same_place S S') \<and> attrs_ok body \<and> attrs_ok sts"

text \<open>The tree of the statements, the entries numbered from \<open>n\<close> on.\<close>

fun count :: "statement list \<Rightarrow> nat" where
  "count [] = 0"
| "count (Config so attrs # sts) = 1 + count sts"
| "count (Block so attrs body # sts) = 1 + count body + count sts"

fun numbered :: "nat \<Rightarrow> statement list \<Rightarrow> entry_tree list" where
  "numbered n [] = []"
| "numbered n (Config so attrs # sts) = Entry n [] # numbered (n + 1) sts"
| "numbered n (Block so attrs body # sts) = Entry n (numbered (n + 1) body) # numbered (n + 1 + count body) sts"

lemma preorder_numbered: "preorder (numbered n sts) = [n..<n + count sts]"
proof (induction n sts rule: numbered.induct)
  case (2 n so attrs sts)
  then show ?case by (simp add: upt_conv_Cons)
next
  case (3 n so attrs body sts)
  have "[n..<n + (1 + count body + count sts)] = n # [n + 1..<n + 1 + count body + count sts]"
    by (simp add: upt_conv_Cons add.assoc del: upt_Suc)
  also have "\<dots> = n # [n + 1..<n + 1 + count body] @ [n + 1 + count body..<n + 1 + count body + count sts]"
    by (subst upt_add_eq_append) simp_all
  finally show ?case using 3 by simp
qed simp

definition field :: "menus \<Rightarrow> menu_link \<Rightarrow> nat option" where
  "field S l = (case l of ListOf m \<Rightarrow> list_menu (menu_at S m) | NextOf m \<Rightarrow> next_menu (menu_at S m))"

fun owner :: "menu_link \<Rightarrow> nat" where
  "owner (ListOf m) = m"
| "owner (NextOf m) = m"

text \<open>Below \<open>n\<close> the menus are linked the same way, but for the field \<open>l\<close>.\<close>

definition same_below :: "nat \<Rightarrow> menu_link \<Rightarrow> menus \<Rightarrow> menus \<Rightarrow> bool" where
  "same_below n l S S' \<longleftrightarrow> (\<forall>m<n. parent_menu (menu_at S' m) = parent_menu (menu_at S m) \<and>
     (ListOf m \<noteq> l \<longrightarrow> list_menu (menu_at S' m) = list_menu (menu_at S m)) \<and>
     (NextOf m \<noteq> l \<longrightarrow> next_menu (menu_at S' m) = next_menu (menu_at S m)))"

text \<open>The parser adds to a list that ends in the field \<open>last_entry_ptr\<close> points to.\<close>

definition at_end :: "menus \<Rightarrow> bool" where
  "at_end S \<longleftrightarrow> field S (last_entry_ptr S) = None \<and> owner (last_entry_ptr S) < menu_count S \<and>
     current_menu S < menu_count S"

lemma siblings_below:
  "siblings S par p ts \<Longrightarrow> same_below n l S S' \<Longrightarrow> \<forall>m\<in>set (preorder ts). m < n \<and> ListOf m \<noteq> l \<and> NextOf m \<noteq> l \<Longrightarrow>
     siblings S' par p ts"
  by (induction S par p ts rule: siblings.induct) (auto simp: same_below_def)

lemma same_below_less: "same_below n l S S' \<Longrightarrow> k \<le> n \<Longrightarrow> k \<le> owner l \<Longrightarrow> same_below k l' S S'"
  by (cases l) (auto simp: same_below_def)

lemma same_below_trans: "same_below n l S S' \<Longrightarrow> same_below n l S' S'' \<Longrightarrow> same_below n l S S''"
  by (simp add: same_below_def)

lemma same_below_place: "same_place S S' \<Longrightarrow> same_below n l S S'"
  by (simp add: same_below_def same_place_def same_links_def)

lemma same_below_field: "same_below n l' S S' \<Longrightarrow> owner l < n \<Longrightarrow> l \<noteq> l' \<Longrightarrow> field S' l = field S l"
  by (cases l) (auto simp: same_below_def field_def)

lemma same_place_field: "same_place S S' \<Longrightarrow> field S' l = field S l"
  by (simp add: field_def same_place_def same_links_def split: menu_link.split)

lemma add_entry:
  assumes "menu_add_entry so S = Inr S'" and "at_end S"
  shows "menu_count S' = menu_count S + 1" "current_menu S' = current_menu S" "current_entry S' = menu_count S"
    "last_entry_ptr S' = NextOf (menu_count S)" "field S' (last_entry_ptr S) = Some (menu_count S)"
    "parent_menu (menu_at S' (menu_count S)) = Some (current_menu S)" "list_menu (menu_at S' (menu_count S)) = None"
    "next_menu (menu_at S' (menu_count S)) = None" "same_below (menu_count S) (last_entry_ptr S) S S'"
proof -
  define m where "m = menu_count S"
  define S1 where "S1 = upd_menu m (\<lambda>_. blank_menu\<lparr>menu_sym := so, parent_menu := Some (current_menu S)\<rparr>) (S\<lparr>menu_count := m + 1\<rparr>)"
  define S2 where "S2 = upd_tab (\<lambda>K. K\<lparr>menu_pos := (menu_pos K)(m := (parse_file S1, parse_line S1)), menu_flags := (menu_flags K)(m := 0)\<rparr>) S1"
  define S3 where "S3 = (set_link (last_entry_ptr S2) (Some m) S2)\<lparr>last_entry_ptr := NextOf m, current_entry := m\<rparr>"
  have p: "same_place S3 S'"
    using assms(1) add_symbol_place unfolding menu_add_entry_def Let_def S3_def S2_def S1_def m_def
    by (auto split: option.splits)
  have own: "owner (last_entry_ptr S) \<noteq> m" using assms(2) by (simp add: at_end_def m_def)
  note d = S3_def S2_def S1_def upd_menu_def upd_tab_def set_link_def blank_menu_def
  have "menu_count S3 = m + 1" "current_menu S3 = current_menu S" "current_entry S3 = m" "last_entry_ptr S3 = NextOf m"
    "field S3 (last_entry_ptr S) = Some m" "parent_menu (menu_at S3 m) = Some (current_menu S)"
    "list_menu (menu_at S3 m) = None" "next_menu (menu_at S3 m) = None" "same_below m (last_entry_ptr S) S S3"
    using own by (auto simp: d field_def same_below_def split: menu_link.splits)
  then show "menu_count S' = menu_count S + 1" "current_menu S' = current_menu S" "current_entry S' = menu_count S"
    "last_entry_ptr S' = NextOf (menu_count S)" "field S' (last_entry_ptr S) = Some (menu_count S)"
    "parent_menu (menu_at S' (menu_count S)) = Some (current_menu S)" "list_menu (menu_at S' (menu_count S)) = None"
    "next_menu (menu_at S' (menu_count S)) = None" "same_below (menu_count S) (last_entry_ptr S) S S'"
    using p by (simp_all add: same_place_def same_links_def field_def same_below_def m_def split: menu_link.splits)
qed

definition parsed :: "statement list \<Rightarrow> menus \<Rightarrow> menus \<Rightarrow> bool" where
  "parsed sts S S' \<longleftrightarrow> menu_count S' = menu_count S + count sts \<and> current_menu S' = current_menu S \<and> at_end S' \<and>
     same_below (menu_count S) (last_entry_ptr S) S S' \<and>
     siblings S' (Some (current_menu S)) (field S' (last_entry_ptr S)) (numbered (menu_count S) sts)"

lemma parse_parsed: "attrs_ok sts \<Longrightarrow> at_end S \<Longrightarrow> parse_statements sts S = Inr S' \<Longrightarrow> parsed sts S S'"
proof (induction sts S arbitrary: S' rule: parse_statements.induct)
  case (1 S)
  then show ?case by (simp add: parsed_def at_end_def same_below_def)
next
  case (2 so attrs sts S)
  obtain S1 S2 where a: "menu_add_entry so S = Inr S1" and b: "attrs S1 = Inr S2" and c: "parse_statements sts S2 = Inr S'"
    using 2(4) by (auto simp: menu_end_entry_def)
  note e = add_entry [OF a 2(3)]
  let ?m = "menu_count S" and ?l = "last_entry_ptr S"
  have pl: "same_place S1 S2" using 2(2) b by simp
  have s2: "menu_count S2 = ?m + 1" "current_menu S2 = current_menu S" "last_entry_ptr S2 = NextOf ?m"
    using pl e by (simp_all add: same_place_def same_links_def)
  have end2: "at_end S2"
    using s2 same_place_field [OF pl] e 2(3) by (simp add: at_end_def field_def)
  have "parsed sts (menu_end_entry S2) S'"
    by (rule 2(1)) (use 2(2) end2 c in \<open>simp_all add: menu_end_entry_def\<close>)
  then have ih: "parsed sts S2 S'" by (simp add: menu_end_entry_def)
  have below: "same_below (?m + 1) (NextOf ?m) S2 S'" using ih s2 by (simp add: parsed_def)
  have l: "owner ?l < ?m" "?l \<noteq> NextOf ?m" using 2(3) by (auto simp: at_end_def)
  have "field S' ?l = Some ?m"
    using same_below_field [OF below _ l(2)] l(1) same_place_field [OF pl] e(5) by simp
  moreover have "parent_menu (menu_at S' ?m) = Some (current_menu S)" "list_menu (menu_at S' ?m) = None"
    using below pl e by (simp_all add: same_below_def same_place_def same_links_def)
  moreover have "siblings S' (Some (current_menu S)) (next_menu (menu_at S' ?m)) (numbered (?m + 1) sts)"
    using ih s2 by (simp add: parsed_def field_def)
  moreover have "same_below ?m ?l S S'"
    using same_below_trans [OF e(9) same_below_trans [OF same_below_place [OF pl] same_below_less [OF below]]] by simp
  ultimately show ?case using ih s2 by (simp add: parsed_def)
next
  case (3 so attrs body sts S)
  obtain S1 S2 S4 S5 where a: "menu_add_entry so S = Inr S1" and b: "attrs S1 = Inr S2"
    and c: "parse_statements body (menu_add_menu S2) = Inr S4" and d: "menu_end_menu S4 = Inr S5"
    and f: "parse_statements sts S5 = Inr S'"
    using 3(5) by auto
  note e = add_entry [OF a 3(4)]
  let ?m = "menu_count S" and ?l = "last_entry_ptr S" and ?S3 = "menu_add_menu S2"
  have pl: "same_place S1 S2" using 3(3) b by simp
  have s3: "menu_count ?S3 = ?m + 1" "current_menu ?S3 = ?m" "last_entry_ptr ?S3 = ListOf ?m" "menu_at ?S3 = menu_at S2"
    using pl e by (simp_all add: same_place_def same_links_def menu_add_menu_def menu_end_entry_def)
  have links2: "parent_menu (menu_at S2 ?m) = Some (current_menu S)" "list_menu (menu_at S2 ?m) = None" "next_menu (menu_at S2 ?m) = None"
    using pl e by (simp_all add: same_place_def same_links_def)
  have end3: "at_end ?S3" using s3 links2 by (simp add: at_end_def field_def)
  have ih1: "parsed body ?S3 S4" by (rule 3(1)) (use 3(3) end3 c in simp_all)
  have below1: "same_below (?m + 1) (ListOf ?m) ?S3 S4" using ih1 s3 by (simp add: parsed_def)
  have links4: "parent_menu (menu_at S4 ?m) = Some (current_menu S)" "next_menu (menu_at S4 ?m) = None"
    using below1 links2 s3(4) by (simp_all add: same_below_def)
  have cur4: "current_menu S4 = ?m" "menu_count S4 = ?m + 1 + count body" using ih1 s3 by (simp_all add: parsed_def)
  have s5: "S5 = S4\<lparr>last_entry_ptr := NextOf ?m, current_menu := current_menu S\<rparr>"
    using d links4 by (simp add: menu_end_menu_def cur4)
  have end5: "at_end S5" using links4 cur4 3(4) by (simp add: s5 at_end_def field_def)
  have ih2: "parsed sts S5 S'" by (rule 3(2)) (use 3(3) end5 f in simp_all)
  have below2: "same_below (?m + 1 + count body) (NextOf ?m) S5 S'" using ih2 cur4 by (simp add: parsed_def s5)
  have "siblings S5 (Some ?m) (list_menu (menu_at S5 ?m)) (numbered (?m + 1) body)"
    using ih1 s3 same_links_siblings [of S4 S5] by (simp add: parsed_def field_def s5 same_links_def)
  then have "siblings S' (Some ?m) (list_menu (menu_at S5 ?m)) (numbered (?m + 1) body)"
    by (rule siblings_below [OF _ below2]) (auto simp: preorder_numbered)
  moreover have "list_menu (menu_at S' ?m) = list_menu (menu_at S5 ?m)" "parent_menu (menu_at S' ?m) = Some (current_menu S)"
    using below2 links4 by (simp_all add: same_below_def s5)
  moreover have "siblings S' (Some (current_menu S)) (next_menu (menu_at S' ?m)) (numbered (?m + 1 + count body) sts)"
    using ih2 cur4 by (simp add: parsed_def s5 field_def)
  moreover have l: "owner ?l < ?m" "?l \<noteq> NextOf ?m" "?l \<noteq> ListOf ?m" using 3(4) by (auto simp: at_end_def)
  moreover have "field S' ?l = Some ?m"
  proof -
    have "field S' ?l = field S5 ?l" using same_below_field [OF below2 _ l(2)] l(1) by simp
    also have "\<dots> = field ?S3 ?l" using same_below_field [OF below1 _ l(3)] l(1) by (simp add: s5 field_def split: menu_link.splits)
    also have "\<dots> = Some ?m" using same_place_field [OF pl, of ?l] e(5) s3(4) by (simp add: field_def split: menu_link.splits)
    finally show ?thesis .
  qed
  moreover have "same_below ?m ?l S S'"
  proof -
    have "same_below ?m ?l S1 ?S3" using same_below_place [OF pl] s3(4) by (simp add: same_below_def)
    moreover have "same_below ?m ?l ?S3 S4" by (rule same_below_less [OF below1]) simp_all
    moreover have "same_below ?m ?l S4 S5" by (simp add: same_below_def s5)
    moreover have "same_below ?m ?l S5 S'" by (rule same_below_less [OF below2]) simp_all
    ultimately show ?thesis using e(9) same_below_trans by blast
  qed
  ultimately show ?case using ih2 cur4 by (simp add: parsed_def s5)
qed

section \<open>What the writers do to the menus\<close>

lemma placed_if: "in_place S x \<Longrightarrow> in_place S y \<Longrightarrow> in_place S (if b then x else y)"
  by simp

lemma visible_placed: "in_place S (menu_is_visible calc fuel m S) \<and> in_place S' (child_visible calc fuel p S')"
proof (induction fuel arbitrary: m S p S')
  case 0
  show ?case by (cases p) simp_all
next
  case (Suc fuel)
  have m: "in_place S (menu_is_visible calc fuel m S)" and c: "in_place S (child_visible calc fuel p S)" for m p S
    using Suc by blast+
  have "in_place S (menu_is_visible calc (Suc fuel) m S)"
  proof (cases "menu_prompt (menu_at S m)")
    case (Some r)
    have sub: "in_place S1 (case menu_sym (menu_at S1 m) of
          Some s \<Rightarrow> bindE (calc s (tab S1)) (\<lambda>K. let S = S1\<lparr>tab := K\<rparr> in Inr (ev_tri (p_visible (get_prop S r)), S))
        | None \<Rightarrow> bindE (lift_tab (calc_opt calc (ev_expr (p_visible (get_prop S1 r))) (tab S1)) S1) (\<lambda>(t, S).
            Inr (t, set_prop r (set_visible t) S)))" for S1
      by (auto simp: Let_def split: option.splits intro!: placed_bind placed_then [OF lift_tab_placed])
    show ?thesis
      unfolding menu_is_visible.simps Some option.case
      by (rule placed_then [OF lift_tab_placed], unfold prod.case, rule placed_if, simp, rule placed_then [OF sub])
        (auto split: option.splits intro!: placed_then [OF c])
  qed simp
  moreover have "in_place S' (child_visible calc (Suc fuel) p S')"
  proof (cases p)
    case (Some c)
    show ?thesis unfolding Some child_visible.simps by (rule placed_then [OF m]) (use Suc in auto)
  qed simp
  ultimately show ?case ..
qed

lemma write_symbol_placed: "in_place S (write_symbol h calc s S)"
  by (simp add: write_symbol_def)

lemma placed_tab: "in_place (S\<lparr>tab := K\<rparr>) r \<Longrightarrow> in_place S r"
  by (auto simp: in_place_def same_place_def same_links_def)

lemma placed_keeps: "(\<And>m S. in_place S (f m S)) \<Longrightarrow> keeps_links f"
  unfolding keeps_links_def in_place_def same_place_def by blast

lemma write_entry_keeps: "keeps_links (write_entry h calc fuel)"
proof (rule placed_keeps)
  fix m S
  show "in_place S (write_entry h calc fuel m S)"
  proof (cases "menu_sym (menu_at S m)")
    case None
    show ?thesis unfolding write_entry_def None option.case
      by (rule placed_then [OF conjunct1 [OF visible_placed]]) (auto intro: placed_bind)
  next
    case (Some s)
    show ?thesis unfolding write_entry_def Some option.case
      by (rule placed_if, simp, rule placed_bind, rule placed_if, simp, rule placed_tab [OF write_symbol_placed])
  qed
qed

lemma write_defconfig_entry_keeps: "keeps_links (write_defconfig_entry h calc fuel)"
proof (rule placed_keeps)
  fix m S
  show "in_place S (write_defconfig_entry h calc fuel m S)"
  proof (cases "menu_sym (menu_at S m)")
    case None
    show ?thesis unfolding write_defconfig_entry_def None option.case
      by (rule placed_then [OF conjunct1 [OF visible_placed]]) auto
  next
    case (Some s)
    show ?thesis unfolding write_defconfig_entry_def Some option.case Let_def
      by (auto intro!: placed_bind placed_tab [OF write_symbol_placed])
  qed
qed

end
