(* ===== verification/MenuProps.thy ===== *)
theory MenuProps
  imports MenuTree ConfProps
begin

text \<open>
  The properties of the menus, and a small set of menus to which they are applied.
\<close>

section \<open>The properties\<close>

text \<open>
  C38: The parser links the menus as the configuration files nest them. After \<open>menu_init\<close> and any well-nested
  sequence of entries and menus, whatever types, prompts and dependencies the entries get, the pointers represent the
  tree of the statements, with the entries numbered in the order they were read.
\<close>
theorem parser_builds_tree:
  assumes "attrs_ok sts" and "menu_at S rootmenu = blank_menu" and "menu_count S = 1"
    and "parse_statements sts (menu_init S) = Inr S'"
  shows "menu_tree S' (numbered 1 sts) \<and> preorder (numbered 1 sts) = [1..<menu_count S']"
proof -
  have e: "at_end (menu_init S)"
    using assms(2,3) by (simp add: menu_init_def at_end_def field_def rootmenu_def blank_menu_def)
  have p: "parsed sts (menu_init S) S'" by (rule parse_parsed [OF assms(1) e assms(4)])
  then have n: "menu_count S' = 1 + count sts" using assms(3) by (simp add: parsed_def menu_init_def)
  have "parent_menu (menu_at S' rootmenu) = None" "next_menu (menu_at S' rootmenu) = None"
    using p assms(2,3) by (simp_all add: parsed_def same_below_def menu_init_def rootmenu_def blank_menu_def)
  moreover have "siblings S' (Some rootmenu) (list_menu (menu_at S' rootmenu)) (numbered 1 sts)"
    using p assms(3) by (simp add: parsed_def menu_init_def field_def)
  ultimately show ?thesis using n by (simp add: menu_tree_def preorder_numbered)
qed

text \<open>A menu with an entry in it, after another entry; each has a prompt.\<close>

definition no_menus :: menus where
  "no_menus = \<lparr>tab = empty_table, menu_at = (\<lambda>_. blank_menu), menu_count = 1, current_entry = 0, current_menu = 0,
     last_entry_ptr = ListOf 0, free_props = [], modules_option = None, parse_file = ''Kconfig'', parse_line = 1, yynerrs = 0\<rparr>"

definition titled :: "string \<Rightarrow> menus \<Rightarrow> menus result" where
  "titled t S = bindE (menu_add_prompt P_MENU t None S) (\<lambda>(r, S). Inr S)"

definition three_statements :: "statement list" where
  "three_statements = [Config None (titled ''one''), Block None (titled ''two'') [Config None (titled ''three'')]]"

lemma titled_place: "titled t S = Inr S' \<Longrightarrow> same_place S S'"
  using add_prop_placed [of S P_MENU "Some t" None None] by (auto simp: titled_def menu_add_prompt_def in_place_def)

lemma three_statements_ok: "attrs_ok three_statements"
  by (auto simp: three_statements_def dest: titled_place)

lemma titled_works: "\<exists>S'. titled t S = Inr S'"
proof -
  obtain r S1 where "link_prop ((new_property P_MENU (menu_sym (menu_at S (current_entry S))) (parse_file S) (parse_line S))
      \<lparr>p_menu := Some (current_entry S), p_expr := None, p_visible := \<lparr>ev_expr = None, ev_tri = no\<rparr>\<rparr>) S = (r, S1)"
    by (metis surj_pair)
  then show ?thesis
    by (simp add: titled_def menu_add_prompt_def menu_add_prop_def menu_check_dep_def Let_def)
qed

lemma untitled_entry: "\<exists>S'. menu_add_entry None S = Inr S'"
  by (simp add: menu_add_entry_def Let_def)

lemma three_statements_parsed: "\<exists>S'. parse_statements three_statements (menu_init no_menus) = Inr S'"
proof -
  let ?S = "menu_init no_menus"
  have e: "at_end ?S" by (simp add: menu_init_def no_menus_def at_end_def field_def rootmenu_def blank_menu_def)
  obtain S1 where s1: "menu_add_entry None ?S = Inr S1" using untitled_entry by blast
  obtain S2 where s2: "titled ''one'' S1 = Inr S2" using titled_works by blast
  have p: "parsed [Config None (titled ''one'')] ?S S2"
    by (rule parse_parsed [OF _ e]) (auto simp: s1 s2 menu_end_entry_def dest: titled_place)
  have e2: "at_end S2" and c2: "current_menu S2 = 0"
    using p by (simp_all add: parsed_def menu_init_def rootmenu_def)
  obtain S3 where s3: "menu_add_entry None S2 = Inr S3" using untitled_entry by blast
  note a3 = add_entry [OF s3 e2]
  obtain S4 where s4: "titled ''two'' S3 = Inr S4" using titled_works by blast
  have pl: "same_place S3 S4" by (rule titled_place [OF s4])
  let ?S5 = "menu_add_menu S4"
  have e5: "at_end ?S5" and c5: "current_menu ?S5 = menu_count S2" and n5: "menu_count ?S5 = menu_count S2 + 1"
    and p5: "parent_menu (menu_at ?S5 (menu_count S2)) = Some 0" and l5: "last_entry_ptr ?S5 = ListOf (menu_count S2)"
    using pl a3 c2 by (simp_all add: menu_add_menu_def menu_end_entry_def at_end_def field_def same_place_def same_links_def)
  obtain S6 where s6: "menu_add_entry None ?S5 = Inr S6" using untitled_entry by blast
  obtain S7 where s7: "titled ''three'' S6 = Inr S7" using titled_works by blast
  have p7: "parsed [Config None (titled ''three'')] ?S5 S7"
    by (rule parse_parsed [OF _ e5]) (auto simp: s6 s7 menu_end_entry_def dest: titled_place)
  have "current_menu S7 = menu_count S2" "parent_menu (menu_at S7 (menu_count S2)) = Some 0"
    using p7 c5 n5 p5 by (simp_all add: parsed_def same_below_def)
  then have "\<exists>S8. menu_end_menu S7 = Inr S8" by (simp add: menu_end_menu_def)
  then show ?thesis
    by (auto simp: three_statements_def s1 s2 s3 s4 s6 s7 menu_end_entry_def)
qed

lemma parser_builds_tree_witness:
  "\<exists>S'. parse_statements three_statements (menu_init no_menus) = Inr S' \<and>
     menu_tree S' [Entry 1 [], Entry 2 [Entry 3 []]] \<and> menu_count S' = 4"
proof -
  obtain S' where s: "parse_statements three_statements (menu_init no_menus) = Inr S'"
    using three_statements_parsed by blast
  have t: "menu_tree S' (numbered 1 three_statements) \<and> preorder (numbered 1 three_statements) = [1..<menu_count S']"
    by (rule parser_builds_tree [OF three_statements_ok _ _ s]) (simp_all add: no_menus_def)
  have n: "numbered 1 three_statements = [Entry 1 [], Entry 2 [Entry 3 []]]"
    by (simp add: three_statements_def numeral_eq_Suc)
  have "preorder [Entry 1 [], Entry 2 [Entry 3 []]] = [1..<menu_count S']" using conjunct2 [OF t] unfolding n .
  then have "length [1..<menu_count S'] = length [1, 2, 3::nat]" by (metis append_Nil append_Nil2 preorder.simps append_Cons)
  then have "menu_count S' = 4" by simp
  then show ?thesis using s t n by metis
qed

text \<open>
  C39: The configuration is written in the order of the menus. The walks of \<open>conf_write\<close> and
  \<open>conf_write_defconfig\<close> over the pointers end; they visit every entry of the tree of menus once, an entry before
  those below it and these before what follows it, and stop at the first fault.
\<close>
theorem config_written_in_menu_order:
  assumes "menu_tree S ts"
  shows "walk_all (write_entry h calc fuel) S out = visit_all (write_entry h calc fuel) (preorder ts) S out \<and>
    walk_all (write_defconfig_entry h calc fuel) S out = visit_all (write_defconfig_entry h calc fuel) (preorder ts) S out"
  using walk_tree [OF write_entry_keeps assms] walk_tree [OF write_defconfig_entry_keeps assms] by blast

lemma config_written_in_menu_order_witness:
  "\<exists>S. menu_tree S [Entry 1 [], Entry 2 [Entry 3 []]] \<and>
     walk_all (write_entry (one_file '''') (\<lambda>s K. Inr K) 9) S '''' =
       visit_all (write_entry (one_file '''') (\<lambda>s K. Inr K) 9) [1, 2, 3] S ''''"
proof -
  obtain S where s: "parse_statements three_statements (menu_init no_menus) = Inr S"
    using three_statements_parsed by blast
  have p: "parsed three_statements (menu_init no_menus) S"
    by (rule parse_parsed [OF three_statements_ok _ s])
      (simp add: menu_init_def no_menus_def at_end_def field_def rootmenu_def blank_menu_def)
  have t: "menu_tree S [Entry 1 [], Entry 2 [Entry 3 []]]"
    using p by (simp add: parsed_def menu_tree_def menu_init_def no_menus_def field_def same_below_def rootmenu_def
        three_statements_def blank_menu_def numeral_eq_Suc)
  show ?thesis
    using config_written_in_menu_order [OF t, of "one_file ''''" "\<lambda>s K. Inr K" 9 "''''"] t by auto
qed

end
