(* ===== verification/ConfNew.thy ===== *)
theory ConfNew
  imports ConfWrite Menu
begin

text \<open>
  \<open>conf_set_all_new_symbols\<close> of \<open>kconfig/confdata.c\<close>: values for the symbols the user has not set, all \<open>y\<close>, all \<open>m\<close>,
  all \<open>n\<close> or at random. \<open>rand n\<close> is the result of the \<open>n\<close>-th call of \<open>rand\<close>; the number of calls made is
  carried along. \<open>None\<close> is \<open>exit(1)\<close>.
\<close>

datatype conf_def_mode = def_default | def_yes | def_mod | def_no | def_random

section \<open>The probabilities\<close>

text \<open>\<open>strtol\<close> in base 10, with the end of what it reads; the result is cut to an \<open>int\<close>.\<close>

definition strtol_int :: "string \<Rightarrow> int \<times> string" where
  "strtol_int str =
     (let r = dropWhile isspace str;
          r = (if r \<noteq> [] \<and> (hd r = CHR ''-'' \<or> hd r = CHR ''+'') then tl r else r)
      in (sint (word_of_int (strtoll 10 str) :: 32 word),
          if r \<noteq> [] \<and> isdigit (hd r) then dropWhile isdigit r else str))"

text \<open>At most three numbers, separated by colons.\<close>

fun parse_probability :: "nat \<Rightarrow> string \<Rightarrow> int list option" where
  "parse_probability 0 env = Some []"
| "parse_probability (Suc n) env =
     (if env = [] then Some []
      else
        let (tmp, endp) = strtol_int env in
        if 0 \<le> tmp \<and> tmp \<le> 100 then
          map_option (Cons tmp) (parse_probability n (if endp \<noteq> [] \<and> hd endp = CHR '':'' then tl endp else endp))
        else None)"

text \<open>The probabilities of a boolean \<open>y\<close>, a tristate \<open>y\<close> and a tristate \<open>m\<close>.\<close>

definition probabilities :: "host \<Rightarrow> (int \<times> int \<times> int) option" where
  "probabilities h =
     (case parse_probability 3 (case getenv h ''KCONFIG_PROBABILITY'' of None \<Rightarrow> '''' | Some e \<Rightarrow> e) of
        None \<Rightarrow> None
      | Some p \<Rightarrow>
          let (pby, pty, ptm) =
                (case p of
                   [a] \<Rightarrow> (a, a - a div 2, a div 2)
                 | [a, b] \<Rightarrow> (a + b, a, b)
                 | [a, b, c] \<Rightarrow> (a, b, c)
                 | _ \<Rightarrow> (50, 33, 33))
          in if pty + ptm > 100 then None else Some (pby, pty, ptm))"

section \<open>A value for a symbol\<close>

definition random_value :: "int \<times> int \<times> int \<Rightarrow> symbol_type \<Rightarrow> int \<Rightarrow> tristate" where
  "random_value prob type cnt =
     (let (pby, pty, ptm) = prob in
      if type = S_TRISTATE then (if cnt < pty then yes else if cnt < pty + ptm then tri_mod else no)
      else if cnt < pby then yes else no)"

text \<open>The new value, the number of random numbers used; \<open>None\<close> for the mode that leaves symbols alone.\<close>

definition mode_value :: "(nat \<Rightarrow> nat) \<Rightarrow> int \<times> int \<times> int \<Rightarrow> conf_def_mode \<Rightarrow> symbol \<Rightarrow> nat \<Rightarrow> (tristate \<times> nat) option" where
  "mode_value rand prob mode y n =
     (case mode of
        def_yes \<Rightarrow> Some (yes, n)
      | def_mod \<Rightarrow> Some (tri_mod, n)
      | def_no \<Rightarrow> Some (if has_flag SYMBOL_ALLNOCONFIG_Y y then yes else no, n)
      | def_random \<Rightarrow> Some (random_value prob (s_type y) (int (rand n mod 100)), n + 1)
      | def_default \<Rightarrow> None)"

text \<open>One turn of the first loop: has a symbol been seen, the random numbers used, the table.\<close>

definition set_new_symbol ::
    "(nat \<Rightarrow> nat) \<Rightarrow> int \<times> int \<times> int \<Rightarrow> conf_def_mode \<Rightarrow> sym \<Rightarrow> bool \<times> nat \<times> kconfig \<Rightarrow> bool \<times> nat \<times> kconfig" where
  "set_new_symbol rand prob mode s = (\<lambda>(has_changed, n, K).
     let y = sym_at K s; type = sym_get_type K s in
     if sym_has_value y \<or> has_flag SYMBOL_VALID y then (has_changed, n, K)
     else if type \<noteq> S_BOOLEAN \<and> type \<noteq> S_TRISTATE then (has_changed, n, K)
     else
       case mode_value rand prob mode y n of
         None \<Rightarrow> (True, n, K)
       | Some (t, n) \<Rightarrow>
           let K = upd_symbol s (set_user_tri t) K
           in (True, n, if \<not> (sym_is_choice y \<and> mode = def_random) then upd_symbol s (set_flag SYMBOL_DEF_USER) K else K))"

section \<open>Choices\<close>

text \<open>One member of the choice becomes \<open>y\<close>, the others \<open>n\<close>.\<close>

fun give_members :: "sym \<Rightarrow> nat \<Rightarrow> nat \<Rightarrow> sym list \<Rightarrow> kconfig \<Rightarrow> kconfig" where
  "give_members cs chosen cnt [] K = K"
| "give_members cs chosen cnt (s # ss) K =
     (let K = (if chosen = cnt then upd_symbol cs (set_user_val (SymVal s)) (upd_symbol s (set_user_tri yes) K)
               else upd_symbol s (set_user_tri no) K);
          K = upd_symbol s (clear_flag SYMBOL_VALID) (upd_symbol s (set_flag SYMBOL_DEF_USER) K)
      in give_members cs chosen (cnt + 1) ss K)"

definition randomize_choice_values :: "(nat \<Rightarrow> nat) \<Rightarrow> sym \<Rightarrow> nat \<Rightarrow> kconfig \<Rightarrow> (bool \<times> nat \<times> kconfig) result" where
  "randomize_choice_values rand cs n K =
     (if sv_tri (s_curr (sym_at K cs)) \<noteq> yes then Inr (False, n, K)
      else
        bindE (choice_symbols K cs) (\<lambda>ss.
        if ss = [] then Inl DivideByZero
        else
          let K = give_members cs (rand n mod length ss) 0 ss K;
              K = upd_symbol cs (clear_flag SYMBOL_VALID) (upd_symbol cs (set_flag SYMBOL_DEF_USER) K)
          in Inr (True, n + 1, K)))"

text \<open>One turn of the last loop; \<open>has_changed\<close> is what the last choice says.\<close>

definition set_new_choice ::
    "(nat \<Rightarrow> nat) \<Rightarrow> calc \<Rightarrow> conf_def_mode \<Rightarrow> sym \<Rightarrow> bool \<times> nat \<times> kconfig \<Rightarrow> (bool \<times> nat \<times> kconfig) result" where
  "set_new_choice rand calc mode cs = (\<lambda>(has_changed, n, K).
     if sym_has_value (sym_at K cs) \<or> \<not> sym_is_choice (sym_at K cs) then Inr (has_changed, n, K)
     else
       bindE (calc cs K) (\<lambda>K.
       if mode = def_random then randomize_choice_values rand cs n K
       else bindE (set_all_choice_values cs K) (\<lambda>K. Inr (True, n, K))))"

fun set_new_choices ::
    "(nat \<Rightarrow> nat) \<Rightarrow> calc \<Rightarrow> conf_def_mode \<Rightarrow> sym list \<Rightarrow> bool \<times> nat \<times> kconfig \<Rightarrow> (bool \<times> nat \<times> kconfig) result" where
  "set_new_choices rand calc mode [] X = Inr X"
| "set_new_choices rand calc mode (cs # ss) X = bindE (set_new_choice rand calc mode cs X) (set_new_choices rand calc mode ss)"

definition mark_choice :: "sym \<Rightarrow> kconfig \<Rightarrow> kconfig" where
  "mark_choice s K =
     (if sym_is_choice (sym_at K s) \<and> \<not> sym_has_value (sym_at K s) \<or> sym_is_choice_value (sym_at K s)
      then upd_symbol s (set_flag SYMBOL_NEED_SET_CHOICE_VALUES) K else K)"

definition conf_set_all_new_symbols ::
    "host \<Rightarrow> (nat \<Rightarrow> nat) \<Rightarrow> calc \<Rightarrow> conf_def_mode \<Rightarrow> kconfig \<Rightarrow> (bool \<times> kconfig) option result" where
  "conf_set_all_new_symbols h rand calc mode K =
     (case (if mode = def_random then probabilities h else Some (50, 33, 33)) of
        None \<Rightarrow> Inr None
      | Some prob \<Rightarrow>
          let (has_changed, n, K) = fold (set_new_symbol rand prob mode) (all_symbols K) (False, 0, K) in
          bindE (sym_clear_all_valid calc K) (\<lambda>K.
          let K = (if mode \<noteq> def_random then fold mark_choice (all_symbols K) K else K) in
          bindE (set_new_choices rand calc mode (all_symbols K) (has_changed, n, K)) (\<lambda>(has_changed, n, K).
          Inr (Some (has_changed, K)))))"

end
