(* ===== verification/MenuHelp.thy ===== *)
theory MenuHelp
  imports Menu Util
begin

text \<open>
  \<open>kconfig/menu.c\<close>: the texts that the user interfaces show for an entry or a symbol. \<open>gettext\<close> returns the text it
  is given. \<open>calc\<close> is \<open>sym_calc_value\<close>, and \<open>fuel\<close> bounds the recursion of \<open>menu_is_visible\<close>.
\<close>

section \<open>Prompts\<close>

text \<open>The positions the user can jump to, the last added at the end.\<close>

record jump_key =
  jk_offset :: nat
  jk_target :: nat
  jk_index :: int

text \<open>
  The menus above an entry, at most eight, the innermost first, and the innermost one that is accessible.
\<close>

fun submenus ::
    "calc \<Rightarrow> nat \<Rightarrow> nat \<Rightarrow> nat option \<Rightarrow> nat option \<Rightarrow> menus \<Rightarrow> (nat list \<times> nat option \<times> menus) result" where
  "submenus calc fuel 0 m location S = Inr ([], location, S)"
| "submenus calc fuel (Suc n) m location S =
     (if m = Some rootmenu then Inr ([], location, S)
      else
        bindE (deref m) (\<lambda>x.
        bindE (menu_is_visible calc fuel x S) (\<lambda>(accessible, S).
        bindE (submenus calc fuel n (parent_menu (menu_at S x)) (if location = None \<and> accessible then Some x else location) S)
          (\<lambda>(ms, location, S). Inr (x # ms, location, S)))))"

definition JUMP_MENUS :: nat where "JUMP_MENUS = 8"

definition jump_to ::
    "calc \<Rightarrow> nat \<Rightarrow> nat \<Rightarrow> jump_key list option \<Rightarrow> nat option \<Rightarrow> menus \<Rightarrow> (jump_key list option \<times> bool \<times> menus) result" where
  "jump_to calc fuel m head location S =
     (case (head, location) of
        (Some keys, Some loc) \<Rightarrow>
          bindE (menu_is_visible calc fuel m S) (\<lambda>(vis, S).
          let jump = \<lparr>jk_offset = 0, jk_target = (if vis then m else loc),
                      jk_index = (if keys = [] then 0 else jk_index (last keys) + 1)\<rparr>
          in Inr (Some (keys @ [jump]), True, S))
      | _ \<Rightarrow> Inr (head, False, S))"

definition set_offset :: "nat \<Rightarrow> jump_key list option \<Rightarrow> jump_key list option" where
  "set_offset off head = map_option (\<lambda>keys. butlast keys @ [(last keys)\<lparr>jk_offset := off\<rparr>]) head"

text \<open>The line of one menu, indented by \<open>j\<close> blanks.\<close>

definition location_line :: "host \<Rightarrow> calc \<Rightarrow> nat \<Rightarrow> nat \<Rightarrow> gstr \<Rightarrow> menus \<Rightarrow> (gstr \<times> menus) result" where
  "location_line h calc j m gs S =
     bindE (deref (menu_get_prompt S m)) (\<lambda>t.
     bindE (str_printf h (replicate j (CHR 0x20) @ ''-> '' @ t) gs) (\<lambda>gs.
     bindE (case menu_sym (menu_at S m) of
              None \<Rightarrow> Inr (gs, S)
            | Some s \<Rightarrow>
                bindE (lift_tab (get_string_value calc s (tab S)) S) (\<lambda>(v, S).
                bindE (c_string v) (\<lambda>x.
                bindE (str_printf h ('' ('' @ (case s_name (sym_at (tab S) s) of None \<Rightarrow> ''<choice>'' | Some nm \<Rightarrow> nm) @
                         '' [='' @ x @ ''])'') gs) (\<lambda>gs. Inr (gs, S))))) (\<lambda>(gs, S).
     bindE (str_append h (Some newline) gs) (\<lambda>gs. Inr (gs, S)))))"

fun location_lines ::
    "host \<Rightarrow> calc \<Rightarrow> nat \<Rightarrow> nat option \<Rightarrow> nat list \<Rightarrow> jump_key list option \<Rightarrow> gstr \<Rightarrow> menus \<Rightarrow>
     (jump_key list option \<times> gstr \<times> menus) result" where
  "location_lines h calc j target [] head gs S = Inr (head, gs, S)"
| "location_lines h calc j target (m # ms) head gs S =
     bindE (if target = Some m then bindE (deref (gs_s gs)) (\<lambda>s. Inr (set_offset (length s) head)) else Inr head)
       (\<lambda>head.
     bindE (location_line h calc j m gs S) (\<lambda>(gs, S). location_lines h calc (j + 2) target ms head gs S))"

definition get_prompt_str ::
    "host \<Rightarrow> calc \<Rightarrow> nat \<Rightarrow> property \<Rightarrow> jump_key list option \<Rightarrow> gstr \<Rightarrow> menus \<Rightarrow>
     (jump_key list option \<times> gstr \<times> menus) result" where
  "get_prompt_str h calc fuel prop head gs S =
     bindE (deref (p_text prop)) (\<lambda>t.
     bindE (str_printf h (''Prompt: '' @ t @ newline) gs) (\<lambda>gs.
     bindE (deref (p_menu prop)) (\<lambda>m.
     bindE (submenus calc fuel JUMP_MENUS (parent_menu (menu_at S m)) None S) (\<lambda>(ms, location, S).
     bindE (jump_to calc fuel m head location S) (\<lambda>(head, jump, S).
     if ms = [] then Inr (head, gs, S)
     else
       bindE (str_printf h (''  Location:'' @ newline) gs) (\<lambda>gs.
       location_lines h calc 4 (if jump then location else None) (rev ms) head gs S))))))"

section \<open>Symbols\<close>

definition get_symbol_prop :: "symbol \<Rightarrow> property option" where
  "get_symbol_prop y = find (\<lambda>p. p_type p = P_SYMBOL) (s_prop y)"

definition print_in :: "host \<Rightarrow> calc \<Rightarrow> prop_expr option \<Rightarrow> gstr \<Rightarrow> menus \<Rightarrow> (gstr \<times> menus) result" where
  "print_in h calc e gs S = lift_tab (expr_gstr_print h calc e gs (tab S)) S"

text \<open>A label, an expression and what closes the line.\<close>

definition labelled :: "host \<Rightarrow> calc \<Rightarrow> string \<Rightarrow> prop_expr option \<Rightarrow> gstr \<Rightarrow> menus \<Rightarrow> (gstr \<times> menus) result" where
  "labelled h calc label e gs S =
     bindE (str_append h (Some label) gs) (\<lambda>gs.
     bindE (print_in h calc e gs S) (\<lambda>(gs, S).
     bindE (str_append h (Some newline) gs) (\<lambda>gs. Inr (gs, S))))"

text \<open>Name, value, type and range.\<close>

definition symbol_head :: "host \<Rightarrow> calc \<Rightarrow> sym \<Rightarrow> gstr \<Rightarrow> menus \<Rightarrow> (gstr \<times> menus) result" where
  "symbol_head h calc s gs S =
     (case s_name (sym_at (tab S) s) of
        None \<Rightarrow> Inr (gs, S)
      | Some nm \<Rightarrow>
          bindE (lift_tab (get_string_value calc s (tab S)) S) (\<lambda>(v, S).
          bindE (c_string v) (\<lambda>x.
          let type = s_type (sym_at (tab S) s) in
          bindE (str_printf h (''Symbol: '' @ nm @ '' [='' @ x @ '']'' @ newline) gs) (\<lambda>gs.
          bindE (str_printf h (''Type  : '' @ sym_type_name type @ newline) gs) (\<lambda>gs.
          if type = S_INT \<or> type = S_HEX then
            bindE (lift_tab (sym_get_range_prop calc s (tab S)) S) (\<lambda>(i, S).
            case i of
              None \<Rightarrow> Inr (gs, S)
            | Some i \<Rightarrow> labelled h calc ''Range : '' (p_expr (prop_at (tab S) s i)) gs S)
          else Inr (gs, S))))))"

fun prompt_strs ::
    "host \<Rightarrow> calc \<Rightarrow> nat \<Rightarrow> sym \<Rightarrow> nat list \<Rightarrow> jump_key list option \<Rightarrow> gstr \<Rightarrow> menus \<Rightarrow>
     (jump_key list option \<times> gstr \<times> menus) result" where
  "prompt_strs h calc fuel s [] head gs S = Inr (head, gs, S)"
| "prompt_strs h calc fuel s (i # js) head gs S =
     (if p_text (prop_at (tab S) s i) = None then prompt_strs h calc fuel s js head gs S
      else bindE (get_prompt_str h calc fuel (prop_at (tab S) s i) head gs S) (\<lambda>(head, gs, S).
           prompt_strs h calc fuel s js head gs S))"

definition defined_at :: "host \<Rightarrow> calc \<Rightarrow> sym \<Rightarrow> gstr \<Rightarrow> menus \<Rightarrow> (gstr \<times> menus) result" where
  "defined_at h calc s gs S =
     (case get_symbol_prop (sym_at (tab S) s) of
        None \<Rightarrow> Inr (gs, S)
      | Some prop \<Rightarrow>
          bindE (deref (p_menu prop)) (\<lambda>m.
          let pos = menu_pos (tab S) m in
          bindE (str_printf h (''  Defined at '' @ fst pos @ '':'' @ lld (snd pos) @ newline) gs) (\<lambda>gs.
          if expr_is_yes (ev_expr (p_visible prop)) then Inr (gs, S)
          else labelled h calc ''  Depends on: '' (map_option DepE (ev_expr (p_visible prop))) gs S)))"

fun selects :: "host \<Rightarrow> calc \<Rightarrow> property list \<Rightarrow> bool \<Rightarrow> gstr \<Rightarrow> menus \<Rightarrow> (bool \<times> gstr \<times> menus) result" where
  "selects h calc [] hit gs S = Inr (hit, gs, S)"
| "selects h calc (p # ps) hit gs S =
     bindE (if hit then str_printf h '' && '' gs else str_append h (Some ''  Selects: '') gs) (\<lambda>gs.
     bindE (print_in h calc (p_expr p) gs S) (\<lambda>(gs, S). selects h calc ps True gs S))"

definition get_symbol_str ::
    "host \<Rightarrow> calc \<Rightarrow> nat \<Rightarrow> sym \<Rightarrow> jump_key list option \<Rightarrow> gstr \<Rightarrow> menus \<Rightarrow>
     (jump_key list option \<times> gstr \<times> menus) result" where
  "get_symbol_str h calc fuel s head gs S =
     bindE (symbol_head h calc s gs S) (\<lambda>(gs, S).
     bindE (prompt_strs h calc fuel s (prop_positions (tab S) s) head gs S) (\<lambda>(head, gs, S).
     bindE (defined_at h calc s gs S) (\<lambda>(gs, S).
     bindE (selects h calc (filter (\<lambda>p. p_type p = P_SELECT) (s_prop (sym_at (tab S) s))) False gs S) (\<lambda>(hit, gs, S).
     bindE (if hit then str_append h (Some newline) gs else Inr gs) (\<lambda>gs.
     bindE (case ev_expr (s_rev_dep (sym_at (tab S) s)) of
              None \<Rightarrow> Inr (gs, S)
            | Some e \<Rightarrow> labelled h calc ''  Selected by: '' (Some (DepE e)) gs S) (\<lambda>(gs, S).
     bindE (str_append h (Some (newline @ newline)) gs) (\<lambda>gs. Inr (head, gs, S))))))))"

fun symbol_strs ::
    "host \<Rightarrow> calc \<Rightarrow> nat \<Rightarrow> sym list \<Rightarrow> jump_key list option \<Rightarrow> gstr \<Rightarrow> menus \<Rightarrow>
     (jump_key list option \<times> gstr \<times> menus) result" where
  "symbol_strs h calc fuel [] head gs S = Inr (head, gs, S)"
| "symbol_strs h calc fuel (s # ss) head gs S =
     bindE (get_symbol_str h calc fuel s head gs S) (\<lambda>(head, gs, S). symbol_strs h calc fuel ss head gs S)"

text \<open>\<open>sym_arr\<close> is the array without the \<open>NULL\<close> that ends it, or \<open>NULL\<close> itself.\<close>

definition get_relations_str ::
    "host \<Rightarrow> calc \<Rightarrow> nat \<Rightarrow> sym list option \<Rightarrow> jump_key list option \<Rightarrow> menus \<Rightarrow>
     (jump_key list option \<times> gstr \<times> menus) result" where
  "get_relations_str h calc fuel sym_arr head S =
     (let ss = (case sym_arr of None \<Rightarrow> [] | Some ss \<Rightarrow> ss) in
      bindE (symbol_strs h calc fuel ss head str_new S) (\<lambda>(head, gs, S).
      if ss = [] then bindE (str_append h (Some (''No matches found.'' @ newline)) gs) (\<lambda>gs. Inr (head, gs, S))
      else Inr (head, gs, S)))"

definition nohelp_text :: string where
  "nohelp_text = ''There is no help available for this option.''"

definition menu_get_ext_help :: "host \<Rightarrow> calc \<Rightarrow> nat \<Rightarrow> nat \<Rightarrow> gstr \<Rightarrow> menus \<Rightarrow> (gstr \<times> menus) result" where
  "menu_get_ext_help h calc fuel m gs S =
     (let so = menu_sym (menu_at S m) in
      bindE (if menu_has_help S m then
               bindE (deref so) (\<lambda>s.
               bindE (case s_name (sym_at (tab S) s) of
                        None \<Rightarrow> Inr gs
                      | Some nm \<Rightarrow> str_printf h (CONFIG_prefix h @ nm @ '':'' @ newline @ newline) gs) (\<lambda>gs.
               Inr (menu_get_help S m, gs)))
             else Inr (nohelp_text, gs)) (\<lambda>(help_text, gs).
      bindE (str_printf h (help_text @ newline) gs) (\<lambda>gs.
      case so of
        None \<Rightarrow> Inr (gs, S)
      | Some s \<Rightarrow> bindE (get_symbol_str h calc fuel s None gs S) (\<lambda>(_, gs, S). Inr (gs, S)))))"

end
