(* ===== verification/GrowProps.thy ===== *)
theory GrowProps
  imports ConfProps Util
begin

text \<open>
  What \<open>expr_gstr_print\<close> leaves in a growing string: the text of the expression with lines broken between its parts,
  inside the allocation and inside the width asked for.
\<close>

section \<open>Lines\<close>

fun split_lines :: "string \<Rightarrow> string list" where
  "split_lines [] = [[]]"
| "split_lines (c # cs) =
     (if c = CHR 0x0A then [] # split_lines cs else (c # hd (split_lines cs)) # tl (split_lines cs))"


text \<open>The same, counting from the left; a line after the first is counted with the newline before it.\<close>

fun counted :: "nat \<Rightarrow> string \<Rightarrow> nat" where
  "counted n [] = n"
| "counted n (c # cs) = (if c = CHR 0x0A then counted 1 cs else counted (n + 1) cs)"


lemma split_lines_not_Nil [simp]: "split_lines s \<noteq> []"
  by (cases s) auto



lemma counted_append [simp]: "counted n (a @ b) = counted (counted n a) b"
  by (induction a arbitrary: n) auto







section \<open>Room\<close>


section \<open>Parts\<close>











section \<open>The property\<close>



end
