(* ===== verification/Spec2Isabelle.thy ===== *)
theory Spec2Isabelle
  imports Prelude CList X86 PortIO PlatformTimer KState KView RunQueue KTimer WaitQueue CString
    Context Thread Invariant Services Lifecycle Kernel System Printf Format Console Interrupt
    Kconfig Expr ExprJoin ExprValue ExprDups ExprCancel ExprProps
    Symbol SymTable SymCalc SymStep SymWarn SymRun SymEval SymTotal SymVisible SymChoice SymBody SymCorrect SymMain SymProps SymSet SymEdit SymDeps SymCheck
    ConfLine ConfRead ConfWrite ConfBack ConfProps Menu MenuFinal ConfMenu MenuWalk MenuTree MenuProps ConfNew
    Util MenuHelp GrowProps
begin

text \<open>
  A verification library for chinix, a small kernel for one x86-64 processor, and for the core of the
  configuration tool that is kept with it under \<open>kconfig/\<close>.

  The program. \<open>init/main.c\<close> starts the kernel: \<open>start_kernel\<close> sets up the lists of the scheduler and the timers,
  creates the init thread and makes the boot thread the idle thread. From then on the program is driven by calls
  of the thread services (\<open>kernel/thread.c\<close>) and by interrupts (\<open>arch/x64/exception.c\<close>,
  \<open>driver/interrupt/interrupt.c\<close>); the interrupt of the interval timer (\<open>driver/timer/platform_timer.c\<close>) runs
  \<open>timer_tick\<close> of \<open>kernel/timer.c\<close>. Threads wait in the queues of \<open>kernel/wait_queue.c\<close>. All queues are the
  intrusive lists of \<open>include/list.h\<close>. Output goes through \<open>libc/printf.c\<close> and \<open>libc/stdio.c\<close> to the screen and
  the serial line (\<open>driver/console/console.c\<close>, \<open>driver/uart/uart.c\<close>). The configuration tool keeps a table of
  symbols (\<open>symbol.c\<close>) whose dependencies are expressions (\<open>expr.c\<close>), calculates their values on demand, arranges
  them in menus (\<open>menu.c\<close>), and reads and writes the file \<open>.config\<close> (\<open>confdata.c\<close>).

  Conventions. A statement that can go wrong is a value \<open>Inl f\<close>, where \<open>f\<close> is the fault, or \<open>Inr x\<close> (\<open>Prelude\<close>):
  null pointers, indices out of an array, failed assertions and the other undefined behaviours of C are branches
  of the model. Machine integers are words of the width of the source. A definition is called like the C function,
  type or macro it models. What is not in the repository (the devices behind the ports, the caller of a service,
  \<open>uname\<close>, the environment, files, regular expressions, \<open>rand\<close>) is an argument of the definitions that use it.

  The kernel.
  \<^item> \<open>CList\<close>: \<open>list.h\<close> as writes to a memory of nodes; \<open>lists_ok\<close> relates the memory to the lists it holds. \<open>X86\<close>:
    the flags register and the spin locks; the locale \<open>critical_section\<close>. \<open>PortIO\<close>: port access and the uart.
    \<open>PlatformTimer\<close>: the fixed-point clock. \<open>CString\<close>: \<open>string.c\<close> on byte memory.
  \<^item> \<open>KState\<close>: the state of the kernel, one record with the fields of the static variables. \<open>KView\<close>: the state seen
    as a set of queues. \<open>RunQueue\<close>, \<open>Thread\<close>: \<open>thread.c\<close>. \<open>KTimer\<close>: \<open>timer.c\<close>. \<open>WaitQueue\<close>: \<open>wait_queue.c\<close>.
    \<open>Context\<close>: the first frame of a thread and \<open>x64_context_switch.S\<close>.
  \<^item> A service that gives up the processor is modelled up to the switch; what is left of its body is pushed on the
    list \<open>pending\<close> of its thread, and \<open>resume\<close> runs that list for the thread the processor has been given to. A step
    of the system (\<open>System.kstep\<close>) is a service call or a timer interrupt, run until some thread's own code
    continues. The property \<open>no_run_faults\<close> is about all sequences of such steps.
  \<^item> \<open>Invariant\<close> states what holds between steps; \<open>Lifecycle\<close>, \<open>Services\<close> and \<open>Kernel\<close> show that each service and the
    timer interrupt keep it and do not fault; \<open>System\<close> establishes it at start-up and extends it to all reachable
    states. The properties of this theory read off what it says.
  \<^item> \<open>Printf\<close>, \<open>Format\<close>, \<open>Console\<close>: the format interpreter over a driver, what it prints and returns, and the
    console. The locale \<open>output_invariant\<close> carries an invariant of the output through the interpreter.
  \<^item> \<open>Interrupt\<close>: the interrupt controllers, the table of handlers, the entry point of exceptions.

  The expressions and symbols of the configuration tool.
  \<^item> \<open>Kconfig\<close>: the data. \<open>Expr\<close>, \<open>ExprJoin\<close>: the functions of \<open>expr.c\<close>. \<open>ExprValue\<close>, \<open>ExprDups\<close>, \<open>ExprCancel\<close>: each
    rewriting keeps the value of the expression or is shown not to (\<open>ExprProps\<close>). The loop of \<open>expr_eliminate_dups\<close> is
    given the fuel \<open>dups_fuel e = (size_e e + 1)\<^sup>2\<close>; every round makes the expression smaller.
  \<^item> \<open>Symbol\<close>: the hash table and the string functions; \<open>SymTable\<close> shows that names are interned. \<open>SymCalc\<close>:
    \<open>sym_calc_value\<close> and what it calls; its recursion through the table is bounded by a depth, and the theories
    \<open>SymStep\<close> to \<open>SymMain\<close> show that three times the number of symbols plus one is enough on every table whose
    dependencies are ranked. \<open>SymProps\<close>: what the calculated values are.
  \<^item> \<open>SymSet\<close>, \<open>SymEdit\<close>: setting, searching and expanding. \<open>SymDeps\<close>, \<open>SymCheck\<close>: the search for recursive
    dependencies; a depth above the number of symbols is enough, because no symbol is entered twice.

  The configuration files.
  \<^item> \<open>ConfLine\<close>: the lines of a file, in the growing buffer of \<open>compat_getline\<close>, and the value a line gives to a
    symbol. The record \<open>host\<close> collects what the system provides: the environment, the files, the bytes a fresh
    allocation holds. \<open>ConfRead\<close>: \<open>conf_read_simple\<close> and \<open>conf_read\<close>. \<open>Util\<close>: \<open>util.c\<close>, the dependency file, growing
    strings and what \<open>expr_gstr_print\<close> does to them; \<open>GrowProps\<close>: that it keeps inside their allocation and width.
    \<open>ConfWrite\<close>: the printers, \<open>conf_write_autoconf\<close> and the files under \<open>include/config\<close>; the system calls are a
    list of \<open>sys_call\<close>.
  \<^item> \<open>ConfBack\<close>, \<open>ConfProps\<close>: what the writer prints, the reader reads back, whatever its buffer held before.
  \<^item> \<open>ConfMenu\<close>: \<open>conf_write\<close> and \<open>conf_write_defconfig\<close>, in the order of the menus. \<open>ConfNew\<close>:
    \<open>conf_set_all_new_symbols\<close>.

  The menus.
  \<^item> \<open>Menu\<close>, \<open>MenuFinal\<close>: \<open>menu.c\<close>, a table of records linked by numbers. \<open>menu_finalize\<close> and \<open>menu_is_visible\<close>
    follow pointers and take a bound on the depth of their recursion; when it is used up the fault is \<open>Diverges\<close>.
    \<open>MenuHelp\<close>: the texts of the help pages.
  \<^item> \<open>MenuTree\<close>: the parser's blocks build a tree. \<open>MenuWalk\<close>: the walk of \<open>conf_write\<close> visits that tree in preorder and
    ends within \<open>menu_count\<close> steps. \<open>MenuProps\<close>: together, that the symbols are written in the order of the menus.

  Bounds. The properties of the scheduler are proved for the number of threads that \<open>kernel/thread.c\<close> and
  \<open>kernel/Kconfig\<close> give by default, \<open>MAX_THREADS_NUM = 10\<close>, and its 32 priorities. Loops over lists run over the
  list that the memory holds; loops that end at a terminator are partial functions.

  Not modelled. \<open>boot/\<close>: the assembly that enters 64-bit mode and the descriptor tables, which run before the
  first C function and set up the machine the model starts from. \<open>arch/x64/arch.c\<close> and \<open>mmu.c\<close>: the boot stack and
  the page tables, data without code. The user interfaces of the configuration tool (\<open>conf.c\<close>, \<open>mconf.c\<close>,
  \<open>nconf.c\<close>, \<open>gconf.c\<close>, \<open>qconf.cc\<close>, \<open>lxdialog/\<close>): dialogs over the terminal, curses, GTK and Qt that call the
  operations modelled here. Its parser (\<open>zconf.y\<close>, \<open>zconf.l\<close> and what is generated from them), of which only the
  order of the calls into \<open>menu.c\<close> appears, and \<open>kxgettext.c\<close>, which extracts texts for translation.
\<close>

section \<open>A concrete machine\<close>

text \<open>The machine right after loading, with debug assertions on; the properties are applied to it below.\<close>

definition blank_machine :: kstate where
  "blank_machine = \<lparr>CONFIG_DEBUG_ASSERT = True, nodes = \<lambda>_. \<lparr>nd_prev = None, nd_next = None\<rparr>,
     g_threads = \<lambda>_. zero_thread, timers = \<lambda>_. TIMER_INITIAL_VALUE, wq_count = \<lambda>_. 0,
     run_queue_bitmap = 0, current_thread = None, thread_preempt_lock = 0, thread_lock = 0, timer_lock = 0,
     rflags = 2, rax = 0, int_cells = \<lambda>_. 0, mem = \<lambda>_. 0, pending = \<lambda>_. [],
     ptimer = \<lparr>t_callback = None, callback_arg = None, next_trigger_time = 0, next_trigger_delta = 0,
       ticks_per_ms = 0, timer_delta_time = 0, timer_current_time = 0, divisor = 0\<rparr>,
     initial_thread_func_addr = 0x100000, g_threads_addr = 0x200000\<rparr>"

lemma blank_loaded: "loaded blank_machine"
  by (simp add: blank_machine_def loaded_def cleared_def arch_ints_disabled_iff)

definition first_state :: "kstate result" where
  "first_state = start_kernel [] 1 0x300000 4096 blank_machine"

lemma first_state_ok: "\<exists>s. first_state = Inr s \<and> reachable s \<and> kgood s \<and> current_thread s = Some 1"
proof -
  from start_kernel_kgood [OF blank_loaded, of 1 "[]" "0x300000" 4096] obtain s where
    s: "first_state = Inr s" "kgood s" "current_thread s = Some 1" by (auto simp: first_state_def)
  have "reachable s" by (rule reachable.Boot [OF blank_loaded _ s(1) [unfolded first_state_def]]) simp
  with s show ?thesis by blast
qed

text \<open>
  A second machine: two threads of priority 10 are created and resumed during start-up. When the boot
  thread becomes idle the first of them runs and the second waits in its queue.
\<close>

lemma create_resume_at_boot:
  assumes k: "kinv False v s" and c: "current_thread s = Some 0" and f: "free_l v = t # ts" and t: "0 < t" "t < 9"
  shows "\<exists>s'. kinv False (make_ready t s' (adopted t v)) s' \<and> current_thread s' = Some 0 \<and> prio_of s' t = 10 \<and>
           (\<forall>x. x \<noteq> t \<longrightarrow> prio_of s' x = prio_of s x) \<and> \<not> is_detached s' t"
proof -
  from thread_create_spec [OF k f, of "[]" 10 1 0 0 0] c obtain s1 where
    s1: "kinv False (adopted t v) s1" "current_thread s1 = Some 0" "tstate s1 t = THREAD_SUSPENDED"
      "th_priority (g_threads s1 t) = 10" "\<forall>x. x \<noteq> t \<longrightarrow> g_threads s1 x = g_threads s x" "\<not> is_detached s1 t"
    by (auto simp: TREAD_NAME_LEN_def)
  from make_ready_other [OF s1(1) _ s1(3)] obtain s2 h bm where
    s2: "s2 = s1\<lparr>nodes := h, g_threads := (g_threads s1)(t := (g_threads s1 t)\<lparr>th_state := THREAD_READY\<rparr>),
           run_queue_bitmap := bm\<rparr>"
    and k2: "kinv False (make_ready t s1 (adopted t v)) s2" by auto
  have "prio_of s2 x = prio_of s1 x" for x using s2 by (simp add: prio_of_def)
  then have p: "prio_of s2 = prio_of s1" by (rule ext)
  have "kinv False (make_ready t s2 (adopted t v)) s2" using k2 by (simp add: make_ready_cong [OF p])
  moreover have "prio_of s2 t = 10" "\<forall>x. x \<noteq> t \<longrightarrow> prio_of s2 x = prio_of s x"
    using s1(4,5) by (simp_all add: p) (simp_all add: prio_of_def)
  moreover have "\<not> is_detached s2 t" using s1(6) s2 by (simp add: is_detached_def)
  ultimately show ?thesis using s1(2) s2 by (intro exI [of _ s2]) simp
qed

lemma demo_state:
  "\<exists>s v. kinv True v s \<and> top_first v s \<and> current_thread s = Some 1 \<and> runq v = (\<lambda>_. [])(10 := [2]) \<and> timer_l v = [] \<and>
     th_priority (g_threads s 1) = 10 \<and> waitq v (ExitQueue 2) = Some [] \<and> \<not> is_detached s 2"
proof -
  from kernel_init_spec [OF blank_loaded] obtain s1 where
    s1: "kinv False boot_view s1" "current_thread s1 = Some 0" by blast
  have f1: "free_l boot_view = 1 # 2 # [3..<9]"
    using upt_conv_Cons [of 1 9] upt_conv_Cons [of 2 9]
    by (simp add: boot_view_def numeral_2_eq_2 numeral_3_eq_3 del: upt_rec_numeral)
  from create_resume_at_boot [OF s1 f1] obtain s2 where
    s2: "kinv False (make_ready 1 s2 (adopted 1 boot_view)) s2" "current_thread s2 = Some 0" "prio_of s2 1 = 10" by auto
  have "free_l (make_ready 1 s2 (adopted 1 boot_view)) = 2 # [3..<9]" by (simp add: f1)
  from create_resume_at_boot [OF s2(1,2) this] obtain s3 where
    s3: "kinv False (make_ready 2 s3 (adopted 2 (make_ready 1 s2 (adopted 1 boot_view)))) s3"
      "current_thread s3 = Some 0" "prio_of s3 2 = 10" "\<forall>x. x \<noteq> 2 \<longrightarrow> prio_of s3 x = prio_of s2 x"
      "\<not> is_detached s3 2" by auto
  define w where "w = make_ready 2 s3 (adopted 2 (make_ready 1 s2 (adopted 1 boot_view)))"
  have r: "runq w = (\<lambda>_. [])(10 := [1, 2])" "timer_l w = []" "waitq w (ExitQueue 2) = Some []"
    using s2(3) s3(3) by (auto simp: boot_view_def w_def)
  have "prio_of s3 1 = 10" using s2(3) s3(4) by simp
  then have p1: "th_priority (g_threads s3 1) = 10" by (auto simp: prio_of_def)
  from thread_become_idle_spec [OF s3(1,2), folded w_def] obtain s' v' s4 where
    s': "kinv True v' s'" "gave_up 0 THREAD_READY w s4 v' s'" "\<forall>t. t \<noteq> 0 \<longrightarrow> g_threads s4 t = g_threads s3 t"
    by (elim exE conjE) (rule that)
  have "first_queue w = Some 10" by (rule first_queue_eqI) (simp_all add: r)
  then have "pick w = (1, w\<lparr>runq := (runq w)(10 := [2])\<rparr>)" by (simp add: pick_def r)
  with s' r have "current_thread s' = Some 1" "runq v' = (\<lambda>_. [])(10 := [2])" "timer_l v' = []" "top_first v' s'"
    "th_priority (g_threads s' 1) = 10" "waitq v' (ExitQueue 2) = Some []" "\<not> is_detached s' 2" using p1 s3(5)
    by (auto simp: gave_up_def is_detached_def)
  with s'(1) show ?thesis by blast
qed

text \<open>The clock and the quantum of a state can be set freely.\<close>

definition set_clock :: "64 word \<Rightarrow> tid \<Rightarrow> int \<Rightarrow> kstate \<Rightarrow> kstate" where
  "set_clock now c q s = s\<lparr>
     g_threads := (g_threads s)(c := (g_threads s c)\<lparr>th_remaining_quantum := q\<rparr>), thread_preempt_lock := 0,
     ptimer := \<lparr>t_callback = Some TimerTick, callback_arg = None, next_trigger_time = 0,
       next_trigger_delta = 0, ticks_per_ms = 0, timer_delta_time = 0,
       timer_current_time = push_bit 32 now, divisor = 0\<rparr>\<rparr>"

lemma set_clock_kinv:
  assumes k: "kinv True v s" and top: "top_first v s"
  shows "kinv True v (set_clock now c q s)" and "top_first v (set_clock now c q s)"
proof -
  let ?s = "set_clock now c q s"
  have f: "current_thread ?s = current_thread s" "thread_lock ?s = thread_lock s" "rflags ?s = rflags s"
    by (simp_all add: set_clock_def)
  have "inv b r v ?s \<longleftrightarrow> inv b r v s" for b r
    by (rule inv_same_threads) (simp_all add: set_clock_def same_thread_def)
  then show "kinv True v ?s" using k by (simp add: kinv_def f)
  have "prio_of ?s t = prio_of s t" for t by (simp add: set_clock_def prio_of_def)
  then show "top_first v ?s" using top by (simp add: top_first_def f)
qed

lemma set_clock_reads:
  "tstate (set_clock now c q s) t = tstate s t" "timers (set_clock now c q s) = timers s"
  "current_thread (set_clock now c q s) = current_thread s"
  "fst (os_timer_tick (ptimer (set_clock 5 c q s))) = Some (TimerTick, None, 5)"
  "th_priority (g_threads (set_clock now c q s) t) = th_priority (g_threads s t)"
  "current_time (ptimer (set_clock 0 c q s)) = 0"
  by (simp_all add: set_clock_def os_timer_tick_def current_time_def Let_def)

lemma set_clock_possible:
  assumes "kinv True v s" and "current_thread s = Some c" and "INT_MIN < q" and "q \<le> INT_MAX"
  shows "tick_possible (set_clock now c q s)"
  using assms by (auto simp: tick_possible_def quantum_in_range_def set_clock_def elim: kinvE)

section \<open>The kernel as a whole\<close>

text \<open>
  C1: from power-on, after \<open>start_kernel\<close>, no sequence of allowed service calls and timer
  interrupts, in whatever order they come, ends in a fault: no null pointer or wild list node is read, no index
  is out of its array, no counter overflows, no \<open>debug_assert\<close> fails, no loop runs forever, and the
  panic behind \<open>thread_exit\<close> is not reached.
\<close>

theorem no_run_faults:
  assumes "loaded s0" and "init_run \<noteq> 0" and "start_kernel io init_run stack sz s0 = Inr s"
    and "events_allowed kernel_enabled kernel_exec es s"
  shows "\<exists>s'. run_events kernel_exec es s = Inr s'"
  using kernel_machine.run_good [OF _ assms(4)] start_kernel_kgood [OF assms(1,2), of io stack sz] assms(3)
  by auto

theorem no_run_faults_witness:
  "\<exists>s. first_state = Inr s \<and> (\<exists>s'. run_events kernel_exec
     [CallEvent (Create [] 1 0 5 0x400000 4096), CallEvent Yield, CallEvent PreemptDisable, CallEvent Yield] s = Inr s')"
proof -
  from first_state_ok obtain s where s: "first_state = Inr s" by blast
  have "events_allowed kernel_enabled kernel_exec
     [CallEvent (Create [] 1 0 5 0x400000 4096), CallEvent Yield, CallEvent PreemptDisable, CallEvent Yield] s"
    by (simp add: TREAD_NAME_LEN_def split: sum.splits)
  from no_run_faults [OF blank_loaded _ s [unfolded first_state_def] this] s show ?thesis by auto
qed



text \<open>C3: in every reachable state exactly one live thread runs, and \<open>_current_thread\<close> points to it.\<close>

theorem one_thread_runs:
  assumes "reachable s"
  shows "\<exists>c. current_thread s = Some c \<and> live s c \<and> tstate s c = THREAD_RUNNING \<and>
           (\<forall>t. live s t \<longrightarrow> tstate s t = THREAD_RUNNING \<longrightarrow> t = c)"
proof -
  from reachable_kgood [OF assms] obtain v where k: "kinv True v s" by (auto simp: kgood_def)
  then obtain c where c: "current_thread s = Some c" "c \<in> set (thread_l v)" "inv True (Some c) v s"
    "tstate s c = THREAD_RUNNING" by (auto elim: kinvE)
  have "t = c" if "t \<in> set (thread_l v)" "tstate s t = THREAD_RUNNING" for t
    using thread_okD(1) [OF invD(7) [OF c(3) that(1)]] that(2) by simp
  with c live_view [OF k] show ?thesis by blast
qed

theorem one_thread_runs_witness:
  "\<exists>s. first_state = Inr s \<and> (\<exists>c. current_thread s = Some c \<and> live s c \<and> tstate s c = THREAD_RUNNING \<and>
     (\<forall>t. live s t \<longrightarrow> tstate s t = THREAD_RUNNING \<longrightarrow> t = c))"
proof -
  from first_state_ok obtain s where "first_state = Inr s" "reachable s" by blast
  with one_thread_runs [of s] show ?thesis by blast
qed







text \<open>
  C7: no sleeper is forgotten. A timer interrupt whose clock calls back at time \<open>now\<close> wakes every live
  sleeping thread whose time has come, also several at once, and no other.
\<close>

theorem tick_wakes_due_sleepers:
  assumes "kgood s" and "tick_possible s" and "fst (os_timer_tick (ptimer s)) = Some (cb, a, now)"
  shows "\<exists>s'. timer_interrupt s = Inr s' \<and>
    (\<forall>t. live s t \<longrightarrow> tstate s t = THREAD_SLEEPING \<longrightarrow>
       (if sched_time (timers s (StackTimer t)) \<le> now
        then tstate s' t = THREAD_READY \<or> tstate s' t = THREAD_RUNNING
        else tstate s' t = THREAD_SLEEPING))"
proof -
  from assms(1) obtain v where k: "kinv True v s" by (auto simp: kgood_def)
  from assms(2) obtain c where c: "current_thread s = Some c" "quantum_in_range s c"
    by (auto simp: tick_possible_def split: option.splits)
  with k have i: "inv True (Some c) v s" "tstate s c = THREAD_RUNNING" by (auto elim: kinvE)
  have d: "tick_due s v = filter (\<lambda>m. due_time s m \<le> now) (timer_l v)"
    using timer_order.due_prefix [of "due_time s" "timer_l v" now] invD(2) [OF i(1)] assms(3)
    by (simp add: tick_due_def due_def timers_ok_def)
  from timer_interrupt_spec [OF k c] obtain s' v' s1 where
    s': "timer_interrupt s = Inr s'"
    and s1: "\<forall>t. tstate s1 t = (if StackTimer t \<in> set (tick_due s v) then THREAD_READY else tstate s t)"
    and or: "if rescheduled_by_tick s v c
       then gave_up c THREAD_READY (put_back c s (wake_sleepers (tick_due s v) s v)) s1 v' s'
       else v' = v \<and> current_thread s' = Some c \<and> prio_of s' = prio_of s \<and> (\<forall>t. tstate s' t = tstate s t)"
    by auto
  have "if sched_time (timers s (StackTimer t)) \<le> now
        then tstate s' t = THREAD_READY \<or> tstate s' t = THREAD_RUNNING
        else tstate s' t = THREAD_SLEEPING"
    if t: "live s t" "tstate s t = THREAD_SLEEPING" for t
  proof -
    have tl: "t \<in> set (thread_l v)" using t(1) live_view [OF k] by simp
    note p = thread_okD(3) [OF invD(7) [OF i(1) tl]]
    have tc: "t \<noteq> c" "t \<noteq> 0" using t(2) i(2) invD(7) [OF i(1) tl] by (auto simp: thread_ok_def)
    have due: "StackTimer t \<in> set (tick_due s v) \<longleftrightarrow> sched_time (timers s (StackTimer t)) \<le> now"
      using p t(2) by (simp add: d due_time_def placed_def)
    show ?thesis
    proof (cases "rescheduled_by_tick s v c")
      case True
      let ?w = "put_back c s (wake_sleepers (tick_due s v) s v)"
      have st: "tstate s' t = (if t = fst (pick ?w) then THREAD_RUNNING else tstate s1 t)"
        using or True tc by (simp add: gave_up_def)
      have "t \<noteq> fst (pick ?w)" if "StackTimer t \<notin> set (tick_due s v)"
      proof -
        have "t \<notin> sleeper ` set (tick_due s v)"
          using that invD(2) [OF i(1)] by (force simp: d timers_ok_def)
        moreover have "t \<notin> set (runq v q)" if "q < 32" for q using p t(2) that by (auto simp: placed_def)
        ultimately have "t \<notin> set (runq ?w q)" if "q < 32" for q
          using that tc by (auto simp: put_back_def runq_wake_sleepers)
        then show ?thesis using pick_from [of ?w] tc(2) by auto
      qed
      then show ?thesis using st s1 due t(2) by auto
    next
      case False
      then have "tick_due s v = []" using assms(3) by (auto simp: rescheduled_by_tick_def)
      then show ?thesis using or False due t(2) by simp
    qed
  qed
  with s' show ?thesis by blast
qed

theorem tick_wakes_due_sleepers_witness:
  "\<exists>s. kgood s \<and> live s 1 \<and> tstate s 1 = THREAD_SLEEPING \<and> sched_time (timers s (StackTimer 1)) = 3 \<and>
     fst (os_timer_tick (ptimer s)) = Some (TimerTick, None, 5) \<and>
     (\<exists>s'. timer_interrupt s = Inr s' \<and> (tstate s' 1 = THREAD_READY \<or> tstate s' 1 = THREAD_RUNNING))"
proof -
  from demo_state obtain s v where d: "kinv True v s" "top_first v s" "current_thread s = Some 1"
    "runq v = (\<lambda>_. [])(10 := [2])" "timer_l v = []" by blast
  let ?s0 = "set_clock 0 1 5 s"
  note k0 = set_clock_kinv [OF d(1,2), of 0 1 5]
  have c0: "current_thread ?s0 = Some 1" using d(3) by (simp add: set_clock_reads)
  from thread_sleep_spec [OF k0(1) c0, of 3] obtain s1 v1 where
    s1: "kinv True v1 s1" "gave_up 1 THREAD_SLEEPING (asleep 1 3 ?s0 v) ?s0 v1 s1"
      "timers s1 = (timers ?s0)(StackTimer 1 := sleep_timer 1 3 ?s0)" by auto
  have "pick (asleep 1 3 ?s0 v) = (2, (asleep 1 3 ?s0 v)\<lparr>runq := (\<lambda>_. [])\<rparr>)"
  proof -
    have "first_queue (asleep 1 3 ?s0 v) = Some 10" by (rule first_queue_eqI) (simp_all add: d(4))
    then show ?thesis by (simp add: pick_def d(4) fun_upd_idem)
  qed
  with s1(2) have s1': "current_thread s1 = Some 2" "tstate s1 1 = THREAD_SLEEPING" "top_first v1 s1"
    by (auto simp: gave_up_def)
  have sched: "sched_time (timers s1 (StackTimer 1)) = 3"
    using s1(3) by (simp add: sleep_timer_def set_clock_reads)
  let ?s2 = "set_clock 5 2 5 s1"
  note k2 = set_clock_kinv [OF s1(1) s1'(3), of 5 2 5]
  have "1 \<in> set (thread_l v1)"
  proof (rule ccontr)
    assume "1 \<notin> set (thread_l v1)"
    from s1(1) obtain c where i: "inv True (Some c) v1 s1" by (auto elim: kinvE)
    have "set (timer_l v1) = {StackTimer 1}" using s1(2) d(5) by (simp add: gave_up_def)
    with invD(2) [OF i] \<open>1 \<notin> set (thread_l v1)\<close> show False by (auto simp: timers_ok_def)
  qed
  then have "live ?s2 1" using live_view [OF k2(1)] by simp
  moreover have "kgood ?s2" using k2 by (rule kgoodI)
  moreover have "tick_possible ?s2"
    by (rule set_clock_possible [OF s1(1) s1'(1)]) (simp_all add: INT_MIN_def INT_MAX_def)
  moreover note set_clock_reads(4) [of 2 5 s1]
  moreover from tick_wakes_due_sleepers [OF calculation(2,3) this] obtain s' where
    "timer_interrupt ?s2 = Inr s'" "live ?s2 1 \<longrightarrow> tstate ?s2 1 = THREAD_SLEEPING \<longrightarrow>
       (if sched_time (timers ?s2 (StackTimer 1)) \<le> 5
        then tstate s' 1 = THREAD_READY \<or> tstate s' 1 = THREAD_RUNNING
        else tstate s' 1 = THREAD_SLEEPING)" by blast
  ultimately show ?thesis using s1'(2) sched
    by (intro exI [of _ ?s2]) (auto simp: set_clock_reads)
qed



section \<open>Life of a thread\<close>

text \<open>
  C9: \<open>thread_create\<close> in any good state either returns the id of a thread that was not alive, now alive
  and suspended, or returns -1; it returns -1 only when all of the ids 1 to 8 are taken, so eight threads
  beside the idle thread can live at once (of the ten that \<open>MAX_THREADS_NUM\<close> names).
\<close>

theorem create_gives_fresh_id:
  assumes "kgood s" and "allowed (Create name entry a priority stk sz) s"
  shows "\<exists>s'. kcall_run (Create name entry a priority stk sz) s = Inr s' \<and>
    (rax s' = -1 \<and> (\<forall>t. live s t \<longleftrightarrow> t < 9) \<or>
     (\<exists>t. rax s' = int t \<and> 1 \<le> t \<and> t \<le> 8 \<and> \<not> live s t \<and> tstate s' t = THREAD_SUSPENDED \<and>
          (\<forall>u. live s' u \<longleftrightarrow> live s u \<or> u = t)))"
proof -
  from assms(1) obtain v where k: "kinv True v s" by (auto simp: kgood_def)
  then obtain c where i: "inv True (Some c) v s" by (auto elim: kinvE)
  note run = service_returns [OF k, of "Create name entry a priority stk sz"]
  show ?thesis
  proof (cases "free_l v")
    case Nil
    from thread_create_full [OF k Nil] run
    have "kcall_run (Create name entry a priority stk sz) s = Inr (set_rax (-1) (printf_bracket s))" by auto
    moreover have "live s t \<longleftrightarrow> t < 9" for t using live_view [OF k] invD(5) [OF i] Nil by auto
    ultimately show ?thesis by (intro exI [of _ "set_rax (-1) (printf_bracket s)"]) (simp add: set_rax_def)
  next
    case (Cons t ts)
    from thread_create_spec [OF k Cons, of name priority entry a stk sz] assms(2) obtain s' where
      s': "thread_create name entry a priority stk sz s = Inr s'" "kinv True (adopted t v) s'"
        "rax s' = int t" "tstate s' t = THREAD_SUSPENDED" by auto
    have new: "t \<notin> set (thread_l v)"
      using view_disjoint(4) [OF qok_view [OF invD(4) [OF i]]] Cons by auto
    have "t < 9" using invD(5) [OF i] Cons by auto
    moreover have "t \<noteq> 0" using new invD(6) [OF i] by metis
    ultimately have "1 \<le> t" "t \<le> 8" by auto
    moreover have "\<not> live s t" using new live_view [OF k] by simp
    moreover have "live s' u \<longleftrightarrow> live s u \<or> u = t" for u using live_view [OF k] live_view [OF s'(2)] by auto
    moreover have "kcall_run (Create name entry a priority stk sz) s = Inr s'" using run [of s'] s' by auto
    ultimately show ?thesis using s'(3,4) by blast
  qed
qed

theorem create_gives_fresh_id_witness:
  "\<exists>s. first_state = Inr s \<and> (\<exists>s'. kcall_run (Create [] 1 0 5 0x400000 4096) s = Inr s' \<and>
    (rax s' = -1 \<and> (\<forall>t. live s t \<longleftrightarrow> t < 9) \<or>
     (\<exists>t. rax s' = int t \<and> 1 \<le> t \<and> t \<le> 8 \<and> \<not> live s t \<and> tstate s' t = THREAD_SUSPENDED \<and>
          (\<forall>u. live s' u \<longleftrightarrow> live s u \<or> u = t))))"
proof -
  from first_state_ok obtain s where s: "first_state = Inr s" "kgood s" by blast
  have "allowed (Create [] 1 0 5 0x400000 4096) s" by (simp add: TREAD_NAME_LEN_def)
  from create_gives_fresh_id [OF s(2) this] s(1) show ?thesis by blast
qed




text \<open>
  C11: exit and join meet. When a joinable thread \<open>c\<close> exits with code \<open>r\<close> while \<open>t\<close> waits in
  \<open>thread_join\<close> for it, \<open>t\<close> becomes ready; if the switch goes to \<open>t\<close> directly, the join has returned
  \<open>NO_ERR\<close> to it, the code \<open>r\<close> is where it asked for it, and the slot of \<open>c\<close> is free again.
\<close>

theorem exit_hands_code_to_joiner:
  assumes "kgood s" and "current_thread s = Some c" and "c \<noteq> 0" and "live s t"
    and "pending s t = [BLOCK_REST INFINIT_TIME, JOIN_REST c (Some a) f]" and "tstate s t = THREAD_BLOCKED"
  shows "\<exists>s'. kcall_run (Exit r) s = Inr s' \<and>
    (tstate s' t = THREAD_READY \<and> th_retcode (g_threads s' c) = r \<or>
     current_thread s' = Some t \<and> tstate s' t = THREAD_RUNNING \<and> rax s' = NO_ERR \<and> int_cells s' a = r \<and> \<not> live s' c)"
proof -
  from assms(1) obtain v where k: "kinv True v s" by (auto simp: kgood_def)
  then have i: "inv True (Some c) v s" "tstate s c = THREAD_RUNNING" using assms(2) by (auto elim: kinvE)
  have tl: "t \<in> set (thread_l v)" using assms(4) live_view [OF k] by simp
  note ok = invD(7) [OF i(1) tl]
  have tc: "t \<noteq> c" using assms(6) i(2) by auto
  have j: "joins s t u \<longleftrightarrow> u = c" for u using assms(5) by (simp add: joins_def)
  have nd: "\<not> is_detached s c" using thread_okD(4) [OF ok] j by (auto simp: joining_ok_def)
  have bl: "th_blocking_wait_queue (g_threads s t) = Some (ExitQueue c)"
    using thread_okD(3) [OF ok] assms(6) j by (auto simp: placed_def)
  from thread_exit_spec [OF k assms(2,3), of r] obtain s' v' s1 w where
    s': "bindE (thread_exit r s) resume = Inr s'" "kinv True v' s'" "switched w s1 v' s'"
    and s1: "tstate s1 c = THREAD_DEATH" "th_retcode (g_threads s1 c) = r"
      "\<forall>x. x \<noteq> c \<longrightarrow> pending s1 x = pending s x \<and>
        tstate s1 x = (if \<not> is_detached s c \<and> th_blocking_wait_queue (g_threads s x) = Some (ExitQueue c) \<and>
          x \<in> set (thread_l v) then THREAD_READY else tstate s x)"
    by (elim exE conjE) (rule that)
  have t1: "tstate s1 t = THREAD_READY" "pending s1 t = [BLOCK_REST INFINIT_TIME, JOIN_REST c (Some a) f]"
    using s1(3) tc nd bl tl assms(5) by simp_all
  have run: "kcall_run (Exit r) s = Inr s'" using s'(1) by (simp add: kcall_run_def)
  show ?thesis
  proof (cases "fst (pick w) = t")
    case True
    with s'(3) t1 have f: "current_thread s' = Some t" "tstate s' t = THREAD_RUNNING" "rax s' = NO_ERR"
      "int_cells s' a = th_retcode (g_threads s1 c)" "c \<in> set (free_l v')"
      by (auto simp: switched_def)
    from s'(2) obtain c' where "inv True (Some c') v' s'" by (auto elim: kinvE)
    then have "\<not> live s' c" using live_view [OF s'(2)] view_disjoint(4) [OF qok_view [OF invD(4)]] f(5) by blast
    then show ?thesis using run f s1(2) by auto
  next
    case False
    with s'(3) t1(1) s1(2) have "tstate s' t = THREAD_READY" "th_retcode (g_threads s' c) = r"
      by (simp_all add: switched_def)
    then show ?thesis using run by blast
  qed
qed

theorem exit_hands_code_to_joiner_witness:
  "\<exists>s f. kgood s \<and> current_thread s = Some 2 \<and> pending s 1 = [BLOCK_REST INFINIT_TIME, JOIN_REST 2 (Some 7) f] \<and>
    (\<exists>s'. kcall_run (Exit 42) s = Inr s' \<and>
      (tstate s' 1 = THREAD_READY \<and> th_retcode (g_threads s' 2) = 42 \<or>
       current_thread s' = Some 1 \<and> tstate s' 1 = THREAD_RUNNING \<and> rax s' = NO_ERR \<and> int_cells s' 7 = 42 \<and> \<not> live s' 2))"
proof -
  from demo_state obtain s v where d: "kinv True v s" "top_first v s" "current_thread s = Some 1"
    "runq v = (\<lambda>_. [])(10 := [2])" "waitq v (ExitQueue 2) = Some []" "\<not> is_detached s 2" by blast
  from d(1,3) have i: "inv True (Some 1) v s" by (auto elim: kinvE)
  have q2: "2 \<in> set (runq v 10)" using d(4) by simp
  have two: "2 \<in> set (thread_l v)" by (rule runq_live [OF invD(1) [OF i] _ q2]) simp
  have "tstate s 2 = THREAD_READY"
    using thread_okD(3) [OF invD(7) [OF i two]] q2 unfolding placed_def by (auto dest: spec [of _ 10])
  then have nd: "tstate s 2 \<noteq> THREAD_DEATH" by simp
  note nj = empty_exit_queue_unjoined [OF i d(5) nd]
  have join: "\<exists>s' v'. bindE (thread_join 2 (Some 7) INFINIT_TIME s) resume = Inr s' \<and> kinv True v' s' \<and>
      gave_up 1 THREAD_BLOCKED (on_exit_queue 2 1 v) s v' s' \<and>
      (current_thread s' \<noteq> Some 1 \<longrightarrow> pending s' 1 = [BLOCK_REST INFINIT_TIME, JOIN_REST 2 (Some 7) (rflags s)])"
    using thread_join_wait_spec [OF d(1,3), of 2 "Some 7"] two d(6) nd nj by simp
  then obtain s' v' where s': "kinv True v' s'" "gave_up 1 THREAD_BLOCKED (on_exit_queue 2 1 v) s v' s'"
    "current_thread s' \<noteq> Some 1 \<longrightarrow> pending s' 1 = [BLOCK_REST INFINIT_TIME, JOIN_REST 2 (Some 7) (rflags s)]"
    by (elim exE conjE) (rule that)
  have "first_queue (on_exit_queue 2 1 v) = Some 10" by (rule first_queue_eqI) (simp_all add: d(4))
  then have p: "fst (pick (on_exit_queue 2 1 v)) = 2" by (simp add: pick_def d(4))
  have c: "current_thread s' = Some 2" "tstate s' 1 = THREAD_BLOCKED" "waitq v' (ExitQueue 2) = Some [1]"
    using s'(2) p d(5) by (simp_all add: gave_up_def)
  from s'(1) c(1) have "inv True (Some 2) v' s'" by (auto elim: kinvE)
  then have "\<forall>w xs. waitq v' w = Some xs \<longrightarrow> set xs \<subseteq> set (thread_l v')"
    using invD(1) unfolding nodes_ok_def by metis
  with c(3) have "set [1] \<subseteq> set (thread_l v')" by blast
  then have "1 \<in> set (thread_l v')" by simp
  then have l: "live s' 1" using live_view [OF s'(1)] by simp
  have g: "kgood s'" using s' by (intro kgoodI) (auto simp: gave_up_def)
  have pe: "pending s' 1 = [BLOCK_REST INFINIT_TIME, JOIN_REST 2 (Some 7) (rflags s)]" using s'(3) c(1) by simp
  have "(2 :: nat) \<noteq> 0" by simp
  note e = exit_hands_code_to_joiner [OF g c(1) this l pe c(2), of 42]
  show ?thesis by (intro exI [of _ s'] exI [of _ "rflags s"] conjI g c(1) pe e)
qed

end
